(* ===== verification/Prelude.thy ===== *)
theory Prelude
  imports Main "HOL-Library.AList" "HOL-Library.Sublist" "HOL-Library.Word"
begin

text \<open>
  Shared ground of the development: the values of the TypeScript runtime that the modelled
  code computes with, and the generic lemmas about them.

  \<^item> Strings are \<open>string\<close>, one \<open>char\<close> per UTF-16 code unit below 256. The functions below
    give the meaning of the \<^verbatim>\<open>String.prototype\<close> methods the sources call.
  \<^item> A \<^verbatim>\<open>Map\<close> is an association list with distinct keys in insertion order:
    \<^verbatim>\<open>set\<close> keeps the position of a present key and appends a new one (\<open>AList.update\<close>),
    \<^verbatim>\<open>delete\<close> is \<open>AList.delete\<close>, \<^verbatim>\<open>get\<close> is \<open>map_of\<close>, \<^verbatim>\<open>size\<close> is \<open>length\<close>.
  \<^item> An optional property is an \<open>option\<close>; a test for truthiness is spelled out.
  \<^item> \<^verbatim>\<open>Date.now()\<close> is an argument of type \<open>int\<close>, in milliseconds.
  \<^item> A thrown exception is the left side of a sum.
\<close>

named_theorems jsmap \<open>lemmas about insertion-ordered maps\<close>

subsection \<open>Strings\<close>

definition js_starts_with :: "string \<Rightarrow> string \<Rightarrow> bool" where
  "js_starts_with s p = prefix p s"

definition js_ends_with :: "string \<Rightarrow> string \<Rightarrow> bool" where
  "js_ends_with s t = suffix t s"

definition js_contains :: "string \<Rightarrow> string \<Rightarrow> bool" where
  "js_contains s t = sublist t s"

text \<open>White space as \<^verbatim>\<open>trim\<close> and \<^verbatim>\<open>\\s\<close> see it, below code unit 256.\<close>

definition js_ws :: "char \<Rightarrow> bool" where
  "js_ws c = (let n = (of_char c :: nat) in (9 \<le> n \<and> n \<le> 13) \<or> n = 32 \<or> n = 160)"

definition js_trim :: "string \<Rightarrow> string" where
  "js_trim s = rev (dropWhile js_ws (rev (dropWhile js_ws s)))"

definition js_lower_char :: "char \<Rightarrow> char" where
  "js_lower_char c =
     (let n = (of_char c :: nat)
      in if (65 \<le> n \<and> n \<le> 90) \<or> (192 \<le> n \<and> n \<le> 222 \<and> n \<noteq> 215) then char_of (n + 32) else c)"

definition js_lower :: "string \<Rightarrow> string" where
  "js_lower s = map js_lower_char s"

fun js_join :: "string \<Rightarrow> string list \<Rightarrow> string" where
  "js_join sep [] = []"
| "js_join sep [x] = x"
| "js_join sep (x # y # zs) = x @ sep @ js_join sep (y # zs)"

fun js_split :: "char \<Rightarrow> string \<Rightarrow> string list" where
  "js_split c [] = [[]]"
| "js_split c (x # xs) =
     (if x = c then [] # js_split c xs
      else case js_split c xs of [] \<Rightarrow> [[x]] | w # ws \<Rightarrow> (x # w) # ws)"

definition is_digit :: "char \<Rightarrow> bool" where
  "is_digit c = (48 \<le> (of_char c :: nat) \<and> (of_char c :: nat) \<le> 57)"

definition parse_nat :: "string \<Rightarrow> nat" where
  "parse_nat s = foldl (\<lambda>n c. 10 * n + (of_char c - 48)) 0 s"

definition js_truthy :: "string option \<Rightarrow> bool" where
  "js_truthy v = (case v of None \<Rightarrow> False | Some s \<Rightarrow> s \<noteq> [])"

lemma js_truthy_simps [simp]:
  "\<not> js_truthy None" "js_truthy (Some s) \<longleftrightarrow> s \<noteq> []"
  by (simp_all add: js_truthy_def)

lemma js_truthyE: "js_truthy v \<Longrightarrow> (\<And>s. v = Some s \<Longrightarrow> s \<noteq> [] \<Longrightarrow> P) \<Longrightarrow> P"
  by (cases v) auto

lemma js_split_nonempty [simp]: "js_split c s \<noteq> []"
  by (induction s) (auto split: list.splits)

lemma js_join_Cons: "ws \<noteq> [] \<Longrightarrow> js_join sep (w # ws) = w @ sep @ js_join sep ws"
  by (cases ws) auto

lemma js_join_split: "js_join [c] (js_split c s) = s"
proof (induction s)
  case (Cons x xs)
  obtain w ws where w: "js_split c xs = w # ws"
    by (cases "js_split c xs") auto
  with Cons show ?case
    by (cases ws) (auto simp: js_join_Cons)
qed simp

lemma js_starts_with_append [simp]: "js_starts_with (p @ s) p"
  by (simp add: js_starts_with_def)

subsection \<open>Insertion-ordered maps\<close>

type_synonym ('k, 'v) jsmap = "('k \<times> 'v) list"

definition jsmap_ok :: "('k, 'v) jsmap \<Rightarrow> bool" where
  "jsmap_ok m = distinct (map fst m)"

definition jsmap_filter :: "('k \<Rightarrow> 'v \<Rightarrow> bool) \<Rightarrow> ('k, 'v) jsmap \<Rightarrow> ('k, 'v) jsmap" where
  "jsmap_filter P m = filter (\<lambda>(k, v). P k v) m"

lemma jsmap_ok_Nil [simp, jsmap]: "jsmap_ok []"
  by (simp add: jsmap_ok_def)

lemma jsmap_ok_update [jsmap]: "jsmap_ok m \<Longrightarrow> jsmap_ok (AList.update k v m)"
  by (simp add: jsmap_ok_def distinct_update)

lemma jsmap_ok_delete [jsmap]: "jsmap_ok m \<Longrightarrow> jsmap_ok (AList.delete k m)"
  by (simp add: jsmap_ok_def distinct_delete)

lemma jsmap_ok_filter [jsmap]: "jsmap_ok m \<Longrightarrow> jsmap_ok (jsmap_filter P m)"
  by (induction m) (auto simp: jsmap_ok_def jsmap_filter_def)

lemma jsmap_ok_drop [jsmap]: "jsmap_ok m \<Longrightarrow> jsmap_ok (drop n m)"
  by (simp add: jsmap_ok_def drop_map [symmetric])

lemma map_of_jsmap_filter [jsmap]:
  "jsmap_ok m \<Longrightarrow> map_of (jsmap_filter P m) k =
     (case map_of m k of None \<Rightarrow> None | Some v \<Rightarrow> if P k v then Some v else None)"
  by (induction m) (auto simp: jsmap_ok_def jsmap_filter_def map_of_eq_None_iff
      intro!: map_of_eq_None_iff [THEN iffD2] split: option.splits)

lemma length_jsmap_filter [jsmap]: "length (jsmap_filter P m) \<le> length m"
  by (simp add: jsmap_filter_def)

lemma length_alist_update [jsmap]:
  "length (AList.update k v m) = (if map_of m k = None then Suc (length m) else length m)"
  by (induction m) auto

lemma map_of_drop_sub: "jsmap_ok m \<Longrightarrow> map_of (drop n m) k = Some v \<Longrightarrow> map_of m k = Some v"
  by (metis jsmap_ok_def jsmap_ok_drop map_of_eq_Some_iff in_set_dropD)

lemma map_of_update_eq [jsmap]: "map_of (AList.update k v m) k' = (if k' = k then Some v else map_of m k')"
  by (simp add: update_conv)

lemma map_of_delete_eq [jsmap]: "map_of (AList.delete k m) k' = (if k' = k then None else map_of m k')"
  by (simp add: delete_conv)

lemma length_delete_present: "jsmap_ok m \<Longrightarrow> map_of m k \<noteq> None \<Longrightarrow> Suc (length (AList.delete k m)) = length m"
proof (induction m)
  case (Cons p m)
  then show ?case
    by (force simp: jsmap_ok_def map_of_eq_None_iff delete_notin_dom split: if_splits)
qed simp

text \<open>A property of all entries, and the ways a map may shrink or grow by one.\<close>

definition jsmap_all :: "('k \<Rightarrow> 'v \<Rightarrow> bool) \<Rightarrow> ('k, 'v) jsmap \<Rightarrow> bool" where
  "jsmap_all Q m \<longleftrightarrow> (\<forall>k v. map_of m k = Some v \<longrightarrow> Q k v)"

lemma jsmap_all_Nil [simp, jsmap]: "jsmap_all Q []"
  by (simp add: jsmap_all_def)

lemma jsmap_allD: "jsmap_all Q m \<Longrightarrow> map_of m k = Some v \<Longrightarrow> Q k v"
  by (simp add: jsmap_all_def)

lemma jsmap_all_update [jsmap]: "jsmap_all Q m \<Longrightarrow> Q k v \<Longrightarrow> jsmap_all Q (AList.update k v m)"
  by (simp add: jsmap_all_def map_of_update_eq)

lemma jsmap_all_delete [jsmap]: "jsmap_all Q m \<Longrightarrow> jsmap_all Q (AList.delete k m)"
  by (simp add: jsmap_all_def map_of_delete_eq)

lemma jsmap_all_filter [jsmap]: "jsmap_ok m \<Longrightarrow> jsmap_all Q m \<Longrightarrow> jsmap_all Q (jsmap_filter P m)"
  by (auto simp: jsmap_all_def map_of_jsmap_filter split: option.splits if_splits)

lemma jsmap_all_drop [jsmap]: "jsmap_ok m \<Longrightarrow> jsmap_all Q m \<Longrightarrow> jsmap_all Q (drop n m)"
  by (auto simp: jsmap_all_def dest: map_of_drop_sub)

subsection \<open>Integers\<close>

text \<open>\<^verbatim>\<open>Math.ceil(a / b)\<close> on integers, \<open>b > 0\<close>.\<close>

definition ceil_div :: "int \<Rightarrow> int \<Rightarrow> int" where
  "ceil_div a b = - ((- a) div b)"

lemma ceil_div_bounds: "0 < b \<Longrightarrow> a \<le> ceil_div a b * b \<and> (ceil_div a b - 1) * b < a"
proof -
  assume b: "0 < b"
  have e: "- a = b * ((- a) div b) + (- a) mod b" by (simp add: mult_div_mod_eq)
  have m: "0 \<le> (- a) mod b" "(- a) mod b < b" using b by auto
  have c: "ceil_div a b * b = - (b * ((- a) div b))" by (simp add: ceil_div_def)
  have "(ceil_div a b - 1) * b = ceil_div a b * b - b" by (simp add: algebra_simps)
  with e m c show ?thesis by linarith
qed

lemma ceil_div_pos: "0 < b \<Longrightarrow> 0 < a \<Longrightarrow> 0 < ceil_div a b"
  using ceil_div_bounds [of b a] by (smt (verit, best) mult_nonpos_nonneg)

lemma ceil_div_le: "0 < b \<Longrightarrow> a \<le> c * b \<Longrightarrow> ceil_div a b \<le> c"
proof -
  assume b: "0 < b" and a: "a \<le> c * b"
  have "(ceil_div a b - 1) * b < c * b" using ceil_div_bounds [OF b, of a] a by linarith
  then show ?thesis using b by (simp add: mult_less_cancel_right)
qed

text \<open>\<^verbatim>\<open>String(n)\<close> of an integer.\<close>

fun show_nat :: "nat \<Rightarrow> string" where
  "show_nat n = (if n < 10 then [char_of (48 + n)] else show_nat (n div 10) @ [char_of (48 + n mod 10)])"

declare show_nat.simps [simp del]

definition show_int :: "int \<Rightarrow> string" where
  "show_int i = (if i < 0 then ''-'' @ show_nat (nat (- i)) else show_nat (nat i))"

subsection \<open>Results\<close>

definition is_ok :: "'e + 'a \<Rightarrow> bool" where
  "is_ok r = (case r of Inl _ \<Rightarrow> False | Inr _ \<Rightarrow> True)"

lemma is_ok_simps [simp]: "\<not> is_ok (Inl e)" "is_ok (Inr a)"
  by (simp_all add: is_ok_def)

lemma is_ok_iff: "is_ok r \<longleftrightarrow> (\<exists>a. r = Inr a)"
  by (cases r) auto

text \<open>Sequencing: an exception ends the computation. \<open>each\<close> is a loop whose body may throw.\<close>

definition then_do :: "'e + 'a \<Rightarrow> ('a \<Rightarrow> 'e + 'b) \<Rightarrow> 'e + 'b" where
  "then_do r f = (case r of Inl e \<Rightarrow> Inl e | Inr a \<Rightarrow> f a)"

lemma then_do_simps [simp]: "then_do (Inl e) f = Inl e" "then_do (Inr a) f = f a"
  by (simp_all add: then_do_def)

lemma then_do_cong [fundef_cong]:
  "r = r' \<Longrightarrow> (\<And>a. r' = Inr a \<Longrightarrow> f a = g a) \<Longrightarrow> then_do r f = then_do r' g"
  by (cases r') auto

lemma then_do_Inr: "then_do r f = Inr b \<longleftrightarrow> (\<exists>a. r = Inr a \<and> f a = Inr b)"
  by (cases r) auto

lemma then_do_Inl: "then_do r f = Inl e \<longleftrightarrow> r = Inl e \<or> (\<exists>a. r = Inr a \<and> f a = Inl e)"
  by (cases r) auto

fun each :: "('a \<Rightarrow> 'e + 'b) \<Rightarrow> 'a list \<Rightarrow> 'e + 'b list" where
  "each f [] = Inr []"
| "each f (x # xs) = then_do (f x) (\<lambda>y. then_do (each f xs) (\<lambda>ys. Inr (y # ys)))"

lemma each_Inr: "each f xs = Inr ys \<longleftrightarrow> list_all2 (\<lambda>x y. f x = Inr y) xs ys"
proof (induction xs arbitrary: ys)
  case (Cons x xs)
  then show ?case by (cases ys) (auto simp: then_do_Inr)
qed auto

lemma each_Inl: "each f xs = Inl e \<Longrightarrow> \<exists>x \<in> set xs. f x = Inl e"
  by (induction xs) (auto simp: then_do_Inl)

lemma each_cong [fundef_cong]:
  "xs = ys \<Longrightarrow> (\<And>x. x \<in> set ys \<Longrightarrow> f x = g x) \<Longrightarrow> each f xs = each g ys"
proof -
  have "(\<And>x. x \<in> set ys \<Longrightarrow> f x = g x) \<Longrightarrow> each f ys = each g ys" by (induction ys) (auto cong: then_do_cong)
  then show "xs = ys \<Longrightarrow> (\<And>x. x \<in> set ys \<Longrightarrow> f x = g x) \<Longrightarrow> each f xs = each g ys" by simp
qed

text \<open>
  A check in front of the storage: it throws or lets a value through, possibly changed, and what it
  lets through is \<open>good\<close>. A loop over such a check lets only good values through, and no value is lost.
\<close>

locale storage_check =
  fixes check :: "'a \<Rightarrow> 'e + 'b" and good :: "'a \<Rightarrow> 'b \<Rightarrow> bool"
  assumes check_good: "check x = Inr y \<Longrightarrow> good x y"
begin

lemma all_good: "each check xs = Inr ys \<Longrightarrow> list_all2 good xs ys"
  by (metis (mono_tags, lifting) check_good each_Inr list_all2_mono)

lemma good_nth: "each check xs = Inr ys \<Longrightarrow> i < length xs \<Longrightarrow> good (xs ! i) (ys ! i)"
  using all_good list_all2_nthD by blast

lemma same_length: "each check xs = Inr ys \<Longrightarrow> length ys = length xs"
  using all_good list_all2_lengthD by fastforce

end

end
