(* ===== verification/RateStore.thy ===== *)
theory RateStore
  imports Prelude
begin

text \<open>
  \<^verbatim>\<open>src/src/core/common/services/rate-limit-store.ts\<close>: the counter keys, the process-local
  store and the Redis-backed store of the rate limiters.

  \<^item> \<open>rateLimitKey\<close>, \<open>rateLimitKeyPrefix\<close>, \<open>escapeGlob\<close>, \<open>overflowSlot\<close>: the pure helpers;
    \<open>overflowSlot\<close> computes on 32-bit words, as \<^verbatim>\<open>| 0\<close> does.
  \<^item> \<open>mem_store\<close> and \<open>mem_*\<close>: \<^verbatim>\<open>InMemoryRateLimitStore\<close>. The clock readings of one
    synchronous call are one argument \<open>now\<close>. \<^verbatim>\<open>windowSeconds\<close> is an integer.
  \<^item> \<open>redis_ops\<close>: the Redis commands the script and the scan loop use, a parameter.
    \<open>hit_script\<close> is the Lua script, \<open>redis_store\<close> and \<open>redis_*\<close> the store around it.
    \<open>link\<close> says whether a call reaches Redis and its reply comes back.
  \<^item> The locale \<open>window_counter\<close> is the contract a limiter relies on; the in-memory store
    interprets it.
\<close>

subsection \<open>Keys\<close>

definition backslash :: char where "backslash = CHR 0x5C"

lemma colon_backslash [simp]: "CHR '':'' \<noteq> backslash" "backslash \<noteq> CHR '':''"
  by (simp_all add: backslash_def)

definition replace_char :: "char \<Rightarrow> string \<Rightarrow> string \<Rightarrow> string" where
  "replace_char c r s = concat (map (\<lambda>x. if x = c then r else [x]) s)"

definition escapeGlob :: "string \<Rightarrow> string" where
  "escapeGlob value =
     concat (map (\<lambda>c. if c \<in> {CHR ''?'', CHR ''['', CHR '']'', CHR ''*'', backslash, CHR ''^''}
                      then [backslash, c] else [c]) value)"

definition escape_part :: "string \<Rightarrow> string" where
  "escape_part part =
     replace_char (CHR '':'') [backslash, CHR '':''] (replace_char backslash [backslash, backslash] part)"

definition rateLimitKey :: "string list \<Rightarrow> string" where
  "rateLimitKey parts = js_join '':'' (map escape_part parts)"

definition rateLimitKeyPrefix :: "string list \<Rightarrow> string" where
  "rateLimitKeyPrefix parts = rateLimitKey parts @ '':''"

definition namespaceLabel :: "string \<Rightarrow> string" where
  "namespaceLabel ns = ''namespace '' @ ns"

text \<open>The reader of keys: splits at unescaped colons and drops the escapes.\<close>

definition push_first :: "char \<Rightarrow> string list \<Rightarrow> string list" where
  "push_first c ws = (case ws of [] \<Rightarrow> [[c]] | w # ws' \<Rightarrow> (c # w) # ws')"

fun read_key :: "bool \<Rightarrow> string \<Rightarrow> string list" where
  "read_key esc [] = [[]]"
| "read_key esc (c # s) =
     (if esc then push_first c (read_key False s)
      else if c = backslash then read_key True s
      else if c = CHR '':'' then [] # read_key False s
      else push_first c (read_key False s))"

lemma push_first_simps [simp]:
  "push_first c (w # ws) = (c # w) # ws" "push_first c ws \<noteq> []"
  by (auto simp: push_first_def split: list.splits)

lemma read_key_nonempty [simp]: "read_key b s \<noteq> []"
  by (induction b s rule: read_key.induct) auto

lemma escape_part_simps [simp]:
  "escape_part [] = []"
  "escape_part (c # s) =
     (if c = backslash then [backslash, backslash]
      else if c = CHR '':'' then [backslash, CHR '':''] else [c]) @ escape_part s"
  by (auto simp: escape_part_def replace_char_def backslash_def)

lemma read_key_part: "read_key False (escape_part p @ t) =
    (case read_key False t of w # ws \<Rightarrow> (p @ w) # ws)"
proof (induction p)
  case Nil
  then show ?case by (cases "read_key False t") auto
next
  case (Cons c p)
  obtain w ws where "read_key False t = w # ws" by (cases "read_key False t") auto
  with Cons show ?case by (auto simp: backslash_def)
qed

lemma read_key_colon [simp]: "read_key False (CHR '':'' # t) = [] # read_key False t"
  by (simp add: backslash_def)

lemma read_key_key_append:
  "ps \<noteq> [] \<Longrightarrow> read_key False (rateLimitKey ps @ CHR '':'' # t) = ps @ read_key False t"
proof (induction ps rule: list_nonempty_induct)
  case (single p)
  show ?case by (simp add: rateLimitKey_def read_key_part)
next
  case (cons p ps)
  then have "rateLimitKey (p # ps) = escape_part p @ CHR '':'' # rateLimitKey ps"
    by (simp add: rateLimitKey_def js_join_Cons)
  with cons show ?case by (simp add: read_key_part)
qed

lemma read_key_key: "ps \<noteq> [] \<Longrightarrow> read_key False (rateLimitKey ps) = ps"
proof (induction ps rule: list_nonempty_induct)
  case (single p)
  show ?case using read_key_part [of p "[]"] by (simp add: rateLimitKey_def)
next
  case (cons p ps)
  then have "rateLimitKey (p # ps) = escape_part p @ CHR '':'' # rateLimitKey ps"
    by (simp add: rateLimitKey_def js_join_Cons)
  with cons show ?case by (simp add: read_key_part)
qed

lemma rateLimitKey_append:
  "ps \<noteq> [] \<Longrightarrow> rs \<noteq> [] \<Longrightarrow> rateLimitKey (ps @ rs) = rateLimitKeyPrefix ps @ rateLimitKey rs"
  by (induction ps rule: list_nonempty_induct)
    (simp_all add: rateLimitKey_def rateLimitKeyPrefix_def js_join_Cons)

lemma rateLimitKey_inj:
  "ps \<noteq> [] \<Longrightarrow> qs \<noteq> [] \<Longrightarrow> rateLimitKey ps = rateLimitKey qs \<longleftrightarrow> ps = qs"
  by (metis read_key_key)

lemma starts_with_key_prefix:
  assumes "ps \<noteq> []" "qs \<noteq> []"
  shows "js_starts_with (rateLimitKey qs) (rateLimitKeyPrefix ps) \<longleftrightarrow> (\<exists>rs. rs \<noteq> [] \<and> qs = ps @ rs)"
proof
  assume "js_starts_with (rateLimitKey qs) (rateLimitKeyPrefix ps)"
  then obtain t where "rateLimitKey qs = rateLimitKey ps @ CHR '':'' # t"
    by (auto simp: js_starts_with_def rateLimitKeyPrefix_def elim: prefixE)
  then have "qs = ps @ read_key False t"
    using read_key_key [OF assms(2)] read_key_key_append [OF assms(1)] by simp
  then show "\<exists>rs. rs \<noteq> [] \<and> qs = ps @ rs" by auto
qed (auto simp: rateLimitKey_append assms)

subsection \<open>The overflow slot\<close>

definition OVERFLOW_BUCKETS :: nat where "OVERFLOW_BUCKETS = 64"

fun overflow_hash :: "32 word \<Rightarrow> string \<Rightarrow> 32 word" where
  "overflow_hash hash [] = hash"
| "overflow_hash hash (c # cs) = overflow_hash (hash * 31 + of_nat (of_char c)) cs"

definition overflowSlot :: "string \<Rightarrow> nat" where
  "overflowSlot key = nat \<bar>sint (overflow_hash 0 key)\<bar> mod OVERFLOW_BUCKETS"

lemma overflowSlot_less: "overflowSlot key < OVERFLOW_BUCKETS"
  by (simp add: overflowSlot_def OVERFLOW_BUCKETS_def)

subsection \<open>The in-memory store\<close>

record rl_entry =
  rl_count :: nat
  rl_reset :: int

record rl_hit =
  hit_count :: nat
  hit_resetIn :: int

record mem_store =
  ms_store :: "(string, rl_entry) jsmap"
  ms_overflow :: "(nat, rl_entry) jsmap"
  ms_atCapacity :: bool
  ms_capacityWarned :: bool
  ms_maxEntries :: nat
  ms_interval :: bool

definition mem_new :: "nat \<Rightarrow> mem_store" where
  "mem_new maxEntries = \<lparr>ms_store = [], ms_overflow = [], ms_atCapacity = False,
     ms_capacityWarned = False, ms_maxEntries = maxEntries, ms_interval = True\<rparr>"

definition mem_clear :: "mem_store \<Rightarrow> mem_store" where
  "mem_clear s = s\<lparr>ms_store := [], ms_overflow := [], ms_atCapacity := False, ms_capacityWarned := False\<rparr>"

definition mem_removeExpired :: "int \<Rightarrow> mem_store \<Rightarrow> nat \<times> mem_store" where
  "mem_removeExpired now s =
     (let kept = jsmap_filter (\<lambda>_ e. \<not> now \<ge> rl_reset e) (ms_store s)
      in (length (ms_store s) - length kept, s\<lparr>ms_store := kept\<rparr>))"

definition mem_evictOldest :: "int \<Rightarrow> mem_store \<Rightarrow> mem_store" where
  "mem_evictOldest now s =
     (let (removed, s') = mem_removeExpired now s
      in if removed > 0 \<or> length (ms_store s') < ms_maxEntries s' then s'
         else s'\<lparr>ms_atCapacity := True\<rparr>)"

text \<open>Counting against one entry of a map: a fresh or expired entry starts a window of its own.\<close>

definition mem_hitOverflow :: "string \<Rightarrow> int \<Rightarrow> int \<Rightarrow> mem_store \<Rightarrow> rl_hit \<times> mem_store" where
  "mem_hitOverflow key windowSeconds now s =
     (let slot = overflowSlot key;
          fresh = (\<lparr>hit_count = 1, hit_resetIn = windowSeconds\<rparr>,
                   s\<lparr>ms_overflow := AList.update slot
                       \<lparr>rl_count = 1, rl_reset = now + windowSeconds * 1000\<rparr> (ms_overflow s)\<rparr>)
      in case map_of (ms_overflow s) slot of
           None \<Rightarrow> fresh
         | Some e \<Rightarrow>
             if now \<ge> rl_reset e then fresh
             else (\<lparr>hit_count = Suc (rl_count e), hit_resetIn = ceil_div (rl_reset e - now) 1000\<rparr>,
                   s\<lparr>ms_overflow := AList.update slot (e\<lparr>rl_count := Suc (rl_count e)\<rparr>) (ms_overflow s)\<rparr>))"

definition mem_start :: "string \<Rightarrow> int \<Rightarrow> int \<Rightarrow> mem_store \<Rightarrow> rl_hit \<times> mem_store" where
  "mem_start key windowSeconds now s =
     (\<lparr>hit_count = 1, hit_resetIn = windowSeconds\<rparr>,
      s\<lparr>ms_store := AList.update key \<lparr>rl_count = 1, rl_reset = now + windowSeconds * 1000\<rparr> (ms_store s)\<rparr>)"

definition mem_hit :: "string \<Rightarrow> int \<Rightarrow> int \<Rightarrow> mem_store \<Rightarrow> rl_hit \<times> mem_store" where
  "mem_hit key windowSeconds now s =
     (case map_of (ms_store s) key of
        None \<Rightarrow>
          if length (ms_store s) \<ge> ms_maxEntries s then
            (let s1 = mem_evictOldest now (s\<lparr>ms_atCapacity := False\<rparr>)
             in if ms_atCapacity s1
                then mem_hitOverflow key windowSeconds now (s1\<lparr>ms_capacityWarned := True\<rparr>)
                else mem_start key windowSeconds now s1)
          else mem_start key windowSeconds now s
      | Some e \<Rightarrow>
          if now \<ge> rl_reset e then mem_start key windowSeconds now s
          else (\<lparr>hit_count = Suc (rl_count e), hit_resetIn = ceil_div (rl_reset e - now) 1000\<rparr>,
                s\<lparr>ms_store := AList.update key (e\<lparr>rl_count := Suc (rl_count e)\<rparr>) (ms_store s)\<rparr>))"

definition mem_resetByPrefix :: "string \<Rightarrow> mem_store \<Rightarrow> mem_store" where
  "mem_resetByPrefix pre s =
     s\<lparr>ms_store := jsmap_filter (\<lambda>key _. \<not> js_starts_with key pre) (ms_store s)\<rparr>"

definition mem_size :: "mem_store \<Rightarrow> int" where
  "mem_size s = int (length (ms_store s))"

definition mem_destroy :: "mem_store \<Rightarrow> mem_store" where
  "mem_destroy s = s\<lparr>ms_interval := False\<rparr>"

lemmas mem_defs = mem_clear_def mem_removeExpired_def mem_evictOldest_def mem_hitOverflow_def
  mem_start_def mem_resetByPrefix_def mem_destroy_def


subsection \<open>The store invariant\<close>

definition mem_inv :: "mem_store \<Rightarrow> bool" where
  "mem_inv s \<longleftrightarrow> jsmap_ok (ms_store s) \<and> length (ms_store s) \<le> ms_maxEntries s
     \<and> jsmap_ok (ms_overflow s) \<and> (\<forall>k e. map_of (ms_overflow s) k = Some e \<longrightarrow> k < OVERFLOW_BUCKETS)
     \<and> (\<forall>k e. map_of (ms_store s) k = Some e \<longrightarrow> 0 < rl_count e)"

lemma mem_inv_new: "mem_inv (mem_new n)"
  by (simp add: mem_inv_def mem_new_def)

lemma mem_inv_clear: "mem_inv (mem_clear s)"
  by (simp add: mem_inv_def mem_clear_def)

lemma mem_inv_shrink:
  "mem_inv s \<Longrightarrow> mem_inv (s\<lparr>ms_store := jsmap_filter P (ms_store s)\<rparr>)"
  using length_jsmap_filter [of P "ms_store s"]
  by (auto simp: mem_inv_def jsmap_ok_filter map_of_jsmap_filter split: option.splits if_splits)

lemma mem_inv_flags [simp]:
  "mem_inv (s\<lparr>ms_atCapacity := b\<rparr>) = mem_inv s" "mem_inv (s\<lparr>ms_capacityWarned := b\<rparr>) = mem_inv s"
  "mem_inv (s\<lparr>ms_interval := b\<rparr>) = mem_inv s"
  by (simp_all add: mem_inv_def)

lemma mem_inv_removeExpired: "mem_inv s \<Longrightarrow> mem_inv (snd (mem_removeExpired now s))"
  by (simp add: mem_removeExpired_def Let_def mem_inv_shrink)

lemma mem_inv_evictOldest: "mem_inv s \<Longrightarrow> mem_inv (mem_evictOldest now s)"
  by (simp add: mem_evictOldest_def mem_removeExpired_def Let_def mem_inv_shrink)

lemma mem_inv_resetByPrefix: "mem_inv s \<Longrightarrow> mem_inv (mem_resetByPrefix p s)"
  by (simp add: mem_resetByPrefix_def mem_inv_shrink)

lemma mem_inv_start:
  "mem_inv s \<Longrightarrow> map_of (ms_store s) key \<noteq> None \<or> length (ms_store s) < ms_maxEntries s \<Longrightarrow>
     mem_inv (snd (mem_start key w now s))"
  by (auto simp: mem_inv_def mem_start_def jsmap_ok_update length_alist_update map_of_update_eq)

lemma mem_inv_hitOverflow: "mem_inv s \<Longrightarrow> mem_inv (snd (mem_hitOverflow key w now s))"
  using overflowSlot_less [of key]
  by (auto simp: mem_inv_def mem_hitOverflow_def Let_def jsmap_ok_update map_of_update_eq
      split: option.splits if_splits)

text \<open>After an eviction pass that did not set the flag there is room for one more entry.\<close>

lemma mem_evictOldest_room:
  assumes "mem_inv s" "\<not> ms_atCapacity (mem_evictOldest now (s\<lparr>ms_atCapacity := False\<rparr>))"
  shows "length (ms_store (mem_evictOldest now (s\<lparr>ms_atCapacity := False\<rparr>))) < ms_maxEntries s"
  using assms by (auto simp: mem_evictOldest_def mem_removeExpired_def Let_def mem_inv_def split: if_splits)

lemma mem_evictOldest_max [simp]: "ms_maxEntries (mem_evictOldest now s) = ms_maxEntries s"
  by (simp add: mem_evictOldest_def mem_removeExpired_def Let_def)

lemma mem_inv_hit: "mem_inv s \<Longrightarrow> mem_inv (snd (mem_hit key w now s))"
proof -
  assume inv: "mem_inv s"
  show ?thesis
  proof (cases "map_of (ms_store s) key")
    case None
    have i1: "mem_inv (mem_evictOldest now (s\<lparr>ms_atCapacity := False\<rparr>))"
      using inv by (simp add: mem_inv_evictOldest)
    show ?thesis
      using None inv i1 mem_evictOldest_room [OF inv, of now]
      by (auto simp: mem_hit_def Let_def intro!: mem_inv_start mem_inv_hitOverflow)
  next
    case (Some e)
    have "mem_inv (s\<lparr>ms_store := AList.update key (e\<lparr>rl_count := Suc (rl_count e)\<rparr>) (ms_store s)\<rparr>)"
      using inv Some by (auto simp: mem_inv_def jsmap_ok_update length_alist_update map_of_update_eq)
    then show ?thesis
      using Some inv by (auto simp: mem_hit_def intro!: mem_inv_start)
  qed
qed

lemma mem_overflow_bound: "mem_inv s \<Longrightarrow> length (ms_overflow s) \<le> OVERFLOW_BUCKETS"
proof -
  assume "mem_inv s"
  then have d: "distinct (map fst (ms_overflow s))" and k: "set (map fst (ms_overflow s)) \<subseteq> {..<OVERFLOW_BUCKETS}"
    by (auto simp: mem_inv_def jsmap_ok_def dest!: weak_map_of_SomeI)
  have "card (set (map fst (ms_overflow s))) \<le> OVERFLOW_BUCKETS"
    using card_mono [OF _ k] by simp
  then show ?thesis using distinct_card [OF d] by simp
qed

subsection \<open>Live counters\<close>

lemma mem_evict_keeps_live:
  "mem_inv s \<Longrightarrow> map_of (ms_store s) k = Some e \<Longrightarrow> now < rl_reset e \<Longrightarrow>
     map_of (ms_store (mem_evictOldest now s)) k = Some e"
  by (auto simp: mem_evictOldest_def mem_removeExpired_def Let_def map_of_jsmap_filter mem_inv_def)

lemma mem_hitOverflow_store [simp]: "ms_store (snd (mem_hitOverflow key w now s)) = ms_store s"
  by (simp add: mem_hitOverflow_def Let_def split: option.splits)

lemma mem_start_store [simp]:
  "ms_store (snd (mem_start key w now s)) =
     AList.update key \<lparr>rl_count = 1, rl_reset = now + w * 1000\<rparr> (ms_store s)"
  by (simp add: mem_start_def)

lemma mem_hit_live:
  assumes "mem_inv s" "map_of (ms_store s) k = Some e" "now < rl_reset e"
  shows "map_of (ms_store (snd (mem_hit key w now s))) k =
           Some (if key = k then e\<lparr>rl_count := Suc (rl_count e)\<rparr> else e)"
proof (cases "map_of (ms_store s) key")
  case None
  have "map_of (ms_store (mem_evictOldest now (s\<lparr>ms_atCapacity := False\<rparr>))) k = Some e"
    using assms by (intro mem_evict_keeps_live) auto
  with None assms show ?thesis
    by (auto simp: mem_hit_def Let_def map_of_update_eq)
next
  case (Some e')
  with assms show ?thesis by (auto simp: mem_hit_def map_of_update_eq)
qed

lemma mem_hit_live_count:
  "map_of (ms_store s) k = Some e \<Longrightarrow> now < rl_reset e \<Longrightarrow> hit_count (fst (mem_hit k w now s)) = Suc (rl_count e)"
  by (simp add: mem_hit_def)

lemma mem_hit_max: "ms_maxEntries (snd (mem_hit key w now s)) = ms_maxEntries s"
  by (simp add: mem_hit_def mem_start_def mem_hitOverflow_def Let_def split: option.split)

lemma mem_hit_count_pos: "0 < hit_count (fst (mem_hit key w now s))"
  by (auto simp: mem_hit_def mem_start_def mem_hitOverflow_def Let_def split: option.splits)

subsection \<open>The contract of a counter store\<close>

text \<open>
  What a limiter needs of \<^verbatim>\<open>RateLimitStore.hit\<close>: \<open>tracked s k\<close> is the counter the store holds
  for the key itself. A live counter counts exactly the hits on its key, whoever else is
  counted in between; it is not dropped before its window ends.
\<close>

fun run_hits :: "(string \<Rightarrow> int \<Rightarrow> int \<Rightarrow> 's \<Rightarrow> rl_hit \<times> 's) \<Rightarrow> (string \<times> int \<times> int) list \<Rightarrow> 's
    \<Rightarrow> (string \<times> rl_hit) list \<times> 's" where
  "run_hits hit [] s = ([], s)"
| "run_hits hit ((k, w, t) # evs) s =
     (let (h, s') = hit k w t s; (hs, s'') = run_hits hit evs s' in ((k, h) # hs, s''))"

locale window_counter =
  fixes hit :: "string \<Rightarrow> int \<Rightarrow> int \<Rightarrow> 's \<Rightarrow> rl_hit \<times> 's"
    and tracked :: "'s \<Rightarrow> string \<Rightarrow> rl_entry option"
    and inv :: "'s \<Rightarrow> bool"
  assumes inv_hit: "inv s \<Longrightarrow> inv (snd (hit k w t s))"
    and hit_live: "inv s \<Longrightarrow> tracked s k = Some e \<Longrightarrow> t < rl_reset e \<Longrightarrow>
      tracked (snd (hit k' w t s)) k = Some (if k' = k then e\<lparr>rl_count := Suc (rl_count e)\<rparr> else e)"
    and hit_live_count: "inv s \<Longrightarrow> tracked s k = Some e \<Longrightarrow> t < rl_reset e \<Longrightarrow>
      hit_count (fst (hit k w t s)) = Suc (rl_count e)"
begin

lemma inv_run: "inv s \<Longrightarrow> inv (snd (run_hits hit evs s))"
proof (induction evs arbitrary: s)
  case (Cons ev evs)
  obtain k w t where ev: "ev = (k, w, t)" by (cases ev)
  have "inv (snd (run_hits hit evs (snd (hit k w t s))))"
    using Cons inv_hit by blast
  then show ?case by (simp add: ev case_prod_unfold Let_def)
qed simp

lemma run_live:
  assumes "inv s" "tracked s k = Some e" "\<forall>ev \<in> set evs. snd (snd ev) < rl_reset e"
  shows "tracked (snd (run_hits hit evs s)) k =
    Some (e\<lparr>rl_count := rl_count e + length (filter (\<lambda>ev. fst ev = k) evs)\<rparr>)"
  using assms
proof (induction evs arbitrary: s e)
  case (Cons ev evs)
  obtain k' w t where ev: "ev = (k', w, t)" by (cases ev)
  obtain h s' where h: "hit k' w t s = (h, s')" by (cases "hit k' w t s")
  have inv': "inv s'" using inv_hit [OF Cons.prems(1), of k' w t] h by simp
  have e': "tracked s' k = Some (if k' = k then e\<lparr>rl_count := Suc (rl_count e)\<rparr> else e)"
    using hit_live [OF Cons.prems(1,2), of t k' w] Cons.prems(3) h ev by auto
  show ?case
    using Cons.IH [OF inv' e'] Cons.prems(3) ev h by (cases "k' = k") (simp_all add: case_prod_unfold Let_def)
qed simp

lemma allowed_bound:
  assumes "inv s" "tracked s k = Some e" "\<forall>ev \<in> set evs. snd (snd ev) < rl_reset e"
  shows "length (filter (\<lambda>r. fst r = k \<and> hit_count (snd r) \<le> limit) (fst (run_hits hit evs s)))
           \<le> limit - rl_count e"
  using assms
proof (induction evs arbitrary: s e)
  case (Cons ev evs)
  obtain k' w t where ev: "ev = (k', w, t)" by (cases ev)
  obtain h s' where h: "hit k' w t s = (h, s')" by (cases "hit k' w t s")
  have inv': "inv s'" using inv_hit [OF Cons.prems(1), of k' w t] h by simp
  have e': "tracked s' k = Some (if k' = k then e\<lparr>rl_count := Suc (rl_count e)\<rparr> else e)"
    using hit_live [OF Cons.prems(1,2), of t k' w] Cons.prems(3) h ev by auto
  have c: "k' = k \<Longrightarrow> hit_count h = Suc (rl_count e)"
    using hit_live_count [OF Cons.prems(1,2), of t w] Cons.prems(3) h ev by auto
  show ?case
    using Cons.IH [OF inv' e'] Cons.prems(3) ev h c
    by (cases "k' = k") (auto simp: case_prod_unfold Let_def)
qed simp

end

interpretation mem: window_counter mem_hit "\<lambda>s. map_of (ms_store s)" mem_inv
  by unfold_locales (auto simp: mem_inv_hit mem_hit_live mem_hit_live_count)

subsection \<open>Properties\<close>

text \<open>
  Distinct lists of key parts (an address and an endpoint, whatever characters they hold)
  never share a counter, and the prefix used to reset some leading parts covers exactly the keys
  that extend those parts by at least one more.
\<close>

theorem rate_limit_keys_separate:
  assumes "ps \<noteq> []" "qs \<noteq> []"
  shows "(rateLimitKey ps = rateLimitKey qs) = (ps = qs)
    \<and> js_starts_with (rateLimitKey qs) (rateLimitKeyPrefix ps) = (\<exists>rs. rs \<noteq> [] \<and> qs = ps @ rs)"
  using assms by (simp_all add: rateLimitKey_inj starts_with_key_prefix)

theorem rate_limit_keys_separate_witness:
  "(rateLimitKey [''1.2.3.4:5'', ''/a''] = rateLimitKey [''1.2.3.4'', ''5:/a'']) = False
   \<and> js_starts_with (rateLimitKey [''1.2.3.4'', ''x'']) (rateLimitKeyPrefix [''1.2.3.4''])"
  using rate_limit_keys_separate [of "[''1.2.3.4:5'', ''/a'']" "[''1.2.3.4'', ''5:/a'']"]
    rate_limit_keys_separate [of "[''1.2.3.4'']" "[''1.2.3.4'', ''x'']"]
  by simp

text \<open>
  The counter that a hit on \<open>key\<close> counts on: its own, unless it has none and the store is full of open windows; then the one of its overflow slot.
\<close>

definition shares_counter :: "string \<Rightarrow> int \<Rightarrow> mem_store \<Rightarrow> bool" where
  "shares_counter key now s = (map_of (ms_store s) key = None
     \<and> ms_maxEntries s \<le> length (filter (\<lambda>(_, e). now < rl_reset e) (ms_store s)))"

definition counter_at :: "bool \<Rightarrow> string \<Rightarrow> mem_store \<Rightarrow> rl_entry option" where
  "counter_at shared key s = (if shared then map_of (ms_overflow s) (overflowSlot key) else map_of (ms_store s) key)"

definition counter_after :: "int \<Rightarrow> int \<Rightarrow> rl_entry option \<Rightarrow> rl_entry" where
  "counter_after window now c = (case c of None \<Rightarrow> \<lparr>rl_count = 1, rl_reset = now + window * 1000\<rparr>
     | Some e \<Rightarrow> if now < rl_reset e then e\<lparr>rl_count := Suc (rl_count e)\<rparr> else \<lparr>rl_count = 1, rl_reset = now + window * 1000\<rparr>)"

lemma counter_after_overflow:
  "hit_count (fst (mem_hitOverflow key window now s)) = rl_count (counter_after window now (map_of (ms_overflow s) (overflowSlot key)))
   \<and> map_of (ms_overflow (snd (mem_hitOverflow key window now s))) (overflowSlot key)
       = Some (counter_after window now (map_of (ms_overflow s) (overflowSlot key)))"
  by (simp add: mem_hitOverflow_def counter_after_def Let_def map_of_update_eq split: option.split)

lemma mem_evict_shares:
  assumes "mem_inv s" "map_of (ms_store s) key = None" "ms_maxEntries s \<le> length (ms_store s)"
  shows "ms_atCapacity (mem_evictOldest now (s\<lparr>ms_atCapacity := False\<rparr>)) = shares_counter key now s"
proof -
  define kept where "kept = filter (\<lambda>(_, e). now < rl_reset e) (ms_store s)"
  have k: "jsmap_filter (\<lambda>_ e. \<not> rl_reset e \<le> now) (ms_store s) = kept"
    by (simp add: kept_def jsmap_filter_def not_le)
  have "length kept \<le> length (ms_store s)" by (simp add: kept_def)
  moreover have "length (ms_store s) \<le> ms_maxEntries s" using assms(1) by (simp add: mem_inv_def)
  ultimately show ?thesis
    using assms(2,3) by (simp add: mem_evictOldest_def mem_removeExpired_def Let_def k shares_counter_def kept_def [symmetric])
qed

lemma mem_evict_overflow [simp]: "ms_overflow (mem_evictOldest now s) = ms_overflow s"
  by (simp add: mem_evictOldest_def mem_removeExpired_def Let_def)

lemma mem_hit_counted:
  assumes "mem_inv s"
  shows "hit_count (fst (mem_hit key window now s)) = rl_count (counter_after window now (counter_at (shares_counter key now s) key s))
    \<and> counter_at (shares_counter key now s) key (snd (mem_hit key window now s))
        = Some (counter_after window now (counter_at (shares_counter key now s) key s))"
proof (cases "map_of (ms_store s) key")
  case (Some e)
  then have "\<not> shares_counter key now s" by (simp add: shares_counter_def)
  then show ?thesis using Some
    by (simp add: mem_hit_def counter_at_def counter_after_def mem_start_def map_of_update_eq)
next
  case None
  show ?thesis
  proof (cases "ms_maxEntries s \<le> length (ms_store s)")
    case True
    note m = mem_evict_shares [OF assms None True, of now]
    show ?thesis
    proof (cases "shares_counter key now s")
      case True
      then show ?thesis using None \<open>ms_maxEntries s \<le> length (ms_store s)\<close> m
          counter_after_overflow [of key window now "(mem_evictOldest now (s\<lparr>ms_atCapacity := False\<rparr>))\<lparr>ms_capacityWarned := True\<rparr>"]
        by (simp add: mem_hit_def Let_def counter_at_def)
    next
      case False
      then show ?thesis using None True m
        by (simp add: mem_hit_def Let_def counter_at_def counter_after_def mem_start_def map_of_update_eq)
    qed
  next
    case False
    have "length (filter (\<lambda>(_, e). now < rl_reset e) (ms_store s)) \<le> length (ms_store s)" by simp
    then have "\<not> shares_counter key now s" using False unfolding shares_counter_def by linarith
    then show ?thesis using None False
      by (simp add: mem_hit_def counter_at_def counter_after_def mem_start_def map_of_update_eq)
  qed
qed

text \<open>
  C35. However many hits arrive and on whatever keys, the in-memory store never holds more than its configured number of counters plus
  64 shared overflow counters, and the next hit is still counted exactly, also by a full store. It counts on the counter of its key, or, when the key has
  none and the store is full of open windows, on the one of its overflow slot: an open window counts one more and keeps its end, any other
  starts again with one. The answer is that count, and the store holds it afterwards.
\<close>

theorem mem_store_bounded:
  "let s = snd (run_hits mem_hit evs (mem_new maxEntries)); (h, s') = mem_hit key window now s;
       shared = shares_counter key now s; c = counter_after window now (counter_at shared key s)
   in length (ms_store s) \<le> ms_maxEntries s \<and> length (ms_overflow s) \<le> OVERFLOW_BUCKETS
      \<and> length (ms_store s') \<le> ms_maxEntries s \<and> length (ms_overflow s') \<le> OVERFLOW_BUCKETS
      \<and> list_all (\<lambda>(k, e). 0 < rl_count e) (ms_store s)
      \<and> hit_count h = rl_count c \<and> counter_at shared key s' = Some c"
proof -
  define s where "s = snd (run_hits mem_hit evs (mem_new maxEntries))"
  obtain h s' where h: "mem_hit key window now s = (h, s')" by fastforce
  have inv: "mem_inv s" unfolding s_def by (rule mem.inv_run) (rule mem_inv_new)
  have inv': "mem_inv s'" using mem_inv_hit [OF inv, of key window now] by (simp add: h)
  have "ms_maxEntries s' = ms_maxEntries s" using mem_hit_max [of key window now s] by (simp add: h)
  then show ?thesis
    using inv inv' mem_hit_counted [OF inv, of key window now] mem_overflow_bound [OF inv] mem_overflow_bound [OF inv']
    unfolding s_def [symmetric] by (auto simp: h Let_def mem_inv_def jsmap_ok_def list_all_iff)
qed

text \<open>
  C34. A counter whose window is still open is not lost and not shared: across any sequence of hits
  on any keys made before its reset time, it grows by exactly the number of hits on its own key and
  keeps its reset time. Flooding the store with other keys cannot reset it.
  Assumed: the invariant of the store, which holds from its creation on.
\<close>

theorem live_counter_exact:
  assumes "mem_inv s" "map_of (ms_store s) k = Some e" "\<forall>ev \<in> set evs. snd (snd ev) < rl_reset e"
  shows "map_of (ms_store (snd (run_hits mem_hit evs s))) k =
    Some (e\<lparr>rl_count := rl_count e + length (filter (\<lambda>ev. fst ev = k) evs)\<rparr>)"
  using assms by (rule mem.run_live)

theorem live_counter_exact_witness:
  "map_of (ms_store (snd (run_hits mem_hit [(''b'', 60, 10), (''a'', 60, 20)]
      (snd (mem_hit ''a'' 60 0 (mem_new 1)))))) ''a'' = Some \<lparr>rl_count = 2, rl_reset = 60000\<rparr>"
proof -
  have s: "snd (mem_hit ''a'' 60 0 (mem_new 1)) =
      (mem_new 1)\<lparr>ms_store := [(''a'', \<lparr>rl_count = 1, rl_reset = 60000\<rparr>)]\<rparr>"
    by (simp add: mem_hit_def mem_start_def mem_new_def)
  have inv: "mem_inv (snd (mem_hit ''a'' 60 0 (mem_new 1)))"
    by (intro mem_inv_hit mem_inv_new)
  have "map_of (ms_store (snd (mem_hit ''a'' 60 0 (mem_new 1)))) ''a'' = Some \<lparr>rl_count = 1, rl_reset = 60000\<rparr>"
    by (simp only: s) simp
  from live_counter_exact [OF inv this, of "[(''b'', 60, 10), (''a'', 60, 20)]"]
  show ?thesis by (simp del: run_hits.simps add: numeral_2_eq_2)
qed

text \<open>
  A store full of open windows folds an unknown key into its overflow bucket and counts it there:
  the answer is one more than what the bucket had counted, the bucket remembers it, and no stored
  counter changes.
\<close>

theorem saturated_store_still_counts:
  assumes "map_of (ms_store s) key = None" "ms_maxEntries s \<le> length (ms_store s)"
    and "\<forall>e \<in> set (map snd (ms_store s)). now < rl_reset e"
  shows "let before = (case map_of (ms_overflow s) (overflowSlot key) of
                         Some e \<Rightarrow> if now < rl_reset e then rl_count e else 0 | None \<Rightarrow> 0);
             (h, s') = mem_hit key window now s
         in hit_count h = Suc before
            \<and> map_option rl_count (map_of (ms_overflow s') (overflowSlot key)) = Some (Suc before)
            \<and> ms_store s' = ms_store s"
proof -
  have "jsmap_filter (\<lambda>_ e. \<not> now \<ge> rl_reset e) (ms_store s) = ms_store s"
    using assms(3) by (auto simp: jsmap_filter_def filter_id_conv)
  then show ?thesis
    using assms(1,2)
    by (auto simp: mem_hit_def mem_evictOldest_def mem_removeExpired_def mem_hitOverflow_def Let_def
        map_of_update_eq split: option.splits)
qed

theorem saturated_store_still_counts_witness:
  "hit_count (fst (mem_hit ''b'' 60 5 (snd (mem_hit ''b'' 60 4 (snd (mem_hit ''a'' 60 0 (mem_new 1))))))) = 2"
proof -
  define s where "s = snd (mem_hit ''b'' 60 4 (snd (mem_hit ''a'' 60 0 (mem_new 1))))"
  have slot: "overflowSlot ''b'' = 34" by code_simp
  have s: "s = \<lparr>ms_store = [(''a'', \<lparr>rl_count = 1, rl_reset = 60000\<rparr>)],
      ms_overflow = [(34, \<lparr>rl_count = 1, rl_reset = 60004\<rparr>)], ms_atCapacity = True,
      ms_capacityWarned = True, ms_maxEntries = 1, ms_interval = True\<rparr>"
    by (simp add: s_def mem_hit_def mem_defs mem_new_def jsmap_filter_def slot)
  show ?thesis
    using saturated_store_still_counts [of s "''b''" 5 60]
    unfolding s_def [symmetric] by (simp add: s slot Let_def case_prod_unfold)
qed

end
