(* ===== verification/RedisRateStore.thy ===== *)
theory RedisRateStore
  imports RateStore
begin

text \<open>
  The Redis-backed half of \<^verbatim>\<open>src/src/core/common/services/rate-limit-store.ts\<close>.

  The Redis server is a parameter: \<open>redis_ops\<close> holds the commands the code issues, over an
  abstract server state. \<open>redis_laws\<close> states what the Redis documentation says of them, read
  through the value \<open>val r k\<close> a key holds, at one moment (no key expires while a command runs).
  \<open>link\<close> is the fate of one call: answered, refused before it ran, or run with its reply lost.
\<close>

record 'r redis_ops =
  rd_exists :: "string \<Rightarrow> 'r \<Rightarrow> bool"
  rd_incr :: "string \<Rightarrow> 'r \<Rightarrow> int \<times> 'r"
  rd_expire :: "string \<Rightarrow> int \<Rightarrow> 'r \<Rightarrow> 'r"
  rd_ttl :: "string \<Rightarrow> 'r \<Rightarrow> int"
  rd_scan :: "string \<Rightarrow> string \<Rightarrow> 'r \<Rightarrow> string \<times> string list"
  rd_del :: "string list \<Rightarrow> 'r \<Rightarrow> 'r"

datatype link = Answered | Refused | ReplyLost

definition redis_laws :: "'r redis_ops \<Rightarrow> ('r \<Rightarrow> string \<Rightarrow> int option) \<Rightarrow> bool" where
  "redis_laws R val \<longleftrightarrow>
     (\<forall>k r. rd_exists R k r \<longleftrightarrow> val r k \<noteq> None)
     \<and> (\<forall>k r. fst (rd_incr R k r) = (case val r k of None \<Rightarrow> 0 | Some v \<Rightarrow> v) + 1)
     \<and> (\<forall>k r. val (snd (rd_incr R k r)) = (val r)(k \<mapsto> fst (rd_incr R k r)))
     \<and> (\<forall>k w r. 0 < w \<longrightarrow> val (rd_expire R k w r) = val r)"

subsection \<open>The hit script\<close>

text \<open>The Lua script, line by line; it runs atomically on the server.\<close>

definition hit_script ::
  "'r redis_ops \<Rightarrow> string \<Rightarrow> string \<Rightarrow> string \<Rightarrow> int \<Rightarrow> int \<Rightarrow> 'r \<Rightarrow> (int \<times> int \<times> int) \<times> 'r" where
  "hit_script R key1 key2 key3 window maxKeys r =
     (let (target, overflow, r1) =
        (if \<not> rd_exists R key1 r then
           (let (seen, ra) = rd_incr R key2 r;
                rb = (if seen = 1 then rd_expire R key2 window ra else ra)
            in if seen > maxKeys then (key3, 1, rb) else (key1, 0, rb))
         else (key1, 0, r));
        (c, r2) = rd_incr R target r1;
        r3 = (if c = 1 then rd_expire R target window r2 else r2);
        ttl = rd_ttl R target r3
      in if ttl < 0 then ((c, window, overflow), rd_expire R target window r3)
         else ((c, ttl, overflow), r3))"

subsection \<open>The store\<close>

record redis_store =
  rs_prefix :: string
  rs_namespace :: string
  rs_maxKeys :: int
  rs_fallback :: mem_store
  rs_degraded :: bool
  rs_capacityWarned :: bool

definition redis_new :: "string \<Rightarrow> string \<Rightarrow> int \<Rightarrow> redis_store" where
  "redis_new pre ns maxKeys = \<lparr>rs_prefix = pre, rs_namespace = ns, rs_maxKeys = maxKeys,
     rs_fallback = mem_new 10000, rs_degraded = False, rs_capacityWarned = False\<rparr>"

text \<open>\<^verbatim>\<open>CoreRedisService.key\<close>.\<close>

definition redis_key :: "string \<Rightarrow> string list \<Rightarrow> string" where
  "redis_key pre parts = js_join '':'' (pre # parts)"

definition redisKey :: "redis_store \<Rightarrow> string \<Rightarrow> string" where
  "redisKey s key = redis_key (rs_prefix s) [''rate-limit'', rs_namespace s, key]"

definition redisKeyPattern :: "redis_store \<Rightarrow> string \<Rightarrow> string" where
  "redisKeyPattern s pre = escapeGlob (redisKey s pre) @ ''*''"

definition cardinalityKey :: "redis_store \<Rightarrow> string" where
  "cardinalityKey s = redis_key (rs_prefix s) [''rate-limit'', rs_namespace s, ''#meta'', ''cardinality'']"

definition overflowKey :: "redis_store \<Rightarrow> string \<Rightarrow> string" where
  "overflowKey s key =
     redis_key (rs_prefix s) [''rate-limit'', rs_namespace s, ''#overflow'', show_nat (overflowSlot key)]"

definition runHit :: "'r redis_ops \<Rightarrow> link \<Rightarrow> string \<Rightarrow> int \<Rightarrow> redis_store \<Rightarrow> 'r
    \<Rightarrow> (int \<times> int \<times> int) option \<times> 'r" where
  "runHit R l key window s r =
     (let (reply, r') = hit_script R (redisKey s key) (cardinalityKey s) (overflowKey s key) window (rs_maxKeys s) r
      in case l of Answered \<Rightarrow> (Some reply, r') | Refused \<Rightarrow> (None, r) | ReplyLost \<Rightarrow> (None, r'))"

text \<open>\<^verbatim>\<open>guard\<close>: a failed call marks the store degraded and takes the fallback.\<close>

definition redis_hit :: "'r redis_ops \<Rightarrow> link \<Rightarrow> string \<Rightarrow> int \<Rightarrow> int \<Rightarrow> redis_store \<Rightarrow> 'r
    \<Rightarrow> rl_hit \<times> redis_store \<times> 'r" where
  "redis_hit R l key window now s r =
     (case runHit R l key window s r of
        (Some (count, ttl, overflow), r') \<Rightarrow>
          (\<lparr>hit_count = nat count, hit_resetIn = ttl\<rparr>,
           s\<lparr>rs_degraded := False, rs_capacityWarned := (rs_capacityWarned s \<or> overflow \<noteq> 0)\<rparr>, r')
      | (None, r') \<Rightarrow>
          (let (h, fb) = mem_hit key window now (rs_fallback s)
           in (h, s\<lparr>rs_degraded := True, rs_fallback := fb\<rparr>, r')))"

text \<open>
  The scan loop: \<^verbatim>\<open>do ... while (cursor !== '0')\<close>. It stops when the server hands back the
  cursor \<open>0\<close>; a server that never does makes it run for ever, so the result is an option.
\<close>

partial_function (option) deleteByPattern :: "'r redis_ops \<Rightarrow> string \<Rightarrow> string \<Rightarrow> 'r \<Rightarrow> 'r option" where
  "deleteByPattern R pat cursor r =
     (let (next, keys) = rd_scan R cursor pat r;
          r' = (if keys \<noteq> [] then rd_del R keys r else r)
      in if next \<noteq> ''0'' then deleteByPattern R pat next r' else Some r')"

definition redis_resetByPrefix :: "'r redis_ops \<Rightarrow> link \<Rightarrow> string \<Rightarrow> redis_store \<Rightarrow> 'r
    \<Rightarrow> (redis_store \<times> 'r) option" where
  "redis_resetByPrefix R l pre s r =
     (let s' = s\<lparr>rs_fallback := mem_resetByPrefix pre (rs_fallback s)\<rparr>
      in case l of
           Answered \<Rightarrow> map_option (\<lambda>r'. (s', r')) (deleteByPattern R (redisKeyPattern s pre) ''0'' r)
         | _ \<Rightarrow> Some (s'\<lparr>rs_degraded := True\<rparr>, r))"

definition redis_clear :: "'r redis_ops \<Rightarrow> link \<Rightarrow> redis_store \<Rightarrow> 'r \<Rightarrow> (redis_store \<times> 'r) option" where
  "redis_clear R l s r =
     (let s' = s\<lparr>rs_fallback := mem_clear (rs_fallback s), rs_capacityWarned := False\<rparr>
      in case l of
           Answered \<Rightarrow> map_option (\<lambda>r'. (s', r')) (deleteByPattern R (redisKeyPattern s []) ''0'' r)
         | _ \<Rightarrow> Some (s'\<lparr>rs_degraded := True\<rparr>, r))"

definition redis_size :: "redis_store \<Rightarrow> int" where
  "redis_size s = -1"

definition redis_destroy :: "redis_store \<Rightarrow> redis_store" where
  "redis_destroy s = s\<lparr>rs_fallback := mem_destroy (rs_fallback s)\<rparr>"

subsection \<open>What the script does to the counters\<close>

lemma redis_lawsD:
  assumes "redis_laws R val"
  shows "rd_exists R k r \<longleftrightarrow> val r k \<noteq> None"
    and "fst (rd_incr R k r) = (case val r k of None \<Rightarrow> 0 | Some v \<Rightarrow> v) + 1"
    and "val (snd (rd_incr R k r)) = (val r)(k \<mapsto> (case val r k of None \<Rightarrow> 0 | Some v \<Rightarrow> v) + 1)"
    and "0 < w \<Longrightarrow> val (rd_expire R k w r) = val r"
proof -
  note L = assms [unfolded redis_laws_def]
  show "rd_exists R k r \<longleftrightarrow> val r k \<noteq> None" using L by blast
  show f: "fst (rd_incr R k r) = (case val r k of None \<Rightarrow> 0 | Some v \<Rightarrow> v) + 1" using L by blast
  show "val (snd (rd_incr R k r)) = (val r)(k \<mapsto> (case val r k of None \<Rightarrow> 0 | Some v \<Rightarrow> v) + 1)"
    using L f by metis
  show "0 < w \<Longrightarrow> val (rd_expire R k w r) = val r" using L by blast
qed

text \<open>The counting a reader of the script expects, on the values alone.\<close>

definition counted :: "int option \<Rightarrow> int" where
  "counted v = (case v of None \<Rightarrow> 0 | Some n \<Rightarrow> n) + 1"

definition hit_values :: "string \<Rightarrow> string \<Rightarrow> string \<Rightarrow> int \<Rightarrow> (string \<Rightarrow> int option)
    \<Rightarrow> (int \<times> int) \<times> (string \<Rightarrow> int option)" where
  "hit_values key1 key2 key3 maxKeys m =
     (let m' = (if m key1 = None then m(key2 \<mapsto> counted (m key2)) else m);
          full = (m key1 = None \<and> maxKeys < counted (m key2));
          target = (if full then key3 else key1)
      in ((counted (m' target), if full then 1 else 0), m'(target \<mapsto> counted (m' target))))"

lemma hit_script_values:
  assumes L: "redis_laws R val" and w: "0 < window"
  shows "hit_values key1 key2 key3 maxKeys (val r) =
    (let ((c, ttl, ov), r') = hit_script R key1 key2 key3 window maxKeys r in ((c, ov), val r'))"
proof -
  note D = redis_lawsD [OF L]
  obtain seen ra where ra: "rd_incr R key2 r = (seen, ra)" by (cases "rd_incr R key2 r")
  then have seen: "seen = counted (val r key2)" "val ra = (val r)(key2 \<mapsto> seen)"
    using D(2) [of key2 r] D(3) [of key2 r] by (simp_all add: counted_def)
  define rb where "rb = (if seen = 1 then rd_expire R key2 window ra else ra)"
  have rb: "val rb = val ra" using D(4) w by (simp add: rb_def)
  define t1 where "t1 = (if rd_exists R key1 r then (key1, 0::int, r)
                         else if maxKeys < seen then (key3, 1, rb) else (key1, 0, rb))"
  obtain target ov r1 where t1': "t1 = (target, ov, r1)" by (cases t1)
  obtain c r2 where r2: "rd_incr R target r1 = (c, r2)" by (cases "rd_incr R target r1")
  then have c: "c = counted (val r1 target)" "val r2 = (val r1)(target \<mapsto> c)"
    using D(2) [of target r1] D(3) [of target r1] by (simp_all add: counted_def)
  have v3: "val (if c = 1 then rd_expire R target window r2 else r2) = val r2"
    using D(4) w by simp
  have "(let ((c, ttl, ov), r') = hit_script R key1 key2 key3 window maxKeys r in ((c, ov), val r'))
      = ((c, ov), (val r1)(target \<mapsto> c))"
    using t1' r2 v3 c D(4) w
    by (simp add: hit_script_def ra t1_def rb_def Let_def split: if_splits)
  also have "\<dots> = hit_values key1 key2 key3 maxKeys (val r)"
    using t1' c rb seen D(1) [of key1 r]
    by (auto simp: hit_values_def t1_def Let_def split: if_splits)
  finally show ?thesis by simp
qed


lemma redisKey_inj [simp]: "redisKey s k = redisKey s k' \<longleftrightarrow> k = k'"
  by (simp add: redisKey_def redis_key_def)

lemma redis_hit_answered:
  assumes "redis_laws R val" "0 < window"
  shows "let ((c, ov), m) = hit_values (redisKey s key) (cardinalityKey s) (overflowKey s key) (rs_maxKeys s) (val r);
             (h, s', r') = redis_hit R Answered key window now s r
         in hit_count h = nat c \<and> val r' = m \<and> \<not> rs_degraded s' \<and> rs_fallback s' = rs_fallback s
            \<and> redisKey s' = redisKey s \<and> cardinalityKey s' = cardinalityKey s
            \<and> overflowKey s' = overflowKey s \<and> rs_maxKeys s' = rs_maxKeys s"
  using hit_script_values [OF assms, of "redisKey s key" "cardinalityKey s" "overflowKey s key" "rs_maxKeys s" r]
  by (simp add: redis_hit_def runHit_def Let_def case_prod_unfold redisKey_def cardinalityKey_def
      overflowKey_def fun_eq_iff)

fun redis_hits :: "'r redis_ops \<Rightarrow> (string \<times> int \<times> int) list \<Rightarrow> redis_store \<times> 'r \<Rightarrow> redis_store \<times> 'r" where
  "redis_hits R [] sr = sr"
| "redis_hits R ((k, w, t) # evs) sr = redis_hits R evs (snd (redis_hit R Answered k w t (fst sr) (snd sr)))"

definition own_counters :: "redis_store \<Rightarrow> string set \<Rightarrow> (string \<Rightarrow> int option) \<Rightarrow> string set" where
  "own_counters s K m = {k \<in> K. m (redisKey s k) \<noteq> None}"

definition cardinality_inv :: "redis_store \<Rightarrow> string set \<Rightarrow> (string \<Rightarrow> int option) \<Rightarrow> bool" where
  "cardinality_inv s K m \<longleftrightarrow> int (card (own_counters s K m)) \<le> counted (m (cardinalityKey s)) - 1
     \<and> int (card (own_counters s K m)) \<le> rs_maxKeys s"

text \<open>No caller key meets the framework's own two kinds of keys.\<close>

definition keys_apart :: "redis_store \<Rightarrow> string set \<Rightarrow> bool" where
  "keys_apart s K \<longleftrightarrow> (\<forall>k \<in> K. redisKey s k \<noteq> cardinalityKey s
     \<and> (\<forall>k' \<in> K. redisKey s k \<noteq> overflowKey s k' \<and> cardinalityKey s \<noteq> overflowKey s k'))"

lemma cardinality_inv_step:
  assumes "finite K" "key \<in> K" "keys_apart s K" "cardinality_inv s K m"
  shows "cardinality_inv s K (snd (hit_values (redisKey s key) (cardinalityKey s) (overflowKey s key) (rs_maxKeys s) m))"
proof -
  let ?m' = "snd (hit_values (redisKey s key) (cardinalityKey s) (overflowKey s key) (rs_maxKeys s) m)"
  have a: "redisKey s k \<noteq> cardinalityKey s" "redisKey s k \<noteq> overflowKey s key"
    "cardinalityKey s \<noteq> overflowKey s key" if "k \<in> K" for k
    using assms(2,3) that by (auto simp: keys_apart_def)
  have fin: "finite (own_counters s K m)"
    using assms(1) by (simp add: own_counters_def)
  show ?thesis
  proof (cases "m (redisKey s key) = None \<and> counted (m (cardinalityKey s)) \<le> rs_maxKeys s")
    case True
    then have "own_counters s K ?m' = insert key (own_counters s K m)"
      using a assms(2) by (auto simp: own_counters_def hit_values_def Let_def)
    moreover have "key \<notin> own_counters s K m" using True by (simp add: own_counters_def)
    moreover have "?m' (cardinalityKey s) = Some (counted (m (cardinalityKey s)))"
      using True a [OF assms(2)] by (simp add: hit_values_def Let_def)
    ultimately show ?thesis
      using assms(4) True fin by (simp add: cardinality_inv_def counted_def)
  next
    case False
    then have "own_counters s K ?m' = own_counters s K m"
      using a assms(2) by (auto simp: own_counters_def hit_values_def Let_def)
    moreover have "counted (m (cardinalityKey s)) \<le> counted (?m' (cardinalityKey s))"
      using False a [OF assms(2)] by (auto simp: hit_values_def Let_def counted_def split: option.splits)
    ultimately show ?thesis
      using assms(4) by (simp add: cardinality_inv_def)
  qed
qed

lemma cardinality_inv_hits:
  assumes "redis_laws R val" "finite K" "keys_apart s K" "cardinality_inv s K (val r)"
    and "\<forall>ev \<in> set evs. fst ev \<in> K \<and> 0 < fst (snd ev)"
  shows "let (s', r') = redis_hits R evs (s, r) in cardinality_inv s K (val r')"
  using assms(3-5)
proof (induction evs arbitrary: s r)
  case (Cons ev evs)
  obtain k w t where ev: "ev = (k, w, t)" by (cases ev)
  obtain h s' r' where h: "redis_hit R Answered k w t s r = (h, s', r')"
    by (cases "redis_hit R Answered k w t s r")
  have w: "0 < w" and k: "k \<in> K" using Cons.prems(3) ev by auto
  have same: "redisKey s' = redisKey s" "cardinalityKey s' = cardinalityKey s"
      "overflowKey s' = overflowKey s" "rs_maxKeys s' = rs_maxKeys s"
    and val: "val r' = snd (hit_values (redisKey s k) (cardinalityKey s) (overflowKey s k) (rs_maxKeys s) (val r))"
    using redis_hit_answered [OF assms(1) w, of s k r t] h by (auto simp: Let_def case_prod_unfold)
  have eq: "keys_apart s' K = keys_apart s K" "\<And>m. cardinality_inv s' K m = cardinality_inv s K m"
    by (simp_all add: keys_apart_def cardinality_inv_def own_counters_def same)
  have "cardinality_inv s' K (val r')"
    using cardinality_inv_step [OF assms(2) k Cons.prems(1,2)] by (simp add: val eq)
  then show ?case
    using Cons.IH [of s' r'] Cons.prems ev h by (simp add: eq)
qed simp

subsection \<open>Properties\<close>

text \<open>
  What one answered hit does to the shared counters. A caller with a live counter is counted on
  it exactly; a new caller gets a counter of its own while the window has room for another key, and
  past that point is counted on the shared overflow counter without creating a key. A call that
  Redis refuses or whose reply is lost is answered by the in-memory fallback and marks the store as
  degraded; no failure escapes.
\<close>

theorem redis_hit_cases:
  assumes "redis_laws R val" "0 < window" "keys_apart s {key}"
  shows "let (h, s', r') = redis_hit R l key window now s r;
             own = val r (redisKey s key);
             seen = counted (val r (cardinalityKey s))
         in if l = Answered then
              \<not> rs_degraded s' \<and>
              (if own \<noteq> None then
                 hit_count h = nat (counted own) \<and> val r' = (val r)(redisKey s key \<mapsto> counted own)
               else if seen \<le> rs_maxKeys s then
                 hit_count h = 1 \<and> val r' = (val r)(cardinalityKey s \<mapsto> seen, redisKey s key \<mapsto> 1)
               else
                 hit_count h = nat (counted (val r (overflowKey s key)))
                 \<and> val r' (redisKey s key) = None
                 \<and> val r' = (val r)(cardinalityKey s \<mapsto> seen,
                              overflowKey s key \<mapsto> counted (val r (overflowKey s key))))
            else
              rs_degraded s' \<and> (h, rs_fallback s') = mem_hit key window now (rs_fallback s)"
proof (cases "l = Answered")
  case True
  then show ?thesis
    using redis_hit_answered [OF assms(1,2), of s key r now] assms(3)
    by (auto simp: Let_def case_prod_unfold hit_values_def keys_apart_def counted_def)
next
  case False
  then show ?thesis
    by (cases l) (simp_all add: redis_hit_def runHit_def Let_def case_prod_unfold)
qed

definition demo_redis :: "(string \<Rightarrow> int option) redis_ops" where
  "demo_redis = \<lparr>rd_exists = (\<lambda>k r. r k \<noteq> None),
     rd_incr = (\<lambda>k r. (counted (r k), r(k \<mapsto> counted (r k)))),
     rd_expire = (\<lambda>k w r. r), rd_ttl = (\<lambda>k r. 60), rd_scan = (\<lambda>c p r. (''0'', [])),
     rd_del = (\<lambda>ks r. r |` (- set ks))\<rparr>"

lemma demo_redis_laws: "redis_laws demo_redis (\<lambda>r. r)"
  by (simp add: redis_laws_def demo_redis_def counted_def)

lemma demo_apart: "keys_apart (redis_new ''p'' ''n'' m) {''a'', ''b''}"
  by (simp add: keys_apart_def redisKey_def cardinalityKey_def overflowKey_def redis_new_def redis_key_def)

theorem redis_hit_cases_witness:
  "let (h, s', r') = redis_hit demo_redis Answered ''a'' 60 0 (redis_new ''p'' ''n'' 1) Map.empty
   in hit_count h = 1 \<and> r' (redisKey (redis_new ''p'' ''n'' 1) ''a'') = Some 1"
proof -
  have "keys_apart (redis_new ''p'' ''n'' 1) {''a''}"
    using demo_apart [of 1] by (simp add: keys_apart_def)
  from redis_hit_cases [OF demo_redis_laws _ this, of 60 Answered 0 Map.empty]
  show ?thesis by (simp add: Let_def case_prod_unfold counted_def redis_new_def)
qed

text \<open>
  The keyspace is bounded: starting from a window in which the namespace holds no counter, any
  number of answered hits on any finite set of caller keys leaves at most \<open>maxKeys\<close> of them with a
  counter of their own.
\<close>

theorem redis_keyspace_bounded:
  assumes "redis_laws R val" "finite K" "keys_apart s K" "0 \<le> rs_maxKeys s"
    and "\<forall>k \<in> K. val r (redisKey s k) = None" "val r (cardinalityKey s) = None"
    and "\<forall>ev \<in> set evs. fst ev \<in> K \<and> 0 < fst (snd ev)"
  shows "let (s', r') = redis_hits R evs (s, r)
         in int (card (own_counters s K (val r'))) \<le> rs_maxKeys s"
proof -
  have "own_counters s K (val r) = {}" using assms(5) by (auto simp: own_counters_def)
  then have "cardinality_inv s K (val r)" using assms(4,6) by (simp add: cardinality_inv_def counted_def)
  from cardinality_inv_hits [OF assms(1-3) this assms(7)] show ?thesis
    by (auto simp: Let_def cardinality_inv_def split: prod.splits)
qed

theorem redis_keyspace_bounded_witness:
  "let (s', r') = redis_hits demo_redis [(''a'', 60, 0), (''b'', 60, 1)] (redis_new ''p'' ''n'' 1, Map.empty)
   in int (card (own_counters (redis_new ''p'' ''n'' 1) {''a'', ''b''} r')) \<le> 1"
  using redis_keyspace_bounded [OF demo_redis_laws _ demo_apart, of 1 Map.empty
      "[(''a'', 60, 0), (''b'', 60, 1)]"]
  by (simp del: redis_hits.simps add: redis_new_def)

end
