(* ===== verification/RateLimiters.thy ===== *)
theory RateLimiters
  imports RedisRateStore
begin

text \<open>
  The two limiters over the counter stores:
  \<^verbatim>\<open>modules/better-auth/core-better-auth-rate-limiter.service.ts\<close> (\<open>ba_*\<close>) and
  \<^verbatim>\<open>modules/auth/services/legacy-auth-rate-limiter.service.ts\<close> (\<open>legacy_*\<close>).

  \<open>rl_store\<close> is whichever \<^verbatim>\<open>RateLimitStore\<close> the lazy \<^verbatim>\<open>getStore\<close> picked; \<open>store_hit\<close> and
  its siblings dispatch to it. The Redis commands and the fate of the call travel in
  \<open>redis_env\<close>. A limit is a number or \<^verbatim>\<open>Infinity\<close>. A configuration input is a record of
  options, a property that is absent being \<open>None\<close>.
\<close>

datatype rl_limit = Fin int | Infinity

record rl_result =
  res_allowed :: bool
  res_current :: nat
  res_limit :: rl_limit
  res_remaining :: rl_limit
  res_resetIn :: int

definition res_unlimited :: rl_result where
  "res_unlimited = \<lparr>res_allowed = True, res_current = 0, res_limit = Infinity,
     res_remaining = Infinity, res_resetIn = 0\<rparr>"

subsection \<open>The selected store\<close>

datatype rl_store = MemStore mem_store | RedisStore redis_store

record 'r redis_env =
  env_ops :: "'r redis_ops"
  env_link :: link
  env_enabled :: bool
  env_prefix :: string

definition store_hit :: "'r redis_env \<Rightarrow> string \<Rightarrow> int \<Rightarrow> int \<Rightarrow> rl_store \<times> 'r \<Rightarrow> rl_hit \<times> rl_store \<times> 'r" where
  "store_hit env key window now sr =
     (case sr of (st, r) \<Rightarrow>
        (case st of
           MemStore m \<Rightarrow> (let (h, m') = mem_hit key window now m in (h, MemStore m', r))
         | RedisStore s \<Rightarrow>
             (let (h, s', r') = redis_hit (env_ops env) (env_link env) key window now s r
              in (h, RedisStore s', r'))))"

definition store_resetByPrefix :: "'r redis_env \<Rightarrow> string \<Rightarrow> rl_store \<times> 'r \<Rightarrow> (rl_store \<times> 'r) option" where
  "store_resetByPrefix env pre sr =
     (case sr of (st, r) \<Rightarrow>
        (case st of
           MemStore m \<Rightarrow> Some (MemStore (mem_resetByPrefix pre m), r)
         | RedisStore s \<Rightarrow>
             map_option (\<lambda>(s', r'). (RedisStore s', r')) (redis_resetByPrefix (env_ops env) (env_link env) pre s r)))"

definition store_clear :: "'r redis_env \<Rightarrow> rl_store \<times> 'r \<Rightarrow> (rl_store \<times> 'r) option" where
  "store_clear env sr =
     (case sr of (st, r) \<Rightarrow>
        (case st of
           MemStore m \<Rightarrow> Some (MemStore (mem_clear m), r)
         | RedisStore s \<Rightarrow>
             map_option (\<lambda>(s', r'). (RedisStore s', r')) (redis_clear (env_ops env) (env_link env) s r)))"

definition store_size :: "rl_store \<Rightarrow> int" where
  "store_size st = (case st of MemStore m \<Rightarrow> mem_size m | RedisStore s \<Rightarrow> redis_size s)"

definition store_destroy :: "rl_store \<Rightarrow> rl_store" where
  "store_destroy st = (case st of MemStore m \<Rightarrow> MemStore (mem_destroy m) | RedisStore s \<Rightarrow> RedisStore (redis_destroy s))"

subsection \<open>The Better-Auth limiter\<close>

record ba_rl_config =
  ba_enabled :: bool
  ba_max :: int
  ba_maxEntries :: nat
  ba_message :: string
  ba_skipEndpoints :: "string list"
  ba_strictEndpoints :: "string list"
  ba_windowSeconds :: int

record ba_rl_input =
  in_enabled :: "bool option"
  in_max :: "int option"
  in_maxEntries :: "nat option"
  in_message :: "string option"
  in_skipEndpoints :: "string list option"
  in_strictEndpoints :: "string list option"
  in_windowSeconds :: "int option"

definition BA_DEFAULT_CONFIG :: ba_rl_config where
  "BA_DEFAULT_CONFIG = \<lparr>ba_enabled = False, ba_max = 10, ba_maxEntries = 10000,
     ba_message = ''Too many requests, please try again later.'',
     ba_skipEndpoints = [''/session'', ''/callback''],
     ba_strictEndpoints = [''/sign-in'', ''/sign-up'', ''/request-password-reset'', ''/forget-password'',
       ''/forgot-password'', ''/reset-password'', ''/change-password''],
     ba_windowSeconds = 60\<rparr>"

record ba_limiter =
  bl_config :: ba_rl_config
  bl_store :: "rl_store option"

definition opt :: "'a option \<Rightarrow> 'a \<Rightarrow> 'a" where
  "opt v d = (case v of None \<Rightarrow> d | Some x \<Rightarrow> x)"

lemma opt_simps [simp]: "opt None d = d" "opt (Some x) d = x"
  by (simp_all add: opt_def)

definition ba_configure :: "ba_rl_input option \<Rightarrow> ba_limiter \<Rightarrow> ba_limiter" where
  "ba_configure config L =
     (case config of
        None \<Rightarrow> L
      | Some c \<Rightarrow> L\<lparr>bl_config := \<lparr>
          ba_enabled = (in_enabled c \<noteq> Some False),
          ba_max = opt (in_max c) (ba_max BA_DEFAULT_CONFIG),
          ba_maxEntries = opt (in_maxEntries c) (ba_maxEntries BA_DEFAULT_CONFIG),
          ba_message = opt (in_message c) (ba_message BA_DEFAULT_CONFIG),
          ba_skipEndpoints = opt (in_skipEndpoints c) (ba_skipEndpoints BA_DEFAULT_CONFIG),
          ba_strictEndpoints = opt (in_strictEndpoints c) (ba_strictEndpoints BA_DEFAULT_CONFIG),
          ba_windowSeconds = opt (in_windowSeconds c) (ba_windowSeconds BA_DEFAULT_CONFIG)\<rparr>\<rparr>)"

definition path_matches :: "string \<Rightarrow> string \<Rightarrow> bool" where
  "path_matches path ep = (path = ep \<or> js_ends_with path ep \<or> js_contains path ep)"

definition ba_shouldSkip :: "ba_rl_config \<Rightarrow> string \<Rightarrow> bool" where
  "ba_shouldSkip c path = list_ex (path_matches path) (ba_skipEndpoints c)"

definition ba_getLimit :: "ba_rl_config \<Rightarrow> string \<Rightarrow> int" where
  "ba_getLimit c path =
     (let isStrict = list_ex (path_matches path) (ba_strictEndpoints c)
      in if isStrict then ceil_div (ba_max c) 2 else ba_max c)"

definition ba_normalizeEndpoint :: "string \<Rightarrow> string" where
  "ba_normalizeEndpoint path =
     (let cleanPath = hd (js_split (CHR ''?'') path)
      in if js_contains cleanPath ''/callback/'' then ''callback''
         else (let segments = filter (\<lambda>s. s \<noteq> []) (js_split (CHR ''/'') cleanPath)
               in if segments = [] then ''root'' else last segments))"

definition ba_getKey :: "string \<Rightarrow> string \<Rightarrow> string" where
  "ba_getKey ip path = rateLimitKey [ip, ba_normalizeEndpoint path]"

text \<open>\<^verbatim>\<open>parts[1]\<close> of an address with one part never arises: it contains a dot.\<close>

definition maskIp :: "string \<Rightarrow> string" where
  "maskIp ip =
     (if js_contains ip ''.''
      then (case js_split (CHR ''.'') ip of
              a # b # _ \<Rightarrow> a @ ''.'' @ b @ ''.*.*''
            | a # [] \<Rightarrow> a @ ''.undefined.*.*'' | [] \<Rightarrow> [])
      else hd (js_split (CHR '':'') ip) @ '':****'')"

definition ba_getStore :: "'r redis_env \<Rightarrow> ba_limiter \<Rightarrow> rl_store" where
  "ba_getStore env L =
     (case bl_store L of
        Some st \<Rightarrow> st
      | None \<Rightarrow> if env_enabled env
                then RedisStore (redis_new (env_prefix env) ''better-auth'' (int (ba_maxEntries (bl_config L))))
                else MemStore (mem_new (ba_maxEntries (bl_config L))))"

definition limit_result :: "int \<Rightarrow> rl_hit \<Rightarrow> rl_result" where
  "limit_result limit h = \<lparr>res_allowed = (int (hit_count h) \<le> limit), res_current = hit_count h,
     res_limit = Fin limit, res_remaining = Fin (max 0 (limit - int (hit_count h))),
     res_resetIn = hit_resetIn h\<rparr>"

definition ba_check :: "'r redis_env \<Rightarrow> string \<Rightarrow> string \<Rightarrow> int \<Rightarrow> ba_limiter \<times> 'r
    \<Rightarrow> rl_result \<times> ba_limiter \<times> 'r" where
  "ba_check env ip path now Lr =
     (case Lr of (L, r) \<Rightarrow>
        (let c = bl_config L
         in if \<not> ba_enabled c then (res_unlimited, L, r)
            else if ba_shouldSkip c path then (res_unlimited, L, r)
            else (let limit = ba_getLimit c path;
                      (h, st, r') = store_hit env (ba_getKey ip path) (ba_windowSeconds c) now (ba_getStore env L, r)
                  in (limit_result limit h, L\<lparr>bl_store := Some st\<rparr>, r'))))"

definition ba_reset :: "'r redis_env \<Rightarrow> string \<Rightarrow> ba_limiter \<times> 'r \<Rightarrow> (ba_limiter \<times> 'r) option" where
  "ba_reset env ip Lr =
     (case Lr of (L, r) \<Rightarrow>
        map_option (\<lambda>(st, r'). (L\<lparr>bl_store := Some st\<rparr>, r'))
          (store_resetByPrefix env (rateLimitKeyPrefix [ip]) (ba_getStore env L, r)))"

definition ba_clear :: "'r redis_env \<Rightarrow> ba_limiter \<times> 'r \<Rightarrow> (ba_limiter \<times> 'r) option" where
  "ba_clear env Lr =
     (case Lr of (L, r) \<Rightarrow>
        map_option (\<lambda>(st, r'). (L\<lparr>bl_store := Some st\<rparr>, r')) (store_clear env (ba_getStore env L, r)))"

definition ba_getStats :: "ba_limiter \<Rightarrow> int \<times> bool" where
  "ba_getStats L = (case bl_store L of None \<Rightarrow> 0 | Some st \<Rightarrow> store_size st, ba_enabled (bl_config L))"

definition ba_onModuleDestroy :: "ba_limiter \<Rightarrow> ba_limiter" where
  "ba_onModuleDestroy L = L\<lparr>bl_store := map_option store_destroy (bl_store L)\<rparr>"

subsection \<open>The legacy limiter\<close>

record legacy_config =
  lg_enabled :: bool
  lg_max :: int
  lg_message :: string
  lg_windowSeconds :: int

record legacy_input =
  li_enabled :: "bool option"
  li_max :: "int option"
  li_message :: "string option"
  li_windowSeconds :: "int option"

definition LEGACY_DEFAULT_CONFIG :: legacy_config where
  "LEGACY_DEFAULT_CONFIG = \<lparr>lg_enabled = False, lg_max = 10,
     lg_message = ''Too many requests, please try again later.'', lg_windowSeconds = 60\<rparr>"

record legacy_limiter =
  ll_config :: legacy_config
  ll_store :: "rl_store option"

definition legacy_configure :: "legacy_input option \<Rightarrow> legacy_limiter \<Rightarrow> legacy_limiter" where
  "legacy_configure config L =
     (case config of
        None \<Rightarrow> L
      | Some c \<Rightarrow> L\<lparr>ll_config := \<lparr>
          lg_enabled = (li_enabled c \<noteq> Some False),
          lg_max = opt (li_max c) (lg_max LEGACY_DEFAULT_CONFIG),
          lg_message = opt (li_message c) (lg_message LEGACY_DEFAULT_CONFIG),
          lg_windowSeconds = opt (li_windowSeconds c) (lg_windowSeconds LEGACY_DEFAULT_CONFIG)\<rparr>\<rparr>)"

text \<open>\<^verbatim>\<open>onModuleInit\<close> reads \<^verbatim>\<open>auth.rateLimit\<close> of the server configuration.\<close>

definition legacy_onModuleInit :: "legacy_input option \<Rightarrow> legacy_limiter \<Rightarrow> legacy_limiter" where
  "legacy_onModuleInit rateLimitConfig L =
     (if rateLimitConfig \<noteq> None then legacy_configure rateLimitConfig L else L)"

definition legacy_getStore :: "'r redis_env \<Rightarrow> legacy_limiter \<Rightarrow> rl_store" where
  "legacy_getStore env L =
     (case ll_store L of
        Some st \<Rightarrow> st
      | None \<Rightarrow> if env_enabled env then RedisStore (redis_new (env_prefix env) ''legacy-auth'' 10000)
                else MemStore (mem_new 10000))"

definition legacy_check :: "'r redis_env \<Rightarrow> string \<Rightarrow> string \<Rightarrow> int \<Rightarrow> legacy_limiter \<times> 'r
    \<Rightarrow> rl_result \<times> legacy_limiter \<times> 'r" where
  "legacy_check env ip endpoint now Lr =
     (case Lr of (L, r) \<Rightarrow>
        (let c = ll_config L
         in if \<not> lg_enabled c then (res_unlimited, L, r)
            else (let limit = lg_max c;
                      (h, st, r') = store_hit env (rateLimitKey [ip, endpoint]) (lg_windowSeconds c) now
                                      (legacy_getStore env L, r)
                  in (limit_result limit h, L\<lparr>ll_store := Some st\<rparr>, r'))))"

definition legacy_reset :: "'r redis_env \<Rightarrow> string \<Rightarrow> legacy_limiter \<times> 'r \<Rightarrow> (legacy_limiter \<times> 'r) option" where
  "legacy_reset env ip Lr =
     (case Lr of (L, r) \<Rightarrow>
        map_option (\<lambda>(st, r'). (L\<lparr>ll_store := Some st\<rparr>, r'))
          (store_resetByPrefix env (rateLimitKeyPrefix [ip]) (legacy_getStore env L, r)))"

definition legacy_clear :: "'r redis_env \<Rightarrow> legacy_limiter \<times> 'r \<Rightarrow> (legacy_limiter \<times> 'r) option" where
  "legacy_clear env Lr =
     (case Lr of (L, r) \<Rightarrow>
        map_option (\<lambda>(st, r'). (L\<lparr>ll_store := Some st\<rparr>, r')) (store_clear env (legacy_getStore env L, r)))"

definition legacy_getStats :: "legacy_limiter \<Rightarrow> int \<times> bool" where
  "legacy_getStats L = (case ll_store L of None \<Rightarrow> 0 | Some st \<Rightarrow> store_size st, lg_enabled (ll_config L))"

definition legacy_onModuleDestroy :: "legacy_limiter \<Rightarrow> legacy_limiter" where
  "legacy_onModuleDestroy L = L\<lparr>ll_store := map_option store_destroy (ll_store L)\<rparr>"


subsection \<open>Runs of requests\<close>

fun ba_run :: "'r redis_env \<Rightarrow> (string \<times> string \<times> int) list \<Rightarrow> ba_limiter \<times> 'r
    \<Rightarrow> rl_result list \<times> (ba_limiter \<times> 'r)" where
  "ba_run env [] Lr = ([], Lr)"
| "ba_run env ((ip, path, t) # evs) Lr =
     (let (res, Lr') = ba_check env ip path t Lr; (rs, Lr'') = ba_run env evs Lr' in (res # rs, Lr''))"

lemma ba_check_skip:
  "ba_enabled (bl_config L) \<Longrightarrow> ba_shouldSkip (bl_config L) path \<Longrightarrow>
     ba_check env ip path t (L, r) = (res_unlimited, L, r)"
  by (simp add: ba_check_def Let_def)

lemma ba_check_mem:
  assumes "ba_enabled (bl_config L)" "\<not> ba_shouldSkip (bl_config L) path" "bl_store L = Some (MemStore m)"
  shows "ba_check env ip path t (L, r) =
    (let (h, m') = mem_hit (ba_getKey ip path) (ba_windowSeconds (bl_config L)) t m
     in (limit_result (ba_getLimit (bl_config L) path) h, L\<lparr>bl_store := Some (MemStore m')\<rparr>, r))"
  using assms by (simp add: ba_check_def ba_getStore_def store_hit_def Let_def case_prod_unfold)

text \<open>The counted part of a run, as hits on the store.\<close>

definition ba_hits :: "ba_rl_config \<Rightarrow> (string \<times> string \<times> int) list \<Rightarrow> (string \<times> int \<times> int) list" where
  "ba_hits c evs = map (\<lambda>ev. (ba_getKey (fst ev) (fst (snd ev)), ba_windowSeconds c, snd (snd ev)))
     (filter (\<lambda>ev. \<not> ba_shouldSkip c (fst (snd ev))) evs)"

definition ba_allowed :: "string \<Rightarrow> string \<Rightarrow> (string \<times> string \<times> int) list \<Rightarrow> rl_result list \<Rightarrow> nat" where
  "ba_allowed ip path evs rs =
     length (filter (\<lambda>z. fst (fst z) = ip \<and> fst (snd (fst z)) = path \<and> res_allowed (snd z)) (zip evs rs))"

lemma ba_allowed_hits:
  assumes "ba_enabled (bl_config L)" "bl_store L = Some (MemStore m)" "\<not> ba_shouldSkip (bl_config L) path"
  shows "ba_allowed ip path evs (fst (ba_run env evs (L, r))) \<le>
    length (filter (\<lambda>x. fst x = ba_getKey ip path \<and> hit_count (snd x) \<le> nat (ba_getLimit (bl_config L) path))
      (fst (run_hits mem_hit (ba_hits (bl_config L) evs) m)))"
  using assms
proof (induction evs arbitrary: L m)
  case Nil
  then show ?case by (simp add: ba_allowed_def)
next
  case (Cons ev evs)
  obtain i p t where ev: "ev = (i, p, t)" by (cases ev)
  show ?case
  proof (cases "ba_shouldSkip (bl_config L) p")
    case True
    then have "p \<noteq> path" using Cons.prems by auto
    then show ?thesis
      using Cons.IH [OF Cons.prems] True ba_check_skip [OF Cons.prems(1) True, of env i t r] ev
      by (simp add: ba_allowed_def ba_hits_def Let_def case_prod_unfold)
  next
    case False
    obtain h m' where h: "mem_hit (ba_getKey i p) (ba_windowSeconds (bl_config L)) t m = (h, m')"
      by (cases "mem_hit (ba_getKey i p) (ba_windowSeconds (bl_config L)) t m")
    have pos: "0 < hit_count h" using mem_hit_count_pos [of "ba_getKey i p" _ t m] h by (metis fst_conv)
    show ?thesis
      using Cons.IH [of "L\<lparr>bl_store := Some (MemStore m')\<rparr>" m'] Cons.prems False ev h pos
        ba_check_mem [OF Cons.prems(1) False Cons.prems(2), of env i t r]
      by (auto simp: ba_allowed_def ba_hits_def Let_def case_prod_unfold limit_result_def)
  qed
qed

lemma ba_hits_before:
  "\<forall>ev \<in> set evs. snd (snd ev) < T \<Longrightarrow> \<forall>ev \<in> set (ba_hits c evs). snd (snd ev) < T"
  by (auto simp: ba_hits_def)

lemma mem_reset_lookup:
  "mem_inv m \<Longrightarrow> map_of (ms_store (mem_resetByPrefix (rateLimitKeyPrefix [ip]) m)) (rateLimitKey [ip', e]) =
     (if ip' = ip then None else map_of (ms_store m) (rateLimitKey [ip', e]))"
  by (auto simp: mem_resetByPrefix_def map_of_jsmap_filter mem_inv_def starts_with_key_prefix split: option.splits)

subsection \<open>Properties\<close>

text \<open>
  The limit holds: while a caller's window on an endpoint is open, whatever other callers and
  other endpoints are requested in between, the in-memory Better-Auth limiter allows at most the
  endpoint's limit (half of \<open>max\<close>, rounded up, for a strict endpoint) minus what the window has
  already counted.
\<close>

theorem ba_window_bound:
  assumes "mem_inv m" "bl_store L = Some (MemStore m)"
    and "ba_enabled (bl_config L)" "\<not> ba_shouldSkip (bl_config L) path"
    and "map_of (ms_store m) (ba_getKey ip path) = Some e"
    and "\<forall>ev \<in> set evs. snd (snd ev) < rl_reset e"
  shows "ba_allowed ip path evs (fst (ba_run env evs (L, r)))
           \<le> nat (ba_getLimit (bl_config L) path) - rl_count e"
  using order.trans [OF ba_allowed_hits [OF assms(3,2,4)]
      mem.allowed_bound [OF assms(1,5) ba_hits_before [OF assms(6)]]] .

definition demo_redis_env :: "(string \<Rightarrow> int option) redis_env" where
  "demo_redis_env = \<lparr>env_ops = demo_redis, env_link = Answered, env_enabled = False, env_prefix = ''p''\<rparr>"

definition demo_limiter :: ba_limiter where
  "demo_limiter = \<lparr>bl_config = BA_DEFAULT_CONFIG\<lparr>ba_enabled := True, ba_max := 1\<rparr>,
     bl_store = Some (MemStore (snd (mem_hit (ba_getKey ''1.2.3.4'' ''/x'') 60 0 (mem_new 10))))\<rparr>"

theorem ba_window_bound_witness:
  "ba_allowed ''1.2.3.4'' ''/x'' [(''1.2.3.4'', ''/x'', 5), (''9.9.9.9'', ''/x'', 6)]
     (fst (ba_run demo_redis_env [(''1.2.3.4'', ''/x'', 5), (''9.9.9.9'', ''/x'', 6)] (demo_limiter, Map.empty))) = 0"
proof -
  let ?m = "snd (mem_hit (ba_getKey ''1.2.3.4'' ''/x'') 60 0 (mem_new 10))"
  have "mem_inv ?m" by (intro mem_inv_hit mem_inv_new)
  moreover have "map_of (ms_store ?m) (ba_getKey ''1.2.3.4'' ''/x'') = Some \<lparr>rl_count = 1, rl_reset = 60000\<rparr>"
    by (simp add: mem_hit_def mem_start_def mem_new_def)
  moreover have "\<not> ba_shouldSkip (bl_config demo_limiter) ''/x''" "ba_getLimit (bl_config demo_limiter) ''/x'' = 1"
    by code_simp+
  ultimately show ?thesis
    using ba_window_bound [of ?m demo_limiter "''/x''" "''1.2.3.4''" "\<lparr>rl_count = 1, rl_reset = 60000\<rparr>"
        "[(''1.2.3.4'', ''/x'', 5), (''9.9.9.9'', ''/x'', 6)]" demo_redis_env Map.empty]
    by (simp del: ba_run.simps add: demo_limiter_def)
qed

text \<open>
  An administrative reset of one address clears every counter of that address and of no other:
  \<open>1.2.3.4\<close> cannot take \<open>1.2.3.40\<close> with it, nor an address that contains the separator.
\<close>

theorem ba_reset_isolated:
  assumes "mem_inv m" "bl_store L = Some (MemStore m)"
  shows "\<exists>m'. ba_reset env ip (L, r) = Some (L\<lparr>bl_store := Some (MemStore m')\<rparr>, r)
     \<and> (\<forall>ip' path. map_of (ms_store m') (ba_getKey ip' path) =
          (if ip' = ip then None else map_of (ms_store m) (ba_getKey ip' path)))"
  using assms by (auto simp: ba_reset_def ba_getStore_def store_resetByPrefix_def ba_getKey_def mem_reset_lookup)

theorem ba_reset_isolated_witness:
  "\<exists>m'. ba_reset demo_redis_env ''1.2.3.4'' (demo_limiter, Map.empty) =
          Some (demo_limiter\<lparr>bl_store := Some (MemStore m')\<rparr>, Map.empty)
     \<and> map_of (ms_store m') (ba_getKey ''1.2.3.4'' ''/x'') = None"
proof -
  let ?m = "snd (mem_hit (ba_getKey ''1.2.3.4'' ''/x'') 60 0 (mem_new 10))"
  have "mem_inv ?m" by (intro mem_inv_hit mem_inv_new)
  moreover have "bl_store demo_limiter = Some (MemStore ?m)" by (simp add: demo_limiter_def)
  ultimately show ?thesis
    using ba_reset_isolated [of ?m demo_limiter demo_redis_env "''1.2.3.4''" Map.empty] by auto
qed

text \<open>
  The two limiters agree: configured with the same numbers and sharing the same counters, the
  legacy limiter answers an endpoint name exactly as the Better-Auth limiter does when nothing is
  skipped and nothing is strict; both are armed by any configuration that does not say
  \<open>enabled: false\<close>, and both leave the state alone without one.
\<close>

theorem limiters_agree:
  assumes "in_skipEndpoints c = Some []" "in_strictEndpoints c = Some []"
    and "li_enabled c' = in_enabled c" "li_max c' = in_max c" "li_windowSeconds c' = in_windowSeconds c"
    and "ba_normalizeEndpoint endpoint = endpoint"
    and "bl_store L = Some st" "ll_store L' = Some st"
  shows "let (res, L1, r1) = ba_check env ip endpoint now (ba_configure (Some c) L, r);
             (res', L1', r1') = legacy_check env ip endpoint now (legacy_configure (Some c') L', r)
         in res = res' \<and> bl_store L1 = ll_store L1' \<and> r1 = r1'
            \<and> ba_enabled (bl_config L1) = (in_enabled c \<noteq> Some False)
            \<and> ba_configure None L = L \<and> legacy_configure None L' = L'"
  using assms
  by (simp add: ba_check_def legacy_check_def ba_configure_def legacy_configure_def ba_getStore_def
      legacy_getStore_def ba_shouldSkip_def ba_getLimit_def ba_getKey_def Let_def case_prod_unfold
      BA_DEFAULT_CONFIG_def LEGACY_DEFAULT_CONFIG_def)

theorem limiters_agree_witness:
  "fst (ba_check demo_redis_env ''ip'' ''signIn'' 0 (ba_configure (Some \<lparr>in_enabled = None, in_max = Some 3,
      in_maxEntries = None, in_message = None, in_skipEndpoints = Some [], in_strictEndpoints = Some [],
      in_windowSeconds = None\<rparr>) demo_limiter, Map.empty)) =
   fst (legacy_check demo_redis_env ''ip'' ''signIn'' 0 (legacy_configure (Some \<lparr>li_enabled = None, li_max = Some 3,
      li_message = None, li_windowSeconds = None\<rparr>)
      \<lparr>ll_config = LEGACY_DEFAULT_CONFIG, ll_store = bl_store demo_limiter\<rparr>, Map.empty))"
proof -
  have n: "ba_normalizeEndpoint ''signIn'' = ''signIn''" by code_simp
  obtain st where st: "bl_store demo_limiter = Some st" by (simp add: demo_limiter_def)
  show ?thesis
    using limiters_agree [OF _ _ _ _ _ n st, of
        "\<lparr>in_enabled = None, in_max = Some 3, in_maxEntries = None, in_message = None,
          in_skipEndpoints = Some [], in_strictEndpoints = Some [], in_windowSeconds = None\<rparr>"
        "\<lparr>li_enabled = None, li_max = Some 3, li_message = None, li_windowSeconds = None\<rparr>"
        "\<lparr>ll_config = LEGACY_DEFAULT_CONFIG, ll_store = bl_store demo_limiter\<rparr>" demo_redis_env "''ip''" 0 Map.empty]
    by (simp add: st Let_def case_prod_unfold)
qed

end
