(* ===== verification/Roles.thy ===== *)
theory Roles
  imports Prelude "HOL-Library.List_Lexorder" "HOL-Library.Char_ord"
begin

text \<open>
  Role names and the role vocabulary of the multi-tenancy configuration:
  \<^item> \<^verbatim>\<open>common/enums/role.enum.ts\<close>: the role constants and the predicates over role names;
  \<^item> \<^verbatim>\<open>modules/tenant/core-role-scope.registry.ts\<close>: \<open>scopeOf\<close>, \<open>split\<close>, \<open>conflicts\<close>;
  \<^item> \<^verbatim>\<open>modules/tenant/core-tenant.helpers.ts\<close>: the vocabulary check at boot, the split of
    required roles, \<open>checkRoleAccess\<close>.

  The configuration \<^verbatim>\<open>multiTenancy\<close> is an argument. A role hierarchy is a plain object, an
  insertion-ordered map from role to level. \<^verbatim>\<open>r in hierarchy\<close> also holds for the property names
  every object inherits (\<open>object_prototype\<close>); reading one of those gives a function, which every
  numeric use turns into NaN. A level read from the hierarchy is therefore an \<open>int option\<close> with
  \<open>None\<close> for NaN.
\<close>

subsection \<open>Role names\<close>

definition ADMIN :: string where "ADMIN = ''admin''"
definition S_CREATOR :: string where "S_CREATOR = ''s_creator''"
definition S_EVERYONE :: string where "S_EVERYONE = ''s_everyone''"
definition S_NO_ONE :: string where "S_NO_ONE = ''s_no_one''"
definition S_VERIFIED :: string where "S_VERIFIED = ''s_verified''"
definition S_SELF :: string where "S_SELF = ''s_self''"
definition S_USER :: string where "S_USER = ''s_user''"

definition SYSTEM_ROLE_PREFIX :: string where "SYSTEM_ROLE_PREFIX = ''s_''"

lemmas role_names = ADMIN_def S_CREATOR_def S_EVERYONE_def S_NO_ONE_def S_VERIFIED_def S_SELF_def S_USER_def

definition isSystemRole :: "string \<Rightarrow> bool" where
  "isSystemRole role = js_starts_with role SYSTEM_ROLE_PREFIX"

definition looksLikeSystemRole :: "string \<Rightarrow> bool" where
  "looksLikeSystemRole role = js_starts_with (js_lower (js_trim role)) SYSTEM_ROLE_PREFIX"

definition GLOBAL_ONLY_ROLES :: "string list" where
  "GLOBAL_ONLY_ROLES = [ADMIN]"

definition isGlobalOnlyRole :: "string \<Rightarrow> bool" where
  "isGlobalOnlyRole role = (role \<in> set GLOBAL_ONLY_ROLES)"

definition looksLikeGlobalOnlyRole :: "string \<Rightarrow> bool" where
  "looksLikeGlobalOnlyRole role =
     (let normalized = js_lower (js_trim role)
      in list_ex (\<lambda>globalRole. js_lower globalRole = normalized) GLOBAL_ONLY_ROLES)"

definition isForbiddenMembershipRole :: "string \<Rightarrow> bool" where
  "isForbiddenMembershipRole role = (looksLikeSystemRole role \<or> looksLikeGlobalOnlyRole role)"

text \<open>
  The pattern \<^verbatim>\<open>^(?!\s*s_)\<close> with flag \<^verbatim>\<open>i\<close>: no split of the input into leading white space and
  a rest that begins, in either case, with the prefix.
\<close>

definition SYSTEM_ROLE_REJECT_PATTERN_test :: "string \<Rightarrow> bool" where
  "SYSTEM_ROLE_REJECT_PATTERN_test s =
     (\<not> list_ex (\<lambda>n. list_all js_ws (take n s) \<and> prefix SYSTEM_ROLE_PREFIX (js_lower (drop n s)))
          [0..<Suc (length s)])"

subsection \<open>The configuration\<close>

record mt_config =
  mt_enabled :: "bool option"
  mt_headerName :: "string option"
  mt_adminBypass :: "bool option"
  mt_roleHierarchy :: "(string, int) jsmap option"
  mt_additionalMembershipRoles :: "string list option"
  mt_globalOnlyRoles :: "string list option"
  mt_strictMembershipRoles :: bool
  mt_cacheTtlMs :: "int option"
  mt_excludeSchemas :: "string list option"

definition DEFAULT_ROLE_HIERARCHY :: "(string, int) jsmap" where
  "DEFAULT_ROLE_HIERARCHY = [(''member'', 1), (''manager'', 2), (''owner'', 3)]"

definition getRoleHierarchy :: "mt_config option \<Rightarrow> (string, int) jsmap" where
  "getRoleHierarchy cfg =
     (case cfg of None \<Rightarrow> DEFAULT_ROLE_HIERARCHY
      | Some c \<Rightarrow> (case mt_roleHierarchy c of None \<Rightarrow> DEFAULT_ROLE_HIERARCHY | Some h \<Rightarrow> h))"

definition isMultiTenancyActive :: "mt_config option \<Rightarrow> bool" where
  "isMultiTenancyActive cfg = (case cfg of None \<Rightarrow> False | Some c \<Rightarrow> mt_enabled c \<noteq> Some False)"

definition object_prototype :: "string list" where
  "object_prototype = [''constructor'', ''__defineGetter__'', ''__defineSetter__'', ''hasOwnProperty'',
     ''__lookupGetter__'', ''__lookupSetter__'', ''isPrototypeOf'', ''propertyIsEnumerable'',
     ''toString'', ''valueOf'', ''__proto__'', ''toLocaleString'']"

definition js_in :: "string \<Rightarrow> (string, 'v) jsmap \<Rightarrow> bool" where
  "js_in k obj = (map_of obj k \<noteq> None \<or> k \<in> set object_prototype)"

text \<open>\<^verbatim>\<open>Math.min\<close> and \<^verbatim>\<open>>=\<close> on numbers that may be NaN.\<close>

definition js_min :: "int option list \<Rightarrow> int option" where
  "js_min xs = (if None \<in> set xs then None else Some (foldr min (map the (tl xs)) (the (hd xs))))"

definition js_ge :: "int option \<Rightarrow> int option \<Rightarrow> bool" where
  "js_ge a b = (case (a, b) of (Some x, Some y) \<Rightarrow> x \<ge> y | _ \<Rightarrow> False)"

definition isHierarchyRole :: "mt_config option \<Rightarrow> string \<Rightarrow> bool" where
  "isHierarchyRole cfg role =
     (if \<not> isMultiTenancyActive cfg then False else js_in role (getRoleHierarchy cfg))"

text \<open>\<open>None\<close> is \<^verbatim>\<open>undefined\<close>, \<open>Some None\<close> is NaN.\<close>

definition getMinRequiredLevel :: "mt_config option \<Rightarrow> string list \<Rightarrow> int option option" where
  "getMinRequiredLevel cfg roles =
     (let hierarchy = getRoleHierarchy cfg;
          levels = map (map_of hierarchy) (filter (\<lambda>r. js_in r hierarchy) roles)
      in if levels = [] then None else Some (js_min levels))"

definition mergeRolesMetadata :: "string list option \<Rightarrow> string list option \<Rightarrow> string list" where
  "mergeRolesMetadata handler cls =
     (case handler of
        Some h \<Rightarrow> (case cls of Some c \<Rightarrow> h @ c | None \<Rightarrow> h)
      | None \<Rightarrow> (case cls of Some c \<Rightarrow> c | None \<Rightarrow> []))"

definition checkRoleAccess ::
  "mt_config option \<Rightarrow> string list \<Rightarrow> string list option \<Rightarrow> string option \<Rightarrow> bool" where
  "checkRoleAccess cfg requiredRoles userRoles tenantRole =
     (let availableRoles = (if js_truthy tenantRole then [the tenantRole]
                            else case userRoles of None \<Rightarrow> [] | Some rs \<Rightarrow> rs)
      in if availableRoles = [] then False
         else
           (let hierarchy = (if isMultiTenancyActive cfg then getRoleHierarchy cfg else []);
                hierarchyRequired = filter (\<lambda>r. js_in r hierarchy) requiredRoles;
                nonHierarchyRequired = filter (\<lambda>r. \<not> js_in r hierarchy) requiredRoles
            in if hierarchyRequired = [] \<and> nonHierarchyRequired = [] then True
               else if hierarchyRequired \<noteq> []
                  \<and> (let minRequired = js_min (map (map_of hierarchy) hierarchyRequired)
                     in list_ex (\<lambda>r. js_in r hierarchy \<and> js_ge (map_of hierarchy r) minRequired) availableRoles)
                 then True
               else if nonHierarchyRequired \<noteq> []
                  \<and> list_ex (\<lambda>r. r \<in> set availableRoles) nonHierarchyRequired
                 then True
               else False))"

subsection \<open>The scope registry\<close>

datatype role_scope = GLOBAL | SYSTEM | TENANT | UNKNOWN

text \<open>A \<^verbatim>\<open>RoleScopeSource\<close>: its two methods read the configuration of the moment.\<close>

record role_source =
  src_globalRoles :: "mt_config option \<Rightarrow> string list"
  src_tenantRoles :: "mt_config option \<Rightarrow> string list"

definition hierarchy_and_additional :: "mt_config option \<Rightarrow> string list" where
  "hierarchy_and_additional cfg =
     map fst (getRoleHierarchy cfg)
     @ (case cfg of None \<Rightarrow> [] | Some c \<Rightarrow> (case mt_additionalMembershipRoles c of None \<Rightarrow> [] | Some a \<Rightarrow> a))"

definition declared_global :: "mt_config option \<Rightarrow> string list" where
  "declared_global cfg =
     (case cfg of None \<Rightarrow> [] | Some c \<Rightarrow> (case mt_globalOnlyRoles c of None \<Rightarrow> [] | Some g \<Rightarrow> g))"

definition configRoleScopeSource :: role_source where
  "configRoleScopeSource = \<lparr>src_globalRoles = declared_global, src_tenantRoles = hierarchy_and_additional\<rparr>"

text \<open>\<open>configSource\<close> of the registry reads the same configuration and is always consulted first.\<close>

definition registry_configSource :: role_source where
  "registry_configSource = \<lparr>src_globalRoles = declared_global, src_tenantRoles = hierarchy_and_additional\<rparr>"

type_synonym registry = "role_source list"

definition registry_clear :: "registry \<Rightarrow> registry" where
  "registry_clear reg = []"

definition registry_register :: "role_source \<Rightarrow> registry \<Rightarrow> registry" where
  "registry_register source reg = reg @ [source]"

definition collect_roles :: "mt_config option \<Rightarrow> registry \<Rightarrow> (role_source \<Rightarrow> mt_config option \<Rightarrow> string list) \<Rightarrow> string list" where
  "collect_roles cfg reg pick =
     remdups (filter (\<lambda>role. role \<noteq> []) (concat (map (\<lambda>source. pick source cfg) (registry_configSource # reg))))"

definition scopeOf :: "mt_config option \<Rightarrow> registry \<Rightarrow> string \<Rightarrow> role_scope" where
  "scopeOf cfg reg role =
     (if isSystemRole role \<or> looksLikeSystemRole role then SYSTEM
      else if role \<in> set GLOBAL_ONLY_ROLES \<or> role \<in> set (collect_roles cfg reg src_globalRoles) then GLOBAL
      else if role \<in> set (collect_roles cfg reg src_tenantRoles) then TENANT
      else UNKNOWN)"

definition isTenantRole :: "mt_config option \<Rightarrow> registry \<Rightarrow> string \<Rightarrow> bool" where
  "isTenantRole cfg reg role = (scopeOf cfg reg role = TENANT)"

definition hasTenantKnowledge :: "mt_config option \<Rightarrow> registry \<Rightarrow> bool" where
  "hasTenantKnowledge cfg reg = (length (collect_roles cfg reg src_tenantRoles) > 0)"

definition role_conflicts :: "mt_config option \<Rightarrow> registry \<Rightarrow> string list" where
  "role_conflicts cfg reg =
     sort (filter (\<lambda>role. role \<in> set (collect_roles cfg reg src_tenantRoles)) (collect_roles cfg reg src_globalRoles))"

record role_split =
  sp_global :: "string list"
  sp_system :: "string list"
  sp_tenant :: "string list"
  sp_unknown :: "string list"

fun split_roles :: "mt_config option \<Rightarrow> registry \<Rightarrow> string list \<Rightarrow> role_split \<Rightarrow> role_split" where
  "split_roles cfg reg [] result = result"
| "split_roles cfg reg (role # rest) result =
     split_roles cfg reg rest
       (case scopeOf cfg reg role of
          GLOBAL \<Rightarrow> result\<lparr>sp_global := sp_global result @ [role]\<rparr>
        | SYSTEM \<Rightarrow> result\<lparr>sp_system := sp_system result @ [role]\<rparr>
        | TENANT \<Rightarrow> result\<lparr>sp_tenant := sp_tenant result @ [role]\<rparr>
        | UNKNOWN \<Rightarrow> result\<lparr>sp_unknown := sp_unknown result @ [role]\<rparr>)"

definition registry_split :: "mt_config option \<Rightarrow> registry \<Rightarrow> string list \<Rightarrow> role_split" where
  "registry_split cfg reg requiredRoles =
     split_roles cfg reg requiredRoles \<lparr>sp_global = [], sp_system = [], sp_tenant = [], sp_unknown = []\<rparr>"

subsection \<open>The split the guards use\<close>

definition goes_global :: "mt_config option \<Rightarrow> registry \<Rightarrow> string \<Rightarrow> bool" where
  "goes_global cfg reg role = (scopeOf cfg reg role = GLOBAL \<or> isGlobalOnlyRole role)"

definition resolveGlobalAndTenantRoles :: "mt_config option \<Rightarrow> registry \<Rightarrow> string list \<Rightarrow> string list \<times> string list" where
  "resolveGlobalAndTenantRoles cfg reg requiredRoles =
     (filter (goes_global cfg reg) requiredRoles, filter (\<lambda>r. \<not> goes_global cfg reg r) requiredRoles)"

definition tenantSatisfiableRoles :: "mt_config option \<Rightarrow> registry \<Rightarrow> string list \<Rightarrow> string list" where
  "tenantSatisfiableRoles cfg reg requiredRoles =
     (let candidates = snd (resolveGlobalAndTenantRoles cfg reg requiredRoles)
      in if \<not> (case cfg of None \<Rightarrow> False | Some c \<Rightarrow> mt_strictMembershipRoles c) then candidates
         else filter (isTenantRole cfg reg) candidates)"

subsection \<open>The vocabulary check at boot\<close>

datatype vocabulary_error =
    ReservedTenantRole "string list"
  | DeclaredTwice "string list"
  | SystemGlobal "string list"

definition assertRoleVocabularyIsCoherent :: "mt_config option \<Rightarrow> vocabulary_error + unit" where
  "assertRoleVocabularyIsCoherent cfg =
     (case cfg of
        None \<Rightarrow> Inr ()
      | Some c \<Rightarrow>
          if mt_enabled c = Some False then Inr ()
          else
            (let hierarchy = map fst (case mt_roleHierarchy c of None \<Rightarrow> DEFAULT_ROLE_HIERARCHY | Some h \<Rightarrow> h);
                 additional = (case mt_additionalMembershipRoles c of None \<Rightarrow> [] | Some a \<Rightarrow> a);
                 declaredGlobal = (case mt_globalOnlyRoles c of None \<Rightarrow> [] | Some g \<Rightarrow> g);
                 reserved = filter isForbiddenMembershipRole (hierarchy @ additional);
                 both = filter (\<lambda>role. role \<in> set hierarchy \<or> role \<in> set additional) declaredGlobal;
                 systemGlobals = filter looksLikeSystemRole declaredGlobal
             in if reserved \<noteq> [] then Inl (ReservedTenantRole reserved)
                else if both \<noteq> [] then Inl (DeclaredTwice both)
                else if systemGlobals \<noteq> [] then Inl (SystemGlobal systemGlobals)
                else Inr ()))"


subsection \<open>Lemmas on role names\<close>

lemma trim_prefix2:
  assumes "js_ws ` {a, b} = {False}"
  shows "rev (dropWhile js_ws (rev (a # b # u))) = a # b # rev (dropWhile js_ws (rev u))"
proof -
  have "\<not> js_ws a" "\<not> js_ws b" using assms by auto
  then have "dropWhile js_ws (rev u @ [b, a]) = dropWhile js_ws (rev u) @ [b, a]"
    by (cases "\<forall>x \<in> set (rev u). js_ws x") (auto simp: dropWhile_append)
  then show ?thesis by simp
qed

lemma rstrip_prefix: "prefix (rev (dropWhile P (rev s))) s"
  by (metis rev_rev_ident suffix_dropWhile suffix_to_prefix)

text \<open>No white-space character folds to a character of the prefix.\<close>

lemma lower_prefix_not_ws: "js_lower_char c \<in> {CHR ''s'', CHR ''_''} \<Longrightarrow> \<not> js_ws c"
proof -
  assume a: "js_lower_char c \<in> {CHR ''s'', CHR ''_''}"
  have "js_ws c \<Longrightarrow> js_lower_char c = c"
    by (auto simp: js_ws_def js_lower_char_def Let_def)
  moreover have "\<not> js_ws (CHR ''s'')" "\<not> js_ws (CHR ''_'')" by code_simp+
  ultimately show ?thesis using a by auto
qed

lemma lower_prefixE:
  assumes "prefix SYSTEM_ROLE_PREFIX (js_lower t)"
  obtains a b u where "t = a # b # u" "js_lower_char a = CHR ''s''" "js_lower_char b = CHR ''_''"
  using assms
  by (cases t rule: list.exhaust; cases "tl t") (auto simp: SYSTEM_ROLE_PREFIX_def js_lower_def)

lemma looksLikeSystemRole_iff:
  "looksLikeSystemRole role = prefix SYSTEM_ROLE_PREFIX (js_lower (dropWhile js_ws role))"
proof
  assume "looksLikeSystemRole role"
  then have "prefix SYSTEM_ROLE_PREFIX (map js_lower_char (rev (dropWhile js_ws (rev (dropWhile js_ws role)))))"
    by (simp add: looksLikeSystemRole_def js_starts_with_def js_trim_def js_lower_def)
  then show "prefix SYSTEM_ROLE_PREFIX (js_lower (dropWhile js_ws role))"
    unfolding js_lower_def
    by (meson map_mono_prefix prefix_order.trans rstrip_prefix)
next
  assume "prefix SYSTEM_ROLE_PREFIX (js_lower (dropWhile js_ws role))"
  then obtain a b u where t: "dropWhile js_ws role = a # b # u"
    and ab: "js_lower_char a = CHR ''s''" "js_lower_char b = CHR ''_''"
    by (rule lower_prefixE)
  have "js_ws ` {a, b} = {False}" using lower_prefix_not_ws [of a] lower_prefix_not_ws [of b] ab by auto
  then show "looksLikeSystemRole role"
    using ab
    by (simp add: looksLikeSystemRole_def js_trim_def t trim_prefix2 js_lower_def js_starts_with_def
        SYSTEM_ROLE_PREFIX_def del: rev.simps(2))
qed

lemma isSystemRole_looksLike: "isSystemRole role \<Longrightarrow> looksLikeSystemRole role"
proof -
  assume "isSystemRole role"
  then obtain u where "role = CHR ''s'' # CHR ''_'' # u"
    by (auto simp: isSystemRole_def js_starts_with_def SYSTEM_ROLE_PREFIX_def elim: prefixE)
  moreover have "\<not> js_ws (CHR ''s'')" "js_lower_char (CHR ''s'') = CHR ''s''"
    "js_lower_char (CHR ''_'') = CHR ''_''" by code_simp+
  ultimately show ?thesis
    by (simp add: looksLikeSystemRole_iff SYSTEM_ROLE_PREFIX_def js_lower_def)
qed

lemma takeWhile_split: "list_all P (take n s) \<Longrightarrow> \<not> P x \<Longrightarrow> drop n s = x # u \<Longrightarrow> dropWhile P s = x # u"
proof -
  assume a: "list_all P (take n s)" "\<not> P x" "drop n s = x # u"
  have "dropWhile P (take n s @ drop n s) = dropWhile P (drop n s)"
    using a(1) by (intro dropWhile_append2) (auto simp: list_all_iff)
  then show ?thesis using a(2,3) by (metis append_take_drop_id dropWhile.simps(2))
qed

subsection \<open>Lemmas on role access\<close>

lemma js_min_numbers:
  "xs \<noteq> [] \<Longrightarrow> None \<notin> set xs \<Longrightarrow> js_min xs = Some (Min (the ` set xs))"
proof -
  assume "xs \<noteq> []" "None \<notin> set xs"
  then obtain y ys where xs: "xs = y # ys" by (cases xs) auto
  have "foldr min (map the ys) (the y) = Min (set (the y # map the ys))"
    by (induction ys) (auto simp: min_def insert_commute Min_insert2 intro: Min_insert [THEN trans])
  then show ?thesis using xs \<open>None \<notin> set xs\<close> by (simp add: js_min_def)
qed

lemma js_ge_min:
  assumes "xs \<noteq> []" "None \<notin> set xs"
  shows "js_ge a (js_min xs) \<longleftrightarrow> (\<exists>x \<in> set xs. js_ge a x)"
proof (cases a)
  case None
  then show ?thesis by (simp add: js_ge_def)
next
  case (Some n)
  have "js_ge (Some n) x \<longleftrightarrow> the x \<le> n" if "x \<in> set xs" for x
    by (cases x) (use that assms(2) in \<open>auto simp: js_ge_def\<close>)
  then show ?thesis
    using assms Some by (simp add: js_min_numbers js_ge_def [of "Some n" "Some _"] Min_le_iff)
qed

lemma js_ge_SomeD: "js_ge a b \<Longrightarrow> a \<noteq> None \<and> b \<noteq> None"
  by (auto simp: js_ge_def split: option.splits)

text \<open>The declarative reading of a role check: one available role answers one required role.\<close>

definition role_grants :: "(string, int) jsmap \<Rightarrow> string \<Rightarrow> string \<Rightarrow> bool" where
  "role_grants h a r =
     (case map_of h r of
        Some needed \<Rightarrow> (case map_of h a of Some level \<Rightarrow> level \<ge> needed | None \<Rightarrow> False)
      | None \<Rightarrow> a = r)"

lemma role_grants_level: "map_of h r = Some n \<Longrightarrow> js_ge (map_of h a) (Some n) = role_grants h a r"
  by (auto simp: js_ge_def role_grants_def split: option.splits)

lemma role_grants_exact: "map_of h r = None \<Longrightarrow> role_grants h a r = (a = r)"
  by (simp add: role_grants_def)

definition active_hierarchy :: "mt_config option \<Rightarrow> (string, int) jsmap" where
  "active_hierarchy cfg = (if isMultiTenancyActive cfg then getRoleHierarchy cfg else [])"

definition available_roles :: "string list option \<Rightarrow> string option \<Rightarrow> string list" where
  "available_roles userRoles tenantRole =
     (if js_truthy tenantRole then [the tenantRole] else case userRoles of None \<Rightarrow> [] | Some rs \<Rightarrow> rs)"

definition plain_names :: "string list \<Rightarrow> bool" where
  "plain_names rs = list_all (\<lambda>r. r \<notin> set object_prototype) rs"

lemma js_in_plain: "k \<notin> set object_prototype \<Longrightarrow> js_in k h \<longleftrightarrow> map_of h k \<noteq> None"
  by (simp add: js_in_def)

lemma if_chain: "(if A then False else if B then True else if C then True else if D then True else False)
    = (\<not> A \<and> (B \<or> C \<or> D))"
  by simp

lemma disjunct_shape:
  "R = (H \<and> A' \<or> B') \<Longrightarrow> B = B' \<Longrightarrow> (B \<Longrightarrow> N) \<Longrightarrow> (H \<Longrightarrow> A = A')
     \<Longrightarrow> (V \<and> (E \<or> H \<and> A \<or> N \<and> B)) = (V \<and> (E \<or> R))"
  by blast

lemma filter_both_Nil: "(filter P xs = [] \<and> filter (\<lambda>x. \<not> P x) xs = []) = (xs = [])"
  by (induction xs) auto

lemma checkRoleAccess_unfold:
  "checkRoleAccess cfg req userRoles tenantRole \<longleftrightarrow>
    (let av = available_roles userRoles tenantRole; h = active_hierarchy cfg;
         hreq = filter (\<lambda>r. js_in r h) req; nreq = filter (\<lambda>r. \<not> js_in r h) req
     in av \<noteq> [] \<and> (req = []
        \<or> hreq \<noteq> [] \<and> (\<exists>a \<in> set av. js_in a h \<and> js_ge (map_of h a) (js_min (map (map_of h) hreq)))
        \<or> nreq \<noteq> [] \<and> (\<exists>r \<in> set nreq. r \<in> set av)))"
  unfolding checkRoleAccess_def available_roles_def [symmetric] active_hierarchy_def [symmetric] Let_def
  by (simp only: if_chain filter_both_Nil list_ex_iff)

lemma checkRoleAccess_spec:
  assumes "plain_names req"
  shows "checkRoleAccess cfg req userRoles tenantRole \<longleftrightarrow>
    available_roles userRoles tenantRole \<noteq> [] \<and>
    (req = [] \<or> (\<exists>a \<in> set (available_roles userRoles tenantRole). \<exists>r \<in> set req. role_grants (active_hierarchy cfg) a r))"
    (is "?l \<longleftrightarrow> ?av \<noteq> [] \<and> (req = [] \<or> ?r)")
proof -
  let ?h = "active_hierarchy cfg"
  let ?hreq = "filter (\<lambda>r. js_in r ?h) req"
  have in_req: "\<And>r. r \<in> set req \<Longrightarrow> js_in r ?h \<longleftrightarrow> map_of ?h r \<noteq> None"
    using assms by (auto simp: plain_names_def list_all_iff js_in_plain)
  have none: "None \<notin> set (map (map_of ?h) ?hreq)" using in_req by (auto simp: eq_commute [of None])
  have lvl: "?hreq \<noteq> [] \<Longrightarrow> (js_in a ?h \<and> js_ge (map_of ?h a) (js_min (map (map_of ?h) ?hreq))) \<longleftrightarrow>
      (\<exists>r \<in> set req. map_of ?h r \<noteq> None \<and> role_grants ?h a r)" for a
  proof -
    assume "?hreq \<noteq> []"
    then have "js_ge (map_of ?h a) (js_min (map (map_of ?h) ?hreq)) \<longleftrightarrow>
        (\<exists>r \<in> set ?hreq. js_ge (map_of ?h a) (map_of ?h r))"
      using js_ge_min [OF _ none, of "map_of ?h a"] by auto
    also have "\<dots> \<longleftrightarrow> (\<exists>r \<in> set req. map_of ?h r \<noteq> None \<and> role_grants ?h a r)"
      using in_req by (fastforce simp: role_grants_level)
    finally show ?thesis by (metis js_ge_SomeD js_in_def)
  qed
  have exact: "(\<exists>r \<in> set (filter (\<lambda>r. \<not> js_in r ?h) req). r \<in> set ?av) \<longleftrightarrow>
      (\<exists>a \<in> set ?av. \<exists>r \<in> set req. map_of ?h r = None \<and> role_grants ?h a r)"
  proof -
    have "(\<exists>r \<in> set (filter (\<lambda>r. \<not> js_in r ?h) req). r \<in> set ?av) \<longleftrightarrow>
        (\<exists>r \<in> set req. map_of ?h r = None \<and> r \<in> set ?av)"
      using in_req by auto
    also have "\<dots> \<longleftrightarrow> (\<exists>a \<in> set ?av. \<exists>r \<in> set req. map_of ?h r = None \<and> role_grants ?h a r)"
      using role_grants_exact by metis
    finally show ?thesis .
  qed
  have nonempty: "(\<exists>r \<in> set (filter (\<lambda>r. \<not> js_in r ?h) req). r \<in> set ?av) \<Longrightarrow>
      filter (\<lambda>r. \<not> js_in r ?h) req \<noteq> []" by (metis empty_iff empty_set)
  have level: "?hreq \<noteq> [] \<Longrightarrow>
      (\<exists>a \<in> set ?av. js_in a ?h \<and> js_ge (map_of ?h a) (js_min (map (map_of ?h) ?hreq))) \<longleftrightarrow>
      (\<exists>a \<in> set ?av. \<exists>r \<in> set req. map_of ?h r \<noteq> None \<and> role_grants ?h a r)"
    by (rule bex_cong [OF refl]) (rule lvl)
  have either: "?r \<longleftrightarrow> (?hreq \<noteq> [] \<and> (\<exists>a \<in> set ?av. \<exists>r \<in> set req. map_of ?h r \<noteq> None \<and> role_grants ?h a r))
      \<or> (\<exists>a \<in> set ?av. \<exists>r \<in> set req. map_of ?h r = None \<and> role_grants ?h a r)"
    using in_req by (fastforce simp: filter_empty_conv)
  show ?thesis
    unfolding checkRoleAccess_unfold Let_def
    by (rule disjunct_shape [OF either exact nonempty level])
qed

subsection \<open>Lemmas on scopes\<close>

lemma collect_config:
  assumes "set reg \<subseteq> {configRoleScopeSource}"
  shows "set (collect_roles cfg reg src_globalRoles) = set (declared_global cfg) - {[]}"
    and "set (collect_roles cfg reg src_tenantRoles) = set (hierarchy_and_additional cfg) - {[]}"
  using assms by (auto simp: collect_roles_def registry_configSource_def configRoleScopeSource_def)

lemma goes_global_iff: "goes_global cfg reg role \<Longrightarrow> looksLikeSystemRole role \<Longrightarrow> role \<in> set GLOBAL_ONLY_ROLES"
  by (auto simp: goes_global_def scopeOf_def isGlobalOnlyRole_def)

lemma looksLikeGlobal_of_global: "role \<in> set GLOBAL_ONLY_ROLES \<Longrightarrow> looksLikeGlobalOnlyRole role"
proof -
  have "looksLikeGlobalOnlyRole ADMIN" by code_simp
  then show "role \<in> set GLOBAL_ONLY_ROLES \<Longrightarrow> looksLikeGlobalOnlyRole role"
    by (simp add: GLOBAL_ONLY_ROLES_def)
qed

lemma coherentD:
  assumes "assertRoleVocabularyIsCoherent (Some c) = Inr ()" "mt_enabled c \<noteq> Some False"
  shows "\<forall>r \<in> set (hierarchy_and_additional (Some c)). \<not> isForbiddenMembershipRole r"
    and "set (declared_global (Some c)) \<inter> set (hierarchy_and_additional (Some c)) = {}"
    and "\<forall>r \<in> set (declared_global (Some c)). \<not> looksLikeSystemRole r"
  using assms
  by (auto simp: assertRoleVocabularyIsCoherent_def hierarchy_and_additional_def declared_global_def
      getRoleHierarchy_def Let_def filter_empty_conv split: if_splits)

subsection \<open>Properties\<close>

text \<open>
  The input-validation pattern accepts a role name exactly when the storage guards do not take it
  for a system role: leading white space and letter case are seen the same way by both.
\<close>

theorem reject_pattern_mirrors: "SYSTEM_ROLE_REJECT_PATTERN_test s = (\<not> looksLikeSystemRole s)"
proof
  assume t: "SYSTEM_ROLE_REJECT_PATTERN_test s"
  let ?n = "length (takeWhile js_ws s)"
  have "take ?n s = takeWhile js_ws s" "drop ?n s = dropWhile js_ws s"
    by (metis append_eq_conv_conj takeWhile_dropWhile_id)+
  moreover have "?n \<in> set [0..<Suc (length s)]"
    using length_takeWhile_le [of js_ws s] by auto
  moreover have "list_all js_ws (takeWhile js_ws s)" by (auto simp: list_all_iff dest: set_takeWhileD)
  ultimately have "\<not> prefix SYSTEM_ROLE_PREFIX (js_lower (dropWhile js_ws s))"
    using t unfolding SYSTEM_ROLE_REJECT_PATTERN_test_def list_ex_iff by metis
  then show "\<not> looksLikeSystemRole s" by (simp add: looksLikeSystemRole_iff)
next
  assume l: "\<not> looksLikeSystemRole s"
  have False if n: "list_all js_ws (take n s)" "prefix SYSTEM_ROLE_PREFIX (js_lower (drop n s))" for n
  proof -
    obtain a b u where t: "drop n s = a # b # u" and a: "js_lower_char a = CHR ''s''"
      using n(2) by (rule lower_prefixE)
    then have "dropWhile js_ws s = drop n s"
      using takeWhile_split [OF n(1) _ t] lower_prefix_not_ws [of a] by simp
    then show False using l n(2) by (simp add: looksLikeSystemRole_iff)
  qed
  then show "SYSTEM_ROLE_REJECT_PATTERN_test s"
    unfolding SYSTEM_ROLE_REJECT_PATTERN_test_def list_ex_iff by blast
qed

text \<open>
  The role check computes what its documentation promises: access is given when one of the
  caller's roles answers one of the required roles, a hierarchy role by a level at least as high and
  any other role by being the same name; no required role means any caller with a role. The required
  names are assumed not to be property names every object inherits.
\<close>

theorem role_access_spec:
  assumes "plain_names req"
  shows "checkRoleAccess cfg req userRoles tenantRole =
    (available_roles userRoles tenantRole \<noteq> [] \<and>
     (req = [] \<or> (\<exists>a \<in> set (available_roles userRoles tenantRole).
        \<exists>r \<in> set req. role_grants (active_hierarchy cfg) a r)))"
  using checkRoleAccess_spec [OF assms] by simp

definition demo_mt :: mt_config where
  "demo_mt = \<lparr>mt_enabled = None, mt_headerName = None, mt_adminBypass = None, mt_roleHierarchy = None,
     mt_additionalMembershipRoles = None, mt_globalOnlyRoles = Some [''auditor''],
     mt_strictMembershipRoles = False, mt_cacheTtlMs = Some 30000, mt_excludeSchemas = None\<rparr>"

theorem role_access_spec_witness:
  "checkRoleAccess (Some demo_mt) [''manager'', ''editor''] None (Some ''owner'')
   \<and> \<not> checkRoleAccess (Some demo_mt) [''manager'', ''editor''] None (Some ''member'')"
proof -
  have p: "plain_names [''manager'', ''editor'']" by code_simp
  have h: "active_hierarchy (Some demo_mt) = DEFAULT_ROLE_HIERARCHY"
    by (simp add: active_hierarchy_def isMultiTenancyActive_def getRoleHierarchy_def demo_mt_def)
  show ?thesis
    unfolding role_access_spec [OF p] h
    by (simp add: available_roles_def role_grants_def DEFAULT_ROLE_HIERARCHY_def)
qed

text \<open>
  A required role named like an inherited object property (\<open>constructor\<close>, \<open>toString\<close>, ...) and
  absent from the hierarchy counts as a hierarchy role whose level is not a number: it makes every
  level comparison of the same list fail, so an owner no longer satisfies \<open>member\<close>, and it is not
  satisfied by a caller who carries that very name.
\<close>

theorem inherited_name_disables_levels:
  assumes "r \<in> set req" "r \<in> set object_prototype" "map_of (active_hierarchy cfg) r = None"
  shows "checkRoleAccess cfg req userRoles tenantRole =
    (\<exists>a \<in> set (available_roles userRoles tenantRole). a \<in> set req \<and> \<not> js_in a (active_hierarchy cfg))"
proof -
  let ?h = "active_hierarchy cfg"
  have mem: "r \<in> set (filter (\<lambda>r. js_in r ?h) req)" using assms by (simp add: js_in_def)
  then have "None \<in> set (map (map_of ?h) (filter (\<lambda>r. js_in r ?h) req))"
    using assms(3) by (metis image_eqI list.set_map)
  then have "js_min (map (map_of ?h) (filter (\<lambda>r. js_in r ?h) req)) = None"
    by (simp add: js_min_def)
  moreover have "js_ge x None = False" for x by (simp add: js_ge_def split: option.splits)
  ultimately show ?thesis
    using assms(1) by (auto simp: checkRoleAccess_unfold Let_def filter_empty_conv)
qed

theorem inherited_name_disables_levels_witness:
  "\<not> checkRoleAccess (Some demo_mt) [''constructor'', ''member''] (Some [''constructor'', ''owner'']) None"
proof -
  have "''constructor'' \<in> set object_prototype" by (simp add: object_prototype_def)
  moreover have "active_hierarchy (Some demo_mt) = DEFAULT_ROLE_HIERARCHY"
    by (simp add: active_hierarchy_def isMultiTenancyActive_def getRoleHierarchy_def demo_mt_def)
  ultimately show ?thesis
    using inherited_name_disables_levels [of "''constructor''" "[''constructor'', ''member'']" "Some demo_mt"
        "Some [''constructor'', ''owner'']" None]
    by (auto simp: DEFAULT_ROLE_HIERARCHY_def available_roles_def js_in_def)
qed

text \<open>
  A vocabulary that passes the boot check resolves without ambiguity: with only the configuration
  as a source there is no role of two scopes, every declared global role is global, and every
  hierarchy or additional role is a tenant role that a membership may satisfy.
\<close>

theorem coherent_vocabulary_scopes:
  assumes "assertRoleVocabularyIsCoherent (Some c) = Inr ()" "mt_enabled c \<noteq> Some False"
    and "set reg \<subseteq> {configRoleScopeSource}"
  shows "role_conflicts (Some c) reg = []
    \<and> (\<forall>r \<in> set (declared_global (Some c)). r \<noteq> [] \<longrightarrow> scopeOf (Some c) reg r = GLOBAL
          \<and> tenantSatisfiableRoles (Some c) reg [r] = [])
    \<and> (\<forall>r \<in> set (hierarchy_and_additional (Some c)). r \<noteq> [] \<longrightarrow> scopeOf (Some c) reg r = TENANT
          \<and> tenantSatisfiableRoles (Some c) reg [r] = [r])"
proof -
  note D = coherentD [OF assms(1,2)] and K = collect_config [OF assms(3), of "Some c"]
  have c1: "role_conflicts (Some c) reg = []"
  proof -
    have "filter (\<lambda>role. role \<in> set (collect_roles (Some c) reg src_tenantRoles))
        (collect_roles (Some c) reg src_globalRoles) = []"
      using D(2) K by (auto simp: filter_empty_conv)
    then show ?thesis by (simp add: role_conflicts_def)
  qed
  have g: "scopeOf (Some c) reg r = GLOBAL" if "r \<in> set (declared_global (Some c))" "r \<noteq> []" for r
    using that D(3) K isSystemRole_looksLike [of r] by (auto simp: scopeOf_def)
  have t: "scopeOf (Some c) reg r = TENANT" "\<not> goes_global (Some c) reg r"
    if "r \<in> set (hierarchy_and_additional (Some c))" "r \<noteq> []" for r
    using that D(1,2) K isSystemRole_looksLike [of r] looksLikeGlobal_of_global [of r]
    by (auto simp: scopeOf_def isForbiddenMembershipRole_def goes_global_def isGlobalOnlyRole_def)
  show ?thesis
    using c1 g t by (auto simp: tenantSatisfiableRoles_def resolveGlobalAndTenantRoles_def goes_global_def
        isTenantRole_def Let_def)
qed

theorem coherent_vocabulary_scopes_witness:
  "scopeOf (Some demo_mt) [configRoleScopeSource] ''owner'' = TENANT
   \<and> scopeOf (Some demo_mt) [configRoleScopeSource] ''auditor'' = GLOBAL"
proof -
  have "assertRoleVocabularyIsCoherent (Some demo_mt) = Inr ()" by code_simp
  moreover have "''auditor'' \<in> set (declared_global (Some demo_mt))"
    "''owner'' \<in> set (hierarchy_and_additional (Some demo_mt))" by code_simp+
  ultimately show ?thesis
    using coherent_vocabulary_scopes [of demo_mt "[configRoleScopeSource]"] by (auto simp: demo_mt_def)
qed

end
