(* ===== verification/TenantGuard.thy ===== *)
theory TenantGuard
  imports Roles
begin

text \<open>
  \<^verbatim>\<open>modules/tenant/core-tenant.guard.ts\<close>: the guard that establishes the tenant of a request
  and checks the non-system roles, with its two caches.

  \<^item> The membership collection is a parameter: \<open>member_db\<close> holds the two queries the guard runs,
    \<^verbatim>\<open>findOne\<close> and \<^verbatim>\<open>find\<close> restricted to \<^verbatim>\<open>ACTIVE\<close> memberships.
  \<^item> \<open>guard_env\<close> is what a call reads: the configuration (with \<open>ge_cfgRef\<close> the identity of the
    object, which the code compares), the role registry, the database and the clock before and
    after the database answered.
  \<^item> \<open>guard_state\<close> is what the guard keeps between calls: the caches and the TTL in force.
  \<^item> A request is a record; a call returns the exception it throws or the request as it left it,
    and the new guard state. Calls run one at a time; interleaving at an \<^verbatim>\<open>await\<close> is not modelled.
\<close>

subsection \<open>Data\<close>

datatype member_status = ACTIVE | INVITED | SUSPENDED

record member =
  mb_tenant :: string
  mb_user :: string
  mb_role :: string
  mb_status :: member_status

record user =
  u_id :: string
  u_roles :: "string list option"
  u_verified :: bool
  u_verifiedAt :: bool
  u_emailVerified :: bool

record request =
  rq_headers :: "(string, string) jsmap"
  rq_user :: "user option"
  rq_tenantId :: "string option"
  rq_tenantRole :: "string option"
  rq_tenantIds :: "string list option"
  rq_isAdminBypass :: bool

record member_db =
  db_findActive :: "string \<Rightarrow> string \<Rightarrow> member option"
  db_findAllActive :: "string \<Rightarrow> member list"

datatype ba_option = BaUndefined | BaBool bool | BaObject "bool option"

record guard_env =
  ge_cfg :: "mt_config option"
  ge_cfgRef :: nat
  ge_registry :: registry
  ge_betterAuth :: ba_option
  ge_db :: member_db
  ge_now :: int
  ge_later :: int
  ge_testEnv :: bool

record guard_state =
  gs_membershipCache :: "(string, int \<times> member) jsmap"
  gs_tenantIdsCache :: "(string, int \<times> string list) jsmap"
  gs_cacheTtlMs :: int
  gs_lastSeenConfig :: "nat option"

definition guard_new :: guard_state where
  "guard_new = \<lparr>gs_membershipCache = [], gs_tenantIdsCache = [], gs_cacheTtlMs = 30000, gs_lastSeenConfig = None\<rparr>"

text \<open>What the execution context says of the handler, as the reflector reads it.\<close>

record handler_ctx =
  hx_handlerRoles :: "string list option"
  hx_classRoles :: "string list option"
  hx_skipTenantCheck :: bool
  hx_betterAuth :: bool

datatype http_error = Unauthorized string | Forbidden string

definition UNAUTHORIZED :: string where "UNAUTHORIZED = ''UNAUTHORIZED''"
definition ACCESS_DENIED :: string where "ACCESS_DENIED = ''ACCESS_DENIED''"

subsection \<open>Caches\<close>

definition MAX_CACHE_SIZE :: nat where "MAX_CACHE_SIZE = 500"

definition evictIfOverCapacity :: "(string, 'v) jsmap \<Rightarrow> (string, 'v) jsmap" where
  "evictIfOverCapacity cache =
     (if length cache \<ge> MAX_CACHE_SIZE then drop (max 1 (MAX_CACHE_SIZE div 10)) cache else cache)"

definition evictExpired :: "int \<Rightarrow> guard_state \<Rightarrow> guard_state" where
  "evictExpired now gs = gs\<lparr>
     gs_membershipCache := jsmap_filter (\<lambda>_ e. \<not> now \<ge> fst e) (gs_membershipCache gs),
     gs_tenantIdsCache := jsmap_filter (\<lambda>_ e. \<not> now \<ge> fst e) (gs_tenantIdsCache gs)\<rparr>"

definition clearAll :: "guard_state \<Rightarrow> guard_state" where
  "clearAll gs = gs\<lparr>gs_membershipCache := [], gs_tenantIdsCache := []\<rparr>"

definition clearUser :: "string \<Rightarrow> guard_state \<Rightarrow> guard_state" where
  "clearUser userId gs = gs\<lparr>
     gs_membershipCache := jsmap_filter (\<lambda>key _. \<not> js_starts_with key (userId @ '':'')) (gs_membershipCache gs),
     gs_tenantIdsCache := jsmap_filter (\<lambda>key _. \<not> (key = userId \<or> js_starts_with key (userId @ '':'')))
       (gs_tenantIdsCache gs)\<rparr>"

text \<open>
  Invalidation across replicas: a message, sent when Redis is enabled, and applied by a receiver
  without sending it again. \<open>None\<close> is a message that does not parse.
\<close>

datatype invalidation = InvAll | InvUser string

definition invalidateUser :: "bool \<Rightarrow> string \<Rightarrow> guard_state \<Rightarrow> guard_state \<times> invalidation option" where
  "invalidateUser redisEnabled userId gs =
     (clearUser userId gs, if redisEnabled then Some (InvUser userId) else None)"

definition invalidateAll :: "bool \<Rightarrow> guard_state \<Rightarrow> guard_state \<times> invalidation option" where
  "invalidateAll redisEnabled gs = (clearAll gs, if redisEnabled then Some InvAll else None)"

definition applyInvalidation :: "invalidation option \<Rightarrow> guard_state \<Rightarrow> guard_state" where
  "applyInvalidation message gs =
     (case message of
        None \<Rightarrow> gs
      | Some InvAll \<Rightarrow> clearAll gs
      | Some (InvUser userId) \<Rightarrow> if userId \<noteq> [] then clearUser userId gs else gs)"

definition guard_onModuleDestroy :: "guard_state \<Rightarrow> guard_state" where
  "guard_onModuleDestroy gs = clearAll gs"

definition membership_key :: "string \<Rightarrow> string \<Rightarrow> string" where
  "membership_key userId tenantId = userId @ '':'' @ tenantId"

definition findMembershipCached :: "guard_env \<Rightarrow> string \<Rightarrow> string \<Rightarrow> guard_state \<Rightarrow> member option \<times> guard_state" where
  "findMembershipCached env userId tenantId gs =
     (let ttl = gs_cacheTtlMs gs
      in if ttl \<le> 0 then (db_findActive (ge_db env) tenantId userId, gs)
         else
           (let key = membership_key userId tenantId;
                now = ge_now env;
                result = db_findActive (ge_db env) tenantId userId;
                miss = (result,
                  case result of
                    Some m \<Rightarrow> gs\<lparr>gs_membershipCache :=
                      AList.update key (now + ttl, m) (evictIfOverCapacity (gs_membershipCache gs))\<rparr>
                  | None \<Rightarrow> gs\<lparr>gs_membershipCache := AList.delete key (gs_membershipCache gs)\<rparr>)
            in case map_of (gs_membershipCache gs) key of
                 Some (expiresAt, cached) \<Rightarrow> if now < expiresAt then (Some cached, gs) else miss
               | None \<Rightarrow> miss))"

definition tenant_ids_key :: "string \<Rightarrow> int option option \<Rightarrow> string" where
  "tenant_ids_key userId minLevel =
     (case minLevel of
        None \<Rightarrow> userId
      | Some None \<Rightarrow> userId @ '':NaN''
      | Some (Some n) \<Rightarrow> userId @ '':'' @ show_int n)"

text \<open>\<^verbatim>\<open>hierarchy[role] ?? 0\<close>: an inherited property is not nullish and compares as NaN.\<close>

definition level_or_zero :: "(string, int) jsmap \<Rightarrow> string \<Rightarrow> int option" where
  "level_or_zero h role =
     (case map_of h role of Some n \<Rightarrow> Some n | None \<Rightarrow> if role \<in> set object_prototype then None else Some 0)"

definition tenant_ids_of :: "mt_config option \<Rightarrow> member list \<Rightarrow> int option option \<Rightarrow> string list" where
  "tenant_ids_of cfg memberships minLevel =
     (case minLevel of
        Some lvl \<Rightarrow> map mb_tenant
          (filter (\<lambda>m. js_ge (level_or_zero (getRoleHierarchy cfg) (mb_role m)) lvl) memberships)
      | None \<Rightarrow> map mb_tenant memberships)"

definition resolveUserTenantIds ::
  "guard_env \<Rightarrow> string \<Rightarrow> int option option \<Rightarrow> request \<Rightarrow> guard_state \<Rightarrow> request \<times> guard_state" where
  "resolveUserTenantIds env userId minLevel rq gs =
     (if rq_tenantIds rq \<noteq> None then (rq, gs)
      else
        (let ttl = gs_cacheTtlMs gs;
             cacheKey = tenant_ids_key userId minLevel;
             hit = (if ttl > 0 then
                      (case map_of (gs_tenantIdsCache gs) cacheKey of
                         Some (expiresAt, ids) \<Rightarrow> if ge_now env < expiresAt then Some ids else None
                       | None \<Rightarrow> None)
                    else None)
         in case hit of
              Some ids \<Rightarrow> (rq\<lparr>rq_tenantIds := Some ids\<rparr>, gs)
            | None \<Rightarrow>
                (let memberships = db_findAllActive (ge_db env) userId;
                     ids = tenant_ids_of (ge_cfg env) memberships minLevel
                 in (rq\<lparr>rq_tenantIds := Some ids\<rparr>,
                     if ttl > 0
                     then gs\<lparr>gs_tenantIdsCache := AList.update cacheKey (ge_later env + ttl, ids)
                            (evictIfOverCapacity (gs_tenantIdsCache gs))\<rparr>
                     else gs))))"

subsection \<open>The decision\<close>

type_synonym guard_result = "(http_error + request) \<times> guard_state"

definition handleSystemRoleWithTenantHeader ::
  "guard_env \<Rightarrow> user \<Rightarrow> string \<Rightarrow> request \<Rightarrow> bool \<Rightarrow> guard_state \<Rightarrow> guard_result" where
  "handleSystemRoleWithTenantHeader env user headerTenantId rq isAdmin gs =
     (if isAdmin then (Inr (rq\<lparr>rq_tenantId := Some headerTenantId, rq_isAdminBypass := True\<rparr>), gs)
      else
        (let (membership, gs') = findMembershipCached env (u_id user) headerTenantId gs
         in case membership of
              None \<Rightarrow> (Inl (Forbidden ''Not a member of this tenant''), gs')
            | Some m \<Rightarrow> (Inr (rq\<lparr>rq_tenantId := Some headerTenantId, rq_tenantRole := Some (mb_role m)\<rparr>), gs')))"

definition skipWithUserRoleCheck ::
  "mt_config option \<Rightarrow> string list \<Rightarrow> user option \<Rightarrow> bool \<Rightarrow> request \<Rightarrow> http_error + request" where
  "skipWithUserRoleCheck cfg checkableRoles user isAdmin rq =
     (if checkableRoles \<noteq> [] then
        (case user of
           None \<Rightarrow> Inl (Unauthorized UNAUTHORIZED)
         | Some u \<Rightarrow>
             if \<not> isAdmin \<and> \<not> checkRoleAccess cfg checkableRoles (u_roles u) None
             then Inl (Forbidden ''Insufficient role'') else Inr rq)
      else Inr rq)"

definition tenant_header :: "mt_config \<Rightarrow> request \<Rightarrow> string option" where
  "tenant_header c rq =
     (let headerName = js_lower (case mt_headerName c of None \<Rightarrow> ''x-tenant-id'' | Some n \<Rightarrow> n);
          rawHeader = map_of (rq_headers rq) headerName
      in case rawHeader of
           Some raw \<Rightarrow> if raw \<noteq> [] \<and> length raw \<le> 128 then Some (js_trim raw) else None
         | None \<Rightarrow> None)"

definition is_admin :: "mt_config \<Rightarrow> user option \<Rightarrow> bool" where
  "is_admin c user =
     (mt_adminBypass c \<noteq> Some False
      \<and> (case user of None \<Rightarrow> False
          | Some u \<Rightarrow> (case u_roles u of None \<Rightarrow> False | Some rs \<Rightarrow> ADMIN \<in> set rs)))"

definition is_verified :: "user \<Rightarrow> bool" where
  "is_verified u = (u_verified u \<or> u_verifiedAt u \<or> u_emailVerified u)"

definition betterAuth_shouldSkip :: "ba_option \<Rightarrow> bool" where
  "betterAuth_shouldSkip b =
     (case b of BaObject skip \<Rightarrow> skip \<noteq> Some False | BaBool v \<Rightarrow> v | BaUndefined \<Rightarrow> True)"

text \<open>The flush at the start of a call whose configuration object is not the one seen last.\<close>

definition noticeConfig :: "guard_env \<Rightarrow> mt_config \<Rightarrow> guard_state \<Rightarrow> guard_state" where
  "noticeConfig env c gs =
     (if gs_lastSeenConfig gs \<noteq> Some (ge_cfgRef env)
      then clearAll (gs\<lparr>gs_lastSeenConfig := Some (ge_cfgRef env),
             gs_cacheTtlMs := (case mt_cacheTtlMs c of Some t \<Rightarrow> t
                               | None \<Rightarrow> if ge_testEnv env then 0 else 30000)\<rparr>)
      else gs)"

text \<open>The header branch for a non-admin: membership, then the roles against their own sources.\<close>

definition headerAccess ::
  "guard_env \<Rightarrow> user \<Rightarrow> string \<Rightarrow> string list \<Rightarrow> request \<Rightarrow> guard_state \<Rightarrow> guard_result" where
  "headerAccess env user headerTenantId checkableRoles rq gs =
     (let (membership, gs') = findMembershipCached env (u_id user) headerTenantId gs
      in case membership of
           None \<Rightarrow> (Inl (Forbidden ''Not a member of this tenant''), gs')
         | Some m \<Rightarrow>
             (let memberRole = mb_role m;
                  granted = Inr (rq\<lparr>rq_tenantId := Some headerTenantId, rq_tenantRole := Some memberRole\<rparr>)
              in if checkableRoles \<noteq> [] then
                   (let globalRoles = fst (resolveGlobalAndTenantRoles (ge_cfg env) (ge_registry env) checkableRoles);
                        tenantRoles = tenantSatisfiableRoles (ge_cfg env) (ge_registry env) checkableRoles;
                        satisfiedGlobally = list_ex (\<lambda>r. r \<in> set (case u_roles user of None \<Rightarrow> [] | Some rs \<Rightarrow> rs)) globalRoles;
                        satisfiedByTenant = (length tenantRoles > 0
                          \<and> checkRoleAccess (ge_cfg env) tenantRoles None (Some memberRole))
                    in if \<not> satisfiedGlobally \<and> \<not> satisfiedByTenant
                       then (Inl (Forbidden ''Insufficient tenant role''), gs')
                       else (granted, gs'))
                 else (granted, gs')))"

definition noHeaderAccess ::
  "guard_env \<Rightarrow> bool \<Rightarrow> string list \<Rightarrow> request \<Rightarrow> guard_state \<Rightarrow> guard_result" where
  "noHeaderAccess env isAdmin checkableRoles rq gs =
     (if isAdmin then (Inr (rq\<lparr>rq_isAdminBypass := True\<rparr>), gs)
      else if checkableRoles \<noteq> [] then
        (case rq_user rq of
           None \<Rightarrow> (Inl (Unauthorized UNAUTHORIZED), gs)
         | Some u \<Rightarrow>
             if \<not> checkRoleAccess (ge_cfg env) checkableRoles (u_roles u) None
             then (Inl (Forbidden ''Insufficient role''), gs)
             else (let (rq', gs') = resolveUserTenantIds env (u_id u)
                         (getMinRequiredLevel (ge_cfg env) checkableRoles) rq gs
                   in (Inr rq', gs')))
      else
        (case rq_user rq of
           Some u \<Rightarrow> (let (rq', gs') = resolveUserTenantIds env (u_id u) None rq gs in (Inr rq', gs'))
         | None \<Rightarrow> (Inr rq, gs)))"

definition everyoneAccess :: "guard_env \<Rightarrow> string option \<Rightarrow> request \<Rightarrow> guard_state \<Rightarrow> guard_result" where
  "everyoneAccess env header rq gs =
     (case rq_user rq of
        Some u \<Rightarrow>
          if js_truthy header \<and> u_id u \<noteq> [] then
            (let (membership, gs') = findMembershipCached env (u_id u) (the header) gs
             in case membership of
                  Some m \<Rightarrow> (Inr (rq\<lparr>rq_tenantId := header, rq_tenantRole := Some (mb_role m)\<rparr>), gs')
                | None \<Rightarrow> (Inr rq, gs'))
          else (Inr rq, gs)
      | None \<Rightarrow> (Inr rq, gs))"

text \<open>The branches of \<^verbatim>\<open>canActivate\<close> once configuration, header and roles are known.\<close>

definition guard_decide ::
  "guard_env \<Rightarrow> mt_config \<Rightarrow> handler_ctx \<Rightarrow> request \<Rightarrow> guard_state \<Rightarrow> guard_result" where
  "guard_decide env c hx rq gs =
     (let header = tenant_header c rq;
          roles = mergeRolesMetadata (hx_handlerRoles hx) (hx_classRoles hx);
          methodRoles = (case hx_handlerRoles hx of None \<Rightarrow> [] | Some rs \<Rightarrow> rs);
          systemCheckRoles = (if methodRoles \<noteq> [] then methodRoles else roles);
          isAdmin = is_admin c (rq_user rq);
          checkableRoles = filter (\<lambda>r. \<not> isSystemRole r) roles
      in if S_NO_ONE \<in> set roles then (Inl (Forbidden ACCESS_DENIED), gs)
         else if S_EVERYONE \<in> set systemCheckRoles then everyoneAccess env header rq gs
         else if S_USER \<in> set systemCheckRoles then
           (case rq_user rq of
              None \<Rightarrow> (Inl (Unauthorized UNAUTHORIZED), gs)
            | Some u \<Rightarrow>
                if js_truthy header \<and> \<not> hx_skipTenantCheck hx
                then handleSystemRoleWithTenantHeader env u (the header) rq isAdmin gs
                else (Inr rq, gs))
         else if S_VERIFIED \<in> set systemCheckRoles then
           (case rq_user rq of
              None \<Rightarrow> (Inl (Unauthorized UNAUTHORIZED), gs)
            | Some u \<Rightarrow>
                if \<not> is_verified u then (Inl (Forbidden ''Verification required''), gs)
                else if js_truthy header \<and> \<not> hx_skipTenantCheck hx
                then handleSystemRoleWithTenantHeader env u (the header) rq isAdmin gs
                else (Inr rq, gs))
         else if hx_skipTenantCheck hx then
           (skipWithUserRoleCheck (ge_cfg env) checkableRoles (rq_user rq) isAdmin rq, gs)
         else if \<not> js_truthy header \<and> hx_betterAuth hx \<and> betterAuth_shouldSkip (ge_betterAuth env) then
           (skipWithUserRoleCheck (ge_cfg env) checkableRoles (rq_user rq) isAdmin rq, gs)
         else if js_truthy header then
           (if isAdmin then (Inr (rq\<lparr>rq_tenantId := header, rq_isAdminBypass := True\<rparr>), gs)
            else (case rq_user rq of
                    None \<Rightarrow> (Inl (Unauthorized UNAUTHORIZED), gs)
                  | Some u \<Rightarrow> headerAccess env u (the header) checkableRoles rq gs))
         else noHeaderAccess env isAdmin checkableRoles rq gs)"

text \<open>\<open>canActivate\<close>; a context without a request is let through (\<open>None\<close>).\<close>

definition canActivate ::
  "guard_env \<Rightarrow> handler_ctx \<Rightarrow> request option \<Rightarrow> guard_state \<Rightarrow> (http_error + request option) \<times> guard_state" where
  "canActivate env hx request gs =
     (case ge_cfg env of
        None \<Rightarrow> (Inr request, gs)
      | Some c \<Rightarrow>
          if mt_enabled c = Some False then (Inr request, gs)
          else
            (let gs1 = noticeConfig env c gs
             in case request of
                  None \<Rightarrow> (Inr None, gs1)
                | Some rq \<Rightarrow>
                    (case guard_decide env c hx rq gs1 of
                       (Inl e, gs') \<Rightarrow> (Inl e, gs')
                     | (Inr rq', gs') \<Rightarrow> (Inr (Some rq'), gs'))))"

subsection \<open>The decision for transports without a request\<close>

record tenant_context =
  tc_tenantId :: "string option"
  tc_tenantRole :: "string option"
  tc_tenantIds :: "string list option"
  tc_isAdminBypass :: bool

definition tc_empty :: tenant_context where
  "tc_empty = \<lparr>tc_tenantId = None, tc_tenantRole = None, tc_tenantIds = None, tc_isAdminBypass = False\<rparr>"

definition resolveTenantContext ::
  "guard_env \<Rightarrow> user option \<Rightarrow> string option \<Rightarrow> guard_state \<Rightarrow> tenant_context \<times> guard_state" where
  "resolveTenantContext env user headerTenantId gs =
     (case ge_cfg env of
        None \<Rightarrow> (tc_empty, gs)
      | Some c \<Rightarrow>
          if mt_enabled c = Some False then (tc_empty, gs)
          else
            (let trimmed = (case headerTenantId of
                              Some h \<Rightarrow> if h \<noteq> [] \<and> length h \<le> 128 then Some (js_trim h) else None
                            | None \<Rightarrow> None)
             in if is_admin c user then
                  (if js_truthy trimmed then (tc_empty\<lparr>tc_isAdminBypass := True, tc_tenantId := trimmed\<rparr>, gs)
                   else (tc_empty\<lparr>tc_isAdminBypass := True\<rparr>, gs))
                else
                  (case user of
                     None \<Rightarrow> (tc_empty, gs)
                   | Some u \<Rightarrow>
                       if u_id u = [] then (tc_empty, gs)
                       else if js_truthy trimmed then
                         (let (membership, gs') = findMembershipCached env (u_id u) (the trimmed) gs
                          in case membership of
                               None \<Rightarrow> (tc_empty, gs')
                             | Some m \<Rightarrow> (tc_empty\<lparr>tc_tenantId := trimmed, tc_tenantRole := Some (mb_role m)\<rparr>, gs'))
                       else
                         (let carrier = \<lparr>rq_headers = [], rq_user = Some u, rq_tenantId = None,
                                rq_tenantRole = None, rq_tenantIds = None, rq_isAdminBypass = False\<rparr>;
                              (rq', gs') = resolveUserTenantIds env (u_id u) None carrier gs
                          in (tc_empty\<lparr>tc_tenantIds := Some (case rq_tenantIds rq' of None \<Rightarrow> [] | Some ids \<Rightarrow> ids)\<rparr>,
                              gs')))))"


subsection \<open>Lemmas: what a call can change\<close>

lemma lookup_result:
  "snd (findMembershipCached env u t gs) = gs
   \<or> (\<exists>m. db_findActive (ge_db env) t u = Some m \<and> 0 < gs_cacheTtlMs gs \<and>
        snd (findMembershipCached env u t gs) = gs\<lparr>gs_membershipCache :=
          AList.update (membership_key u t) (ge_now env + gs_cacheTtlMs gs, m)
            (evictIfOverCapacity (gs_membershipCache gs))\<rparr>)
   \<or> snd (findMembershipCached env u t gs) =
        gs\<lparr>gs_membershipCache := AList.delete (membership_key u t) (gs_membershipCache gs)\<rparr>"
  by (auto simp: findMembershipCached_def Let_def split: option.splits)

lemma ids_result:
  "snd (resolveUserTenantIds env u l rq gs) = gs
   \<or> 0 < gs_cacheTtlMs gs \<and> snd (resolveUserTenantIds env u l rq gs) = gs\<lparr>gs_tenantIdsCache :=
        AList.update (tenant_ids_key u l)
          (ge_later env + gs_cacheTtlMs gs, tenant_ids_of (ge_cfg env) (db_findAllActive (ge_db env) u) l)
          (evictIfOverCapacity (gs_tenantIdsCache gs))\<rparr>"
  by (auto simp: resolveUserTenantIds_def Let_def split: option.splits)

text \<open>
  A property of the guard state that the three ways to touch it keep is kept by every call.
  \<open>ok_id\<close> is what is assumed of the identifiers of the users that reach the guard.
\<close>

locale guard_invariant =
  fixes P :: "guard_env \<Rightarrow> guard_state \<Rightarrow> bool"
    and ok_id :: "string \<Rightarrow> bool"
  assumes P_notice: "P env gs \<Longrightarrow> ge_cfg env = Some c \<Longrightarrow> P env (noticeConfig env c gs)"
    and P_lookup: "P env gs \<Longrightarrow> ok_id u \<Longrightarrow> P env (snd (findMembershipCached env u t gs))"
    and P_ids: "P env gs \<Longrightarrow> ok_id u \<Longrightarrow> P env (snd (resolveUserTenantIds env u l rq gs))"
begin

lemma P_decide:
  assumes "P env gs" "\<forall>u. rq_user rq = Some u \<longrightarrow> ok_id (u_id u)"
  shows "P env (snd (guard_decide env c hx rq gs))"
proof -
  have f: "P env gs'" if "findMembershipCached env (u_id u) t gs = (x, gs')" "rq_user rq = Some u" for u t x gs'
    using P_lookup [OF assms(1), of "u_id u" t] assms(2) that by simp
  have i: "P env gs'" if "resolveUserTenantIds env (u_id u) l rq gs = (x, gs')" "rq_user rq = Some u" for u l x gs'
    using P_ids [OF assms(1), of "u_id u" l rq] assms(2) that by simp
  have e: "P env (snd (everyoneAccess env h rq gs))" for h
    using assms(1) f by (auto simp: everyoneAccess_def split: option.splits prod.splits)
  have s: "rq_user rq = Some u \<Longrightarrow> P env (snd (handleSystemRoleWithTenantHeader env u h rq a gs))" for u h a
    using assms(1) f by (auto simp: handleSystemRoleWithTenantHeader_def split: option.splits prod.splits)
  have h: "rq_user rq = Some u \<Longrightarrow> P env (snd (headerAccess env u h cr rq gs))" for u h cr
    using assms(1) f by (auto simp: headerAccess_def Let_def split: option.splits prod.splits)
  have n: "P env (snd (noHeaderAccess env a cr rq gs))" for a cr
    using assms(1) i by (auto simp: noHeaderAccess_def split: option.splits prod.splits)
  show ?thesis
    using assms(1) e s h n by (simp add: guard_decide_def Let_def split: option.splits)
qed

lemma P_canActivate:
  assumes "P env gs" "\<forall>rq u. request = Some rq \<longrightarrow> rq_user rq = Some u \<longrightarrow> ok_id (u_id u)"
  shows "P env (snd (canActivate env hx request gs))"
proof (cases "ge_cfg env")
  case None
  then show ?thesis using assms(1) by (simp add: canActivate_def)
next
  case (Some c)
  have n: "P env (noticeConfig env c gs)" using P_notice assms(1) Some by blast
  show ?thesis
  proof (cases request)
    case None
    then show ?thesis using assms(1) n Some by (simp add: canActivate_def Let_def)
  next
    case (Some rq)
    have "P env (snd (guard_decide env c hx rq (noticeConfig env c gs)))"
      using P_decide [OF n] assms(2) Some by blast
    then show ?thesis
      using assms(1) \<open>ge_cfg env = Some c\<close> Some
      by (auto simp: canActivate_def Let_def split: sum.splits prod.splits)
  qed
qed

lemma P_context:
  assumes "P env gs" "\<forall>u. user = Some u \<longrightarrow> ok_id (u_id u)"
  shows "P env (snd (resolveTenantContext env user header gs))"
proof -
  have f: "P env gs'" if "findMembershipCached env (u_id u) t gs = (x, gs')" "user = Some u" for u t x gs'
    using P_lookup [OF assms(1), of "u_id u" t] assms(2) that by simp
  have i: "P env gs'" if "resolveUserTenantIds env (u_id u) l rq gs = (x, gs')" "user = Some u" for u l rq x gs'
    using P_ids [OF assms(1), of "u_id u" l rq] assms(2) that by simp
  show ?thesis
    using assms(1) f i by (auto simp: resolveTenantContext_def Let_def split: option.splits prod.splits)
qed

end

subsection \<open>Bounded caches\<close>

definition cache_ok :: "(string, 'v) jsmap \<Rightarrow> bool" where
  "cache_ok m \<longleftrightarrow> jsmap_ok m \<and> length m \<le> MAX_CACHE_SIZE"

definition caches_bounded :: "guard_state \<Rightarrow> bool" where
  "caches_bounded gs \<longleftrightarrow> cache_ok (gs_membershipCache gs) \<and> cache_ok (gs_tenantIdsCache gs)"

lemma cache_ok_store: "cache_ok m \<Longrightarrow> cache_ok (AList.update k v (evictIfOverCapacity m))"
  by (auto simp: cache_ok_def evictIfOverCapacity_def MAX_CACHE_SIZE_def length_alist_update
      intro!: jsmap_ok_update jsmap_ok_drop)

lemma cache_ok_delete: "cache_ok m \<Longrightarrow> cache_ok (AList.delete k m)"
  using length_delete_le [of k m] by (simp add: cache_ok_def jsmap_ok_delete)

lemma cache_ok_filter: "cache_ok m \<Longrightarrow> cache_ok (jsmap_filter Q m)"
  using length_jsmap_filter [of Q m] by (simp add: cache_ok_def jsmap_ok_filter)

lemma cache_ok_Nil [simp]: "cache_ok []"
  by (simp add: cache_ok_def)

interpretation bounded: guard_invariant "\<lambda>env gs. caches_bounded gs" "\<lambda>_. True"
proof
  fix env gs u t l rq
  show "caches_bounded (noticeConfig env c gs)" if "caches_bounded gs" "ge_cfg env = Some c" for c
    using that by (simp add: noticeConfig_def clearAll_def caches_bounded_def)
  show "caches_bounded (snd (findMembershipCached env u t gs))" if "caches_bounded gs"
    using lookup_result [of env u t gs] that
    by (auto simp: caches_bounded_def cache_ok_store cache_ok_delete)
  show "caches_bounded (snd (resolveUserTenantIds env u l rq gs))" if "caches_bounded gs"
    using ids_result [of env u l rq gs] that by (auto simp: caches_bounded_def cache_ok_store)
qed

lemma caches_bounded_maintenance:
  "caches_bounded gs \<Longrightarrow> caches_bounded (evictExpired now gs)"
  "caches_bounded gs \<Longrightarrow> caches_bounded (clearUser u gs)"
  "caches_bounded (clearAll gs)"
  by (simp_all add: caches_bounded_def evictExpired_def clearUser_def clearAll_def cache_ok_filter)

subsection \<open>Coherence with the membership collection\<close>

text \<open>The user and the tenant a cache key stands for, for users without a colon in their id.\<close>

definition key_user :: "string \<Rightarrow> string" where
  "key_user k = takeWhile (\<lambda>c. c \<noteq> CHR '':'') k"

definition key_tenant :: "string \<Rightarrow> string" where
  "key_tenant k = drop (Suc (length (key_user k))) k"

definition plain_id :: "string \<Rightarrow> bool" where
  "plain_id u \<longleftrightarrow> CHR '':'' \<notin> set u"

lemma key_user_plain [simp]: "plain_id u \<Longrightarrow> key_user u = u"
  by (auto simp: key_user_def plain_id_def takeWhile_eq_all_conv)

lemma key_user_colon [simp]: "plain_id u \<Longrightarrow> key_user (u @ CHR '':'' # t) = u"
  by (auto simp: key_user_def plain_id_def takeWhile_append takeWhile_eq_all_conv)

lemma key_parts [simp]:
  "plain_id u \<Longrightarrow> key_user (membership_key u t) = u"
  "plain_id u \<Longrightarrow> key_tenant (membership_key u t) = t"
  "plain_id u \<Longrightarrow> key_user (tenant_ids_key u l) = u"
  by (simp_all add: membership_key_def key_tenant_def tenant_ids_key_def split: option.splits)

text \<open>What an entry must say for the collection \<open>db\<close>.\<close>

definition membership_true :: "member_db \<Rightarrow> string \<Rightarrow> int \<times> member \<Rightarrow> bool" where
  "membership_true db k e \<longleftrightarrow> db_findActive db (key_tenant k) (key_user k) = Some (snd e)"

definition tenant_ids_true :: "member_db \<Rightarrow> string \<Rightarrow> int \<times> string list \<Rightarrow> bool" where
  "tenant_ids_true db k e \<longleftrightarrow> set (snd e) \<subseteq> mb_tenant ` set (db_findAllActive db (key_user k))"

definition coherent :: "member_db \<Rightarrow> guard_state \<Rightarrow> bool" where
  "coherent db gs \<longleftrightarrow> caches_bounded gs
     \<and> jsmap_all (membership_true db) (gs_membershipCache gs)
     \<and> jsmap_all (tenant_ids_true db) (gs_tenantIdsCache gs)"

lemma jsmap_all_evict: "cache_ok m \<Longrightarrow> jsmap_all Q m \<Longrightarrow> jsmap_all Q (evictIfOverCapacity m)"
  by (simp add: evictIfOverCapacity_def cache_ok_def jsmap_all_drop)

lemma jsmap_all_store:
  "cache_ok m \<Longrightarrow> jsmap_all Q m \<Longrightarrow> Q k v \<Longrightarrow> jsmap_all Q (AList.update k v (evictIfOverCapacity m))"
  by (simp add: jsmap_all_evict jsmap_all_update)

lemma tenant_ids_of_sub: "set (tenant_ids_of cfg ms l) \<subseteq> mb_tenant ` set ms"
  by (auto simp: tenant_ids_of_def split: option.splits)

lemma entries_true:
  "plain_id u \<Longrightarrow> db_findActive db t u = Some m \<Longrightarrow> membership_true db (membership_key u t) (e, m)"
  "plain_id u \<Longrightarrow> tenant_ids_true db (tenant_ids_key u l) (e, tenant_ids_of cfg (db_findAllActive db u) l)"
  using tenant_ids_of_sub by (simp_all add: membership_true_def tenant_ids_true_def)

interpretation coh: guard_invariant "\<lambda>env gs. coherent (ge_db env) gs" plain_id
proof
  fix env gs u t l rq
  show "coherent (ge_db env) (noticeConfig env c gs)" if "coherent (ge_db env) gs" "ge_cfg env = Some c" for c
    using that by (simp add: coherent_def caches_bounded_def noticeConfig_def clearAll_def)
  show "coherent (ge_db env) (snd (findMembershipCached env u t gs))"
    if "coherent (ge_db env) gs" "plain_id u"
    using lookup_result [of env u t gs] that
    by (auto simp: coherent_def caches_bounded_def cache_ok_store cache_ok_delete entries_true
        intro!: jsmap_all_store jsmap_all_delete)
  show "coherent (ge_db env) (snd (resolveUserTenantIds env u l rq gs))"
    if "coherent (ge_db env) gs" "plain_id u"
    using ids_result [of env u l rq gs] that
    by (auto simp: coherent_def caches_bounded_def cache_ok_store entries_true intro!: jsmap_all_store)
qed

text \<open>After the memberships of one user change, clearing that user restores coherence.\<close>

definition same_but_user :: "string \<Rightarrow> member_db \<Rightarrow> member_db \<Rightarrow> bool" where
  "same_but_user u db db' \<longleftrightarrow> (\<forall>v. v \<noteq> u \<longrightarrow> db_findAllActive db' v = db_findAllActive db v
     \<and> (\<forall>t. db_findActive db' t v = db_findActive db t v))"

lemma key_user_starts: "key_user k = u \<Longrightarrow> k = u \<or> js_starts_with k (u @ '':'')"
proof -
  assume u: "key_user k = u"
  have k: "k = key_user k @ dropWhile (\<lambda>c. c \<noteq> CHR '':'') k" by (simp add: key_user_def)
  show ?thesis
  proof (cases "dropWhile (\<lambda>c. c \<noteq> CHR '':'') k")
    case Nil
    then show ?thesis using k u by (metis append_Nil2)
  next
    case (Cons c r)
    then have "c = CHR '':''" by (metis (full_types) dropWhile_eq_Cons_conv)
    then show ?thesis using k u Cons by (metis append.assoc append_Cons append_Nil js_starts_with_append)
  qed
qed

text \<open>Every key of the membership cache holds the separator.\<close>

definition keys_separated :: "guard_state \<Rightarrow> bool" where
  "keys_separated gs \<longleftrightarrow> jsmap_all (\<lambda>k _. \<exists>u t. k = membership_key u t) (gs_membershipCache gs)"

interpretation sep: guard_invariant "\<lambda>env gs. caches_bounded gs \<and> keys_separated gs" "\<lambda>_. True"
proof
  fix env gs u t l rq
  assume i: "caches_bounded gs \<and> keys_separated gs"
  show "caches_bounded (noticeConfig env c gs) \<and> keys_separated (noticeConfig env c gs)"
    if "ge_cfg env = Some c" for c
    using i that by (simp add: keys_separated_def caches_bounded_def noticeConfig_def clearAll_def)
  show "caches_bounded (snd (findMembershipCached env u t gs)) \<and> keys_separated (snd (findMembershipCached env u t gs))"
    using lookup_result [of env u t gs] i
    by (auto simp: keys_separated_def caches_bounded_def cache_ok_store cache_ok_delete
        intro!: jsmap_all_store jsmap_all_delete) blast
  show "caches_bounded (snd (resolveUserTenantIds env u l rq gs)) \<and> keys_separated (snd (resolveUserTenantIds env u l rq gs))"
    using ids_result [of env u l rq gs] i
    by (auto simp: keys_separated_def caches_bounded_def cache_ok_store)
qed

lemma clearUser_coherent:
  assumes "coherent db gs" "keys_separated gs" "same_but_user u db db'" "plain_id u"
  shows "coherent db' (clearUser u gs)"
proof -
  have ok: "jsmap_ok (gs_membershipCache gs)" "jsmap_ok (gs_tenantIdsCache gs)"
    using assms(1) by (auto simp: coherent_def caches_bounded_def cache_ok_def)
  have m: "jsmap_all (membership_true db') (gs_membershipCache (clearUser u gs))"
    unfolding jsmap_all_def
  proof (intro allI impI)
    fix k v
    assume "map_of (gs_membershipCache (clearUser u gs)) k = Some v"
    then have k: "map_of (gs_membershipCache gs) k = Some v" "\<not> js_starts_with k (u @ '':'')"
      using ok by (auto simp: clearUser_def map_of_jsmap_filter split: option.splits if_splits)
    obtain a t where a: "k = membership_key a t"
      using k(1) assms(2) by (force simp: keys_separated_def dest: jsmap_allD)
    then have "key_user k \<noteq> u"
      using k(2) key_user_starts [of k u] assms(4) by (auto simp: membership_key_def plain_id_def)
    then show "membership_true db' k v"
      using k(1) assms(1,3) by (auto simp: coherent_def membership_true_def same_but_user_def dest!: jsmap_allD)
  qed
  have i: "jsmap_all (tenant_ids_true db') (gs_tenantIdsCache (clearUser u gs))"
    unfolding jsmap_all_def
  proof (intro allI impI)
    fix k v
    assume "map_of (gs_tenantIdsCache (clearUser u gs)) k = Some v"
    then have k: "map_of (gs_tenantIdsCache gs) k = Some v" "k \<noteq> u" "\<not> js_starts_with k (u @ '':'')"
      using ok by (auto simp: clearUser_def map_of_jsmap_filter split: option.splits if_splits)
    then have "key_user k \<noteq> u" using key_user_starts by blast
    then show "tenant_ids_true db' k v"
      using k(1) assms(1,3) by (auto simp: coherent_def tenant_ids_true_def same_but_user_def dest!: jsmap_allD)
  qed
  have b: "caches_bounded (clearUser u gs)"
    using assms(1) caches_bounded_maintenance(2) by (simp add: coherent_def)
  show ?thesis unfolding coherent_def using b m i by blast
qed


subsection \<open>Age of the cache entries\<close>

definition ages_bounded :: "int \<Rightarrow> int \<Rightarrow> guard_state \<Rightarrow> bool" where
  "ages_bounded T B gs \<longleftrightarrow> caches_bounded gs \<and> gs_cacheTtlMs gs \<le> B
     \<and> jsmap_all (\<lambda>_ e. fst e \<le> T + B) (gs_membershipCache gs)
     \<and> jsmap_all (\<lambda>_ e. fst e \<le> T + B) (gs_tenantIdsCache gs)"

definition clock_ok :: "int \<Rightarrow> int \<Rightarrow> guard_env \<Rightarrow> bool" where
  "clock_ok T B env \<longleftrightarrow> ge_now env \<le> T \<and> ge_later env \<le> T
     \<and> (\<forall>c ttl. ge_cfg env = Some c \<longrightarrow> mt_cacheTtlMs c = Some ttl \<longrightarrow> ttl \<le> B)"

interpretation age: guard_invariant
  "\<lambda>env gs. clock_ok T B env \<and> 30000 \<le> B \<and> ages_bounded T B gs" "\<lambda>_. True" for T B
proof
  fix env gs u t l rq
  assume i: "clock_ok T B env \<and> 30000 \<le> B \<and> ages_bounded T B gs"
  show "clock_ok T B env \<and> 30000 \<le> B \<and> ages_bounded T B (noticeConfig env c gs)" if "ge_cfg env = Some c" for c
    using i that
    by (auto simp: ages_bounded_def clock_ok_def caches_bounded_def noticeConfig_def clearAll_def split: option.splits)
  show "clock_ok T B env \<and> 30000 \<le> B \<and> ages_bounded T B (snd (findMembershipCached env u t gs))"
    using lookup_result [of env u t gs] i
    by (auto simp: ages_bounded_def clock_ok_def caches_bounded_def cache_ok_store cache_ok_delete
        intro!: jsmap_all_store jsmap_all_delete)
  show "clock_ok T B env \<and> 30000 \<le> B \<and> ages_bounded T B (snd (resolveUserTenantIds env u l rq gs))"
    using ids_result [of env u l rq gs] i
    by (auto simp: ages_bounded_def clock_ok_def caches_bounded_def cache_ok_store intro!: jsmap_all_store)
qed

text \<open>
  The states a guard goes through: calls and socket look-ups whose environment satisfies \<open>K\<close>, the
  periodic sweep, and invalidations of this replica or received from another, in any order.
\<close>

inductive guard_reaches :: "(guard_env \<Rightarrow> bool) \<Rightarrow> guard_state \<Rightarrow> bool" for K where
  reach_new: "guard_reaches K guard_new"
| reach_call: "guard_reaches K gs \<Longrightarrow> K env \<Longrightarrow> guard_reaches K (snd (canActivate env hx rq gs))"
| reach_context: "guard_reaches K gs \<Longrightarrow> K env \<Longrightarrow> guard_reaches K (snd (resolveTenantContext env user header gs))"
| reach_sweep: "guard_reaches K gs \<Longrightarrow> guard_reaches K (evictExpired now gs)"
| reach_user: "guard_reaches K gs \<Longrightarrow> guard_reaches K (fst (invalidateUser r userId gs))"
| reach_all: "guard_reaches K gs \<Longrightarrow> guard_reaches K (fst (invalidateAll r gs))"
| reach_message: "guard_reaches K gs \<Longrightarrow> guard_reaches K (applyInvalidation m gs)"

lemma ages_maintenance:
  assumes "ages_bounded T B gs"
  shows "ages_bounded T B (evictExpired now gs)" "ages_bounded T B (clearUser u gs)" "ages_bounded T B (clearAll gs)"
proof -
  have ok: "jsmap_ok (gs_membershipCache gs)" "jsmap_ok (gs_tenantIdsCache gs)"
    using assms by (auto simp: ages_bounded_def caches_bounded_def cache_ok_def)
  have b: "caches_bounded gs" using assms by (simp add: ages_bounded_def)
  show "ages_bounded T B (evictExpired now gs)" "ages_bounded T B (clearUser u gs)" "ages_bounded T B (clearAll gs)"
    using assms ok caches_bounded_maintenance(1) [OF b, of now] caches_bounded_maintenance(2) [OF b, of u]
      caches_bounded_maintenance(3) [of gs]
    by (simp_all add: ages_bounded_def evictExpired_def clearUser_def clearAll_def jsmap_all_filter)
qed

lemmas invalidations = invalidateUser_def invalidateAll_def applyInvalidation_def

lemma reaches_ages:
  assumes "guard_reaches (clock_ok T B) gs" "30000 \<le> B"
  shows "ages_bounded T B gs"
  using assms
proof induction
  case reach_new
  then show ?case by (simp add: ages_bounded_def guard_new_def caches_bounded_def)
next
  case (reach_call gs env hx rq)
  then show ?case using age.P_canActivate [of T B env gs rq hx] by auto
next
  case (reach_context gs env user header)
  then show ?case using age.P_context [of T B env gs user header] by auto
qed (auto simp: invalidations ages_maintenance split: option.splits invalidation.splits)

lemma reaches_bounded: "guard_reaches K gs \<Longrightarrow> caches_bounded gs"
proof (induction rule: guard_reaches.induct)
  case reach_new
  then show ?case by (simp add: guard_new_def caches_bounded_def)
next
  case (reach_call gs env hx rq)
  then show ?case using bounded.P_canActivate [of gs rq env hx] by simp
next
  case (reach_context gs env user header)
  then show ?case using bounded.P_context [of gs user env header] by simp
qed (auto simp: invalidations caches_bounded_maintenance split: option.splits invalidation.splits)

lemma guard_new_bounded [simp]: "caches_bounded guard_new" "keys_separated guard_new" "coherent db guard_new"
  by (simp_all add: caches_bounded_def keys_separated_def coherent_def guard_new_def)

subsection \<open>Exact answers from a coherent cache\<close>

lemma lookup_exact:
  "coherent (ge_db env) gs \<Longrightarrow> plain_id u \<Longrightarrow>
     fst (findMembershipCached env u t gs) = db_findActive (ge_db env) t u"
  by (auto simp: findMembershipCached_def Let_def coherent_def membership_true_def
      dest!: jsmap_allD split: option.splits)

lemma ids_scope:
  assumes "coherent (ge_db env) gs" "plain_id u" "rq_tenantIds rq = None"
  shows "\<exists>ids. fst (resolveUserTenantIds env u l rq gs) = rq\<lparr>rq_tenantIds := Some ids\<rparr>
    \<and> set ids \<subseteq> mb_tenant ` set (db_findAllActive (ge_db env) u)"
proof -
  let ?hit = "if gs_cacheTtlMs gs > 0
    then (case map_of (gs_tenantIdsCache gs) (tenant_ids_key u l) of
            Some (expiresAt, ids) \<Rightarrow> if ge_now env < expiresAt then Some ids else None | None \<Rightarrow> None)
    else None"
  show ?thesis
  proof (cases ?hit)
    case None
    then have "fst (resolveUserTenantIds env u l rq gs)
      = rq\<lparr>rq_tenantIds := Some (tenant_ids_of (ge_cfg env) (db_findAllActive (ge_db env) u) l)\<rparr>"
      using assms(3) by (simp add: resolveUserTenantIds_def Let_def)
    then show ?thesis using tenant_ids_of_sub by blast
  next
    case (Some ids)
    then have r: "fst (resolveUserTenantIds env u l rq gs) = rq\<lparr>rq_tenantIds := Some ids\<rparr>"
      using assms(3) by (simp add: resolveUserTenantIds_def Let_def)
    obtain e where e: "map_of (gs_tenantIdsCache gs) (tenant_ids_key u l) = Some (e, ids)"
      using Some by (auto split: if_splits option.splits)
    have "tenant_ids_true (ge_db env) (tenant_ids_key u l) (e, ids)"
      using jsmap_allD [OF _ e] assms(1) by (auto simp: coherent_def)
    then show ?thesis using r assms(2) by (auto simp: tenant_ids_true_def)
  qed
qed

definition fresh_request :: "request \<Rightarrow> bool" where
  "fresh_request rq \<longleftrightarrow> rq_tenantId rq = None \<and> rq_tenantRole rq = None \<and> rq_tenantIds rq = None
     \<and> \<not> rq_isAdminBypass rq"

text \<open>The scope a request carries is covered by active memberships of its user.\<close>

definition in_scope :: "member_db \<Rightarrow> request \<Rightarrow> bool" where
  "in_scope db rq \<longleftrightarrow> \<not> rq_isAdminBypass rq
     \<and> (\<forall>T. rq_tenantId rq = Some T \<longrightarrow>
          (\<exists>u m. rq_user rq = Some u \<and> db_findActive db T (u_id u) = Some m \<and> rq_tenantRole rq = Some (mb_role m)))
     \<and> (\<forall>ids. rq_tenantIds rq = Some ids \<longrightarrow>
          (\<exists>u. rq_user rq = Some u \<and> set ids \<subseteq> mb_tenant ` set (db_findAllActive db (u_id u))))"

lemma in_scope_fresh: "fresh_request rq \<Longrightarrow> in_scope db rq"
  by (simp add: in_scope_def fresh_request_def)

lemma in_scope_member:
  "fresh_request rq \<Longrightarrow> rq_user rq = Some u \<Longrightarrow> db_findActive db T (u_id u) = Some m \<Longrightarrow>
     in_scope db (rq\<lparr>rq_tenantId := Some T, rq_tenantRole := Some (mb_role m)\<rparr>)"
  by (simp add: in_scope_def fresh_request_def)

lemma in_scope_ids:
  "fresh_request rq \<Longrightarrow> rq_user rq = Some u \<Longrightarrow>
     set ids \<subseteq> mb_tenant ` set (db_findAllActive db (u_id u)) \<Longrightarrow>
     in_scope db (rq\<lparr>rq_tenantIds := Some ids\<rparr>)"
  by (simp add: in_scope_def fresh_request_def)

lemmas in_scope_rules = in_scope_fresh in_scope_member in_scope_ids

lemma decide_in_scope:
  assumes coh: "coherent (ge_db env) gs" and id: "\<forall>u. rq_user rq = Some u \<longrightarrow> plain_id (u_id u)"
    and fresh: "fresh_request rq" and na: "\<not> is_admin c (rq_user rq)"
    and res: "fst (guard_decide env c hx rq gs) = Inr rq'"
  shows "in_scope (ge_db env) rq'"
proof -
  have look: "db_findActive (ge_db env) t (u_id u) = x"
    if "findMembershipCached env (u_id u) t gs = (x, gs')" "rq_user rq = Some u" for u t x gs'
    using lookup_exact [OF coh, of "u_id u" t] id that by simp
  have ids: "in_scope (ge_db env) r"
    if r: "resolveUserTenantIds env (u_id u) l rq gs = (r, gs')" and u: "rq_user rq = Some u" for u l r gs'
  proof -
    have "plain_id (u_id u)" using id u by blast
    from ids_scope [OF coh this, of rq l] show ?thesis
      using fresh r in_scope_ids [OF fresh u] by (auto simp: fresh_request_def)
  qed
  note rules = in_scope_fresh [OF fresh] in_scope_member [OF fresh]
  have e: "fst (everyoneAccess env h rq gs) = Inr rq' \<Longrightarrow> in_scope (ge_db env) rq'" for h
    using rules look
    by (auto simp: everyoneAccess_def split: option.splits prod.splits if_splits elim!: js_truthyE)
  have s: "fst (handleSystemRoleWithTenantHeader env u h rq False gs) = Inr rq' \<Longrightarrow> rq_user rq = Some u \<Longrightarrow>
      in_scope (ge_db env) rq'" for u h
    using rules look by (auto simp: handleSystemRoleWithTenantHeader_def split: option.splits prod.splits)
  have h: "fst (headerAccess env u h cr rq gs) = Inr rq' \<Longrightarrow> rq_user rq = Some u \<Longrightarrow> in_scope (ge_db env) rq'"
    for u h cr
    using rules look by (auto simp: headerAccess_def Let_def split: option.splits prod.splits if_splits)
  have n: "fst (noHeaderAccess env False cr rq gs) = Inr rq' \<Longrightarrow> in_scope (ge_db env) rq'" for cr
    using rules ids by (auto simp: noHeaderAccess_def split: option.splits prod.splits if_splits)
  have k: "skipWithUserRoleCheck cfg cr usr a rq = Inr rq' \<Longrightarrow> in_scope (ge_db env) rq'" for cfg cr usr a
    using rules by (auto simp: skipWithUserRoleCheck_def split: option.splits if_splits)
  show ?thesis
    using res na e s h n k rules(1)
    by (auto simp: guard_decide_def Let_def split: option.splits if_splits)
qed

lemma canActivate_active:
  assumes "ge_cfg env = Some c" "mt_enabled c \<noteq> Some False"
  shows "fst (canActivate env hx (Some rq) gs) =
      (case fst (guard_decide env c hx rq (noticeConfig env c gs)) of Inl e \<Rightarrow> Inl e | Inr rq' \<Rightarrow> Inr (Some rq'))"
    and "snd (canActivate env hx (Some rq) gs) = snd (guard_decide env c hx rq (noticeConfig env c gs))"
  using assms by (auto simp: canActivate_def Let_def split: sum.splits prod.splits)

lemma canActivate_inactive:
  "ge_cfg env = None \<or> (\<exists>c. ge_cfg env = Some c \<and> mt_enabled c = Some False) \<Longrightarrow>
     canActivate env hx request gs = (Inr request, gs)"
  by (auto simp: canActivate_def)

text \<open>Entries that have expired are not answered from.\<close>

lemma lookup_expired:
  assumes "jsmap_all (\<lambda>_ e. fst e \<le> ge_now env) (gs_membershipCache gs)"
  shows "fst (findMembershipCached env u t gs) = db_findActive (ge_db env) t u"
proof (cases "map_of (gs_membershipCache gs) (membership_key u t)")
  case (Some e)
  then have "\<not> ge_now env < fst e" using jsmap_allD [OF assms] by fastforce
  then show ?thesis using Some by (cases e) (simp add: findMembershipCached_def Let_def)
qed (simp add: findMembershipCached_def Let_def)

lemma ids_expired:
  assumes "jsmap_all (\<lambda>_ e. fst e \<le> ge_now env) (gs_tenantIdsCache gs)" "rq_tenantIds rq = None"
  shows "fst (resolveUserTenantIds env u l rq gs) =
    rq\<lparr>rq_tenantIds := Some (tenant_ids_of (ge_cfg env) (db_findAllActive (ge_db env) u) l)\<rparr>"
proof (cases "map_of (gs_tenantIdsCache gs) (tenant_ids_key u l)")
  case (Some e)
  then have "\<not> ge_now env < fst e" using jsmap_allD [OF assms(1)] by fastforce
  then show ?thesis using Some assms(2) by (cases e) (simp add: resolveUserTenantIds_def Let_def)
qed (use assms(2) in \<open>simp add: resolveUserTenantIds_def Let_def\<close>)

lemma checkRoleAccess_exact:
  assumes "req \<noteq> []" "\<forall>r \<in> set req. \<not> js_in r (active_hierarchy cfg)"
    and "\<forall>r \<in> set req. r \<notin> set (case userRoles of None \<Rightarrow> [] | Some rs \<Rightarrow> rs)"
  shows "\<not> checkRoleAccess cfg req userRoles None"
proof -
  have "filter (\<lambda>r. js_in r (active_hierarchy cfg)) req = []" using assms(2) by (simp add: filter_empty_conv)
  then show ?thesis
    using assms(1,3) by (auto simp: checkRoleAccess_unfold Let_def available_roles_def)
qed

lemma tenantSatisfiable_global:
  "\<forall>r \<in> set req. goes_global cfg reg r \<Longrightarrow> tenantSatisfiableRoles cfg reg req = []"
  by (simp add: tenantSatisfiableRoles_def resolveGlobalAndTenantRoles_def Let_def filter_empty_conv)

lemma resolveGlobal_fst: "set (fst (resolveGlobalAndTenantRoles cfg reg req)) \<subseteq> set req"
  by (auto simp: resolveGlobalAndTenantRoles_def)

subsection \<open>Properties\<close>

definition demo_user :: user where
  "demo_user = \<lparr>u_id = ''u1'', u_roles = Some [''user''], u_verified = True, u_verifiedAt = False, u_emailVerified = False\<rparr>"

definition demo_member :: member where
  "demo_member = \<lparr>mb_tenant = ''t1'', mb_user = ''u1'', mb_role = ''owner'', mb_status = ACTIVE\<rparr>"

definition demo_db :: member_db where
  "demo_db = \<lparr>db_findActive = (\<lambda>t u. if t = ''t1'' \<and> u = ''u1'' then Some demo_member else None),
     db_findAllActive = (\<lambda>u. if u = ''u1'' then [demo_member] else [])\<rparr>"

definition demo_env :: guard_env where
  "demo_env = \<lparr>ge_cfg = Some demo_mt, ge_cfgRef = 7, ge_registry = [configRoleScopeSource],
     ge_betterAuth = BaUndefined, ge_db = demo_db, ge_now = 1000, ge_later = 1001, ge_testEnv = False\<rparr>"

definition demo_rq :: "string \<Rightarrow> request" where
  "demo_rq header = \<lparr>rq_headers = [(''x-tenant-id'', header)], rq_user = Some demo_user, rq_tenantId = None,
     rq_tenantRole = None, rq_tenantIds = None, rq_isAdminBypass = False\<rparr>"

definition demo_hx :: "string list \<Rightarrow> handler_ctx" where
  "demo_hx roles = \<lparr>hx_handlerRoles = Some roles, hx_classRoles = None, hx_skipTenantCheck = False, hx_betterAuth = False\<rparr>"

lemmas demo_guard = demo_user_def demo_member_def demo_db_def demo_env_def demo_rq_def demo_hx_def demo_mt_def





text \<open>
  A refusal has the right status: with \<open>S_NO_ONE\<close> among the roles every request is refused with
  403, otherwise the guard answers 401 exactly to the refused requests that carry no user and 403 to
  the refused requests that carry one.
\<close>

theorem guard_status_codes:
  assumes cfg: "ge_cfg env = Some c" "mt_enabled c \<noteq> Some False"
  shows "if S_NO_ONE \<in> set (mergeRolesMetadata (hx_handlerRoles hx) (hx_classRoles hx))
    then fst (canActivate env hx (Some rq) gs) = Inl (Forbidden ACCESS_DENIED)
    else (case fst (canActivate env hx (Some rq) gs) of
            Inl (Unauthorized msg) \<Rightarrow> rq_user rq = None \<and> msg = UNAUTHORIZED
          | Inl (Forbidden msg) \<Rightarrow> rq_user rq \<noteq> None
          | Inr res \<Rightarrow> res \<noteq> None)"
proof (cases "S_NO_ONE \<in> set (mergeRolesMetadata (hx_handlerRoles hx) (hx_classRoles hx))")
  case True
  then show ?thesis using canActivate_active(1) [OF cfg] by (simp add: guard_decide_def Let_def)
next
  case False
  define ok where "ok r \<longleftrightarrow> (case r of Inl (Unauthorized msg) \<Rightarrow> rq_user rq = None \<and> msg = UNAUTHORIZED
      | Inl (Forbidden msg) \<Rightarrow> rq_user rq \<noteq> None | Inr (r :: request) \<Rightarrow> True)" for r
  have ok: "ok (Inr r)" "ok (Inl (Unauthorized UNAUTHORIZED)) = (rq_user rq = None)"
    "ok (Inl (Forbidden msg)) = (rq_user rq \<noteq> None)" for r msg by (auto simp: ok_def)
  let ?gs = "noticeConfig env c gs"
  have e: "ok (fst (everyoneAccess env h rq ?gs))" for h
    by (auto simp: everyoneAccess_def ok split: option.splits prod.splits)
  have s: "rq_user rq = Some u \<Longrightarrow> ok (fst (handleSystemRoleWithTenantHeader env u h rq a ?gs))" for u h a
    by (auto simp: handleSystemRoleWithTenantHeader_def ok split: option.splits prod.splits)
  have h: "rq_user rq = Some u \<Longrightarrow> ok (fst (headerAccess env u h cr rq ?gs))" for u h cr
    by (auto simp: headerAccess_def Let_def ok split: option.splits prod.splits)
  have n: "ok (fst (noHeaderAccess env a cr rq ?gs))" for a cr
    by (auto simp: noHeaderAccess_def ok split: option.splits prod.splits)
  have k: "ok (skipWithUserRoleCheck cfg' cr (rq_user rq) a rq)" for cfg' cr a
    by (auto simp: skipWithUserRoleCheck_def ok split: option.splits)
  have "ok (fst (guard_decide env c hx rq ?gs))"
    using e s h n k ok False by (simp add: guard_decide_def Let_def split: option.splits)
  then show ?thesis
    using False canActivate_active(1) [OF cfg, of hx rq gs]
    by (auto simp: ok_def split: sum.splits http_error.splits)
qed

theorem guard_status_codes_witness:
  "\<exists>msg. fst (canActivate demo_env (demo_hx [''owner'']) (Some ((demo_rq ''t1'')\<lparr>rq_user := None\<rparr>)) guard_new)
     = Inl (Unauthorized msg)"
  using guard_status_codes [of demo_env demo_mt "demo_hx [''owner'']" "(demo_rq ''t1'')\<lparr>rq_user := None\<rparr>" guard_new]
  by (simp add: demo_guard canActivate_def guard_decide_def Let_def tenant_header_def is_admin_def
      mergeRolesMetadata_def role_names js_lower_def js_lower_char_def js_trim_def js_ws_def)

definition context_of :: "request \<Rightarrow> tenant_context" where
  "context_of rq = \<lparr>tc_tenantId = rq_tenantId rq, tc_tenantRole = rq_tenantRole rq, tc_tenantIds = rq_tenantIds rq,
     tc_isAdminBypass = rq_isAdminBypass rq\<rparr>"

definition header_of :: "mt_config \<Rightarrow> request \<Rightarrow> string option" where
  "header_of c rq = map_of (rq_headers rq) (js_lower (case mt_headerName c of None \<Rightarrow> ''x-tenant-id'' | Some n \<Rightarrow> n))"

lemma resolve_ids_any_request:
  assumes "rq_tenantIds rq = None" "rq_tenantIds rq' = None"
  shows "rq_tenantIds (fst (resolveUserTenantIds env u l rq gs)) = rq_tenantIds (fst (resolveUserTenantIds env u l rq' gs))"
    and "snd (resolveUserTenantIds env u l rq gs) = snd (resolveUserTenantIds env u l rq' gs)"
    and "\<exists>ids. fst (resolveUserTenantIds env u l rq gs) = rq\<lparr>rq_tenantIds := Some ids\<rparr>"
proof -
  show "rq_tenantIds (fst (resolveUserTenantIds env u l rq gs)) = rq_tenantIds (fst (resolveUserTenantIds env u l rq' gs))"
    "snd (resolveUserTenantIds env u l rq gs) = snd (resolveUserTenantIds env u l rq' gs)"
    using assms by (simp_all add: resolveUserTenantIds_def Let_def split: option.splits)
  show "\<exists>ids. fst (resolveUserTenantIds env u l rq gs) = rq\<lparr>rq_tenantIds := Some ids\<rparr>"
    using assms(1) by (simp add: resolveUserTenantIds_def Let_def split: option.splits) blast
qed

text \<open>
  The two entry points agree: for a signed-in user and a handler that names no role, the decision
  the guard makes for an HTTP request and the context \<open>resolveTenantContext\<close> derives for a transport
  without a request carry the same tenant, role, tenant list and bypass flag and leave the same caches;
  a refusal on the one side is the empty context on the other.
\<close>

theorem http_and_socket_agree:
  assumes user: "rq_user rq = Some u" "u_id u \<noteq> []" and fresh: "fresh_request rq"
    and cfg: "ge_cfg env = Some c" "gs_lastSeenConfig gs = Some (ge_cfgRef env)"
    and plain: "hx = \<lparr>hx_handlerRoles = None, hx_classRoles = None, hx_skipTenantCheck = False, hx_betterAuth = False\<rparr>"
  shows "resolveTenantContext env (Some u) (header_of c rq) gs =
    ((case fst (canActivate env hx (Some rq) gs) of Inr (Some rq') \<Rightarrow> context_of rq' | _ \<Rightarrow> tc_empty),
     snd (canActivate env hx (Some rq) gs))"
proof (cases "mt_enabled c = Some False")
  case True
  then show ?thesis using cfg fresh
    by (simp add: resolveTenantContext_def canActivate_def fresh_request_def context_of_def tc_empty_def)
next
  case False
  have n: "noticeConfig env c gs = gs" using cfg by (simp add: noticeConfig_def)
  let ?h = "tenant_header c rq"
  have hd: "(case header_of c rq of Some h \<Rightarrow> if h \<noteq> [] \<and> length h \<le> 128 then Some (js_trim h) else None | None \<Rightarrow> None) = ?h"
    by (simp add: tenant_header_def header_of_def Let_def split: option.splits)
  have d: "guard_decide env c hx rq gs =
      (if js_truthy ?h then
         (if is_admin c (Some u) then (Inr (rq\<lparr>rq_tenantId := ?h, rq_isAdminBypass := True\<rparr>), gs)
          else headerAccess env u (the ?h) [] rq gs)
       else noHeaderAccess env (is_admin c (Some u)) [] rq gs)"
    using user plain by (simp add: guard_decide_def Let_def mergeRolesMetadata_def)
  have f: "rq_tenantId rq = None" "rq_tenantRole rq = None" "rq_tenantIds rq = None" "\<not> rq_isAdminBypass rq"
    using fresh by (auto simp: fresh_request_def)
  have t: "?h = Some t" if "js_truthy ?h" "t = the ?h" for t using that by (auto elim: js_truthyE)
  note A = canActivate_active [OF cfg(1) False, of hx rq gs, unfolded n d]
  consider (admin) "is_admin c (Some u)" | (header) "\<not> is_admin c (Some u)" "js_truthy ?h"
    | (list) "\<not> is_admin c (Some u)" "\<not> js_truthy ?h" by blast
  then show ?thesis
  proof cases
    case admin
    then show ?thesis
      unfolding resolveTenantContext_def A using cfg False f user
      by (simp add: hd noHeaderAccess_def context_of_def tc_empty_def)
  next
    case header
    show ?thesis
    proof (cases "fst (findMembershipCached env (u_id u) (the ?h) gs)")
      case None
      then show ?thesis
        unfolding resolveTenantContext_def A using cfg False f user header
        by (simp add: hd headerAccess_def Let_def tc_empty_def case_prod_unfold)
    next
      case (Some m)
      then show ?thesis
        unfolding resolveTenantContext_def A using cfg False f user header t [OF header(2) refl]
        by (simp add: hd headerAccess_def Let_def tc_empty_def context_of_def case_prod_unfold)
    qed
  next
    case list
    let ?carrier = "\<lparr>rq_headers = [], rq_user = Some u, rq_tenantId = None,
      rq_tenantRole = None, rq_tenantIds = None, rq_isAdminBypass = False\<rparr>"
    note same = resolve_ids_any_request [of ?carrier rq env "u_id u" None gs]
    obtain ids where ids: "fst (resolveUserTenantIds env (u_id u) None rq gs) = rq\<lparr>rq_tenantIds := Some ids\<rparr>"
      using resolve_ids_any_request(3) [of rq rq] f by blast
    then have "rq_tenantIds (fst (resolveUserTenantIds env (u_id u) None ?carrier gs)) = Some ids"
      using same(1) f by simp
    then show ?thesis
      unfolding resolveTenantContext_def A using cfg False f user list ids same(2)
      by (simp add: hd noHeaderAccess_def Let_def tc_empty_def context_of_def case_prod_unfold)
  qed
qed

definition demo_plain_hx :: handler_ctx where
  "demo_plain_hx = \<lparr>hx_handlerRoles = None, hx_classRoles = None, hx_skipTenantCheck = False, hx_betterAuth = False\<rparr>"

theorem http_and_socket_agree_witness:
  "fst (resolveTenantContext demo_env (Some demo_user) (Some ''t1'') (guard_new\<lparr>gs_lastSeenConfig := Some 7\<rparr>))
   = tc_empty\<lparr>tc_tenantId := Some ''t1'', tc_tenantRole := Some ''owner''\<rparr>"
proof -
  let ?gs = "guard_new\<lparr>gs_lastSeenConfig := Some 7\<rparr>"
  have a: "resolveTenantContext demo_env (Some demo_user) (header_of demo_mt (demo_rq ''t1'')) ?gs =
      ((case fst (canActivate demo_env demo_plain_hx (Some (demo_rq ''t1'')) ?gs) of
          Inr (Some rq') \<Rightarrow> context_of rq' | _ \<Rightarrow> tc_empty),
       snd (canActivate demo_env demo_plain_hx (Some (demo_rq ''t1'')) ?gs))"
    by (rule http_and_socket_agree) (simp_all add: demo_guard demo_plain_hx_def fresh_request_def)
  have h: "header_of demo_mt (demo_rq ''t1'') = Some ''t1''" by code_simp
  have c: "(case fst (canActivate demo_env demo_plain_hx (Some (demo_rq ''t1'')) ?gs) of
          Inr (Some rq') \<Rightarrow> context_of rq' | _ \<Rightarrow> tc_empty)
      = tc_empty\<lparr>tc_tenantId := Some ''t1'', tc_tenantRole := Some ''owner''\<rparr>" by code_simp
  show ?thesis using a unfolding h c by simp
qed

text \<open>
  Both caches of the guard hold at most 500 entries in every reachable state, whatever headers,
  users and databases the calls saw and however sweeps and invalidations are mixed in.
\<close>

theorem guard_caches_bounded:
  assumes "guard_reaches K gs"
  shows "length (gs_membershipCache gs) \<le> 500 \<and> length (gs_tenantIdsCache gs) \<le> 500
    \<and> distinct (map fst (gs_membershipCache gs)) \<and> distinct (map fst (gs_tenantIdsCache gs))"
  using reaches_bounded [OF assms]
  by (simp add: caches_bounded_def cache_ok_def MAX_CACHE_SIZE_def jsmap_ok_def)

theorem guard_caches_bounded_witness:
  "length (gs_membershipCache (snd (canActivate demo_env demo_plain_hx (Some (demo_rq ''t1'')) guard_new))) \<le> 500"
  using guard_caches_bounded [OF reach_call [OF reach_new, of "\<lambda>_. True" demo_env demo_plain_hx "Some (demo_rq ''t1'')"]]
  by simp

text \<open>
  Staleness is bounded by the TTL: after any history of the guard that ended at time \<open>T\<close> with
  cache times of at most \<open>B\<close>, and whatever was changed in the collection meanwhile, a membership look-up
  and the list of a user's tenants made at \<open>T + B\<close> or later answer what the collection holds now.
\<close>

theorem stale_membership_bounded:
  assumes "guard_reaches (clock_ok T B) gs" "30000 \<le> B" "T + B \<le> ge_now env" "rq_tenantIds rq = None"
  shows "fst (findMembershipCached env u t gs) = db_findActive (ge_db env) t u
    \<and> rq_tenantIds (fst (resolveUserTenantIds env u l rq gs))
        = Some (tenant_ids_of (ge_cfg env) (db_findAllActive (ge_db env) u) l)"
proof -
  have "ages_bounded T B gs" using reaches_ages assms(1,2) by blast
  then have "jsmap_all (\<lambda>_ e. fst e \<le> ge_now env) (gs_membershipCache gs)"
    "jsmap_all (\<lambda>_ e. fst e \<le> ge_now env) (gs_tenantIdsCache gs)"
    using assms(3) by (force simp: ages_bounded_def jsmap_all_def)+
  then show ?thesis using lookup_expired [of env gs] ids_expired [of env gs rq] assms(4) by simp
qed

theorem stale_membership_bounded_witness:
  "fst (findMembershipCached (demo_env\<lparr>ge_now := 31001, ge_db := demo_db\<lparr>db_findActive := \<lambda>_ _. None\<rparr>\<rparr>) ''u1'' ''t1''
     (snd (canActivate demo_env demo_plain_hx (Some (demo_rq ''t1'')) guard_new))) = None"
proof -
  have "clock_ok 1001 30000 demo_env" by (simp add: clock_ok_def demo_env_def demo_mt_def)
  then have r: "guard_reaches (clock_ok 1001 30000) (snd (canActivate demo_env demo_plain_hx (Some (demo_rq ''t1'')) guard_new))"
    using reach_call [OF reach_new] by blast
  show ?thesis
    using stale_membership_bounded [OF r, of "demo_env\<lparr>ge_now := 31001, ge_db := demo_db\<lparr>db_findActive := \<lambda>_ _. None\<rparr>\<rparr>"
        "demo_rq ''t1''" "''u1''" "''t1''" None]
    by (simp add: demo_rq_def)
qed

text \<open>
  C39. Invalidation restores coherence on every replica: after the memberships of one user changed, the
  replica that calls \<open>invalidateUser\<close> and every replica that applies the message it sends answer from
  caches that agree with the collection again, without a cache entry of another user being lost.
  Assumed: the caches of both replicas were coherent with the collection before the change, and ids of users hold no colon.
\<close>

theorem invalidation_restores_coherence:
  assumes "coherent db gs" "keys_separated gs" "coherent db gs2" "keys_separated gs2"
    and "same_but_user u db db'" "plain_id u" "u \<noteq> []" "v \<noteq> u" "plain_id v"
    and "invalidateUser True u gs = (gs', msg)"
  shows "coherent db' gs' \<and> coherent db' (applyInvalidation msg gs2)
    \<and> map_of (gs_membershipCache (applyInvalidation msg gs2)) (membership_key v t) = map_of (gs_membershipCache gs2) (membership_key v t)"
proof -
  have g: "gs' = clearUser u gs" "applyInvalidation msg gs2 = clearUser u gs2"
    using assms(7,10) by (auto simp: invalidateUser_def applyInvalidation_def)
  have ok: "jsmap_ok (gs_membershipCache gs2)" using assms(3) by (simp add: coherent_def caches_bounded_def cache_ok_def)
  have "\<not> js_starts_with (membership_key v t) (u @ '':'')"
  proof
    assume "js_starts_with (membership_key v t) (u @ '':'')"
    then obtain r where "membership_key v t = u @ '':'' @ r"
      by (auto simp: js_starts_with_def prefix_def)
    then have "key_user (membership_key v t) = key_user (membership_key u r)" by (simp add: membership_key_def)
    then show False using assms(6,8,9) by simp
  qed
  then show ?thesis
    unfolding g using clearUser_coherent assms(1-6) ok
    by (auto simp: clearUser_def map_of_jsmap_filter split: option.splits)
qed

definition demo_cached :: guard_state where
  "demo_cached = guard_new\<lparr>gs_membershipCache := [(''u1:t1'', (31000, demo_member))]\<rparr>"

theorem invalidation_restores_coherence_witness:
  "coherent (demo_db\<lparr>db_findActive := \<lambda>_ _. None, db_findAllActive := \<lambda>_. []\<rparr>)
     (applyInvalidation (snd (invalidateUser True ''u1'' demo_cached)) demo_cached)"
proof -
  have c: "coherent demo_db demo_cached"
    by (simp add: coherent_def demo_cached_def guard_new_def caches_bounded_def cache_ok_def jsmap_ok_def
        MAX_CACHE_SIZE_def jsmap_all_def membership_true_def key_tenant_def key_user_def demo_db_def)
  have k: "keys_separated demo_cached"
  proof -
    have "''u1:t1'' = membership_key ''u1'' ''t1''" by (simp add: membership_key_def)
    then have "\<exists>u t. ''u1:t1'' = membership_key u t" by blast
    then show ?thesis by (simp add: keys_separated_def demo_cached_def guard_new_def jsmap_all_def)
  qed
  have s: "same_but_user ''u1'' demo_db (demo_db\<lparr>db_findActive := \<lambda>_ _. None, db_findAllActive := \<lambda>_. []\<rparr>)"
    by (auto simp: same_but_user_def demo_db_def)
  show ?thesis
    using invalidation_restores_coherence [OF c k c k s, of "''v''"] by (simp add: plain_id_def prod_eq_iff)
qed

end
