(* ===== verification/RequestContext.thy ===== *)
theory RequestContext
  imports TenantGuard
begin

text \<open>
  JavaScript values as the storage hooks see them, and the request-scoped context:
  \<^item> \<open>jv\<close> is a JSON value or \<^verbatim>\<open>undefined\<close>; documents, filters and updates are such values;
  \<^item> \<^verbatim>\<open>common/services/request-context.service.ts\<close>: the context and the ways to run under a changed
    one; a function that runs its argument in a new context is the map from the current context to
    the new one, the current context being \<open>None\<close> outside a request;
  \<^item> \<^verbatim>\<open>common/middleware/request-context.middleware.ts\<close>: the context of an HTTP request, whose
    properties read the request when they are read.
\<close>

subsection \<open>Values\<close>

datatype jv = JUndef | JNull | JBool bool | JNum int | JStr string | JArr "jv list" | JObj "(string \<times> jv) list"

definition jtruthy :: "jv \<Rightarrow> bool" where
  "jtruthy v = (case v of JUndef \<Rightarrow> False | JNull \<Rightarrow> False | JBool b \<Rightarrow> b | JNum n \<Rightarrow> n \<noteq> 0 | JStr s \<Rightarrow> s \<noteq> []
                | JArr _ \<Rightarrow> True | JObj _ \<Rightarrow> True)"

text \<open>\<^verbatim>\<open>v?.k\<close>, \<^verbatim>\<open>v.k = x\<close> and \<^verbatim>\<open>delete v.k\<close> for own properties.\<close>

definition jget :: "jv \<Rightarrow> string \<Rightarrow> jv" where
  "jget v k = (case v of JObj m \<Rightarrow> (case map_of m k of Some x \<Rightarrow> x | None \<Rightarrow> JUndef) | _ \<Rightarrow> JUndef)"

definition jset :: "jv \<Rightarrow> string \<Rightarrow> jv \<Rightarrow> jv" where
  "jset v k x = (case v of JObj m \<Rightarrow> JObj (AList.update k x m) | _ \<Rightarrow> v)"

definition jdelete :: "jv \<Rightarrow> string \<Rightarrow> jv" where
  "jdelete v k = (case v of JObj m \<Rightarrow> JObj (AList.delete k m) | _ \<Rightarrow> v)"

text \<open>The spread \<^verbatim>\<open>{...a, ...b}\<close>; spreading a value without own properties adds nothing.\<close>

definition jfields :: "jv \<Rightarrow> (string \<times> jv) list" where
  "jfields v = (case v of JObj m \<Rightarrow> m | _ \<Rightarrow> [])"

definition jspread :: "jv \<Rightarrow> jv \<Rightarrow> jv" where
  "jspread a b = JObj (foldl (\<lambda>m kv. AList.update (fst kv) (snd kv) m) (jfields a) (jfields b))"

definition jelems :: "jv \<Rightarrow> jv list option" where
  "jelems v = (case v of JArr xs \<Rightarrow> Some xs | _ \<Rightarrow> None)"

lemma jget_simps [simp]:
  "jget JUndef k = JUndef" "jget JNull k = JUndef" "jget (JArr xs) k = JUndef" "jget (JStr s) k = JUndef"
  "jget (JObj m) k = (case map_of m k of Some x \<Rightarrow> x | None \<Rightarrow> JUndef)"
  by (simp_all add: jget_def)

lemma jtruthy_simps [simp]:
  "\<not> jtruthy JUndef" "\<not> jtruthy JNull" "jtruthy (JStr s) \<longleftrightarrow> s \<noteq> []" "jtruthy (JArr xs)" "jtruthy (JObj m)"
  by (simp_all add: jtruthy_def)

lemma jget_jset: "jget v k \<noteq> JUndef \<or> (\<exists>m. v = JObj m) \<Longrightarrow> jget (jset v k x) k' = (if k' = k then x else jget v k')"
  by (cases v) (auto simp: jget_def jset_def map_of_update_eq)

lemma jget_jset_obj [simp]: "jget (jset (JObj m) k x) k' = (if k' = k then x else jget (JObj m) k')"
  by (simp add: jset_def map_of_update_eq)

lemma jget_jdelete [simp]: "jget (jdelete v k) k' = (if k' = k then JUndef else jget v k')"
  by (cases v) (auto simp: jget_def jdelete_def map_of_delete_eq)

lemma jspread_get:
  "map_of (jfields (jspread a (JObj [(k, x)]))) k' = (if k' = k then Some x else map_of (jfields a) k')"
  by (simp add: jspread_def jfields_def map_of_update_eq)

lemma jspread_Nil [simp]: "jspread a (JObj []) = JObj (jfields a)"
  by (simp add: jspread_def jfields_def)

subsection \<open>The context\<close>

record ctx_user =
  cu_id :: string
  cu_hasRole :: "(string list \<Rightarrow> bool) option"
  cu_roles :: "string list option"

record req_context =
  cx_currentUser :: "ctx_user option"
  cx_language :: "string option"
  cx_bypassRoleGuard :: bool
  cx_bypassTenantGuard :: bool
  cx_tenantId :: "string option"
  cx_tenantIds :: "string list option"
  cx_tenantRole :: "string option"
  cx_isAdminBypass :: bool
  cx_processDepth :: "nat option"

definition cx_empty :: req_context where
  "cx_empty = \<lparr>cx_currentUser = None, cx_language = None, cx_bypassRoleGuard = False, cx_bypassTenantGuard = False,
     cx_tenantId = None, cx_tenantIds = None, cx_tenantRole = None, cx_isAdminBypass = False, cx_processDepth = None\<rparr>"

definition getCurrentUser :: "req_context option \<Rightarrow> ctx_user option" where
  "getCurrentUser cx = (case cx of None \<Rightarrow> None | Some c \<Rightarrow> cx_currentUser c)"

definition isBypassRoleGuard :: "req_context option \<Rightarrow> bool" where
  "isBypassRoleGuard cx = (case cx of None \<Rightarrow> False | Some c \<Rightarrow> cx_bypassRoleGuard c)"

definition isBypassTenantGuard :: "req_context option \<Rightarrow> bool" where
  "isBypassTenantGuard cx = (case cx of None \<Rightarrow> False | Some c \<Rightarrow> cx_bypassTenantGuard c)"

definition getTenantId :: "req_context option \<Rightarrow> string option" where
  "getTenantId cx = (case cx of None \<Rightarrow> None | Some c \<Rightarrow> cx_tenantId c)"

definition getProcessDepth :: "req_context option \<Rightarrow> nat" where
  "getProcessDepth cx = (case cx of None \<Rightarrow> 0 | Some c \<Rightarrow> (case cx_processDepth c of None \<Rightarrow> 0 | Some n \<Rightarrow> n))"

text \<open>The new context of \<^verbatim>\<open>runWith...\<close>; spreading no context gives the empty one.\<close>

definition spread_store :: "req_context option \<Rightarrow> req_context" where
  "spread_store cx = (case cx of None \<Rightarrow> cx_empty | Some c \<Rightarrow> c)"

definition runWithBypassRoleGuard :: "req_context option \<Rightarrow> req_context option" where
  "runWithBypassRoleGuard cx =
     (if isBypassRoleGuard cx then cx else Some ((spread_store cx)\<lparr>cx_bypassRoleGuard := True\<rparr>))"

definition runWithBypassTenantGuard :: "req_context option \<Rightarrow> req_context option" where
  "runWithBypassTenantGuard cx =
     (if isBypassTenantGuard cx then cx else Some ((spread_store cx)\<lparr>cx_bypassTenantGuard := True\<rparr>))"

definition runWithIncrementedProcessDepth :: "req_context option \<Rightarrow> req_context option" where
  "runWithIncrementedProcessDepth cx =
     Some ((spread_store cx)\<lparr>cx_processDepth := Some (getProcessDepth cx + 1)\<rparr>)"

text \<open>The middleware: what the getters answer for the request as the guard left it.\<close>

definition middleware_use :: "request \<Rightarrow> req_context" where
  "middleware_use req =
     \<lparr>cx_currentUser = (case rq_user req of None \<Rightarrow> None
        | Some u \<Rightarrow> Some \<lparr>cu_id = u_id u, cu_hasRole = None, cu_roles = u_roles u\<rparr>),
      cx_language = (case map_of (rq_headers req) ''accept-language'' of
        Some l \<Rightarrow> if l \<noteq> [] then Some l else None | None \<Rightarrow> None),
      cx_bypassRoleGuard = False, cx_bypassTenantGuard = False,
      cx_tenantId = rq_tenantId req, cx_tenantIds = rq_tenantIds req, cx_tenantRole = rq_tenantRole req,
      cx_isAdminBypass = rq_isAdminBypass req, cx_processDepth = None\<rparr>"

end
