(* ===== verification/TenantPlugin.thy ===== *)
theory TenantPlugin
  imports RequestContext
begin

text \<open>
  \<^verbatim>\<open>common/plugins/mongoose-tenant.plugin.ts\<close>: the hooks that keep a tenant's reads and writes inside
  the tenant.

  \<^item> The configuration, the current context and the registered models are arguments. A model is
    its name, the name of its collection and whether its schema has a \<^verbatim>\<open>tenantId\<close> path.
  \<^item> A hook throws (\<open>Inl\<close>) or returns what it hands to the driver: the changed conditions, document,
    operations or pipeline.
  \<^item> What MongoDB and Mongoose do with them is a parameter: \<open>sat\<close> says whether a document matches a
    filter, \<open>merge_where\<close> merges conditions into a query, \<open>ev\<close> runs a pipeline. \<open>filter_laws\<close>, \<open>where_law\<close>
    and \<open>pipeline_laws\<close> state the documented behaviour the plugin relies on.
  \<^item> An aggregation stage has one operator, as MongoDB requires; operators the plugin does not look
    at are \<open>SOther\<close>.
\<close>

subsection \<open>Context and filter\<close>

datatype plugin_error =
    TenantContextRequired
  | ForeignTenant bool jv string
  | CountNotFilterable
  | WriteStageRefused

record model_info =
  md_name :: string
  md_collection :: string
  md_hasTenantPath :: bool

definition excluded_schema :: "mt_config \<Rightarrow> string option \<Rightarrow> bool" where
  "excluded_schema c modelName =
     (js_truthy modelName
      \<and> (case mt_excludeSchemas c of None \<Rightarrow> False | Some ex \<Rightarrow> the modelName \<in> set ex))"

definition shouldBypass :: "mt_config option \<Rightarrow> req_context option \<Rightarrow> string option \<Rightarrow> bool" where
  "shouldBypass cfg cx modelName =
     (case cfg of
        None \<Rightarrow> True
      | Some c \<Rightarrow>
          if mt_enabled c = Some False then True
          else (case cx of
                  None \<Rightarrow> True
                | Some context \<Rightarrow>
                    if cx_bypassTenantGuard context then True
                    else excluded_schema c modelName))"

text \<open>The filters of the plugin, as the objects it hands to MongoDB.\<close>

definition tenant_eq :: "string \<Rightarrow> jv" where
  "tenant_eq t = JObj [(''tenantId'', JStr t)]"

definition tenant_in :: "string list \<Rightarrow> jv" where
  "tenant_in ts = JObj [(''tenantId'', JObj [(''$in'', JArr (map JStr ts))])]"

definition resolveTenantFilter ::
  "mt_config option \<Rightarrow> req_context option \<Rightarrow> string option \<Rightarrow> plugin_error + jv option" where
  "resolveTenantFilter cfg cx modelName =
     (if shouldBypass cfg cx modelName then Inr None
      else
        (let tenantId = (case cx of None \<Rightarrow> None | Some c \<Rightarrow> cx_tenantId c);
             tenantIds = (case cx of None \<Rightarrow> None | Some c \<Rightarrow> cx_tenantIds c)
         in if js_truthy tenantId then Inr (Some (tenant_eq (the tenantId)))
            else (case tenantIds of
                    Some ids \<Rightarrow> Inr (Some (tenant_in ids))
                  | None \<Rightarrow>
                      if (case cx of None \<Rightarrow> False | Some c \<Rightarrow> cx_isAdminBypass c) then Inr (Some (JObj []))
                      else Inl TenantContextRequired)))"

definition resolveSingleTenantId ::
  "mt_config option \<Rightarrow> req_context option \<Rightarrow> string option \<Rightarrow> string option" where
  "resolveSingleTenantId cfg cx modelName =
     (if shouldBypass cfg cx modelName then None
      else (case cx of
              None \<Rightarrow> None
            | Some c \<Rightarrow> if js_truthy (cx_tenantId c) then cx_tenantId c else None))"

definition assertOwnTenant :: "jv \<Rightarrow> string \<Rightarrow> bool \<Rightarrow> plugin_error + unit" where
  "assertOwnTenant v ownTenantId isNew =
     (if v = JUndef \<or> v = JNull \<or> v = JStr ownTenantId then Inr ()
      else Inl (ForeignTenant isNew v ownTenantId))"

subsection \<open>The hooks\<close>

text \<open>The hook of the twelve query operations: the conditions and the update of the query.\<close>

definition update_candidates :: "jv \<Rightarrow> jv list" where
  "update_candidates update =
     [jget update ''tenantId'', jget (jget update ''$set'') ''tenantId'', jget (jget update ''$setOnInsert'') ''tenantId'']"

definition query_hook ::
  "(jv \<Rightarrow> jv \<Rightarrow> jv) \<Rightarrow> mt_config option \<Rightarrow> req_context option \<Rightarrow> string option \<Rightarrow> jv \<Rightarrow> jv \<Rightarrow> plugin_error + jv" where
  "query_hook merge_where cfg cx modelName conditions update =
     then_do (resolveTenantFilter cfg cx modelName) (\<lambda>filter.
       let conditions' = (case filter of Some f \<Rightarrow> merge_where conditions f | None \<Rightarrow> conditions)
       in case resolveSingleTenantId cfg cx modelName of
            None \<Rightarrow> Inr conditions'
          | Some single \<Rightarrow>
              then_do
                (each (\<lambda>candidate. if candidate \<noteq> JUndef then assertOwnTenant candidate single False else Inr ())
                   (update_candidates update))
                (\<lambda>_. Inr conditions'))"

definition save_hook ::
  "mt_config option \<Rightarrow> req_context option \<Rightarrow> string option \<Rightarrow> bool \<Rightarrow> jv \<Rightarrow> plugin_error + jv" where
  "save_hook cfg cx modelName isNew doc =
     (case resolveSingleTenantId cfg cx modelName of
        None \<Rightarrow> Inr doc
      | Some tenantId \<Rightarrow>
          if isNew \<and> \<not> jtruthy (jget doc ''tenantId'') then Inr (jset doc ''tenantId'' (JStr tenantId))
          else then_do (assertOwnTenant (jget doc ''tenantId'') tenantId isNew) (\<lambda>_. Inr doc))"

definition stamp_or_check :: "string \<Rightarrow> jv \<Rightarrow> plugin_error + jv" where
  "stamp_or_check tenantId doc =
     (if \<not> jtruthy (jget doc ''tenantId'') then Inr (jset doc ''tenantId'' (JStr tenantId))
      else then_do (assertOwnTenant (jget doc ''tenantId'') tenantId True) (\<lambda>_. Inr doc))"

definition insertMany_hook ::
  "mt_config option \<Rightarrow> req_context option \<Rightarrow> string option \<Rightarrow> jv \<Rightarrow> plugin_error + jv" where
  "insertMany_hook cfg cx modelName docs =
     (case (resolveSingleTenantId cfg cx modelName, jelems docs) of
        (Some tenantId, Some ds) \<Rightarrow> then_do (each (stamp_or_check tenantId) ds) (\<lambda>ds'. Inr (JArr ds'))
      | _ \<Rightarrow> Inr docs)"

datatype bulk_op =
    InsertOne jv
  | UpdateOne jv jv
  | UpdateMany jv jv
  | ReplaceOne jv jv
  | DeleteOne jv
  | DeleteMany jv

definition bulk_op_hook :: "jv \<Rightarrow> string option \<Rightarrow> bulk_op \<Rightarrow> bulk_op" where
  "bulk_op_hook tenantFilter tenantId op =
     (case op of
        InsertOne document \<Rightarrow>
          (case tenantId of
             Some t \<Rightarrow> if \<not> jtruthy (jget document ''tenantId'')
                       then InsertOne (jset document ''tenantId'' (JStr t)) else op
           | None \<Rightarrow> op)
      | UpdateOne f u \<Rightarrow> UpdateOne (jspread f tenantFilter) u
      | UpdateMany f u \<Rightarrow> UpdateMany (jspread f tenantFilter) u
      | ReplaceOne f r \<Rightarrow> ReplaceOne (jspread f tenantFilter) r
      | DeleteOne f \<Rightarrow> DeleteOne (jspread f tenantFilter)
      | DeleteMany f \<Rightarrow> DeleteMany (jspread f tenantFilter))"

definition bulkWrite_hook ::
  "mt_config option \<Rightarrow> req_context option \<Rightarrow> string option \<Rightarrow> bulk_op list \<Rightarrow> plugin_error + bulk_op list" where
  "bulkWrite_hook cfg cx modelName ops =
     then_do (resolveTenantFilter cfg cx modelName) (\<lambda>filter.
       case filter of
         None \<Rightarrow> Inr ops
       | Some f \<Rightarrow> Inr (map (bulk_op_hook f (resolveSingleTenantId cfg cx modelName)) ops))"

definition estimatedDocumentCount_hook ::
  "mt_config option \<Rightarrow> req_context option \<Rightarrow> string option \<Rightarrow> plugin_error + unit" where
  "estimatedDocumentCount_hook cfg cx modelName =
     (if shouldBypass cfg cx modelName then Inr ()
      else if (case cx of None \<Rightarrow> False | Some c \<Rightarrow> cx_isAdminBypass c \<and> \<not> js_truthy (cx_tenantId c)) then Inr ()
      else Inl CountNotFilterable)"

subsection \<open>Aggregation pipelines\<close>

datatype stage =
    SMatch jv
  | SLookup jv "stage list option" jv
  | SUnionName string
  | SUnion jv "stage list option"
  | SGraphLookup jv jv jv
  | SFacet "(string \<times> stage list) list"
  | SOut jv
  | SMerge jv
  | SOther nat

fun find_model ::
  "mt_config option \<Rightarrow> req_context option \<Rightarrow> string \<Rightarrow> model_info list \<Rightarrow> plugin_error + jv option" where
  "find_model cfg cx collectionName [] = Inr None"
| "find_model cfg cx collectionName (candidate # rest) =
     (if md_collection candidate \<noteq> collectionName then find_model cfg cx collectionName rest
      else if \<not> md_hasTenantPath candidate then Inr None
      else then_do (resolveTenantFilter cfg cx (Some (md_name candidate))) (\<lambda>filter.
             case filter of
               Some f \<Rightarrow> Inr (if jfields f \<noteq> [] then Some f else None)
             | None \<Rightarrow> Inr None))"

definition filterForCollection ::
  "mt_config option \<Rightarrow> req_context option \<Rightarrow> model_info list \<Rightarrow> jv \<Rightarrow> plugin_error + jv option" where
  "filterForCollection cfg cx models collectionName =
     (case collectionName of
        JStr name \<Rightarrow> if name = [] then Inr None else find_model cfg cx name models
      | _ \<Rightarrow> Inr None)"

definition with_match :: "jv option \<Rightarrow> stage list option \<Rightarrow> stage list option" where
  "with_match tenantFilter pipeline =
     (case tenantFilter of
        Some f \<Rightarrow> Some (SMatch f # (case pipeline of None \<Rightarrow> [] | Some p \<Rightarrow> p))
      | None \<Rightarrow> pipeline)"

text \<open>
  The recursion over a pipeline. The injected \<open>$match\<close> stage, which the recursion of the code also
  visits without effect, is put in front of the secured sub-pipeline.
\<close>

fun secureStage ::
  "mt_config option \<Rightarrow> req_context option \<Rightarrow> model_info list \<Rightarrow> stage \<Rightarrow> plugin_error + stage"
and secureCrossCollectionStages ::
  "mt_config option \<Rightarrow> req_context option \<Rightarrow> model_info list \<Rightarrow> stage list \<Rightarrow> plugin_error + stage list"
and secureOptional ::
  "mt_config option \<Rightarrow> req_context option \<Rightarrow> model_info list \<Rightarrow> stage list option \<Rightarrow> plugin_error + stage list option"
and secureBranches ::
  "mt_config option \<Rightarrow> req_context option \<Rightarrow> model_info list \<Rightarrow> (string \<times> stage list) list
     \<Rightarrow> plugin_error + (string \<times> stage list) list" where
  "secureStage cfg cx models (SLookup source pipeline rest) =
     then_do (filterForCollection cfg cx models source) (\<lambda>filter.
       then_do (secureOptional cfg cx models pipeline) (\<lambda>p. Inr (SLookup source (with_match filter p) rest)))"
| "secureStage cfg cx models (SUnionName name) =
     then_do (filterForCollection cfg cx models (JStr name)) (\<lambda>filter.
       case filter of
         Some f \<Rightarrow> Inr (SUnion (JStr name) (Some [SMatch f]))
       | None \<Rightarrow> Inr (SUnionName name))"
| "secureStage cfg cx models (SUnion coll pipeline) =
     then_do (filterForCollection cfg cx models coll) (\<lambda>filter.
       then_do (secureOptional cfg cx models pipeline) (\<lambda>p. Inr (SUnion coll (with_match filter p))))"
| "secureStage cfg cx models (SGraphLookup source restrict rest) =
     then_do (filterForCollection cfg cx models source) (\<lambda>filter.
       case filter of
         Some f \<Rightarrow> Inr (SGraphLookup source (jspread restrict f) rest)
       | None \<Rightarrow> Inr (SGraphLookup source restrict rest))"
| "secureStage cfg cx models (SFacet branches) =
     then_do (secureBranches cfg cx models branches) (\<lambda>bs. Inr (SFacet bs))"
| "secureStage cfg cx models (SMatch f) = Inr (SMatch f)"
| "secureStage cfg cx models (SOut v) = Inr (SOut v)"
| "secureStage cfg cx models (SMerge v) = Inr (SMerge v)"
| "secureStage cfg cx models (SOther n) = Inr (SOther n)"
| "secureCrossCollectionStages cfg cx models [] = Inr []"
| "secureCrossCollectionStages cfg cx models (stage # rest) =
     then_do (secureStage cfg cx models stage) (\<lambda>s.
       then_do (secureCrossCollectionStages cfg cx models rest) (\<lambda>ss. Inr (s # ss)))"
| "secureOptional cfg cx models None = Inr None"
| "secureOptional cfg cx models (Some pipeline) =
     then_do (secureCrossCollectionStages cfg cx models pipeline) (\<lambda>p. Inr (Some p))"
| "secureBranches cfg cx models [] = Inr []"
| "secureBranches cfg cx models ((key, branch) # rest) =
     then_do (secureCrossCollectionStages cfg cx models branch) (\<lambda>b.
       then_do (secureBranches cfg cx models rest) (\<lambda>bs. Inr ((key, b) # bs)))"

definition is_write_stage :: "stage \<Rightarrow> bool" where
  "is_write_stage s = (case s of SOut v \<Rightarrow> v \<noteq> JUndef | SMerge v \<Rightarrow> v \<noteq> JUndef | _ \<Rightarrow> False)"

definition aggregate_hook ::
  "mt_config option \<Rightarrow> req_context option \<Rightarrow> model_info list \<Rightarrow> string option \<Rightarrow> stage list
     \<Rightarrow> plugin_error + stage list" where
  "aggregate_hook cfg cx models modelName pipeline =
     then_do (resolveTenantFilter cfg cx modelName) (\<lambda>filter.
       case filter of
         None \<Rightarrow> Inr pipeline
       | Some f \<Rightarrow>
           if list_ex is_write_stage pipeline then Inl WriteStageRefused
           else secureCrossCollectionStages cfg cx models (SMatch f # pipeline))"

subsection \<open>What the plugin relies on\<close>

text \<open>
  Filters: the empty one matches everything, the fields of one are ANDed, and the two filters of the
  plugin compare the \<open>tenantId\<close> of a document. A query that filters were merged into matches
  nothing the merged filter does not match.
\<close>

definition filter_laws :: "(jv \<Rightarrow> jv \<Rightarrow> bool) \<Rightarrow> bool" where
  "filter_laws sat \<longleftrightarrow>
     (\<forall>d. sat (JObj []) d)
     \<and> (\<forall>m k v d. sat (JObj m) d \<longrightarrow> map_of m k = Some v \<longrightarrow> sat (JObj [(k, v)]) d)
     \<and> (\<forall>t d. sat (tenant_eq t) d \<longleftrightarrow> jget d ''tenantId'' = JStr t)
     \<and> (\<forall>ts d. sat (tenant_in ts) d \<longleftrightarrow> (\<exists>t \<in> set ts. jget d ''tenantId'' = JStr t))"

definition where_law :: "(jv \<Rightarrow> jv \<Rightarrow> bool) \<Rightarrow> (jv \<Rightarrow> jv \<Rightarrow> jv) \<Rightarrow> bool" where
  "where_law sat merge_where \<longleftrightarrow> (\<forall>q f d. sat (merge_where q f) d \<longrightarrow> sat f d)"

text \<open>
  Pipelines: a leading \<open>$match\<close> filters the input, and the result depends on the other collections only
  through the stages that read them; what such a stage reads of a collection is limited by the
  leading \<open>$match\<close> of its sub-pipeline, or by \<open>restrictSearchWithMatch\<close>.
\<close>

type_synonym collections = "string \<Rightarrow> jv list"

definition source_agree ::
  "(jv \<Rightarrow> jv \<Rightarrow> bool) \<Rightarrow> collections \<Rightarrow> collections \<Rightarrow> jv \<Rightarrow> stage list option \<Rightarrow> bool" where
  "source_agree sat db1 db2 source pipeline \<longleftrightarrow>
     (case source of
        JStr name \<Rightarrow>
          (case pipeline of
             Some (SMatch f # _) \<Rightarrow> filter (sat f) (db1 name) = filter (sat f) (db2 name)
           | _ \<Rightarrow> db1 name = db2 name)
      | _ \<Rightarrow> True)"

definition graph_agree :: "(jv \<Rightarrow> jv \<Rightarrow> bool) \<Rightarrow> collections \<Rightarrow> collections \<Rightarrow> jv \<Rightarrow> jv \<Rightarrow> bool" where
  "graph_agree sat db1 db2 source restrict \<longleftrightarrow>
     (case source of
        JStr name \<Rightarrow> filter (sat (JObj (jfields restrict))) (db1 name) = filter (sat (JObj (jfields restrict))) (db2 name)
      | _ \<Rightarrow> True)"

fun stage_agree :: "(jv \<Rightarrow> jv \<Rightarrow> bool) \<Rightarrow> collections \<Rightarrow> collections \<Rightarrow> stage \<Rightarrow> bool"
and pipe_agree :: "(jv \<Rightarrow> jv \<Rightarrow> bool) \<Rightarrow> collections \<Rightarrow> collections \<Rightarrow> stage list \<Rightarrow> bool"
and opt_agree :: "(jv \<Rightarrow> jv \<Rightarrow> bool) \<Rightarrow> collections \<Rightarrow> collections \<Rightarrow> stage list option \<Rightarrow> bool"
and branch_agree :: "(jv \<Rightarrow> jv \<Rightarrow> bool) \<Rightarrow> collections \<Rightarrow> collections \<Rightarrow> (string \<times> stage list) list \<Rightarrow> bool" where
  "stage_agree sat db1 db2 (SLookup source p rest) \<longleftrightarrow> source_agree sat db1 db2 source p \<and> opt_agree sat db1 db2 p"
| "stage_agree sat db1 db2 (SUnionName name) \<longleftrightarrow> db1 name = db2 name"
| "stage_agree sat db1 db2 (SUnion source p) \<longleftrightarrow> source_agree sat db1 db2 source p \<and> opt_agree sat db1 db2 p"
| "stage_agree sat db1 db2 (SGraphLookup source restrict rest) \<longleftrightarrow> graph_agree sat db1 db2 source restrict"
| "stage_agree sat db1 db2 (SFacet branches) \<longleftrightarrow> branch_agree sat db1 db2 branches"
| "stage_agree sat db1 db2 (SMatch f) \<longleftrightarrow> True"
| "stage_agree sat db1 db2 (SOut v) \<longleftrightarrow> True"
| "stage_agree sat db1 db2 (SMerge v) \<longleftrightarrow> True"
| "stage_agree sat db1 db2 (SOther n) \<longleftrightarrow> True"
| "pipe_agree sat db1 db2 [] \<longleftrightarrow> True"
| "pipe_agree sat db1 db2 (s # ss) \<longleftrightarrow> stage_agree sat db1 db2 s \<and> pipe_agree sat db1 db2 ss"
| "opt_agree sat db1 db2 None \<longleftrightarrow> True"
| "opt_agree sat db1 db2 (Some p) \<longleftrightarrow> pipe_agree sat db1 db2 p"
| "branch_agree sat db1 db2 [] \<longleftrightarrow> True"
| "branch_agree sat db1 db2 ((key, p) # bs) \<longleftrightarrow> pipe_agree sat db1 db2 p \<and> branch_agree sat db1 db2 bs"

definition pipeline_laws ::
  "(jv \<Rightarrow> jv \<Rightarrow> bool) \<Rightarrow> (collections \<Rightarrow> stage list \<Rightarrow> jv list \<Rightarrow> jv list) \<Rightarrow> bool" where
  "pipeline_laws sat ev \<longleftrightarrow>
     (\<forall>db f p rows. ev db (SMatch f # p) rows = ev db p (filter (sat f) rows))
     \<and> (\<forall>db1 db2 p rows. pipe_agree sat db1 db2 p \<longrightarrow> ev db1 p rows = ev db2 p rows)"

subsection \<open>Lemmas\<close>

text \<open>The rows a context may see in a tenant-scoped collection.\<close>

definition in_ctx :: "req_context \<Rightarrow> jv \<Rightarrow> bool" where
  "in_ctx k d \<longleftrightarrow>
     (if js_truthy (cx_tenantId k) then jget d ''tenantId'' = JStr (the (cx_tenantId k))
      else (case cx_tenantIds k of
              Some ids \<Rightarrow> (\<exists>t \<in> set ids. jget d ''tenantId'' = JStr t)
            | None \<Rightarrow> cx_isAdminBypass k))"

lemma resolve_in_ctx:
  assumes "resolveTenantFilter cfg (Some k) m = Inr (Some f)" "filter_laws sat"
  shows "sat f d \<longleftrightarrow> in_ctx k d"
  using assms by (auto simp: resolveTenantFilter_def in_ctx_def filter_laws_def Let_def split: if_splits option.splits)

lemma resolve_bypass: "resolveTenantFilter cfg cx m = Inr None \<longleftrightarrow> shouldBypass cfg cx m"
  by (auto simp: resolveTenantFilter_def Let_def split: if_splits option.splits)

lemma no_bypass_context: "\<not> shouldBypass cfg cx m \<Longrightarrow> \<exists>k. cx = Some k"
  by (auto simp: shouldBypass_def split: option.splits if_splits)

lemma resolve_shape:
  assumes "resolveTenantFilter cfg cx m = Inr (Some f)"
  shows "f = JObj [] \<or> (\<exists>v. f = JObj [(''tenantId'', v)])"
  using assms by (auto simp: resolveTenantFilter_def Let_def tenant_eq_def tenant_in_def split: if_splits option.splits)

lemma single_tenant:
  "resolveSingleTenantId cfg cx m = Some t \<longleftrightarrow>
     \<not> shouldBypass cfg cx m \<and> (\<exists>k. cx = Some k \<and> cx_tenantId k = Some t \<and> t \<noteq> [])"
  by (auto simp: resolveSingleTenantId_def elim!: js_truthyE split: option.splits if_splits)

lemma assertOwn_ok: "assertOwnTenant v t b = Inr () \<longleftrightarrow> v = JUndef \<or> v = JNull \<or> v = JStr t"
  by (simp add: assertOwnTenant_def)

lemma sat_spread:
  assumes "filter_laws sat" "sat (jspread a f) d" "f = JObj [] \<or> (\<exists>v. f = JObj [(''tenantId'', v)])"
  shows "sat f d"
proof (cases "f = JObj []")
  case True
  then show ?thesis using assms(1) by (simp add: filter_laws_def)
next
  case False
  then obtain v where v: "f = JObj [(''tenantId'', v)]" using assms(3) by blast
  then have "map_of (jfields (jspread a f)) ''tenantId'' = Some v" by (simp add: jspread_get)
  moreover have "jspread a f = JObj (jfields (jspread a f))" by (simp add: jspread_def jfields_def)
  then have "sat (JObj (jfields (jspread a f))) d" using assms(2) by simp
  ultimately show ?thesis unfolding v using assms(1) by (simp only: filter_laws_def)
qed

lemma query_hook_Inr:
  assumes "query_hook merge_where cfg cx m q u = Inr q'" "\<not> shouldBypass cfg cx m"
  obtains f where "resolveTenantFilter cfg cx m = Inr (Some f)" "q' = merge_where q f"
  using assms resolve_bypass [of cfg cx m]
  by (auto simp: query_hook_def then_do_Inr Let_def split: option.splits)

text \<open>The storage checks of the plugin let through only documents of the own tenant.\<close>

definition is_obj :: "jv \<Rightarrow> bool" where
  "is_obj v \<longleftrightarrow> (\<exists>m. v = JObj m)"

interpretation stamp: storage_check "stamp_or_check t"
  "\<lambda>d d'. is_obj d \<longrightarrow> is_obj d' \<and> jget d' ''tenantId'' = JStr t \<and> (\<forall>k. k \<noteq> ''tenantId'' \<longrightarrow> jget d' k = jget d k)" for t
proof
  fix d d'
  assume a: "stamp_or_check t d = Inr d'"
  show "is_obj d \<longrightarrow> is_obj d' \<and> jget d' ''tenantId'' = JStr t \<and> (\<forall>k. k \<noteq> ''tenantId'' \<longrightarrow> jget d' k = jget d k)"
  proof
    assume "is_obj d"
    then obtain m where m: "d = JObj m" by (auto simp: is_obj_def)
    show "is_obj d' \<and> jget d' ''tenantId'' = JStr t \<and> (\<forall>k. k \<noteq> ''tenantId'' \<longrightarrow> jget d' k = jget d k)"
    proof (cases "jtruthy (jget d ''tenantId'')")
      case True
      then have d: "d' = d" "assertOwnTenant (jget d ''tenantId'') t True = Inr ()"
        using a by (auto simp: stamp_or_check_def then_do_Inr)
      then show ?thesis using True m unfolding assertOwn_ok by (auto simp: is_obj_def)
    next
      case False
      then have "d' = jset d ''tenantId'' (JStr t)" using a by (simp add: stamp_or_check_def)
      then show ?thesis unfolding m by (simp add: is_obj_def del: jget_simps) (simp add: jset_def)
    qed
  qed
qed

subsection \<open>Lemmas on pipelines\<close>

definition scoped_collection :: "mt_config option \<Rightarrow> req_context option \<Rightarrow> model_info list \<Rightarrow> string \<Rightarrow> bool" where
  "scoped_collection cfg cx models name \<longleftrightarrow>
     (case filterForCollection cfg cx models (JStr name) of Inr (Some f) \<Rightarrow> True | _ \<Rightarrow> False)"

text \<open>Two states of the database that look the same to a context.\<close>

definition same_view ::
  "mt_config option \<Rightarrow> req_context \<Rightarrow> model_info list \<Rightarrow> collections \<Rightarrow> collections \<Rightarrow> bool" where
  "same_view cfg k models db1 db2 \<longleftrightarrow>
     (\<forall>name. if scoped_collection cfg (Some k) models name
             then filter (in_ctx k) (db1 name) = filter (in_ctx k) (db2 name) else db1 name = db2 name)"

lemma find_model_filter:
  "find_model cfg cx name models = Inr (Some f) \<Longrightarrow> jfields f \<noteq> [] \<and> (\<exists>m. resolveTenantFilter cfg cx m = Inr (Some f))"
  by (induction models) (auto simp: then_do_Inr split: if_splits option.splits)

lemma collection_filter:
  assumes "filterForCollection cfg cx models source = Inr (Some f)"
  obtains name m where "source = JStr name" "resolveTenantFilter cfg cx m = Inr (Some f)"
    "jfields f \<noteq> []" "scoped_collection cfg cx models name"
proof -
  obtain name where n: "source = JStr name" "find_model cfg cx name models = Inr (Some f)"
    using assms by (auto simp: filterForCollection_def split: jv.splits if_splits)
  then have "scoped_collection cfg cx models name" using assms by (simp add: scoped_collection_def)
  then show ?thesis using find_model_filter [OF n(2)] n(1) that by blast
qed

lemma same_view_filter:
  assumes "same_view cfg k models db1 db2" "filter_laws sat"
    and "filterForCollection cfg (Some k) models (JStr name) = Inr (Some f)"
  shows "filter (sat f) (db1 name) = filter (sat f) (db2 name)"
proof -
  obtain m where m: "resolveTenantFilter cfg (Some k) m = Inr (Some f)" "scoped_collection cfg (Some k) models name"
    using assms(3) by (elim collection_filter) auto
  have "sat f = in_ctx k" by (rule ext) (rule resolve_in_ctx [OF m(1) assms(2)])
  then show ?thesis using assms(1) m(2) unfolding same_view_def by (metis (full_types))
qed

lemma same_view_whole:
  "same_view cfg k models db1 db2 \<Longrightarrow> filterForCollection cfg (Some k) models (JStr name) = Inr None \<Longrightarrow>
     db1 name = db2 name"
  unfolding same_view_def scoped_collection_def by (metis (no_types, lifting) option.case(1) sum.case(2))

lemma with_match_agree:
  assumes "same_view cfg k models db1 db2" "filter_laws sat"
    and "filterForCollection cfg (Some k) models source = Inr x" "opt_agree sat db1 db2 p"
  shows "source_agree sat db1 db2 source (with_match x p) \<and> opt_agree sat db1 db2 (with_match x p)"
proof (cases x)
  case None
  then show ?thesis
    using assms same_view_whole [OF assms(1)]
    by (auto simp: with_match_def source_agree_def split: jv.splits option.splits list.splits stage.splits)
next
  case (Some f)
  then obtain name where n: "source = JStr name" using assms(3) collection_filter by metis
  have o: "opt_agree sat db1 db2 (with_match x p)" using assms(4) Some by (cases p) (simp_all add: with_match_def)
  have "filter (sat f) (db1 name) = filter (sat f) (db2 name)"
    using same_view_filter [OF assms(1,2)] assms(3) n Some by blast
  then show ?thesis using o n Some by (simp add: source_agree_def with_match_def)
qed

lemma graph_agree_filter:
  assumes v: "same_view cfg k models db1 db2" and l: "filter_laws sat"
    and f: "filterForCollection cfg (Some k) models source = Inr (Some f)"
  shows "graph_agree sat db1 db2 source (jspread restrict f)"
proof -
  obtain name m where n: "source = JStr name" "resolveTenantFilter cfg (Some k) m = Inr (Some f)"
    using f by (elim collection_filter)
  have j: "jspread restrict f = JObj (jfields (jspread restrict f))" by (simp add: jspread_def jfields_def)
  have imp: "sat (jspread restrict f) d \<Longrightarrow> sat f d" for d
    using sat_spread [OF l] resolve_shape [OF n(2)] by blast
  have "filter (sat (jspread restrict f)) (filter (sat f) (db name)) = filter (sat (jspread restrict f)) (db name)" for db
    using imp by (auto intro: filter_cong)
  moreover have "filter (sat f) (db1 name) = filter (sat f) (db2 name)"
    using same_view_filter [OF v l] f n(1) by blast
  ultimately have "filter (sat (jspread restrict f)) (db1 name) = filter (sat (jspread restrict f)) (db2 name)"
    by metis
  then show ?thesis unfolding graph_agree_def n(1) j [symmetric] by simp
qed

text \<open>Every read of a secured pipeline sees the same rows in two states that look the same to the context.\<close>

lemma secured_agree:
  assumes v: "same_view cfg k models db1 db2" and l: "filter_laws sat" and cx: "cx = Some k"
  shows "secureStage cfg cx models s = Inr s' \<Longrightarrow> stage_agree sat db1 db2 s'"
    and "secureCrossCollectionStages cfg cx models ss = Inr ss' \<Longrightarrow> pipe_agree sat db1 db2 ss'"
    and "secureOptional cfg cx models p = Inr p' \<Longrightarrow> opt_agree sat db1 db2 p'"
    and "secureBranches cfg cx models bs = Inr bs' \<Longrightarrow> branch_agree sat db1 db2 bs'"
  using assms
proof (induction cfg cx models s and cfg cx models ss and cfg cx models p and cfg cx models bs
    arbitrary: s' and ss' and p' and bs'
    rule: secureStage_secureCrossCollectionStages_secureOptional_secureBranches.induct)
  case (1 cfg cx models source pipeline rest)
  then show ?case using with_match_agree [OF "1.prems"(2,3)] by (auto simp: then_do_Inr)
next
  case (2 cfg cx models name)
  then obtain x where x: "filterForCollection cfg (Some k) models (JStr name) = Inr x"
    by (auto simp: then_do_Inr)
  show ?case
  proof (cases x)
    case None
    then have "s' = SUnionName name" using "2.prems"(1,4) x by simp
    then show ?thesis using same_view_whole [OF "2.prems"(2)] x None by simp
  next
    case (Some f)
    then have "s' = SUnion (JStr name) (Some [SMatch f])" using "2.prems"(1,4) x by simp
    then show ?thesis using same_view_filter [OF "2.prems"(2,3)] x Some by (simp add: source_agree_def)
  qed
next
  case (3 cfg cx models coll pipeline)
  then show ?case using with_match_agree [OF "3.prems"(2,3)] by (auto simp: then_do_Inr)
next
  case (4 cfg cx models source restrict rest)
  then obtain x where x: "filterForCollection cfg (Some k) models source = Inr x"
    by (auto simp: then_do_Inr)
  show ?case
  proof (cases x)
    case None
    then have "s' = SGraphLookup source restrict rest" using "4.prems"(1,4) x by simp
    then show ?thesis using same_view_whole [OF "4.prems"(2)] x None
      by (auto simp: graph_agree_def split: jv.splits)
  next
    case (Some f)
    then have "s' = SGraphLookup source (jspread restrict f) rest" using "4.prems"(1,4) x by simp
    then show ?thesis using graph_agree_filter [OF "4.prems"(2,3)] x Some by simp
  qed
qed (auto simp: then_do_Inr)

lemma aggregate_secured:
  assumes "aggregate_hook cfg cx models m p = Inr p'" "\<not> shouldBypass cfg cx m"
  obtains f ss where "resolveTenantFilter cfg cx m = Inr (Some f)" "p' = SMatch f # ss"
    "secureCrossCollectionStages cfg cx models p = Inr ss" "\<not> list_ex is_write_stage p"
proof -
  obtain x where x: "resolveTenantFilter cfg cx m = Inr x" using assms(1) by (auto simp: aggregate_hook_def then_do_Inr)
  then obtain f where f: "x = Some f" using assms(2) resolve_bypass [of cfg cx m] by (cases x) auto
  have "\<not> list_ex is_write_stage p" "secureCrossCollectionStages cfg cx models (SMatch f # p) = Inr p'"
    using assms(1) x f by (auto simp: aggregate_hook_def split: if_splits)
  then show ?thesis using that x f by (auto simp: then_do_Inr)
qed

subsection \<open>Properties\<close>

definition demo_ctx :: req_context where
  "demo_ctx = cx_empty\<lparr>cx_tenantId := Some ''t1'', cx_tenantRole := Some ''member''\<rparr>"

text \<open>A concrete meaning of filters, for the witnesses.\<close>

definition demo_cond :: "jv \<Rightarrow> jv \<Rightarrow> bool" where
  "demo_cond c v = (case c of
     JObj [(op, JArr xs)] \<Rightarrow> if op = ''$in'' then v \<in> set xs else v = c
   | _ \<Rightarrow> v = c)"

definition demo_sat :: "jv \<Rightarrow> jv \<Rightarrow> bool" where
  "demo_sat f d = list_all (\<lambda>k. case map_of (jfields f) k of Some c \<Rightarrow> demo_cond c (jget d k) | None \<Rightarrow> True)
     (map fst (jfields f))"

lemma demo_filter_laws: "filter_laws demo_sat"
proof -
  have a: "demo_sat (JObj [(k, v)]) d = demo_cond v (jget d k)" for k v d
    by (simp add: demo_sat_def jfields_def)
  have b: "demo_sat (JObj m) d \<Longrightarrow> map_of m k = Some v \<Longrightarrow> demo_cond v (jget d k)" for m k v d
  proof -
    assume m: "demo_sat (JObj m) d" "map_of m k = Some v"
    then have "k \<in> fst ` set m" by (metis map_of_eq_None_iff option.distinct(1))
    then show ?thesis using m by (auto simp: demo_sat_def jfields_def list_all_iff split: option.splits)
  qed
  have c: "demo_sat (JObj []) d" for d by (simp add: demo_sat_def jfields_def)
  show ?thesis
    unfolding filter_laws_def tenant_eq_def tenant_in_def a using b c
    by (auto simp: demo_cond_def)
qed

text \<open>
  C26. A hooked query reaches only rows the context may see: whatever conditions the caller asked for,
  a document that matches what is handed to the driver belongs to the tenant of the header, or to one
  of the tenants of the caller's memberships. With a header tenant the query is let through only
  if every \<open>tenantId\<close> its update writes at the top level, in \<open>$set\<close> or in \<open>$setOnInsert\<close> is that tenant
  or null; nothing is claimed of what an update writes without a header tenant or through other operators.
  Assumed: the plugin is not bypassed for the operation, and the database treats tenant conditions and added conditions as documented.
\<close>

theorem query_touches_own_rows:
  assumes laws: "filter_laws sat" "where_law sat merge_where"
    and scoped: "\<not> shouldBypass cfg (Some k) m"
    and hook: "query_hook merge_where cfg (Some k) m q u = Inr q'"
  shows "(sat q' d \<longrightarrow> in_ctx k d)
    \<and> (\<forall>t c. cx_tenantId k = Some t \<longrightarrow> t \<noteq> [] \<longrightarrow> c \<in> set (update_candidates u) \<longrightarrow>
         c = JUndef \<or> c = JNull \<or> c = JStr t)"
proof -
  obtain f where f: "resolveTenantFilter cfg (Some k) m = Inr (Some f)" "q' = merge_where q f"
    using query_hook_Inr [OF hook scoped] by blast
  have a: "sat q' d \<longrightarrow> in_ctx k d"
    using resolve_in_ctx [OF f(1) laws(1)] laws(2) f(2) by (auto simp: where_law_def)
  have b: "c = JUndef \<or> c = JNull \<or> c = JStr t"
    if t: "cx_tenantId k = Some t" "t \<noteq> []" and c: "c \<in> set (update_candidates u)" for t c
  proof -
    let ?check = "\<lambda>candidate. if candidate \<noteq> JUndef then assertOwnTenant candidate t False else Inr ()"
    have "resolveSingleTenantId cfg (Some k) m = Some t" using t scoped by (simp add: single_tenant)
    then obtain ys where "each ?check (update_candidates u) = Inr ys"
      using hook f by (auto simp: query_hook_def Let_def then_do_Inr)
    then have "list_all2 (\<lambda>x y. ?check x = Inr y) (update_candidates u) ys" by (simp add: each_Inr)
    then obtain y where "?check c = Inr y"
      using c by (auto simp: list_all2_conv_all_nth in_set_conv_nth)
    then show ?thesis using assertOwn_ok [of c t False] by (auto split: if_splits)
  qed
  show ?thesis using a b by blast
qed

theorem query_touches_own_rows_witness:
  "demo_sat (JObj [(''tenantId'', JStr ''t1'')]) (JObj [(''tenantId'', JStr ''t1'')])
   \<and> in_ctx demo_ctx (JObj [(''tenantId'', JStr ''t1'')])"
proof -
  have w: "where_law demo_sat (\<lambda>q f. f)" by (simp add: where_law_def)
  have s: "\<not> shouldBypass (Some demo_mt) (Some demo_ctx) (Some ''Order'')"
    by (simp add: shouldBypass_def demo_mt_def demo_ctx_def cx_empty_def excluded_schema_def)
  have h: "query_hook (\<lambda>q f. f) (Some demo_mt) (Some demo_ctx) (Some ''Order'') (JObj [(''tenantId'', JStr ''t2'')]) JUndef
      = Inr (JObj [(''tenantId'', JStr ''t1'')])"
    by code_simp
  have "demo_sat (JObj [(''tenantId'', JStr ''t1'')]) (JObj [(''tenantId'', JStr ''t1'')])" by code_simp
  then show ?thesis using query_touches_own_rows [OF demo_filter_laws w s h] by blast
qed

text \<open>
  Documents created under a header tenant belong to it: a new document that \<open>save\<close> lets through and
  every document that \<open>insertMany\<close> lets through carries that tenant's id, keeps all its other fields, and
  none is dropped; a document that names another tenant is refused.
\<close>

theorem created_documents_stay_in_tenant:
  assumes scoped: "\<not> shouldBypass cfg (Some k) m" "cx_tenantId k = Some t" "t \<noteq> []"
    and objs: "is_obj doc" "\<forall>d \<in> set ds. is_obj d"
  shows "(case save_hook cfg (Some k) m True doc of
            Inr doc' \<Rightarrow> jget doc' ''tenantId'' = JStr t \<and> (\<forall>f. f \<noteq> ''tenantId'' \<longrightarrow> jget doc' f = jget doc f)
          | Inl e \<Rightarrow> jtruthy (jget doc ''tenantId'') \<and> jget doc ''tenantId'' \<noteq> JStr t)
    \<and> (case insertMany_hook cfg (Some k) m (JArr ds) of
         Inr docs \<Rightarrow> (\<exists>ds'. docs = JArr ds' \<and> length ds' = length ds \<and> (\<forall>i < length ds. jget (ds' ! i) ''tenantId'' = JStr t
            \<and> (\<forall>f. f \<noteq> ''tenantId'' \<longrightarrow> jget (ds' ! i) f = jget (ds ! i) f)))
       | Inl e \<Rightarrow> (\<exists>d \<in> set ds. jtruthy (jget d ''tenantId'') \<and> jget d ''tenantId'' \<noteq> JStr t))"
proof -
  have single: "resolveSingleTenantId cfg (Some k) m = Some t" using scoped by (simp add: single_tenant)
  have err: "stamp_or_check t d = Inl e \<Longrightarrow> jtruthy (jget d ''tenantId'') \<and> jget d ''tenantId'' \<noteq> JStr t" for d e
    by (auto simp: stamp_or_check_def assertOwnTenant_def split: if_splits)
  have save: "save_hook cfg (Some k) m True doc = stamp_or_check t doc"
    by (simp add: save_hook_def single stamp_or_check_def)
  have s: "case stamp_or_check t doc of
            Inr doc' \<Rightarrow> jget doc' ''tenantId'' = JStr t \<and> (\<forall>f. f \<noteq> ''tenantId'' \<longrightarrow> jget doc' f = jget doc f)
          | Inl e \<Rightarrow> jtruthy (jget doc ''tenantId'') \<and> jget doc ''tenantId'' \<noteq> JStr t"
  proof (cases "stamp_or_check t doc")
    case (Inl e)
    then show ?thesis using err by simp
  next
    case (Inr d')
    then show ?thesis using stamp.check_good [OF Inr] objs(1) by simp
  qed
  have i: "case insertMany_hook cfg (Some k) m (JArr ds) of
         Inr docs \<Rightarrow> (\<exists>ds'. docs = JArr ds' \<and> length ds' = length ds \<and> (\<forall>i < length ds. jget (ds' ! i) ''tenantId'' = JStr t
            \<and> (\<forall>f. f \<noteq> ''tenantId'' \<longrightarrow> jget (ds' ! i) f = jget (ds ! i) f)))
       | Inl e \<Rightarrow> (\<exists>d \<in> set ds. jtruthy (jget d ''tenantId'') \<and> jget d ''tenantId'' \<noteq> JStr t)"
  proof (cases "each (stamp_or_check t) ds")
    case (Inl e)
    then show ?thesis using each_Inl [OF Inl] err by (auto simp: insertMany_hook_def single jelems_def)
  next
    case (Inr ds')
    have "\<forall>i < length ds. jget (ds' ! i) ''tenantId'' = JStr t
        \<and> (\<forall>f. f \<noteq> ''tenantId'' \<longrightarrow> jget (ds' ! i) f = jget (ds ! i) f)"
      using stamp.good_nth [OF Inr] objs(2) by simp
    then show ?thesis using stamp.same_length [OF Inr] Inr by (simp add: insertMany_hook_def single jelems_def)
  qed
  show ?thesis unfolding save using s i by blast
qed

theorem created_documents_stay_in_tenant_witness:
  "insertMany_hook (Some demo_mt) (Some demo_ctx) (Some ''Order'') (JArr [JObj [(''n'', JNum 1)], JObj [(''tenantId'', JStr ''t2'')]])
     = Inl (ForeignTenant True (JStr ''t2'') ''t1'')
   \<and> (\<exists>d. save_hook (Some demo_mt) (Some demo_ctx) (Some ''Order'') True (JObj [(''n'', JNum 1)]) = Inr d \<and> jget d ''tenantId'' = JStr ''t1'')"
proof -
  have s: "\<not> shouldBypass (Some demo_mt) (Some demo_ctx) (Some ''Order'')" by code_simp
  have t: "cx_tenantId demo_ctx = Some ''t1''" by (simp add: demo_ctx_def)
  have o: "is_obj (JObj x)" for x by (simp add: is_obj_def)
  have r: "save_hook (Some demo_mt) (Some demo_ctx) (Some ''Order'') True (JObj [(''n'', JNum 1)])
      = Inr (JObj [(''n'', JNum 1), (''tenantId'', JStr ''t1'')])" by code_simp
  have e: "insertMany_hook (Some demo_mt) (Some demo_ctx) (Some ''Order'') (JArr [JObj [(''n'', JNum 1)], JObj [(''tenantId'', JStr ''t2'')]])
     = Inl (ForeignTenant True (JStr ''t2'') ''t1'')" by code_simp
  show ?thesis
    using created_documents_stay_in_tenant [OF s t, of "JObj [(''n'', JNum 1)]" "[]"] o r e by simp
qed

text \<open>
  C2. Aggregations do not leak across tenants: the result of the pipeline the hook hands to the driver
  is the same for any two states of the database that agree on the rows the context may see, in the
  aggregated collection and in every tenant-scoped collection that a \<open>$lookup\<close>, \<open>$unionWith\<close> or
  \<open>$graphLookup\<close> reads, at any nesting depth and in every branch of a \<open>$facet\<close>; and no stage of the
  pipeline writes.
  Assumed: the plugin is not bypassed for the operation, and the database treats tenant conditions and pipelines as documented.
\<close>

theorem aggregation_noninterference:
  assumes laws: "filter_laws sat" "pipeline_laws sat ev"
    and scoped: "\<not> shouldBypass cfg (Some k) m"
    and hook: "aggregate_hook cfg (Some k) models m pipeline = Inr secured"
    and view: "same_view cfg k models db1 db2" "filter (in_ctx k) (db1 coll) = filter (in_ctx k) (db2 coll)"
  shows "ev db1 secured (db1 coll) = ev db2 secured (db2 coll) \<and> \<not> list_ex is_write_stage pipeline"
proof -
  obtain f ss where f: "resolveTenantFilter cfg (Some k) m = Inr (Some f)" "secured = SMatch f # ss"
    and ss: "secureCrossCollectionStages cfg (Some k) models pipeline = Inr ss" "\<not> list_ex is_write_stage pipeline"
    using aggregate_secured [OF hook scoped] by blast
  have sf: "sat f = in_ctx k" by (rule ext) (rule resolve_in_ctx [OF f(1) laws(1)])
  have agree: "pipe_agree sat db1 db2 ss" by (rule secured_agree(2) [OF view(1) laws(1) refl ss(1)])
  have "ev db1 secured (db1 coll) = ev db1 ss (filter (in_ctx k) (db1 coll))"
    using laws(2) f(2) sf by (simp add: pipeline_laws_def)
  also have "\<dots> = ev db2 ss (filter (in_ctx k) (db2 coll))"
    using laws(2) agree view(2) by (simp add: pipeline_laws_def)
  also have "\<dots> = ev db2 secured (db2 coll)"
    using laws(2) f(2) sf by (simp add: pipeline_laws_def)
  finally show ?thesis using ss(2) by blast
qed

text \<open>A small evaluator, for the witness: \<open>$match\<close> and \<open>$unionWith\<close>, every other stage the identity.\<close>

fun demo_ev :: "collections \<Rightarrow> stage list \<Rightarrow> jv list \<Rightarrow> jv list" where
  "demo_ev db [] rows = rows"
| "demo_ev db (SMatch f # p) rows = demo_ev db p (filter (demo_sat f) rows)"
| "demo_ev db (SUnion (JStr name) (Some [SMatch f]) # p) rows = demo_ev db p (rows @ filter (demo_sat f) (db name))"
| "demo_ev db (SUnionName name # p) rows = demo_ev db p (rows @ db name)"
| "demo_ev db (s # p) rows = demo_ev db p rows"

lemma demo_pipeline_laws: "pipeline_laws demo_sat demo_ev"
proof -
  have "pipe_agree demo_sat db1 db2 p \<longrightarrow> demo_ev db1 p rows = demo_ev db2 p rows" for db1 db2 p rows
    by (induction db1 p rows rule: demo_ev.induct) (auto simp: source_agree_def)
  then show ?thesis by (simp add: pipeline_laws_def)
qed

definition demo_order :: "string \<Rightarrow> jv" where
  "demo_order t = JObj [(''tenantId'', JStr t)]"

definition demo_models :: "model_info list" where
  "demo_models = [\<lparr>md_name = ''Order'', md_collection = ''orders'', md_hasTenantPath = True\<rparr>,
     \<lparr>md_name = ''Note'', md_collection = ''notes'', md_hasTenantPath = True\<rparr>]"

definition demo_rows :: "jv list \<Rightarrow> collections" where
  "demo_rows rows = (\<lambda>name. if name = ''notes'' \<or> name = ''orders'' then rows else [])"

theorem aggregation_noninterference_witness:
  "let secured = [SMatch (tenant_eq ''t1''), SUnion (JStr ''notes'') (Some [SMatch (tenant_eq ''t1'')])]
   in aggregate_hook (Some demo_mt) (Some demo_ctx) demo_models (Some ''Order'') [SUnionName ''notes''] = Inr secured
    \<and> demo_ev (demo_rows [demo_order ''t1'', demo_order ''t2'']) secured [demo_order ''t1'', demo_order ''t2'']
        = demo_ev (demo_rows [demo_order ''t1'']) secured [demo_order ''t1'']"
proof -
  let ?secured = "[SMatch (tenant_eq ''t1''), SUnion (JStr ''notes'') (Some [SMatch (tenant_eq ''t1'')])]"
  have s: "\<not> shouldBypass (Some demo_mt) (Some demo_ctx) (Some ''Order'')" by code_simp
  have h: "aggregate_hook (Some demo_mt) (Some demo_ctx) demo_models (Some ''Order'') [SUnionName ''notes''] = Inr ?secured"
    by code_simp
  have c: "in_ctx demo_ctx (demo_order ''t1'')" "\<not> in_ctx demo_ctx (demo_order ''t2'')" by code_simp+
  have m: "filterForCollection (Some demo_mt) (Some demo_ctx) demo_models (JStr name) =
      (if name = ''notes'' \<or> name = ''orders'' then Inr (Some (tenant_eq ''t1'')) else Inr None)" for name
  proof -
    have "resolveTenantFilter (Some demo_mt) (Some demo_ctx) (Some ''Note'') = Inr (Some (tenant_eq ''t1''))"
      "resolveTenantFilter (Some demo_mt) (Some demo_ctx) (Some ''Order'') = Inr (Some (tenant_eq ''t1''))" by code_simp+
    then show ?thesis by (auto simp: filterForCollection_def tenant_eq_def jfields_def demo_models_def)
  qed
  have v: "same_view (Some demo_mt) demo_ctx demo_models
      (demo_rows [demo_order ''t1'', demo_order ''t2'']) (demo_rows [demo_order ''t1''])"
    using c by (simp add: same_view_def scoped_collection_def m demo_rows_def)
  have "filter (in_ctx demo_ctx) (demo_rows [demo_order ''t1'', demo_order ''t2''] ''orders'')
      = filter (in_ctx demo_ctx) (demo_rows [demo_order ''t1''] ''orders'')"
    using c by (simp add: demo_rows_def)
  then have "demo_ev (demo_rows [demo_order ''t1'', demo_order ''t2'']) ?secured
        (demo_rows [demo_order ''t1'', demo_order ''t2''] ''orders'')
      = demo_ev (demo_rows [demo_order ''t1'']) ?secured (demo_rows [demo_order ''t1''] ''orders'')"
    using aggregation_noninterference [OF demo_filter_laws demo_pipeline_laws s h v] by blast
  then show ?thesis using h by (simp add: demo_rows_def)
qed

definition op_filter :: "bulk_op \<Rightarrow> jv option" where
  "op_filter op = (case op of InsertOne _ \<Rightarrow> None | UpdateOne f _ \<Rightarrow> Some f | UpdateMany f _ \<Rightarrow> Some f
     | ReplaceOne f _ \<Rightarrow> Some f | DeleteOne f \<Rightarrow> Some f | DeleteMany f \<Rightarrow> Some f)"

text \<open>
  Bulk updates, replacements and deletions reach only rows the context may see: every document that
  matches the filter of such an operation, as the hook leaves it, is one of them, and the operations
  keep their number, order and kind.
\<close>

theorem bulk_touches_own_rows:
  assumes "filter_laws sat" "\<not> shouldBypass cfg (Some k) m"
    and "bulkWrite_hook cfg (Some k) m ops = Inr ops'"
    and "i < length ops" "op_filter (ops' ! i) = Some f" "sat f d"
  shows "in_ctx k d \<and> length ops' = length ops \<and> op_filter (ops ! i) \<noteq> None"
proof -
  obtain g where g: "resolveTenantFilter cfg (Some k) m = Inr (Some g)"
    and ops': "ops' = map (bulk_op_hook g (resolveSingleTenantId cfg (Some k) m)) ops"
    using assms(2,3) resolve_bypass [of cfg "Some k" m] by (auto simp: bulkWrite_hook_def then_do_Inr split: option.splits)
  have "\<exists>a. op_filter (ops ! i) = Some a \<and> f = jspread a g"
    using assms(4,5) unfolding ops'
    by (cases "ops ! i") (auto simp: op_filter_def bulk_op_hook_def split: option.splits if_splits)
  then obtain a where a: "op_filter (ops ! i) = Some a" "f = jspread a g" by blast
  have "sat g d" using sat_spread [OF assms(1)] resolve_shape [OF g] assms(6) a(2) by blast
  then show ?thesis using resolve_in_ctx [OF g assms(1)] a(1) ops' by simp
qed

theorem bulk_touches_own_rows_witness:
  "in_ctx demo_ctx (demo_order ''t1'')"
proof -
  have s: "\<not> shouldBypass (Some demo_mt) (Some demo_ctx) (Some ''Order'')" by code_simp
  have h: "bulkWrite_hook (Some demo_mt) (Some demo_ctx) (Some ''Order'') [DeleteMany (JObj [(''tenantId'', JStr ''t2'')])]
      = Inr [DeleteMany (tenant_eq ''t1'')]" by code_simp
  have "demo_sat (tenant_eq ''t1'') (demo_order ''t1'')" by code_simp
  then show ?thesis
    using bulk_touches_own_rows [OF demo_filter_laws s h, of 0 "tenant_eq ''t1''" "demo_order ''t1''"]
    by (simp add: op_filter_def)
qed

text \<open>
  Without a tenant context nothing tenant-scoped is read: when neither a tenant, nor a tenant list,
  nor the administrator bypass is set, queries, bulk writes, aggregations and the estimated count
  all throw; the estimated count throws for every context that is bound to tenants.
\<close>

theorem missing_context_refused:
  assumes "\<not> shouldBypass cfg (Some k) m"
  shows "(\<not> js_truthy (cx_tenantId k) \<and> cx_tenantIds k = None \<and> \<not> cx_isAdminBypass k \<longrightarrow>
      query_hook merge_where cfg (Some k) m q u = Inl TenantContextRequired
      \<and> bulkWrite_hook cfg (Some k) m ops = Inl TenantContextRequired
      \<and> aggregate_hook cfg (Some k) models m p = Inl TenantContextRequired)
    \<and> (estimatedDocumentCount_hook cfg (Some k) m = Inr () \<longleftrightarrow> cx_isAdminBypass k \<and> \<not> js_truthy (cx_tenantId k))"
  using assms
  by (simp add: query_hook_def bulkWrite_hook_def aggregate_hook_def resolveTenantFilter_def
      estimatedDocumentCount_hook_def Let_def)

theorem missing_context_refused_witness:
  "estimatedDocumentCount_hook (Some demo_mt) (Some demo_ctx) (Some ''Order'') \<noteq> Inr ()
   \<and> aggregate_hook (Some demo_mt) (Some cx_empty) [] (Some ''Order'') [] = Inl TenantContextRequired"
proof -
  have s: "\<not> shouldBypass (Some demo_mt) (Some demo_ctx) (Some ''Order'')"
    "\<not> shouldBypass (Some demo_mt) (Some cx_empty) (Some ''Order'')" by code_simp+
  show ?thesis
    using missing_context_refused [OF s(1), of undefined undefined undefined undefined undefined undefined]
      missing_context_refused [OF s(2), of _ _ _ _ "[]" "[]"]
    by (simp add: demo_ctx_def cx_empty_def)
qed

text \<open>
  What the write checks miss. Under a header tenant the hooks accept, unchanged, an update that sets
  the \<open>tenantId\<close> of a row to null, the saving of an existing document whose \<open>tenantId\<close> was set to null,
  every bulk insert that already names a tenant, foreign or not, and every update or replacement
  value of a bulk write; \<open>insertMany\<close> refuses the same foreign document.
\<close>

theorem unchecked_tenant_writes:
  assumes scoped: "\<not> shouldBypass cfg (Some k) m" "cx_tenantId k = Some t" "t \<noteq> []"
    and foreign: "jget doc ''tenantId'' = JStr t'" "t' \<noteq> []" "t' \<noteq> t"
    and null: "jget row ''tenantId'' = JNull"
  shows "is_ok (query_hook merge_where cfg (Some k) m q (JObj [(''$set'', JObj [(''tenantId'', JNull)])]))
    \<and> save_hook cfg (Some k) m False row = Inr row
    \<and> bulkWrite_hook cfg (Some k) m [InsertOne doc, UpdateMany f u, ReplaceOne f doc]
        = Inr [InsertOne doc, UpdateMany (jspread f (tenant_eq t)) u, ReplaceOne (jspread f (tenant_eq t)) doc]
    \<and> insertMany_hook cfg (Some k) m (JArr [doc]) = Inl (ForeignTenant True (JStr t') t)"
proof -
  have single: "resolveSingleTenantId cfg (Some k) m = Some t" using scoped by (simp add: single_tenant)
  have r: "resolveTenantFilter cfg (Some k) m = Inr (Some (tenant_eq t))"
    using scoped by (simp add: resolveTenantFilter_def)
  show ?thesis
    using foreign null
    by (simp add: query_hook_def r single update_candidates_def assertOwnTenant_def save_hook_def
        bulkWrite_hook_def bulk_op_hook_def insertMany_hook_def jelems_def stamp_or_check_def)
qed

theorem unchecked_tenant_writes_witness:
  "bulkWrite_hook (Some demo_mt) (Some demo_ctx) (Some ''Order'') [InsertOne (demo_order ''t2''), UpdateMany (JObj []) (demo_order ''t2''), ReplaceOne (JObj []) (demo_order ''t2'')]
     = Inr [InsertOne (demo_order ''t2''), UpdateMany (tenant_eq ''t1'') (demo_order ''t2''), ReplaceOne (tenant_eq ''t1'') (demo_order ''t2'')]"
proof -
  have s: "\<not> shouldBypass (Some demo_mt) (Some demo_ctx) (Some ''Order'')" by code_simp
  have t: "cx_tenantId demo_ctx = Some ''t1''" by (simp add: demo_ctx_def)
  have f: "jspread (JObj []) (tenant_eq ''t1'') = tenant_eq ''t1''" by code_simp
  show ?thesis
    using unchecked_tenant_writes [OF s t, of "demo_order ''t2''" "''t2''" "JObj [(''tenantId'', JNull)]" _ _ "JObj []" "demo_order ''t2''"]
    by (simp add: demo_order_def f)
qed

end
