(* ===== verification/RolePlugins.thy ===== *)
theory RolePlugins
  imports RequestContext
begin

text \<open>
  The two plugins that stand in front of the \<^verbatim>\<open>roles\<close> of a stored user:
  \<^item> \<^verbatim>\<open>common/plugins/mongoose-system-role.plugin.ts\<close> refuses a write that introduces a system role;
  \<^item> \<^verbatim>\<open>common/plugins/mongoose-role-guard.plugin.ts\<close> strips role changes of callers who may not make them.

  Documents and updates are \<open>jv\<close> values. What Mongoose knows of a document (\<^verbatim>\<open>isNew\<close>,
  \<^verbatim>\<open>isModified('roles')\<close>, the roles remembered at \<^verbatim>\<open>init\<close>) and the answer of the look-up of the
  stored roles (\<open>None\<close> when it fails) are arguments.
\<close>

subsection \<open>The system-role plugin\<close>

definition looksLikeSystemRole_value :: "jv \<Rightarrow> bool" where
  "looksLikeSystemRole_value role = (case role of JStr s \<Rightarrow> looksLikeSystemRole s | _ \<Rightarrow> False)"

definition is_jstr :: "jv \<Rightarrow> bool" where
  "is_jstr v = (case v of JStr _ \<Rightarrow> True | _ \<Rightarrow> False)"

definition toRoleArray :: "jv \<Rightarrow> jv list" where
  "toRoleArray v = (case v of JArr xs \<Rightarrow> filter is_jstr xs | _ \<Rightarrow> [])"

text \<open>The exception carries the roles it names.\<close>

definition assertNoSystemRoles :: "jv \<Rightarrow> jv list \<Rightarrow> jv list + unit" where
  "assertNoSystemRoles roles alreadyStored =
     (case roles of
        JArr xs \<Rightarrow>
          (let introduced = filter (\<lambda>role. looksLikeSystemRole_value role \<and> role \<notin> set alreadyStored) xs
           in if introduced \<noteq> [] then Inl introduced else Inr ())
      | _ \<Rightarrow> Inr ())"

text \<open>The value of \<^verbatim>\<open>$push\<close> or \<^verbatim>\<open>$addToSet\<close>: a bare value or a \<^verbatim>\<open>$each\<close> list.\<close>

definition operator_values :: "jv \<Rightarrow> jv list" where
  "operator_values operator =
     (if operator = JUndef \<or> operator = JNull then []
      else (case jget operator ''$each'' of JArr xs \<Rightarrow> xs | _ \<Rightarrow> [operator]))"

definition push_operators :: "jv \<Rightarrow> jv list" where
  "push_operators update = [jget (jget update ''$push'') ''roles'', jget (jget update ''$addToSet'') ''roles'']"

definition collectRoleValues :: "jv \<Rightarrow> jv list" where
  "collectRoleValues update =
     toRoleArray (jget update ''roles'')
     @ toRoleArray (jget (jget update ''$set'') ''roles'')
     @ toRoleArray (jget (jget update ''$setOnInsert'') ''roles'')
     @ concat (map operator_values (push_operators update))"

definition assertUpdateHasNoSystemRoles :: "jv \<Rightarrow> jv list \<Rightarrow> jv list + unit" where
  "assertUpdateHasNoSystemRoles update alreadyStored =
     (if \<not> jtruthy update then Inr ()
      else
        then_do (assertNoSystemRoles (jget update ''roles'') alreadyStored) (\<lambda>_.
        then_do (assertNoSystemRoles (jget (jget update ''$set'') ''roles'') alreadyStored) (\<lambda>_.
        then_do (assertNoSystemRoles (jget (jget update ''$setOnInsert'') ''roles'') alreadyStored) (\<lambda>_.
        then_do (each (\<lambda>operator.
            if operator = JUndef \<or> operator = JNull then Inr ()
            else assertNoSystemRoles (JArr (operator_values operator)) alreadyStored) (push_operators update))
          (\<lambda>_. Inr ())))))"

definition assertUpdateIntroducesNoSystemRoles :: "jv \<Rightarrow> jv option \<Rightarrow> jv list + unit" where
  "assertUpdateIntroducesNoSystemRoles update lookup =
     (if \<not> jtruthy update \<or> \<not> list_ex looksLikeSystemRole_value (collectRoleValues update) then Inr ()
      else assertUpdateHasNoSystemRoles update
             (case lookup of Some current \<Rightarrow> toRoleArray (jget current ''roles'') | None \<Rightarrow> []))"

text \<open>The hooks.\<close>

definition system_role_save :: "bool \<Rightarrow> bool \<Rightarrow> jv \<Rightarrow> jv \<Rightarrow> jv list + unit" where
  "system_role_save rolesModified isNew roles originalRoles =
     (if \<not> rolesModified then Inr ()
      else assertNoSystemRoles roles (if isNew then [] else toRoleArray originalRoles))"

definition system_role_init :: "jv \<Rightarrow> jv" where
  "system_role_init roles = (case roles of JArr xs \<Rightarrow> JArr xs | _ \<Rightarrow> JUndef)"

definition system_role_updateMany :: "jv \<Rightarrow> jv list + unit" where
  "system_role_updateMany update = assertUpdateHasNoSystemRoles update []"

definition system_role_insertMany :: "jv \<Rightarrow> jv list + unit" where
  "system_role_insertMany docs =
     (case docs of
        JArr ds \<Rightarrow> then_do (each (\<lambda>doc. assertNoSystemRoles (jget doc ''roles'') []) ds) (\<lambda>_. Inr ())
      | _ \<Rightarrow> Inr ())"

datatype role_op = RInsertOne jv | RUpdateOne jv | RUpdateMany jv | RReplaceOne jv | ROtherOp

definition system_role_op :: "role_op \<Rightarrow> jv list + unit" where
  "system_role_op op =
     (case op of
        RInsertOne document \<Rightarrow> assertNoSystemRoles (jget document ''roles'') []
      | RUpdateOne update \<Rightarrow> assertUpdateHasNoSystemRoles update []
      | RUpdateMany update \<Rightarrow> assertUpdateHasNoSystemRoles update []
      | RReplaceOne replacement \<Rightarrow> assertNoSystemRoles (jget replacement ''roles'') []
      | ROtherOp \<Rightarrow> Inr ())"

definition system_role_bulkWrite :: "role_op list \<Rightarrow> jv list + unit" where
  "system_role_bulkWrite ops = then_do (each system_role_op ops) (\<lambda>_. Inr ())"

subsection \<open>The role guard plugin\<close>

datatype role_guard_config = RgUndefined | RgBool bool | RgObject "string list option"

definition isRoleChangeAllowed :: "req_context option \<Rightarrow> role_guard_config \<Rightarrow> bool" where
  "isRoleChangeAllowed cx pluginConfig =
     (case getCurrentUser cx of
        None \<Rightarrow> True
      | Some currentUser \<Rightarrow>
          if isBypassRoleGuard cx then True
          else if (case cu_hasRole currentUser of Some hasRole \<Rightarrow> hasRole [ADMIN] | None \<Rightarrow> False)
               \<or> (case cu_roles currentUser of Some rs \<Rightarrow> ADMIN \<in> set rs | None \<Rightarrow> False) then True
          else (case pluginConfig of
                  RgObject (Some allowedRoles) \<Rightarrow>
                    (case cu_roles currentUser of
                       Some rs \<Rightarrow> list_ex (\<lambda>role. role \<in> set allowedRoles) rs
                     | None \<Rightarrow> False)
                | _ \<Rightarrow> False))"

definition GUARDED_OPERATORS :: "string list" where
  "GUARDED_OPERATORS = [''$set'', ''$push'', ''$addToSet'', ''$pull'']"

definition hasRolesInUpdate :: "jv \<Rightarrow> bool" where
  "hasRolesInUpdate update =
     (jtruthy (jget update ''roles'') \<or> list_ex (\<lambda>op. jtruthy (jget (jget update op) ''roles'')) GUARDED_OPERATORS)"

definition strip_operator :: "string \<Rightarrow> jv \<Rightarrow> jv" where
  "strip_operator op update =
     (if jtruthy (jget (jget update op) ''roles'') then jset update op (jdelete (jget update op) ''roles'') else update)"

definition handleUpdateRoleGuard :: "bool \<Rightarrow> jv \<Rightarrow> jv" where
  "handleUpdateRoleGuard allowed update =
     (if \<not> jtruthy update \<or> \<not> hasRolesInUpdate update \<or> allowed then update
      else strip_operator ''$pull'' (strip_operator ''$addToSet'' (strip_operator ''$push''
             (strip_operator ''$set'' (jdelete update ''roles'')))))"

text \<open>\<open>save\<close>: the document and whether its roles are written.\<close>

definition role_guard_save :: "bool \<Rightarrow> bool \<Rightarrow> bool \<Rightarrow> jv \<Rightarrow> jv \<times> bool" where
  "role_guard_save allowed rolesModified isNew doc =
     (if \<not> rolesModified then (doc, False)
      else if allowed then (doc, True)
      else if isNew then (jset doc ''roles'' (JArr []), True)
      else (doc, False))"

definition jlength :: "jv \<Rightarrow> nat" where
  "jlength v = (case v of JArr xs \<Rightarrow> length xs | JStr s \<Rightarrow> length s | _ \<Rightarrow> 0)"

definition clear_roles :: "jv \<Rightarrow> jv" where
  "clear_roles doc = (if jtruthy (jget doc ''roles'') then jset doc ''roles'' (JArr []) else doc)"

definition role_guard_insertMany :: "bool \<Rightarrow> jv \<Rightarrow> jv" where
  "role_guard_insertMany allowed docs =
     (case docs of
        JArr ds \<Rightarrow>
          if \<not> list_ex (\<lambda>doc. jlength (jget doc ''roles'') > 0) ds then docs
          else if allowed then docs
          else JArr (map clear_roles ds)
      | _ \<Rightarrow> docs)"

definition op_changes_roles :: "role_op \<Rightarrow> bool" where
  "op_changes_roles op =
     (case op of
        RInsertOne document \<Rightarrow> jlength (jget document ''roles'') > 0
      | RUpdateOne update \<Rightarrow> hasRolesInUpdate update
      | RUpdateMany update \<Rightarrow> hasRolesInUpdate update
      | RReplaceOne replacement \<Rightarrow> jlength (jget replacement ''roles'') > 0
      | ROtherOp \<Rightarrow> False)"

definition strip_op :: "role_op \<Rightarrow> role_op" where
  "strip_op op =
     (case op of
        RInsertOne document \<Rightarrow> RInsertOne (clear_roles document)
      | RUpdateOne update \<Rightarrow> RUpdateOne (handleUpdateRoleGuard False update)
      | RUpdateMany update \<Rightarrow> RUpdateMany (handleUpdateRoleGuard False update)
      | RReplaceOne replacement \<Rightarrow>
          RReplaceOne (if jtruthy (jget replacement ''roles'') then jdelete replacement ''roles'' else replacement)
      | ROtherOp \<Rightarrow> ROtherOp)"

definition role_guard_bulkWrite :: "bool \<Rightarrow> role_op list \<Rightarrow> role_op list" where
  "role_guard_bulkWrite allowed ops =
     (if \<not> list_ex op_changes_roles ops then ops
      else if allowed then ops
      else map strip_op ops)"

subsection \<open>Lemmas\<close>

lemma assertNo_iff:
  "assertNoSystemRoles roles stored = Inr () \<longleftrightarrow>
     (\<forall>v \<in> set (case roles of JArr xs \<Rightarrow> xs | _ \<Rightarrow> []). looksLikeSystemRole_value v \<longrightarrow> v \<in> set stored)"
  by (auto simp: assertNoSystemRoles_def Let_def filter_empty_conv split: jv.splits)

lemma toRoleArray_iff:
  "(\<forall>v \<in> set (case roles of JArr xs \<Rightarrow> xs | _ \<Rightarrow> []). looksLikeSystemRole_value v \<longrightarrow> v \<in> S)
   \<longleftrightarrow> (\<forall>v \<in> set (toRoleArray roles). looksLikeSystemRole_value v \<longrightarrow> v \<in> S)"
  by (auto simp: toRoleArray_def is_jstr_def looksLikeSystemRole_value_def split: jv.splits)

lemma assertNo_roles:
  "assertNoSystemRoles roles stored = Inr () \<longleftrightarrow>
     (\<forall>v \<in> set (toRoleArray roles). looksLikeSystemRole_value v \<longrightarrow> v \<in> set stored)"
  unfolding assertNo_iff by (rule toRoleArray_iff)

lemma assertNo_arr:
  "assertNoSystemRoles (JArr xs) stored = Inr () \<longleftrightarrow> (\<forall>v \<in> set xs. looksLikeSystemRole_value v \<longrightarrow> v \<in> set stored)"
  using assertNo_iff [of "JArr xs"] by simp

lemma each_unit: "(\<exists>us. each f xs = Inr us) \<longleftrightarrow> (\<forall>x \<in> set xs. \<exists>u. f x = Inr u)"
  by (induction xs) (auto simp: then_do_Inr)

lemma assertUpdate_iff:
  assumes "jtruthy update"
  shows "assertUpdateHasNoSystemRoles update stored = Inr () \<longleftrightarrow>
     (\<forall>v \<in> set (collectRoleValues update). looksLikeSystemRole_value v \<longrightarrow> v \<in> set stored)"
proof -
  let ?check = "\<lambda>operator. if operator = JUndef \<or> operator = JNull then Inr ()
      else assertNoSystemRoles (JArr (operator_values operator)) stored"
  have "?check p = Inr () \<longleftrightarrow> (\<forall>v \<in> set (operator_values p). looksLikeSystemRole_value v \<longrightarrow> v \<in> set stored)" for p
    using assertNo_arr [of "operator_values p" stored] by (auto simp: operator_values_def)
  then have "(\<exists>us. each ?check (push_operators update) = Inr us) \<longleftrightarrow>
      (\<forall>v \<in> set (concat (map operator_values (push_operators update))). looksLikeSystemRole_value v \<longrightarrow> v \<in> set stored)"
    unfolding each_unit by auto
  then show ?thesis
    using assms assertNo_roles [of "jget update ''roles''" stored]
      assertNo_roles [of "jget (jget update ''$set'') ''roles''" stored]
      assertNo_roles [of "jget (jget update ''$setOnInsert'') ''roles''" stored]
    by (auto simp: assertUpdateHasNoSystemRoles_def collectRoleValues_def then_do_Inr)
qed

lemma assertUpdate_none:
  "assertUpdateHasNoSystemRoles update [] = Inr () \<longleftrightarrow>
     (\<forall>v \<in> set (collectRoleValues update). jtruthy update \<longrightarrow> \<not> looksLikeSystemRole_value v)"
  by (cases "jtruthy update") (auto simp: assertUpdate_iff, simp add: assertUpdateHasNoSystemRoles_def)

lemma collect_not_truthy: "\<not> jtruthy update \<Longrightarrow> collectRoleValues update = []"
  by (cases update)
    (auto simp: jtruthy_def collectRoleValues_def push_operators_def operator_values_def toRoleArray_def jget_def)

lemma jget_truthy_obj: "jtruthy (jget v k) \<Longrightarrow> \<exists>m. v = JObj m"
  by (cases v) (auto simp: jget_def)

lemma strip_operator_get:
  "jget (strip_operator op u) k =
     (if k = op \<and> jtruthy (jget (jget u op) ''roles'') then jdelete (jget u op) ''roles'' else jget u k)"
proof (cases "jtruthy (jget (jget u op) ''roles'')")
  case True
  then have "jtruthy (jget u op)" by (auto dest: jget_truthy_obj)
  then obtain m where "u = JObj m" by (auto dest: jget_truthy_obj)
  then show ?thesis using True by (simp add: strip_operator_def jset_def map_of_update_eq)
qed (simp add: strip_operator_def)

lemma stripped_get:
  "jget (strip_operator ''$pull'' (strip_operator ''$addToSet'' (strip_operator ''$push''
       (strip_operator ''$set'' (jdelete u ''roles''))))) k =
     (if k = ''roles'' then JUndef
      else if k \<in> set GUARDED_OPERATORS \<and> jtruthy (jget (jget u k) ''roles'') then jdelete (jget u k) ''roles''
      else jget u k)"
  by (auto simp: strip_operator_get GUARDED_OPERATORS_def)

lemma no_roles_not_truthy: "\<not> jtruthy u \<Longrightarrow> \<not> hasRolesInUpdate u"
  by (cases u) (auto simp: hasRolesInUpdate_def jtruthy_def jget_def list_ex_iff)

lemma handle_get:
  "jget (handleUpdateRoleGuard False u) ''roles'' = JUndef \<or> handleUpdateRoleGuard False u = u \<and> \<not> hasRolesInUpdate u"
  "k \<noteq> ''roles'' \<Longrightarrow> jget (handleUpdateRoleGuard False u) k = jget u k
     \<or> k \<in> set GUARDED_OPERATORS \<and> jget (handleUpdateRoleGuard False u) k = jdelete (jget u k) ''roles''"
proof -
  show "jget (handleUpdateRoleGuard False u) ''roles'' = JUndef \<or> handleUpdateRoleGuard False u = u \<and> \<not> hasRolesInUpdate u"
    using no_roles_not_truthy [of u] by (auto simp: handleUpdateRoleGuard_def stripped_get)
  show "k \<noteq> ''roles'' \<Longrightarrow> jget (handleUpdateRoleGuard False u) k = jget u k
     \<or> k \<in> set GUARDED_OPERATORS \<and> jget (handleUpdateRoleGuard False u) k = jdelete (jget u k) ''roles''"
    by (auto simp: handleUpdateRoleGuard_def stripped_get)
qed

lemma handle_clean: "\<not> hasRolesInUpdate (handleUpdateRoleGuard False u)"
proof (cases "hasRolesInUpdate u")
  case False
  then show ?thesis by (simp add: handleUpdateRoleGuard_def)
next
  case True
  then have e: "handleUpdateRoleGuard False u = strip_operator ''$pull'' (strip_operator ''$addToSet'' (strip_operator ''$push''
       (strip_operator ''$set'' (jdelete u ''roles''))))"
    using no_roles_not_truthy [of u] by (cases "jtruthy u") (simp_all add: handleUpdateRoleGuard_def)
  show ?thesis unfolding hasRolesInUpdate_def e list_ex_iff stripped_get
    by (auto simp: GUARDED_OPERATORS_def)
qed

lemma clear_roles_clean: "jlength (jget (clear_roles doc) ''roles'') = 0"
proof (cases "jtruthy (jget doc ''roles'')")
  case True
  then obtain m where "doc = JObj m" by (auto dest: jget_truthy_obj)
  then show ?thesis using True by (simp add: clear_roles_def del: jget_simps) (simp add: jset_def jget_def map_of_update_eq jlength_def)
next
  case False
  then show ?thesis by (cases "jget doc ''roles''") (auto simp: clear_roles_def jlength_def jtruthy_def)
qed

lemma strip_op_clean: "\<not> op_changes_roles (strip_op op)"
proof (cases op)
  case (RReplaceOne r)
  then show ?thesis by (cases "jget r ''roles''") (auto simp: op_changes_roles_def strip_op_def jlength_def jtruthy_def)
qed (simp_all add: op_changes_roles_def strip_op_def handle_clean clear_roles_clean)

subsection \<open>Properties\<close>

text \<open>
  The system-role plugin refuses exactly the writes that introduce a system role. An update of one
  document passes when every role it carries, top-level, in \<open>$set\<close>, \<open>$setOnInsert\<close>, \<open>$push\<close> or
  \<open>$addToSet\<close>, that looks like a system role is already stored (nothing counts as stored when the
  look-up failed); \<open>updateMany\<close> and \<open>insertMany\<close> pass when there is none at all; a saved document is
  compared with its own stored roles, a new one with none.
\<close>

theorem system_roles_never_introduced:
  "(assertUpdateIntroducesNoSystemRoles update lookup = Inr () \<longleftrightarrow>
      (\<forall>v \<in> set (collectRoleValues update). looksLikeSystemRole_value v \<longrightarrow>
         v \<in> set (case lookup of Some current \<Rightarrow> toRoleArray (jget current ''roles'') | None \<Rightarrow> [])))
   \<and> (system_role_updateMany update = Inr () \<longleftrightarrow> \<not> list_ex looksLikeSystemRole_value (collectRoleValues update))
   \<and> (system_role_insertMany (JArr ds) = Inr () \<longleftrightarrow>
        (\<forall>d \<in> set ds. \<not> list_ex looksLikeSystemRole_value (toRoleArray (jget d ''roles''))))
   \<and> (system_role_save True isNew roles original = Inr () \<longleftrightarrow>
        (\<forall>v \<in> set (toRoleArray roles). looksLikeSystemRole_value v \<longrightarrow> \<not> isNew \<and> v \<in> set (toRoleArray original)))"
proof -
  let ?s = "case lookup of Some current \<Rightarrow> toRoleArray (jget current ''roles'') | None \<Rightarrow> []"
  have a: "assertUpdateIntroducesNoSystemRoles update lookup = Inr () \<longleftrightarrow>
      (\<forall>v \<in> set (collectRoleValues update). looksLikeSystemRole_value v \<longrightarrow> v \<in> set ?s)"
    using assertUpdate_iff [of update ?s] collect_not_truthy [of update]
    by (auto simp: assertUpdateIntroducesNoSystemRoles_def list_ex_iff)
  have b: "system_role_updateMany update = Inr () \<longleftrightarrow> \<not> list_ex looksLikeSystemRole_value (collectRoleValues update)"
    using assertUpdate_none [of update] collect_not_truthy [of update]
    by (auto simp: system_role_updateMany_def list_ex_iff)
  have i: "system_role_insertMany (JArr ds) = Inr () \<longleftrightarrow>
        (\<forall>d \<in> set ds. \<not> list_ex looksLikeSystemRole_value (toRoleArray (jget d ''roles'')))"
    using each_unit [of "\<lambda>doc. assertNoSystemRoles (jget doc ''roles'') []" ds] assertNo_roles [of "jget _ ''roles''" "[]"]
    by (auto simp: system_role_insertMany_def then_do_Inr list_ex_iff)
  have c: "system_role_save True isNew roles original = Inr () \<longleftrightarrow>
        (\<forall>v \<in> set (toRoleArray roles). looksLikeSystemRole_value v \<longrightarrow> \<not> isNew \<and> v \<in> set (toRoleArray original))"
    by (simp add: system_role_save_def assertNo_roles)
  show ?thesis using a b i c by blast
qed

text \<open>
  The role guard strips what it knows of: for a caller who may not change roles, the update handed
  on writes no roles at the top level or through \<open>$set\<close>, \<open>$push\<close>, \<open>$addToSet\<close> or \<open>$pull\<close> and keeps every
  other field and every other part of these operators; no document of \<open>insertMany\<close> and no operation of
  \<open>bulkWrite\<close> that is handed on carries roles; a new document is saved with none and an existing one
  keeps its stored roles.
\<close>

theorem role_guard_strips:
  "\<not> hasRolesInUpdate (handleUpdateRoleGuard False u)
   \<and> (\<forall>k. k \<noteq> ''roles'' \<longrightarrow> jget (handleUpdateRoleGuard False u) k = jget u k
        \<or> k \<in> set GUARDED_OPERATORS \<and> (\<forall>f. f \<noteq> ''roles'' \<longrightarrow> jget (jget (handleUpdateRoleGuard False u) k) f = jget (jget u k) f))
   \<and> (\<forall>docs. role_guard_insertMany False (JArr ds) = JArr docs \<longrightarrow>
        length docs = length ds \<and> (\<forall>d \<in> set docs. jlength (jget d ''roles'') = 0))
   \<and> (\<forall>op \<in> set (role_guard_bulkWrite False ops). \<not> op_changes_roles op)
   \<and> (case role_guard_save False True isNew (JObj doc) of
        (doc', written) \<Rightarrow> if isNew then jget doc' ''roles'' = JArr [] else \<not> written)"
proof -
  have b: "\<forall>k. k \<noteq> ''roles'' \<longrightarrow> jget (handleUpdateRoleGuard False u) k = jget u k
        \<or> k \<in> set GUARDED_OPERATORS \<and> (\<forall>f. f \<noteq> ''roles'' \<longrightarrow> jget (jget (handleUpdateRoleGuard False u) k) f = jget (jget u k) f)"
    using handle_get(2) [of _ u] by fastforce
  have c: "\<forall>docs. role_guard_insertMany False (JArr ds) = JArr docs \<longrightarrow>
        length docs = length ds \<and> (\<forall>d \<in> set docs. jlength (jget d ''roles'') = 0)"
    using clear_roles_clean by (auto simp: role_guard_insertMany_def list_ex_iff split: if_splits)
  have d: "\<forall>op \<in> set (role_guard_bulkWrite False ops). \<not> op_changes_roles op"
    using strip_op_clean by (auto simp: role_guard_bulkWrite_def list_ex_iff split: if_splits)
  have e: "case role_guard_save False True isNew (JObj doc) of
        (doc', written) \<Rightarrow> if isNew then jget doc' ''roles'' = JArr [] else \<not> written"
    by (simp add: role_guard_save_def jset_def map_of_update_eq)
  show ?thesis using handle_clean b c d e by blast
qed

theorem role_guard_strips_witness:
  "handleUpdateRoleGuard False (JObj [(''$set'', JObj [(''name'', JStr ''x''), (''roles'', JArr [JStr ''admin''])])])
     = JObj [(''$set'', JObj [(''name'', JStr ''x'')])]
   \<and> \<not> hasRolesInUpdate (JObj [(''$set'', JObj [(''name'', JStr ''x'')])])"
proof -
  have e: "handleUpdateRoleGuard False (JObj [(''$set'', JObj [(''name'', JStr ''x''), (''roles'', JArr [JStr ''admin''])])])
     = JObj [(''$set'', JObj [(''name'', JStr ''x'')])]" by code_simp
  then show ?thesis
    using role_guard_strips [of "JObj [(''$set'', JObj [(''name'', JStr ''x''), (''roles'', JArr [JStr ''admin''])])]"]
    by metis
qed

theorem system_roles_never_introduced_witness:
  "system_role_updateMany (JObj [(''$push'', JObj [(''roles'', JStr '' S_Self'')])]) \<noteq> Inr ()"
proof -
  have "list_ex looksLikeSystemRole_value (collectRoleValues (JObj [(''$push'', JObj [(''roles'', JStr '' S_Self'')])]))"
    by code_simp
  then show ?thesis using system_roles_never_introduced by blast
qed

text \<open>
  What both plugins miss. An update that writes one element of the array by its path
  (\<open>$set: {'roles.0': r}\<close>) and a write whose \<open>roles\<close> is a bare string pass the system-role check for
  every \<open>r\<close>, a system role included; the first, and roles under \<open>$setOnInsert\<close>, are also handed on
  unchanged for a caller who may not change roles, \<open>admin\<close> included.
\<close>

theorem unseen_role_writes:
  "let path = JObj [(''$set'', JObj [(''roles.0'', JStr r)])];
       upsert = JObj [(''$setOnInsert'', JObj [(''roles'', JArr [JStr r])])];
       bare = JObj [(''roles'', JStr r)]
   in assertUpdateIntroducesNoSystemRoles path lookup = Inr () \<and> system_role_updateMany path = Inr ()
     \<and> system_role_updateMany bare = Inr () \<and> system_role_insertMany (JArr [bare]) = Inr ()
     \<and> handleUpdateRoleGuard False path = path \<and> handleUpdateRoleGuard False upsert = upsert
     \<and> role_guard_bulkWrite False [RUpdateOne path, RUpdateMany upsert] = [RUpdateOne path, RUpdateMany upsert]"
proof -
  note defs = assertUpdateIntroducesNoSystemRoles_def assertUpdateHasNoSystemRoles_def assertNoSystemRoles_def
    collectRoleValues_def push_operators_def operator_values_def toRoleArray_def
  show ?thesis
    by (simp add: Let_def defs system_role_updateMany_def system_role_insertMany_def handleUpdateRoleGuard_def
        hasRolesInUpdate_def GUARDED_OPERATORS_def role_guard_bulkWrite_def op_changes_roles_def)
qed

end
