(* ===== verification/TenantService.thy ===== *)
theory TenantService
  imports TenantGuard
begin

text \<open>
  \<^verbatim>\<open>modules/tenant/core-tenant.service.ts\<close>: adding, removing and re-roling members of a tenant.

  \<^item> The membership collection is a parameter: \<open>member_ops\<close> holds the operations of the model the
    service calls, over an abstract database state; \<open>member_laws\<close> states what MongoDB documents of them,
    reading the collection as the list of its documents in natural order.
  \<^item> An operation returns the exception or the membership (or null), the database and the users whose entries
    the tenant guard was told to invalidate.
  \<^item> An operation runs as one step, except in the last section, which splits \<open>addMember\<close> at its
    \<^verbatim>\<open>await\<close>.
\<close>

subsection \<open>Data\<close>

record member_row = member +
  mr_invitedBy :: "string option"
  mr_joinedAt :: "int option"

record 'db member_ops =
  mo_findOne :: "(member_row \<Rightarrow> bool) \<Rightarrow> 'db \<Rightarrow> member_row option"
  mo_find :: "(member_row \<Rightarrow> bool) \<Rightarrow> 'db \<Rightarrow> member_row list"
  mo_count :: "(member_row \<Rightarrow> bool) \<Rightarrow> 'db \<Rightarrow> nat"
  mo_findOneAndUpdate :: "(member_row \<Rightarrow> bool) \<Rightarrow> (member_row \<Rightarrow> member_row) \<Rightarrow> 'db \<Rightarrow> member_row option \<times> 'db"
  mo_create :: "member_row \<Rightarrow> 'db \<Rightarrow> member_row \<times> 'db"

datatype tenant_error =
    EmptyTenantId | EmptyUserId | EmptyRole | AlreadyMember | MembershipNotFound | ActiveMembershipNotFound
  | LastOwner | SystemRoleAsMembership string | GlobalRoleAsMembership string | UndeclaredRole string

type_synonym 'db service_result = "(tenant_error + member_row option) \<times> 'db \<times> string list"

definition is_blank :: "string \<Rightarrow> bool" where
  "is_blank s = (js_trim s = [])"

subsection \<open>Roles\<close>

definition getDefaultRole :: "mt_config option \<Rightarrow> string" where
  "getDefaultRole cfg =
     (case getRoleHierarchy cfg of
        [] \<Rightarrow> ''member''
      | e # es \<Rightarrow> fst (foldl (\<lambda>a b. if snd a \<le> snd b then a else b) e es))"

definition getHighestRole :: "mt_config option \<Rightarrow> string" where
  "getHighestRole cfg =
     (case getRoleHierarchy cfg of
        [] \<Rightarrow> ''owner''
      | e # es \<Rightarrow> fst (foldl (\<lambda>a b. if snd a \<ge> snd b then a else b) e es))"

definition assertAssignableMembershipRole :: "mt_config option \<Rightarrow> string \<Rightarrow> tenant_error + unit" where
  "assertAssignableMembershipRole cfg role =
     (if looksLikeSystemRole role then Inl (SystemRoleAsMembership role)
      else if looksLikeGlobalOnlyRole role then Inl (GlobalRoleAsMembership role)
      else (case cfg of
              Some c \<Rightarrow>
                if mt_strictMembershipRoles c
                then (if role \<notin> set (hierarchy_and_additional (Some c)) then Inl (UndeclaredRole role) else Inr ())
                else Inr ()
            | None \<Rightarrow> Inr ()))"

subsection \<open>Queries\<close>

definition of_pair :: "string \<Rightarrow> string \<Rightarrow> member_row \<Rightarrow> bool" where
  "of_pair tenantId userId m = (mb_tenant m = tenantId \<and> mb_user m = userId)"

definition active_of :: "string \<Rightarrow> string \<Rightarrow> member_row \<Rightarrow> bool" where
  "active_of tenantId userId m = (mb_status m = ACTIVE \<and> of_pair tenantId userId m)"

definition findMemberships :: "'db member_ops \<Rightarrow> string \<Rightarrow> 'db \<Rightarrow> member_row list" where
  "findMemberships ops userId db = mo_find ops (\<lambda>m. mb_status m = ACTIVE \<and> mb_user m = userId) db"

definition getMembership :: "'db member_ops \<Rightarrow> string \<Rightarrow> string \<Rightarrow> 'db \<Rightarrow> member_row option" where
  "getMembership ops tenantId userId db = mo_findOne ops (of_pair tenantId userId) db"

definition getActiveMembership :: "'db member_ops \<Rightarrow> string \<Rightarrow> string \<Rightarrow> 'db \<Rightarrow> member_row option" where
  "getActiveMembership ops tenantId userId db =
     (if is_blank tenantId \<or> is_blank userId then None else mo_findOne ops (active_of tenantId userId) db)"

definition active_owner :: "mt_config option \<Rightarrow> string \<Rightarrow> member_row \<Rightarrow> bool" where
  "active_owner cfg tenantId m = (mb_role m = getHighestRole cfg \<and> mb_status m = ACTIVE \<and> mb_tenant m = tenantId)"

definition assertNotLastOwner ::
  "'db member_ops \<Rightarrow> mt_config option \<Rightarrow> string \<Rightarrow> string \<Rightarrow> 'db \<Rightarrow> tenant_error + unit" where
  "assertNotLastOwner ops cfg tenantId userId db =
     (let highestRole = getHighestRole cfg;
          ownerCount = mo_count ops (active_owner cfg tenantId) db
      in if ownerCount \<le> 1
            \<and> (case getActiveMembership ops tenantId userId db of
                 Some membership \<Rightarrow> mb_role membership = highestRole | None \<Rightarrow> False)
         then Inl LastOwner else Inr ())"

subsection \<open>Operations\<close>

definition addMember_write ::
  "'db member_ops \<Rightarrow> int \<Rightarrow> string \<Rightarrow> string \<Rightarrow> string \<Rightarrow> string option \<Rightarrow> member_row option \<Rightarrow> 'db \<Rightarrow> 'db service_result" where
  "addMember_write ops now tenantId userId role invitedById existing db =
     (case existing of
        Some m \<Rightarrow>
          if mb_status m = ACTIVE then (Inl AlreadyMember, db, [])
          else (case mo_findOneAndUpdate ops (of_pair tenantId userId)
                       (\<lambda>r. r\<lparr>mr_invitedBy := invitedById, mr_joinedAt := Some now, mb_role := role, mb_status := ACTIVE\<rparr>) db of
                  (result, db') \<Rightarrow> (Inr result, db', [userId]))
      | None \<Rightarrow>
          (case mo_create ops \<lparr>mb_tenant = tenantId, mb_user = userId, mb_role = role, mb_status = ACTIVE,
                    mr_invitedBy = invitedById, mr_joinedAt = Some now\<rparr> db of
             (doc, db') \<Rightarrow> (Inr (Some doc), db', [userId])))"

definition addMember ::
  "'db member_ops \<Rightarrow> mt_config option \<Rightarrow> int \<Rightarrow> string \<Rightarrow> string \<Rightarrow> string option \<Rightarrow> string option \<Rightarrow> 'db \<Rightarrow> 'db service_result" where
  "addMember ops cfg now tenantId userId role invitedById db =
     (if is_blank tenantId then (Inl EmptyTenantId, db, [])
      else if is_blank userId then (Inl EmptyUserId, db, [])
      else
        (let effectiveRole = (case role of Some r \<Rightarrow> r | None \<Rightarrow> getDefaultRole cfg)
         in case assertAssignableMembershipRole cfg effectiveRole of
              Inl e \<Rightarrow> (Inl e, db, [])
            | Inr _ \<Rightarrow>
                addMember_write ops now tenantId userId effectiveRole invitedById (getMembership ops tenantId userId db) db))"

definition removeMember ::
  "'db member_ops \<Rightarrow> mt_config option \<Rightarrow> string \<Rightarrow> string \<Rightarrow> 'db \<Rightarrow> 'db service_result" where
  "removeMember ops cfg tenantId userId db =
     (if is_blank tenantId then (Inl EmptyTenantId, db, [])
      else if is_blank userId then (Inl EmptyUserId, db, [])
      else (case assertNotLastOwner ops cfg tenantId userId db of
              Inl e \<Rightarrow> (Inl e, db, [])
            | Inr _ \<Rightarrow>
                (case mo_findOneAndUpdate ops (active_of tenantId userId) (\<lambda>r. r\<lparr>mb_status := SUSPENDED\<rparr>) db of
                   (None, db') \<Rightarrow> (Inl MembershipNotFound, db', [])
                 | (Some result, db') \<Rightarrow> (Inr (Some result), db', [userId]))))"

definition updateMemberRole ::
  "'db member_ops \<Rightarrow> mt_config option \<Rightarrow> string \<Rightarrow> string \<Rightarrow> string \<Rightarrow> 'db \<Rightarrow> 'db service_result" where
  "updateMemberRole ops cfg tenantId userId role db =
     (if is_blank tenantId then (Inl EmptyTenantId, db, [])
      else if is_blank userId then (Inl EmptyUserId, db, [])
      else if is_blank role then (Inl EmptyRole, db, [])
      else (case assertAssignableMembershipRole cfg role of
              Inl e \<Rightarrow> (Inl e, db, [])
            | Inr _ \<Rightarrow>
                (let highestRole = getHighestRole cfg;
                     existing = getActiveMembership ops tenantId userId db;
                     check = (case existing of
                                Some m \<Rightarrow> if mb_role m = highestRole \<and> role \<noteq> highestRole
                                          then assertNotLastOwner ops cfg tenantId userId db else Inr ()
                              | None \<Rightarrow> Inr ())
                 in case check of
                      Inl e \<Rightarrow> (Inl e, db, [])
                    | Inr _ \<Rightarrow>
                        (case mo_findOneAndUpdate ops (active_of tenantId userId) (\<lambda>r. r\<lparr>mb_role := role\<rparr>) db of
                           (None, db') \<Rightarrow> (Inl ActiveMembershipNotFound, db', [])
                         | (Some result, db') \<Rightarrow> (Inr (Some result), db', [userId])))))"

subsection \<open>What the service relies on\<close>

fun update_first :: "('a \<Rightarrow> bool) \<Rightarrow> ('a \<Rightarrow> 'a) \<Rightarrow> 'a list \<Rightarrow> 'a list" where
  "update_first P f [] = []"
| "update_first P f (x # xs) = (if P x then f x # xs else x # update_first P f xs)"

definition member_laws :: "'db member_ops \<Rightarrow> ('db \<Rightarrow> member_row list) \<Rightarrow> bool" where
  "member_laws ops rows \<longleftrightarrow>
     (\<forall>P db. mo_findOne ops P db = List.find P (rows db))
     \<and> (\<forall>P db. mo_find ops P db = filter P (rows db))
     \<and> (\<forall>P db. mo_count ops P db = length (filter P (rows db)))
     \<and> (\<forall>P f db. fst (mo_findOneAndUpdate ops P f db) = map_option f (List.find P (rows db))
          \<and> rows (snd (mo_findOneAndUpdate ops P f db)) = update_first P f (rows db))
     \<and> (\<forall>m db. fst (mo_create ops m db) = m \<and> rows (snd (mo_create ops m db)) = rows db @ [m])"

text \<open>What the tenant guard sees of the collection.\<close>

definition guard_view :: "'db member_ops \<Rightarrow> 'db \<Rightarrow> member_db" where
  "guard_view ops db =
     \<lparr>db_findActive = (\<lambda>t u. map_option member.truncate (mo_findOne ops (active_of t u) db)),
      db_findAllActive = (\<lambda>u. map member.truncate (findMemberships ops u db))\<rparr>"

subsection \<open>Lemmas\<close>

lemma filter_update_first:
  "(\<And>r. P r \<Longrightarrow> Q (f r) = Q r) \<Longrightarrow> (\<And>r. P r \<Longrightarrow> Q r \<Longrightarrow> f r = r) \<Longrightarrow> filter Q (update_first P f xs) = filter Q xs"
  by (induction xs) auto

lemma find_update_first:
  "(\<And>r. P r \<Longrightarrow> \<not> Q r \<and> \<not> Q (f r)) \<Longrightarrow> List.find Q (update_first P f xs) = List.find Q xs"
  by (induction xs) auto

lemma length_filter_update_first:
  "length (filter Q xs) \<le> Suc (length (filter Q (update_first P f xs)))"
  by (induction xs) auto

lemma length_filter_update_first_keep:
  "(\<And>r. List.find P xs = Some r \<Longrightarrow> Q r \<Longrightarrow> Q (f r)) \<Longrightarrow>
     length (filter Q xs) \<le> length (filter Q (update_first P f xs))"
  by (induction xs) auto

lemma update_first_none: "List.find P xs = None \<Longrightarrow> update_first P f xs = xs"
  by (induction xs) (auto split: if_splits)

lemma find_append_new: "List.find P xs = None \<Longrightarrow> P m \<Longrightarrow> List.find P (xs @ [m]) = Some m"
  by (induction xs) (auto split: if_splits)

lemma find_after_update:
  "List.find P xs = Some m \<Longrightarrow> (\<And>r. Q r \<Longrightarrow> P r) \<Longrightarrow> (\<And>r. P r \<Longrightarrow> Q (f r)) \<Longrightarrow>
     List.find Q (update_first P f xs) = Some (f m)"
  by (induction xs) (auto split: if_splits)

text \<open>At most one row for a user in a tenant.\<close>

definition one_row :: "member_row list \<Rightarrow> bool" where
  "one_row xs \<longleftrightarrow> distinct (map (\<lambda>m. (mb_tenant m, mb_user m)) xs)"

lemma one_row_update:
  "(\<And>r. mb_tenant (f r) = mb_tenant r \<and> mb_user (f r) = mb_user r) \<Longrightarrow>
     map (\<lambda>m. (mb_tenant m, mb_user m)) (update_first P f xs) = map (\<lambda>m. (mb_tenant m, mb_user m)) xs"
  by (induction xs) auto

lemma one_row_find:
  "one_row xs \<Longrightarrow> List.find (of_pair t u) xs = Some m \<Longrightarrow> r \<in> set xs \<Longrightarrow> of_pair t u r \<Longrightarrow> r = m"
  by (induction xs) (force simp: one_row_def of_pair_def split: if_splits)+

lemma getHighest_best:
  assumes "getRoleHierarchy cfg = e # es"
  shows "\<exists>x \<in> set (e # es). fst x = getHighestRole cfg \<and> (\<forall>r \<in> set (e # es). snd r \<le> snd x)"
proof -
  let ?pick = "\<lambda>a b :: string \<times> int. if snd a \<ge> snd b then a else b"
  have "foldl ?pick e es \<in> set (e # es) \<and> (\<forall>r \<in> set (e # es). snd r \<le> snd (foldl ?pick e es))" for e es
  proof (induction es arbitrary: e)
    case (Cons x es)
    show ?case using Cons.IH [of "?pick e x"] by (fastforce split: if_splits)
  qed simp
  note best = this [of e es]
  have "getHighestRole cfg = fst (foldl ?pick e es)" using assms by (simp add: getHighestRole_def)
  then show ?thesis by (intro bexI [of _ "foldl ?pick e es"]) (use best in simp_all)
qed

text \<open>What an operation does to the documents: nothing, one document of the pair changed, or one added.\<close>

lemma add_rows:
  assumes l: "member_laws ops rows" and r: "addMember ops cfg now t u role inviter db = (res, db', inval)"
  shows "(rows db' = rows db \<and> inval = [])
    \<or> (inval = [u] \<and> (\<exists>m. List.find (of_pair t u) (rows db) = Some m \<and> mb_status m \<noteq> ACTIVE
         \<and> (\<exists>eff. rows db' = update_first (of_pair t u)
              (\<lambda>r. r\<lparr>mr_invitedBy := inviter, mr_joinedAt := Some now, mb_role := eff, mb_status := ACTIVE\<rparr>) (rows db))))
    \<or> (inval = [u] \<and> List.find (of_pair t u) (rows db) = None
         \<and> (\<exists>m. mb_tenant m = t \<and> mb_user m = u \<and> mb_status m = ACTIVE \<and> rows db' = rows db @ [m]))"
proof -
  have e: "mo_findOneAndUpdate ops P f db = (a, b) \<Longrightarrow> rows b = update_first P f (rows db)" for P f a b
    using l by (simp add: member_laws_def) (metis snd_conv)
  have c: "mo_create ops m db = (a, b) \<Longrightarrow> rows b = rows db @ [m]" for m a b
    using l by (simp add: member_laws_def) (metis snd_conv)
  have g: "getMembership ops t u db = List.find (of_pair t u) (rows db)"
    using l by (simp add: member_laws_def getMembership_def)
  show ?thesis
    using r e c unfolding addMember_def addMember_write_def g
    by (auto simp: Let_def split: if_splits option.splits sum.splits prod.splits)
qed

lemma remove_rows:
  assumes l: "member_laws ops rows" and r: "removeMember ops cfg t u db = (res, db', inval)"
  shows "(rows db' = rows db \<and> inval = [])
    \<or> (inval = [u] \<and> assertNotLastOwner ops cfg t u db = Inr () \<and> \<not> is_blank t \<and> \<not> is_blank u
         \<and> rows db' = update_first (active_of t u) (\<lambda>r. r\<lparr>mb_status := SUSPENDED\<rparr>) (rows db))"
proof -
  have e: "mo_findOneAndUpdate ops P f db = (a, b) \<Longrightarrow>
      a = map_option f (List.find P (rows db)) \<and> rows b = update_first P f (rows db)" for P f a b
    using l by (simp add: member_laws_def) (metis fst_conv snd_conv)
  show ?thesis
    using r e [of "active_of t u"] update_first_none [of "active_of t u" "rows db"] unfolding removeMember_def
    by (auto split: if_splits option.splits sum.splits prod.splits)
qed

lemma update_rows:
  assumes l: "member_laws ops rows" and r: "updateMemberRole ops cfg t u role db = (res, db', inval)"
  shows "(rows db' = rows db \<and> inval = [])
    \<or> (inval = [u] \<and> \<not> is_blank t \<and> \<not> is_blank u
         \<and> (role = getHighestRole cfg \<or> assertNotLastOwner ops cfg t u db = Inr ()
            \<or> (\<forall>m. getActiveMembership ops t u db = Some m \<longrightarrow> mb_role m \<noteq> getHighestRole cfg))
         \<and> rows db' = update_first (active_of t u) (\<lambda>r. r\<lparr>mb_role := role\<rparr>) (rows db))"
proof -
  have e: "mo_findOneAndUpdate ops P f db = (a, b) \<Longrightarrow>
      a = map_option f (List.find P (rows db)) \<and> rows b = update_first P f (rows db)" for P f a b
    using l by (simp add: member_laws_def) (metis fst_conv snd_conv)
  show ?thesis
    using r e [of "active_of t u"] update_first_none [of "active_of t u" "rows db"] unfolding updateMemberRole_def
    by (auto simp: Let_def split: if_splits option.splits sum.splits prod.splits)
qed

text \<open>Any sequence of the operations of the service, whether they succeed or throw.\<close>

inductive service_reaches :: "'db member_ops \<Rightarrow> mt_config option \<Rightarrow> 'db \<Rightarrow> 'db \<Rightarrow> bool" for ops cfg db where
  sr_start: "service_reaches ops cfg db db"
| sr_add: "service_reaches ops cfg db db1 \<Longrightarrow> addMember ops cfg now t u role inviter db1 = (res, db2, inval) \<Longrightarrow>
     service_reaches ops cfg db db2"
| sr_remove: "service_reaches ops cfg db db1 \<Longrightarrow> removeMember ops cfg t u db1 = (res, db2, inval) \<Longrightarrow>
     service_reaches ops cfg db db2"
| sr_update: "service_reaches ops cfg db db1 \<Longrightarrow> updateMemberRole ops cfg t u role db1 = (res, db2, inval) \<Longrightarrow>
     service_reaches ops cfg db db2"

definition has_owner :: "mt_config option \<Rightarrow> string \<Rightarrow> member_row list \<Rightarrow> bool" where
  "has_owner cfg t xs \<longleftrightarrow> 0 < length (filter (active_owner cfg t) xs)"

lemma has_owner_iff: "has_owner cfg t xs \<longleftrightarrow> (\<exists>m \<in> set xs. active_owner cfg t m)"
  by (auto simp: has_owner_def filter_empty_conv)

lemma owner_kept_by_update:
  assumes "has_owner cfg t xs" "\<And>r. List.find P xs = Some r \<Longrightarrow> active_owner cfg t r \<Longrightarrow> active_owner cfg t (f r)"
  shows "has_owner cfg t (update_first P f xs)"
  using assms(1) length_filter_update_first_keep [of P xs "active_owner cfg t" f] assms(2)
  unfolding has_owner_def by fastforce

lemma find_SomeD: "List.find P xs = Some r \<Longrightarrow> P r \<and> r \<in> set xs"
  by (metis find_Some_iff nth_mem)

lemma getActive_find:
  "member_laws ops rows \<Longrightarrow> \<not> is_blank t \<Longrightarrow> \<not> is_blank u \<Longrightarrow>
     getActiveMembership ops t u db = List.find (active_of t u) (rows db)"
  by (simp add: getActiveMembership_def member_laws_def)

lemma owner_kept_checked:
  assumes l: "member_laws ops rows" and b: "\<not> is_blank t" "\<not> is_blank u"
    and o: "has_owner cfg t' (rows db)" and a: "assertNotLastOwner ops cfg t u db = Inr ()"
  shows "has_owner cfg t' (update_first (active_of t u) f (rows db))"
proof (cases "t' = t \<and> 1 < length (filter (active_owner cfg t) (rows db))")
  case True
  then have "1 < length (filter (active_owner cfg t') (rows db))" by simp
  then have "0 < length (filter (active_owner cfg t') (update_first (active_of t u) f (rows db)))"
    using length_filter_update_first [of "active_owner cfg t'" "rows db" "active_of t u" f] by linarith
  then show ?thesis by (simp add: has_owner_def)
next
  case False
  have "\<not> active_owner cfg t' r" if r: "List.find (active_of t u) (rows db) = Some r" for r
  proof (cases "t' = t")
    case True
    then have "mo_count ops (active_owner cfg t) db \<le> 1" using False l by (simp add: member_laws_def)
    then have "mb_role r \<noteq> getHighestRole cfg"
      using a r getActive_find [OF l b, of db] by (auto simp: assertNotLastOwner_def split: if_splits)
    then show ?thesis by (simp add: active_owner_def)
  next
    case False
    then show ?thesis using find_SomeD [OF r] by (auto simp: active_owner_def active_of_def of_pair_def)
  qed
  then show ?thesis using owner_kept_by_update [OF o] by blast
qed

lemma one_row_step_update:
  "one_row xs \<Longrightarrow> (\<And>r. mb_tenant (f r) = mb_tenant r \<and> mb_user (f r) = mb_user r) \<Longrightarrow> one_row (update_first P f xs)"
  by (simp add: one_row_def one_row_update)

lemma one_row_append:
  "one_row xs \<Longrightarrow> List.find (of_pair t u) xs = None \<Longrightarrow> mb_tenant m = t \<Longrightarrow> mb_user m = u \<Longrightarrow> one_row (xs @ [m])"
  by (auto simp: one_row_def find_None_iff of_pair_def)

lemma add_keeps:
  assumes l: "member_laws ops rows" and r: "addMember ops cfg now t u role inviter db = (res, db', inval)"
  shows "one_row (rows db) \<Longrightarrow> one_row (rows db')" "has_owner cfg t' (rows db) \<Longrightarrow> has_owner cfg t' (rows db')"
proof -
  note c = add_rows [OF l r]
  show "one_row (rows db) \<Longrightarrow> one_row (rows db')"
    using c one_row_append by (auto intro!: one_row_step_update)
  show "has_owner cfg t' (rows db) \<Longrightarrow> has_owner cfg t' (rows db')"
    using c by (auto simp: active_owner_def has_owner_iff [of _ _ "_ @ _"] has_owner_iff [of _ _ "rows db"]
        intro!: owner_kept_by_update) (auto simp: has_owner_iff)
qed

lemma remove_keeps:
  assumes l: "member_laws ops rows" and r: "removeMember ops cfg t u db = (res, db', inval)"
  shows "one_row (rows db) \<Longrightarrow> one_row (rows db')" "has_owner cfg t' (rows db) \<Longrightarrow> has_owner cfg t' (rows db')"
proof -
  note c = remove_rows [OF l r]
  show "one_row (rows db) \<Longrightarrow> one_row (rows db')" using c by (auto intro!: one_row_step_update)
  show "has_owner cfg t' (rows db) \<Longrightarrow> has_owner cfg t' (rows db')"
    using c owner_kept_checked [OF l, of t u] by auto
qed

lemma update_keeps:
  assumes l: "member_laws ops rows" and r: "updateMemberRole ops cfg t u role db = (res, db', inval)"
  shows "one_row (rows db) \<Longrightarrow> one_row (rows db')" "has_owner cfg t' (rows db) \<Longrightarrow> has_owner cfg t' (rows db')"
proof -
  note c = update_rows [OF l r]
  show "one_row (rows db) \<Longrightarrow> one_row (rows db')" using c by (auto intro!: one_row_step_update)
  show "has_owner cfg t' (rows db) \<Longrightarrow> has_owner cfg t' (rows db')"
  proof -
    assume o: "has_owner cfg t' (rows db)"
    let ?up = "update_first (active_of t u) (\<lambda>r. r\<lparr>mb_role := role\<rparr>) (rows db)"
    have "role = getHighestRole cfg \<Longrightarrow> has_owner cfg t' ?up"
      by (rule owner_kept_by_update [OF o]) (simp add: active_owner_def)
    moreover have "\<not> is_blank t \<Longrightarrow> \<not> is_blank u \<Longrightarrow>
        \<forall>m. getActiveMembership ops t u db = Some m \<longrightarrow> mb_role m \<noteq> getHighestRole cfg \<Longrightarrow> has_owner cfg t' ?up"
      by (rule owner_kept_by_update [OF o]) (simp add: active_owner_def getActive_find [OF l])
    ultimately show ?thesis using c o owner_kept_checked [OF l _ _ o, of t u] by auto
  qed
qed

lemma reaches_keeps:
  assumes "service_reaches ops cfg db db'" "member_laws ops rows"
  shows "(one_row (rows db) \<longrightarrow> one_row (rows db')) \<and> (has_owner cfg t (rows db) \<longrightarrow> has_owner cfg t (rows db'))"
  using assms
proof induction
  case sr_start
  then show ?case by simp
next
  case (sr_add db1 now t u role inviter res db2 inval)
  then show ?case using add_keeps [OF sr_add(4) sr_add(2)] by blast
next
  case (sr_remove db1 t u res db2 inval)
  then show ?case using remove_keeps [OF sr_remove(4) sr_remove(2)] by blast
next
  case (sr_update db1 t u role res db2 inval)
  then show ?case using update_keeps [OF sr_update(4) sr_update(2)] by blast
qed

text \<open>The view of the guard after a change that touches one user.\<close>

lemma view_same_but:
  assumes "member_laws ops rows"
    and "\<And>v (Q :: member_row \<Rightarrow> bool). v \<noteq> u \<Longrightarrow> (\<And>m. Q m \<Longrightarrow> mb_user m = v) \<Longrightarrow>
           List.find Q (rows db') = List.find Q (rows db) \<and> filter Q (rows db') = filter Q (rows db)"
  shows "same_but_user u (guard_view ops db) (guard_view ops db')"
  unfolding same_but_user_def
proof (intro allI impI)
  fix v
  assume v: "v \<noteq> u"
  have a: "List.find (active_of t v) (rows db') = List.find (active_of t v) (rows db)" for t
    using assms(2) [OF v, of "active_of t v"] by (simp add: active_of_def of_pair_def)
  have b: "filter (\<lambda>m. mb_status m = ACTIVE \<and> mb_user m = v) (rows db') = filter (\<lambda>m. mb_status m = ACTIVE \<and> mb_user m = v) (rows db)"
    using assms(2) [OF v, of "\<lambda>m. mb_status m = ACTIVE \<and> mb_user m = v"] by simp
  show "db_findAllActive (guard_view ops db') v = db_findAllActive (guard_view ops db) v
      \<and> (\<forall>t. db_findActive (guard_view ops db') t v = db_findActive (guard_view ops db) t v)"
    using assms(1) a b by (simp add: guard_view_def findMemberships_def member_laws_def)
qed

lemma update_first_other:
  assumes "\<And>r. P r \<Longrightarrow> mb_user r = u" "\<And>r. mb_user (f r) = mb_user r" "v \<noteq> u" "\<And>m. Q m \<Longrightarrow> mb_user m = v"
  shows "List.find Q (update_first P f xs) = List.find Q xs \<and> filter Q (update_first P f xs) = filter Q xs"
proof -
  have n: "P r \<Longrightarrow> \<not> Q r \<and> \<not> Q (f r)" for r using assms by metis
  then show ?thesis using find_update_first [of P Q f xs] filter_update_first [of P Q f xs] by blast
qed

lemma view_update:
  assumes "member_laws ops rows" "rows db' = update_first P f (rows db)"
    and "\<And>r. P r \<Longrightarrow> mb_user r = u" "\<And>r. mb_user (f r) = mb_user r"
  shows "same_but_user u (guard_view ops db) (guard_view ops db')"
proof (rule view_same_but [OF assms(1)])
  fix v and Q :: "member_row \<Rightarrow> bool"
  assume "v \<noteq> u" "\<And>m. Q m \<Longrightarrow> mb_user m = v"
  then show "List.find Q (rows db') = List.find Q (rows db) \<and> filter Q (rows db') = filter Q (rows db)"
    unfolding assms(2) using update_first_other [of P u f v Q "rows db"] assms(3,4) by blast
qed

lemma view_append:
  assumes "member_laws ops rows" "rows db' = rows db @ [m]" "mb_user m = u"
  shows "same_but_user u (guard_view ops db) (guard_view ops db')"
proof (rule view_same_but [OF assms(1)])
  fix v and Q :: "member_row \<Rightarrow> bool"
  assume "v \<noteq> u" "\<And>m. Q m \<Longrightarrow> mb_user m = v"
  then have "\<not> Q m" using assms(3) by blast
  then have "List.find Q (xs @ [m]) = List.find Q xs" for xs by (induction xs) auto
  then show "List.find Q (rows db') = List.find Q (rows db) \<and> filter Q (rows db') = filter Q (rows db)"
    using assms(2) \<open>\<not> Q m\<close> by simp
qed

lemma view_same: "member_laws ops rows \<Longrightarrow> rows db' = rows db \<Longrightarrow> guard_view ops db' = guard_view ops db"
  by (simp add: guard_view_def findMemberships_def member_laws_def)

definition service_change ::
  "'db member_ops \<Rightarrow> mt_config option \<Rightarrow> string \<Rightarrow> 'db \<Rightarrow> 'db \<Rightarrow> string list \<Rightarrow> bool" where
  "service_change ops cfg u db db' inval \<longleftrightarrow>
     (\<exists>now t role inviter res. addMember ops cfg now t u role inviter db = (res, db', inval))
     \<or> (\<exists>t res. removeMember ops cfg t u db = (res, db', inval))
     \<or> (\<exists>t role res. updateMemberRole ops cfg t u role db = (res, db', inval))"

lemma change_view:
  assumes l: "member_laws ops rows" and c: "service_change ops cfg u db db' inval"
  shows "(inval = [] \<and> guard_view ops db' = guard_view ops db)
    \<or> (inval = [u] \<and> same_but_user u (guard_view ops db) (guard_view ops db'))"
proof -
  have p: "of_pair t u r \<Longrightarrow> mb_user r = u" "active_of t u r \<Longrightarrow> mb_user r = u" for t r
    by (auto simp: of_pair_def active_of_def)
  from c consider
      (add) now t role inviter res where "addMember ops cfg now t u role inviter db = (res, db', inval)"
    | (remove) t res where "removeMember ops cfg t u db = (res, db', inval)"
    | (change) t role res where "updateMemberRole ops cfg t u role db = (res, db', inval)"
    unfolding service_change_def by blast
  then show ?thesis
  proof cases
    case add
    consider "rows db' = rows db \<and> inval = []"
      | f where "inval = [u]" "rows db' = update_first (of_pair t u) f (rows db)" "\<And>r. mb_user (f r) = mb_user r"
      | m where "inval = [u]" "rows db' = rows db @ [m]" "mb_user m = u"
    proof -
      let ?f = "\<lambda>eff r. r\<lparr>mr_invitedBy := inviter, mr_joinedAt := Some now, mb_role := eff, mb_status := ACTIVE\<rparr> :: member_row"
      have k: "mb_user (?f eff r) = mb_user r" for eff r by simp
      from add_rows [OF l add] show ?thesis
      proof (elim disjE conjE exE)
        fix m eff
        assume "inval = [u]" "rows db' = update_first (of_pair t u) (?f eff) (rows db)"
        then show ?thesis by (rule that(2)) (rule k)
      next
        assume "rows db' = rows db" "inval = []"
        then show ?thesis by (intro that(1) conjI)
      next
        fix m
        assume "inval = [u]" "mb_user m = u" "rows db' = rows db @ [m]"
        then show ?thesis by (intro that(3) [of m])
      qed
    qed
    then show ?thesis
    proof cases
      case 1
      then show ?thesis using view_same [OF l, of db' db] by simp
    next
      case (2 f)
      then show ?thesis using view_update [OF l 2(2) p(1) [of t] 2(3)] 2(1) by blast
    next
      case (3 m)
      then show ?thesis using view_append [OF l 3(2,3)] 3(1) by blast
    qed
  next
    case remove
    from remove_rows [OF l remove] show ?thesis
    proof (elim disjE)
      assume "rows db' = rows db \<and> inval = []"
      then show ?thesis using view_same [OF l, of db' db] by simp
    next
      assume a: "inval = [u] \<and> assertNotLastOwner ops cfg t u db = Inr () \<and> \<not> is_blank t \<and> \<not> is_blank u
         \<and> rows db' = update_first (active_of t u) (\<lambda>r. r\<lparr>mb_status := SUSPENDED\<rparr>) (rows db)"
      then show ?thesis using view_update [OF l _ p(2) [of t], where db' = db' and db = db and f = "\<lambda>r. r\<lparr>mb_status := SUSPENDED\<rparr>"] by simp
    qed
  next
    case change
    from update_rows [OF l change] show ?thesis
    proof (elim disjE)
      assume "rows db' = rows db \<and> inval = []"
      then show ?thesis using view_same [OF l, of db' db] by simp
    next
      assume a: "inval = [u] \<and> \<not> is_blank t \<and> \<not> is_blank u
         \<and> (role = getHighestRole cfg \<or> assertNotLastOwner ops cfg t u db = Inr ()
            \<or> (\<forall>m. getActiveMembership ops t u db = Some m \<longrightarrow> mb_role m \<noteq> getHighestRole cfg))
         \<and> rows db' = update_first (active_of t u) (\<lambda>r. r\<lparr>mb_role := role\<rparr>) (rows db)"
      then show ?thesis using view_update [OF l _ p(2) [of t], where db' = db' and db = db and f = "\<lambda>r. r\<lparr>mb_role := role\<rparr>"] by simp
    qed
  qed
qed

subsection \<open>Properties\<close>

text \<open>
  C16. A tenant never loses its last owner: if it has an active member of the highest role, it has one
  after any sequence of additions, removals and role changes of any users in any tenants, successful or
  refused; and a collection with at most one row for a user in a tenant stays one.
  Assumed: the collection treats its queries as documented.
\<close>

theorem last_owner_survives:
  assumes "member_laws ops rows" "service_reaches ops cfg db db'"
    and "m \<in> set (rows db)" "active_owner cfg t m"
  shows "(\<exists>m' \<in> set (rows db'). active_owner cfg t m') \<and> (one_row (rows db) \<longrightarrow> one_row (rows db'))"
  using reaches_keeps [OF assms(2,1), of t] assms(3,4) by (auto simp: has_owner_iff)

definition list_member_ops :: "member_row list member_ops" where
  "list_member_ops = \<lparr>mo_findOne = List.find, mo_find = filter, mo_count = (\<lambda>P db. length (filter P db)),
     mo_findOneAndUpdate = (\<lambda>P f db. (map_option f (List.find P db), update_first P f db)),
     mo_create = (\<lambda>m db. (m, db @ [m]))\<rparr>"

lemma list_member_laws: "member_laws list_member_ops (\<lambda>db. db)"
  by (simp add: member_laws_def list_member_ops_def)

definition demo_member_row :: "string \<Rightarrow> string \<Rightarrow> member_status \<Rightarrow> member_row" where
  "demo_member_row u role st = \<lparr>mb_tenant = ''t1'', mb_user = u, mb_role = role, mb_status = st,
     mr_invitedBy = None, mr_joinedAt = None\<rparr>"

theorem last_owner_survives_witness:
  "\<exists>m' \<in> set (fst (snd (removeMember list_member_ops (Some demo_mt) ''t1'' ''u1''
       [demo_member_row ''u1'' ''owner'' ACTIVE, demo_member_row ''u2'' ''owner'' ACTIVE]))).
     active_owner (Some demo_mt) ''t1'' m'"
proof -
  let ?db = "[demo_member_row ''u1'' ''owner'' ACTIVE, demo_member_row ''u2'' ''owner'' ACTIVE]"
  obtain res db2 inval where r: "removeMember list_member_ops (Some demo_mt) ''t1'' ''u1'' ?db = (res, db2, inval)"
    using prod_cases3 by blast
  have o: "active_owner (Some demo_mt) ''t1'' (demo_member_row ''u1'' ''owner'' ACTIVE)" by code_simp
  show ?thesis
    using last_owner_survives [OF list_member_laws sr_remove [OF sr_start r] _ o] r by auto
qed

text \<open>
  What a successful \<open>addMember\<close> leaves: the user had no active membership before and has the returned
  one now, with the requested or the default role, which is never a system role or a global role, and
  the guard was told to forget the user; a refused one changes nothing.
\<close>

theorem add_member_effect:
  assumes l: "member_laws ops rows" and one: "one_row (rows db)"
    and r: "addMember ops cfg now t u role inviter db = (res, db', inval)"
  shows "case res of
      Inr x \<Rightarrow> (\<exists>m. x = Some m \<and> getActiveMembership ops t u db' = Some m
          \<and> mb_role m = (case role of Some r \<Rightarrow> r | None \<Rightarrow> getDefaultRole cfg)
          \<and> \<not> isForbiddenMembershipRole (mb_role m))
        \<and> getActiveMembership ops t u db = None \<and> inval = [u]
    | Inl e \<Rightarrow> db' = db \<and> inval = []"
proof -
  let ?eff = "case role of Some r \<Rightarrow> r | None \<Rightarrow> getDefaultRole cfg"
  let ?f = "\<lambda>r :: member_row. r\<lparr>mr_invitedBy := inviter, mr_joinedAt := Some now, mb_role := ?eff, mb_status := ACTIVE\<rparr>"
  have L: "mo_findOne ops P d = List.find P (rows d)" for P d using l by (simp add: member_laws_def)
  have up: "mo_findOneAndUpdate ops P f db = (a, b) \<Longrightarrow>
      a = map_option f (List.find P (rows db)) \<and> rows b = update_first P f (rows db)" for P f a b
    using l by (simp add: member_laws_def) (metis fst_conv snd_conv)
  have cr: "mo_create ops m db = (a, b) \<Longrightarrow> a = m \<and> rows b = rows db @ [m]" for m a b
    using l by (simp add: member_laws_def) (metis fst_conv snd_conv)
  show ?thesis
  proof (cases "is_blank t \<or> is_blank u \<or> (\<exists>e. assertAssignableMembershipRole cfg ?eff = Inl e)")
    case True
    then show ?thesis using r by (auto simp: addMember_def Let_def split: if_splits)
  next
    case False
    then have b: "\<not> is_blank t" "\<not> is_blank u" and a: "assertAssignableMembershipRole cfg ?eff = Inr ()"
      by (auto, cases "assertAssignableMembershipRole cfg ?eff", auto)
    then have w: "addMember_write ops now t u ?eff inviter (List.find (of_pair t u) (rows db)) db = (res, db', inval)"
      using r by (simp add: addMember_def Let_def getMembership_def L)
    have nf: "\<not> isForbiddenMembershipRole ?eff"
      using a by (auto simp: assertAssignableMembershipRole_def isForbiddenMembershipRole_def split: if_splits)
    note act = getActive_find [OF l b]
    show ?thesis
    proof (cases "List.find (of_pair t u) (rows db)")
      case None
      let ?m = "\<lparr>mb_tenant = t, mb_user = u, mb_role = ?eff, mb_status = ACTIVE, mr_invitedBy = inviter, mr_joinedAt = Some now\<rparr>"
      have d: "res = Inr (Some ?m)" "inval = [u]" "rows db' = rows db @ [?m]"
        using w None cr [of ?m] by (auto simp: addMember_write_def split: prod.splits)
      have "List.find (active_of t u) (rows db) = None"
        using None by (auto simp: find_None_iff active_of_def)
      then show ?thesis unfolding act d using nf find_append_new [of "active_of t u" "rows db" ?m]
        by (simp add: active_of_def of_pair_def)
    next
      case (Some m)
      show ?thesis
      proof (cases "mb_status m = ACTIVE")
        case True
        then show ?thesis using w Some by (auto simp: addMember_write_def)
      next
        case False
        then have d: "res = Inr (Some (?f m))" "inval = [u]" "rows db' = update_first (of_pair t u) ?f (rows db)"
          using w Some up [of "of_pair t u" ?f] by (auto simp: addMember_write_def split: prod.splits)
        have "List.find (active_of t u) (rows db) = None"
          using one_row_find [OF one Some] False by (auto simp: find_None_iff active_of_def)
        moreover have "List.find (active_of t u) (update_first (of_pair t u) ?f (rows db)) = Some (?f m)"
          using find_after_update [OF Some, of "active_of t u" ?f] by (simp add: active_of_def of_pair_def)
        ultimately show ?thesis unfolding act d using nf by simp
      qed
    qed
  qed
qed

theorem add_member_effect_witness:
  "getActiveMembership list_member_ops ''t1'' ''u1'' [demo_member_row ''u1'' ''owner'' SUSPENDED] = None
   \<and> fst (addMember list_member_ops (Some demo_mt) 5 ''t1'' ''u1'' None None [demo_member_row ''u1'' ''owner'' SUSPENDED])
       \<noteq> Inl AlreadyMember"
proof -
  let ?db = "[demo_member_row ''u1'' ''owner'' SUSPENDED]"
  obtain res db2 inval where r: "addMember list_member_ops (Some demo_mt) 5 ''t1'' ''u1'' None None ?db = (res, db2, inval)"
    using prod_cases3 by blast
  have o: "one_row ?db" by (simp add: one_row_def)
  have ok: "is_ok (fst (addMember list_member_ops (Some demo_mt) 5 ''t1'' ''u1'' None None ?db))" by code_simp
  show ?thesis
    using add_member_effect [OF list_member_laws o r] ok r by (cases res) auto
qed

text \<open>
  C37. A membership change reaches the guard: after \<open>addMember\<close>, \<open>removeMember\<close> or \<open>updateMemberRole\<close>
  changed the collection, the guard that applies the invalidations the operation issued answers from
  caches that agree with the new collection, so a removed member is refused and a new role is seen at
  once.
  Assumed: ids of users hold no colon, the caches were coherent before, and the collection treats its queries as documented.
\<close>

theorem membership_change_reaches_guard:
  assumes "member_laws ops rows" "service_change ops cfg u db db' inval" "plain_id u"
    and "coherent (guard_view ops db) gs" "keys_separated gs"
  shows "coherent (guard_view ops db') (foldl (\<lambda>g v. clearUser v g) gs inval)
    \<and> (\<forall>env t v. ge_db env = guard_view ops db' \<longrightarrow> plain_id v \<longrightarrow>
         fst (findMembershipCached env v t (foldl (\<lambda>g v. clearUser v g) gs inval))
           = map_option member.truncate (List.find (active_of t v) (rows db')))"
proof -
  let ?gs = "foldl (\<lambda>g v. clearUser v g) gs inval"
  have c: "coherent (guard_view ops db') ?gs"
    using change_view [OF assms(1,2)]
  proof (elim disjE conjE)
    assume "inval = []" "guard_view ops db' = guard_view ops db"
    then show ?thesis using assms(4) by simp
  next
    assume "inval = [u]" "same_but_user u (guard_view ops db) (guard_view ops db')"
    then show ?thesis using clearUser_coherent [OF assms(4,5) _ assms(3)] by simp
  qed
  have f: "mo_findOne ops P d = List.find P (rows d)" for P d using assms(1) by (simp add: member_laws_def)
  have "fst (findMembershipCached env v t ?gs) = map_option member.truncate (List.find (active_of t v) (rows db'))"
    if e: "ge_db env = guard_view ops db'" "plain_id v" for env t v
    using lookup_exact [of env ?gs v t] c e by (simp add: guard_view_def f)
  then show ?thesis using c by blast
qed

theorem membership_change_reaches_guard_witness:
  "let db = [demo_member_row ''u1'' ''owner'' ACTIVE, demo_member_row ''u2'' ''owner'' ACTIVE];
       (res, db', inval) = removeMember list_member_ops (Some demo_mt) ''t1'' ''u1'' db
   in coherent (guard_view list_member_ops db') (foldl (\<lambda>g v. clearUser v g) guard_new inval)"
proof -
  let ?db = "[demo_member_row ''u1'' ''owner'' ACTIVE, demo_member_row ''u2'' ''owner'' ACTIVE]"
  obtain res db2 inval where r: "removeMember list_member_ops (Some demo_mt) ''t1'' ''u1'' ?db = (res, db2, inval)"
    using prod_cases3 by blast
  have "service_change list_member_ops (Some demo_mt) ''u1'' ?db db2 inval"
    using r unfolding service_change_def by blast
  then show ?thesis
    using membership_change_reaches_guard [OF list_member_laws, of "Some demo_mt" "''u1''" ?db db2 inval guard_new] r
    by (simp add: plain_id_def Let_def)
qed

text \<open>
  Two concurrent \<open>addMember\<close> calls for the same user both pass the look-up before either writes; no
  unique index stops the second row. Afterwards one \<open>removeMember\<close> suspends only the first of the two,
  so a removed user is still an active member.
\<close>

theorem concurrent_add_survives_removal:
  assumes l: "member_laws ops rows" and absent: "getMembership ops t u db = None"
    and b: "\<not> is_blank t" "\<not> is_blank u"
    and first: "addMember_write ops now t u role inviter (getMembership ops t u db) db = (res1, db1, inval1)"
    and second: "addMember_write ops now' t u role' inviter' (getMembership ops t u db) db1 = (res2, db2, inval2)"
    and removal: "removeMember ops cfg t u db2 = (Inr removed, db3, inval3)"
  shows "\<exists>m. getActiveMembership ops t u db3 = Some m \<and> mb_role m = role'"
proof -
  have cr: "mo_create ops m d = (a, d') \<Longrightarrow> rows d' = rows d @ [m]" for m d a d'
    using l by (simp add: member_laws_def) (metis snd_conv)
  have up: "mo_findOneAndUpdate ops P f d = (a, d') \<Longrightarrow>
      a = map_option f (List.find P (rows d)) \<and> rows d' = update_first P f (rows d)" for P f d a d'
    using l by (simp add: member_laws_def) (metis fst_conv snd_conv)
  let ?m = "\<lambda>n r i. \<lparr>mb_tenant = t, mb_user = u, mb_role = r, mb_status = ACTIVE, mr_invitedBy = i, mr_joinedAt = Some n\<rparr>"
  have none: "List.find (active_of t u) (rows db) = None"
    using absent l by (auto simp: getMembership_def member_laws_def find_None_iff active_of_def)
  have r2: "rows db2 = rows db @ [?m now role inviter, ?m now' role' inviter']"
    using first second absent cr [of "?m now role inviter" db] cr [of "?m now' role' inviter'" db1]
    by (auto simp: addMember_write_def split: prod.splits)
  have r3: "rows db3 = update_first (active_of t u) (\<lambda>r. r\<lparr>mb_status := SUSPENDED\<rparr>) (rows db2)"
    using removal up [of "active_of t u"] by (auto simp: removeMember_def split: if_splits sum.splits prod.splits option.splits)
  have "List.find (active_of t u) (update_first (active_of t u) (\<lambda>r. r\<lparr>mb_status := SUSPENDED\<rparr>)
      (xs @ [?m now role inviter, ?m now' role' inviter'])) = Some (?m now' role' inviter')"
    if "List.find (active_of t u) xs = None" for xs
    using that by (induction xs) (auto simp: active_of_def of_pair_def split: if_splits)
  then show ?thesis using none getActive_find [OF l b, of db3] by (simp add: r3 r2)
qed

theorem concurrent_add_survives_removal_witness:
  "\<exists>m. getActiveMembership list_member_ops ''t1'' ''u1''
     (fst (snd (removeMember list_member_ops (Some demo_mt) ''t1'' ''u1''
        (fst (snd (addMember_write list_member_ops 1 ''t1'' ''u1'' ''member'' None None
          (fst (snd (addMember_write list_member_ops 1 ''t1'' ''u1'' ''member'' None None []))))))))) = Some m"
proof -
  let ?w = "addMember_write list_member_ops 1 ''t1'' ''u1'' ''member'' None (getMembership list_member_ops ''t1'' ''u1'' [])"
  have g: "getMembership list_member_ops ''t1'' ''u1'' [] = None" by (simp add: getMembership_def list_member_ops_def)
  have b: "\<not> is_blank ''t1''" "\<not> is_blank ''u1''" by code_simp+
  obtain r1 d1 i1 where a1: "?w [] = (r1, d1, i1)" using prod_cases3 by blast
  obtain r2 d2 i2 where a2: "?w d1 = (r2, d2, i2)" using prod_cases3 by blast
  obtain r3 d3 i3 where a3: "removeMember list_member_ops (Some demo_mt) ''t1'' ''u1'' d2 = (r3, d3, i3)"
    using prod_cases3 by blast
  have "is_ok (fst (removeMember list_member_ops (Some demo_mt) ''t1'' ''u1''
        (fst (snd (addMember_write list_member_ops 1 ''t1'' ''u1'' ''member'' None None
          (fst (snd (addMember_write list_member_ops 1 ''t1'' ''u1'' ''member'' None None []))))))))" by code_simp
  then have "is_ok r3" using a1 a2 a3 g by simp
  then obtain x where x: "r3 = Inr x" by (auto simp: is_ok_iff)
  show ?thesis
    using concurrent_add_survives_removal [OF list_member_laws g b a1 a2 a3 [unfolded x]] a1 a2 a3 g by auto
qed

end
