(* ===== verification/AuthGuards.thy ===== *)
theory AuthGuards
  imports RateLimiters RequestContext
begin

text \<open>
  Who the caller is, and the role guards in front of every handler:
  \<^item> \<^verbatim>\<open>modules/better-auth/better-auth-token.service.ts\<close> and \<^verbatim>\<open>core-better-auth-user.mapper.ts\<close>: from
    a token or a session to a user with \<^verbatim>\<open>hasRole\<close>;
  \<^item> \<^verbatim>\<open>modules/auth/guards/auth.guard.ts\<close>, \<^verbatim>\<open>roles.guard.ts\<close> and
    \<^verbatim>\<open>modules/better-auth/better-auth-roles.guard.ts\<close>: the decisions of the guards;
  \<^item> \<^verbatim>\<open>modules/auth/guards/legacy-auth-rate-limit.guard.ts\<close>: the rate limit in front of the legacy
    sign-in.

  Passport, the verification of a JWT, the look-up of a session and the user collection are
  parameters. A request is \<open>None\<close> when the context carries none, otherwise its user.
\<close>

subsection \<open>Users\<close>

record auth_user = user +
  au_hasRole :: "(string list \<Rightarrow> bool) option"
  au_viaBetterAuth :: bool

text \<open>The three meanings of \<^verbatim>\<open>hasRole\<close>: the user model, the token service and the session mapper.\<close>

definition core_hasRole :: "string list option \<Rightarrow> string list \<Rightarrow> bool" where
  "core_hasRole own roles =
     (case own of
        None \<Rightarrow> False
      | Some rs \<Rightarrow> if length rs < 1 then False
                   else if length roles < 1 then True else list_ex (\<lambda>role. role \<in> set roles) rs)"

definition token_hasRole :: "string list option \<Rightarrow> string list \<Rightarrow> bool" where
  "token_hasRole own roles =
     (case own of None \<Rightarrow> False | Some userRoles \<Rightarrow> list_ex (\<lambda>role. role \<in> set userRoles) roles)"

definition createHasRole :: "string list \<Rightarrow> bool \<Rightarrow> string list \<Rightarrow> bool" where
  "createHasRole roles verified rolesToCheck =
     (if S_EVERYONE \<in> set rolesToCheck then True
      else if S_USER \<in> set rolesToCheck then True
      else if S_NO_ONE \<in> set rolesToCheck then False
      else if S_VERIFIED \<in> set rolesToCheck then verified
      else list_ex (\<lambda>role. role \<in> set roles) rolesToCheck)"

subsection \<open>The token service\<close>

datatype header_value = HStr string | HArr "string list"

record token_request =
  tr_authorization :: "header_value option"
  tr_Authorization :: "header_value option"
  tr_cookies :: "(string, string) jsmap option"

datatype token_source = FromHeader | FromCookie

datatype jwt_result = JwtPayload "string option" | JwtNothing | JwtError bool

datatype user_query = ById string | ByIamId string | ByEmail string | ByEmailOrIamId string string

record session_user =
  su_email :: "string option"
  su_id :: "string option"
  su_emailVerified :: "bool option"

text \<open>What the service calls: \<open>None\<close> or \<open>Inl\<close> stand for an exception.\<close>

record auth_backend =
  ab_sessionCookieName :: string
  ab_jwtEnabled :: bool
  ab_verifyJwt :: "string \<Rightarrow> jwt_result"
  ab_sessionByToken :: "string \<Rightarrow> unit + session_user option"
  ab_findUser :: "user_query \<Rightarrow> unit + jv option"
  ab_isObjectId :: "string \<Rightarrow> bool"

definition header_truthy :: "header_value option \<Rightarrow> bool" where
  "header_truthy h = (case h of None \<Rightarrow> False | Some (HStr s) \<Rightarrow> s \<noteq> [] | Some (HArr _) \<Rightarrow> True)"

definition header_string :: "header_value option \<Rightarrow> string option" where
  "header_string h =
     (case h of None \<Rightarrow> None | Some (HStr s) \<Rightarrow> Some s
      | Some (HArr xs) \<Rightarrow> (case xs of [] \<Rightarrow> None | x # _ \<Rightarrow> Some x))"

text \<open>\<open>backend\<close> is \<open>None\<close> when Better-Auth is not injected.\<close>

definition extractTokenFromRequest :: "auth_backend option \<Rightarrow> token_request \<Rightarrow> (token_source \<times> string) option" where
  "extractTokenFromRequest backend request =
     (let authHeader = (if header_truthy (tr_authorization request) then tr_authorization request
                        else tr_Authorization request);
          headerValue = header_string authHeader
      in if js_truthy headerValue
            \<and> (js_starts_with (the headerValue) ''Bearer '' \<or> js_starts_with (the headerValue) ''bearer '')
         then Some (FromHeader, drop 7 (the headerValue))
         else (case (tr_cookies request, backend) of
                 (Some cookies, Some b) \<Rightarrow>
                   (let native = map_of cookies (ab_sessionCookieName b);
                        token = (if js_truthy native then native else map_of cookies ''token'')
                    in if js_truthy token then Some (FromCookie, the token) else None)
               | _ \<Rightarrow> None))"

definition jroles :: "jv \<Rightarrow> string list option" where
  "jroles v = (case v of JArr xs \<Rightarrow> Some (List.map_filter (\<lambda>x. case x of JStr s \<Rightarrow> Some s | _ \<Rightarrow> None) xs) | _ \<Rightarrow> None)"

definition jstring :: "jv \<Rightarrow> string" where
  "jstring v = (case v of JStr s \<Rightarrow> s | _ \<Rightarrow> [])"

definition createUserWithHasRole :: "jv \<Rightarrow> auth_user" where
  "createUserWithHasRole doc =
     \<lparr>u_id = (if jtruthy (jget doc ''_id'') then jstring (jget doc ''_id'') else jstring (jget doc ''id'')),
      u_roles = jroles (jget doc ''roles''),
      u_verified = jtruthy (jget doc ''verified''), u_verifiedAt = jtruthy (jget doc ''verifiedAt''),
      u_emailVerified = jtruthy (jget doc ''emailVerified''),
      au_hasRole = Some (token_hasRole (jroles (jget doc ''roles''))), au_viaBetterAuth = True\<rparr>"

text \<open>A look-up that goes on to the next query while it finds nothing; \<open>None\<close> skips a query.\<close>

fun find_first :: "(user_query \<Rightarrow> unit + jv option) \<Rightarrow> user_query option list \<Rightarrow> unit + jv option" where
  "find_first findOne [] = Inr None"
| "find_first findOne (None # qs) = find_first findOne qs"
| "find_first findOne (Some q # qs) =
     then_do (findOne q) (\<lambda>r. case r of Some doc \<Rightarrow> Inr (Some doc) | None \<Rightarrow> find_first findOne qs)"

definition loaded :: "unit + jv option \<Rightarrow> auth_user option" where
  "loaded r = (case r of Inr (Some doc) \<Rightarrow> Some (createUserWithHasRole doc) | _ \<Rightarrow> None)"

definition loadUserFromPayload :: "auth_backend \<Rightarrow> string \<Rightarrow> auth_user option" where
  "loadUserFromPayload b sub =
     loaded (find_first (ab_findUser b) [if ab_isObjectId b sub then Some (ById sub) else None, Some (ByIamId sub)])"

definition loadUserFromSessionResult :: "auth_backend \<Rightarrow> session_user \<Rightarrow> auth_user option" where
  "loadUserFromSessionResult b su =
     loaded (find_first (ab_findUser b)
       [if js_truthy (su_email su) then Some (ByEmail (the (su_email su))) else None,
        if js_truthy (su_id su) then Some (ByIamId (the (su_id su))) else None,
        if js_truthy (su_id su) \<and> ab_isObjectId b (the (su_id su)) then Some (ById (the (su_id su))) else None])"

text \<open>\<open>Inl ()\<close> is the expired token that is thrown again.\<close>

definition verifyAndLoadUser :: "auth_backend option \<Rightarrow> string \<Rightarrow> unit + auth_user option" where
  "verifyAndLoadUser backend token =
     (case backend of
        None \<Rightarrow> Inr None
      | Some b \<Rightarrow>
          (let session =
             (case ab_sessionByToken b token of
                Inr (Some su) \<Rightarrow> loadUserFromSessionResult b su
              | _ \<Rightarrow> None)
           in if ab_jwtEnabled b then
                (case ab_verifyJwt b token of
                   JwtError True \<Rightarrow> Inl ()
                 | JwtPayload sub \<Rightarrow>
                     if js_truthy sub then
                       (case loadUserFromPayload b (the sub) of
                          Some u \<Rightarrow> Inr (Some u)
                        | None \<Rightarrow> Inr session)
                     else Inr session
                 | _ \<Rightarrow> Inr session)
              else Inr session))"

text \<open>The three guards wrap it the same way: every failure is no user.\<close>

definition verifyToken :: "auth_backend option \<Rightarrow> token_request option \<Rightarrow> auth_user option" where
  "verifyToken backend request =
     (case request of
        None \<Rightarrow> None
      | Some rq \<Rightarrow>
          (case extractTokenFromRequest backend rq of
             None \<Rightarrow> None
           | Some (_, token) \<Rightarrow>
               if token = [] then None
               else (case verifyAndLoadUser backend token of Inr r \<Rightarrow> r | Inl _ \<Rightarrow> None)))"

subsection \<open>The session mapper\<close>

definition USER_CACHE_MAX :: nat where "USER_CACHE_MAX = 500"

record cached_user =
  cu_expiresAt :: int
  cu_userId :: string
  cu_userRoles :: "string list"
  cu_verified :: bool

type_synonym user_cache = "(string, cached_user) jsmap"

definition cacheUserData :: "int \<Rightarrow> int \<Rightarrow> string \<Rightarrow> string \<Rightarrow> string list \<Rightarrow> bool \<Rightarrow> user_cache \<Rightarrow> user_cache" where
  "cacheUserData ttl now iamId userId roles verified cache =
     (let evicted = (if length cache \<ge> USER_CACHE_MAX
                     then (case cache of [] \<Rightarrow> [] | (firstKey, _) # _ \<Rightarrow>
                             if firstKey \<noteq> [] then AList.delete firstKey cache else cache)
                     else cache)
      in AList.update iamId \<lparr>cu_expiresAt = now + ttl, cu_userId = userId, cu_userRoles = roles, cu_verified = verified\<rparr>
           evicted)"

definition invalidateUserCache :: "string \<Rightarrow> user_cache \<Rightarrow> user_cache" where
  "invalidateUserCache iamId cache = AList.delete iamId cache"

definition createMappedUser :: "string \<Rightarrow> string list \<Rightarrow> bool option \<Rightarrow> bool option \<Rightarrow> auth_user" where
  "createMappedUser userId roles verified emailVerified =
     \<lparr>u_id = userId, u_roles = Some roles, u_verified = (verified = Some True), u_verifiedAt = False,
      u_emailVerified = (emailVerified = Some True),
      au_hasRole = Some (createHasRole roles (verified = Some True)), au_viaBetterAuth = True\<rparr>"

text \<open>The part after a cache miss.\<close>

definition mapSessionUser_lookup ::
  "int \<Rightarrow> int \<Rightarrow> (user_query \<Rightarrow> unit + jv option) \<Rightarrow> session_user \<Rightarrow> string \<Rightarrow> user_cache \<Rightarrow> auth_user option \<times> user_cache" where
  "mapSessionUser_lookup ttl later findOne su sid cache =
     (case findOne (ByEmailOrIamId (the (su_email su)) sid) of
        Inl _ \<Rightarrow> (None, cache)
      | Inr (Some dbUser) \<Rightarrow>
          (let roles = (case jroles (jget dbUser ''roles'') of Some rs \<Rightarrow> rs | None \<Rightarrow> []);
               verified = (jget dbUser ''verified'' = JBool True \<or> su_emailVerified su = Some True);
               userId = jstring (jget dbUser ''_id'')
           in (Some (createMappedUser userId roles (Some verified) (su_emailVerified su)),
               if ttl > 0 then cacheUserData ttl later sid userId roles verified cache else cache))
      | Inr None \<Rightarrow> (Some (createMappedUser sid [] (su_emailVerified su) (su_emailVerified su)), cache))"

definition mapSessionUser ::
  "int \<Rightarrow> int \<Rightarrow> int \<Rightarrow> (user_query \<Rightarrow> unit + jv option) option \<Rightarrow> session_user \<Rightarrow> user_cache
     \<Rightarrow> auth_user option \<times> user_cache" where
  "mapSessionUser ttl now later findUser su cache =
     (if \<not> js_truthy (su_id su) \<or> \<not> js_truthy (su_email su) then (None, cache)
      else
        (let sid = the (su_id su) in
         case findUser of
           None \<Rightarrow> (Some (createMappedUser sid [] (su_emailVerified su) (su_emailVerified su)), cache)
         | Some findOne \<Rightarrow>
             (case (if ttl > 0 then map_of cache sid else None) of
                Some c \<Rightarrow>
                  if now < cu_expiresAt c
                  then (Some (createMappedUser (cu_userId c) (cu_userRoles c) (Some (cu_verified c)) (su_emailVerified su)), cache)
                  else mapSessionUser_lookup ttl later findOne su sid cache
              | None \<Rightarrow> mapSessionUser_lookup ttl later findOne su sid cache)))"

subsection \<open>The guards\<close>

datatype auth_error =
    AccessDenied | NotAuthenticated | InvalidToken | ExpiredToken | ExpiredRefreshToken
  | UnknownStrategy | PassportFailure string

type_synonym guard_request = "auth_user option option"

definition set_user :: "auth_user option \<Rightarrow> guard_request \<Rightarrow> guard_request" where
  "set_user u request = (case request of None \<Rightarrow> None | Some _ \<Rightarrow> Some u)"

text \<open>What a run of the Passport strategy hands to its callback, or the error it rejects with.\<close>

datatype passport_result = PassportRejects auth_error | PassportCalls bool "auth_user option" bool

text \<open>\<open>AuthGuard\<close>; \<open>handle\<close> is \<^verbatim>\<open>handleRequest\<close> of the guard class: error flag, user, token expired.\<close>

type_synonym handler = "bool \<Rightarrow> auth_user option \<Rightarrow> bool \<Rightarrow> auth_error + auth_user option"

definition authguard_handleRequest :: "bool \<Rightarrow> handler" where
  "authguard_handleRequest refreshStrategy err user expired =
     (if err then Inl InvalidToken
      else (case user of
              None \<Rightarrow> if expired then Inl (if refreshStrategy then ExpiredRefreshToken else ExpiredToken)
                      else Inl InvalidToken
            | Some u \<Rightarrow> Inr (Some u)))"

definition run_handler :: "auth_error + auth_user option \<Rightarrow> guard_request \<Rightarrow> (auth_error + unit) \<times> guard_request" where
  "run_handler r request = (case r of Inl e \<Rightarrow> (Inl e, request) | Inr u \<Rightarrow> (Inr (), set_user u request))"

definition authguard_canActivate ::
  "handler \<Rightarrow> (bool \<times> auth_user option) option \<Rightarrow> bool \<Rightarrow> passport_result \<Rightarrow> guard_request
     \<Rightarrow> (auth_error + unit) \<times> guard_request" where
  "authguard_canActivate handle betterAuthStrategy subscription passport request =
     (if subscription then (Inr (), request)
      else
        (let existingUser = (case request of None \<Rightarrow> None | Some u \<Rightarrow> u)
         in if (case existingUser of Some u \<Rightarrow> au_viaBetterAuth u | None \<Rightarrow> False)
            then run_handler (handle False existingUser False) request
            else (case betterAuthStrategy of
                    Some (enabled, verified) \<Rightarrow>
                      if \<not> enabled then (Inl InvalidToken, request)
                      else (case verified of
                              None \<Rightarrow> (Inl InvalidToken, request)
                            | Some u \<Rightarrow> run_handler (handle False (Some u) False) request)
                  | None \<Rightarrow>
                      (case passport of
                         PassportRejects e \<Rightarrow> (Inl e, request)
                       | PassportCalls err u expired \<Rightarrow> run_handler (handle err u expired) request))))"

text \<open>\<open>RolesGuard\<close>\<close>

definition user_hasRole :: "auth_user option \<Rightarrow> string list \<Rightarrow> bool" where
  "user_hasRole user roles =
     (case user of None \<Rightarrow> False | Some u \<Rightarrow> (case au_hasRole u of None \<Rightarrow> False | Some f \<Rightarrow> f roles))"

definition some_role :: "string list \<Rightarrow> bool" where
  "some_role roles = list_ex (\<lambda>value. value \<noteq> []) roles"

definition roles_handleRequest :: "mt_config option \<Rightarrow> string list \<Rightarrow> handler" where
  "roles_handleRequest cfg roles err user expired =
     (if S_NO_ONE \<in> set roles then Inl AccessDenied
      else if \<not> some_role roles then Inr user
      else if \<not> user_hasRole user roles then
        (if (user \<noteq> None \<and> S_USER \<in> set roles) \<or> S_EVERYONE \<in> set roles then Inr user
         else if user \<noteq> None \<and> isMultiTenancyActive cfg \<and> list_ex (\<lambda>r. \<not> isSystemRole r) roles then Inr user
         else if user = None then
           (if err then Inl InvalidToken else if expired then Inl ExpiredToken else Inl NotAuthenticated)
         else Inl AccessDenied)
      else Inr user)"

text \<open>A call of \<open>handleRequest\<close> whose result is dropped, the user having been set before.\<close>

definition check_roles :: "auth_error + auth_user option \<Rightarrow> guard_request \<Rightarrow> (auth_error + unit) \<times> guard_request" where
  "check_roles r request = (case r of Inl e \<Rightarrow> (Inl e, request) | Inr _ \<Rightarrow> (Inr (), request))"

definition roles_guard_canActivate ::
  "mt_config option \<Rightarrow> handler_ctx \<Rightarrow> bool \<Rightarrow> auth_user option \<Rightarrow> auth_user option \<Rightarrow> bool \<Rightarrow> passport_result
     \<Rightarrow> guard_request \<Rightarrow> (auth_error + unit) \<times> guard_request" where
  "roles_guard_canActivate cfg hx betterAuthEnabled verified verifiedAgain subscription passport request =
     (let roles = mergeRolesMetadata (hx_handlerRoles hx) (hx_classRoles hx);
          handle = roles_handleRequest cfg roles;
          existingUser = (case request of None \<Rightarrow> None | Some u \<Rightarrow> u)
      in if S_NO_ONE \<in> set roles then (Inl AccessDenied, request)
         else if \<not> some_role roles \<or> S_EVERYONE \<in> set roles then (Inr (), request)
         else if (case existingUser of Some u \<Rightarrow> au_viaBetterAuth u | None \<Rightarrow> False)
         then check_roles (handle False existingUser False) request
         else if betterAuthEnabled \<and> verified \<noteq> None
         then check_roles (handle False verified False) (set_user verified request)
         else (case authguard_canActivate handle None subscription passport request of
                 (Inr _, request') \<Rightarrow> (Inr (), request')
               | (Inl passportError, request') \<Rightarrow>
                   if betterAuthEnabled then
                     (if passportError = UnknownStrategy then (Inl InvalidToken, request')
                      else if verifiedAgain \<noteq> None
                      then check_roles (handle False verifiedAgain False) (set_user verifiedAgain request')
                      else (Inl passportError, request'))
                   else (Inl passportError, request')))"

text \<open>\<open>BetterAuthRolesGuard\<close>\<close>

definition ba_guard_canActivate ::
  "mt_config option \<Rightarrow> handler_ctx \<Rightarrow> auth_user option \<Rightarrow> string option \<Rightarrow> guard_request
     \<Rightarrow> (auth_error + unit) \<times> guard_request" where
  "ba_guard_canActivate cfg hx verified targetId request =
     (let roles = mergeRolesMetadata (hx_handlerRoles hx) (hx_classRoles hx)
      in if S_NO_ONE \<in> set roles then (Inl AccessDenied, request)
         else if \<not> some_role roles \<or> S_EVERYONE \<in> set roles then (Inr (), request)
         else
           (let existing = (case request of None \<Rightarrow> None | Some u \<Rightarrow> u);
                user = (if existing = None then verified else existing);
                request' = (if existing = None \<and> verified \<noteq> None then set_user verified request else request)
            in case user of
                 None \<Rightarrow> (Inl NotAuthenticated, request')
               | Some u \<Rightarrow>
                   if S_USER \<in> set roles then (Inr (), request')
                   else if isMultiTenancyActive cfg \<and> list_ex (\<lambda>r. \<not> isSystemRole r) roles then (Inr (), request')
                   else if S_SELF \<in> set roles \<and> js_truthy targetId \<and> u_id u = the targetId then (Inr (), request')
                   else if S_VERIFIED \<in> set roles then
                     (if \<not> is_verified (user.truncate u) then (Inl AccessDenied, request') else (Inr (), request'))
                   else if user_hasRole user roles then (Inr (), request')
                   else if (case u_roles u of Some rs \<Rightarrow> list_ex (\<lambda>role. role \<in> set rs) roles | None \<Rightarrow> False)
                   then (Inr (), request')
                   else (Inl AccessDenied, request')))"

text \<open>The object id for \<open>S_SELF\<close>: the GraphQL argument, else the route parameter.\<close>

definition getTargetId :: "string option \<Rightarrow> string option \<Rightarrow> string option" where
  "getTargetId argsId paramsId =
     (if js_truthy argsId then argsId else if js_truthy paramsId then paramsId else None)"

subsection \<open>The legacy rate-limit guard\<close>

datatype exec_ctx =
    GraphqlCtx "string option" "string option" "string option"
  | HttpCtx "string option" "string option" "string option" "string option"

definition first_truthy :: "string option list \<Rightarrow> string \<Rightarrow> string" where
  "first_truthy vs d = (case filter js_truthy vs of [] \<Rightarrow> d | v # _ \<Rightarrow> the v)"

text \<open>The field name or URL, the path, and the two addresses of the request.\<close>

definition extractRequestInfo :: "exec_ctx \<Rightarrow> string \<times> string" where
  "extractRequestInfo ctx =
     (case ctx of
        GraphqlCtx fieldName ip remote \<Rightarrow> (first_truthy [fieldName] ''unknown'', first_truthy [ip, remote] ''unknown'')
      | HttpCtx url path ip remote \<Rightarrow>
          (first_truthy [Some (last (js_split (CHR ''/'') (first_truthy [url, path] [])))] ''unknown'',
           first_truthy [ip, remote] ''unknown''))"

definition legacy_guard_canActivate ::
  "'r redis_env \<Rightarrow> exec_ctx \<Rightarrow> int \<Rightarrow> legacy_limiter \<times> 'r \<Rightarrow> (rl_result + unit) \<times> legacy_limiter \<times> 'r" where
  "legacy_guard_canActivate env ctx now Lr =
     (if \<not> lg_enabled (ll_config (fst Lr)) then (Inr (), Lr)
      else (let (endpoint, ip) = extractRequestInfo ctx;
                (result, Lr') = legacy_check env ip endpoint now Lr
            in if \<not> res_allowed result then (Inl result, Lr') else (Inr (), Lr')))"

subsection \<open>Lemmas\<close>

text \<open>The user of a token comes from the collection.\<close>

lemma find_first_found:
  "find_first findOne qs = Inr (Some doc) \<Longrightarrow> \<exists>q. Some q \<in> set qs \<and> findOne q = Inr (Some doc)"
proof (induction qs)
  case (Cons x qs)
  show ?case
  proof (cases x)
    case None
    then show ?thesis using Cons by auto
  next
    case (Some q)
    then obtain a where a: "findOne q = Inr a" using Cons.prems by (auto simp: then_do_Inr)
    show ?thesis
    proof (cases a)
      case None
      then show ?thesis using Cons Some a by auto
    next
      case (Some d)
      then show ?thesis using Cons.prems \<open>x = Some q\<close> a by auto
    qed
  qed
qed simp

lemma loaded_found: "loaded (find_first findOne qs) = Some u \<Longrightarrow>
    \<exists>q doc. Some q \<in> set qs \<and> findOne q = Inr (Some doc) \<and> u = createUserWithHasRole doc"
  using find_first_found by (fastforce simp: loaded_def split: sum.splits option.splits)

text \<open>The two meanings of \<open>hasRole\<close> a Better-Auth user can have agree on ordinary roles.\<close>

definition ba_hasRole :: "auth_user \<Rightarrow> bool" where
  "ba_hasRole u \<longleftrightarrow> au_hasRole u = Some (token_hasRole (u_roles u))
     \<or> (\<exists>rs v. u_roles u = Some rs \<and> au_hasRole u = Some (createHasRole rs v))"

lemma ba_hasRole_ordinary:
  assumes "ba_hasRole u" "S_EVERYONE \<notin> set roles" "S_USER \<notin> set roles" "S_NO_ONE \<notin> set roles" "S_VERIFIED \<notin> set roles"
  shows "user_hasRole (Some u) roles \<longleftrightarrow> token_hasRole (u_roles u) roles"
  using assms by (auto simp: ba_hasRole_def user_hasRole_def createHasRole_def token_hasRole_def)

lemma last_split_tail: "c \<notin> set q \<Longrightarrow> last (js_split c (p @ c # q)) = q"
proof (induction p)
  case Nil
  have "js_split c q = [q]" using Nil.prems by (induction q) auto
  then show ?case by simp
next
  case (Cons x p)
  obtain w ws where w: "js_split c (p @ c # q) = w # ws" by (cases "js_split c (p @ c # q)") auto
  have "ws \<noteq> []"
  proof
    assume e: "ws = []"
    have "length (js_split c (p @ c # q)) \<ge> 2"
      by (induction p) (auto simp: Suc_le_eq split: list.splits)
    then show False using w e by simp
  qed
  then show ?case using Cons w by auto
qed

lemma mem_hit_absent_room:
  "map_of (ms_store m) key = None \<Longrightarrow> length (ms_store m) < ms_maxEntries m \<Longrightarrow> mem_hit key w t m = mem_start key w t m"
  by (simp add: mem_hit_def)

text \<open>A series of requests through the legacy guard: which are let through.\<close>

fun legacy_guard_run :: "'r redis_env \<Rightarrow> (exec_ctx \<times> int) list \<Rightarrow> legacy_limiter \<times> 'r \<Rightarrow> bool list" where
  "legacy_guard_run env [] Lr = []"
| "legacy_guard_run env ((ctx, t) # evs) Lr =
     (let (res, Lr') = legacy_guard_canActivate env ctx t Lr in is_ok res # legacy_guard_run env evs Lr')"

definition signin_with_query :: "string \<Rightarrow> string \<Rightarrow> exec_ctx" where
  "signin_with_query ip q = HttpCtx (Some (''/auth/signin?'' @ q)) None (Some ip) None"

lemma signin_info:
  assumes "CHR ''/'' \<notin> set q" "ip \<noteq> []"
  shows "extractRequestInfo (signin_with_query ip q) = (''signin?'' @ q, ip)"
proof -
  have "last (js_split (CHR ''/'') (''/auth'' @ CHR ''/'' # (''signin?'' @ q))) = ''signin?'' @ q"
    by (rule last_split_tail) (use assms in simp)
  then show ?thesis using assms by (simp add: extractRequestInfo_def signin_with_query_def first_truthy_def)
qed

lemma fresh_queries_allowed:
  assumes "lg_enabled (ll_config L)" "1 \<le> lg_max (ll_config L)" "ll_store L = Some (MemStore m)" "ip \<noteq> []"
    and "distinct (map fst qs)" "\<forall>q \<in> set qs. CHR ''/'' \<notin> set (fst q)"
    and "length qs + length (ms_store m) \<le> ms_maxEntries m"
    and "\<forall>q \<in> set qs. map_of (ms_store m) (rateLimitKey [ip, ''signin?'' @ fst q]) = None"
  shows "list_all (\<lambda>b. b) (legacy_guard_run env (map (\<lambda>q. (signin_with_query ip (fst q), snd q)) qs) (L, r))"
  using assms
proof (induction qs arbitrary: L m)
  case (Cons q qs)
  let ?key = "rateLimitKey [ip, ''signin?'' @ fst q]"
  let ?w = "lg_windowSeconds (ll_config L)"
  have h: "mem_hit ?key ?w (snd q) m = mem_start ?key ?w (snd q) m"
    using mem_hit_absent_room [of m ?key] Cons.prems(7,8) by simp
  define m' where "m' = snd (mem_start ?key ?w (snd q) m)"
  have m': "ms_store m' = AList.update ?key \<lparr>rl_count = 1, rl_reset = snd q + ?w * 1000\<rparr> (ms_store m)"
    "ms_maxEntries m' = ms_maxEntries m" by (simp_all add: m'_def mem_start_def)
  have step: "legacy_guard_canActivate env (signin_with_query ip (fst q)) (snd q) (L, r)
      = (Inr (), (L\<lparr>ll_store := Some (MemStore m')\<rparr>, r))"
    using Cons.prems(1-4,6) signin_info [of "fst q" ip] h
    by (simp add: legacy_guard_canActivate_def legacy_check_def legacy_getStore_def store_hit_def Let_def
        m'_def mem_start_def limit_result_def)
  have other: "rateLimitKey [ip, ''signin?'' @ fst q'] \<noteq> ?key" if "q' \<in> set qs" for q'
  proof
    assume "rateLimitKey [ip, ''signin?'' @ fst q'] = ?key"
    then have "fst q' = fst q" using rateLimitKey_inj [of "[ip, ''signin?'' @ fst q']" "[ip, ''signin?'' @ fst q]"] by simp
    then show False using Cons.prems(5) that by (metis distinct.simps(2) image_eqI list.set_map list.simps(9))
  qed
  have "list_all (\<lambda>b. b) (legacy_guard_run env (map (\<lambda>q. (signin_with_query ip (fst q), snd q)) qs)
      (L\<lparr>ll_store := Some (MemStore m')\<rparr>, r))"
    by (rule Cons.IH [where m = m'])
      (use Cons.prems m' other in \<open>simp_all add: map_of_update_eq length_alist_update\<close>)
  then show ?case using step by simp
qed simp

subsection \<open>Properties\<close>

text \<open>
  The two role guards decide alike for a user the Better-Auth middleware attached: on a handler
  whose roles do not name \<open>S_SELF\<close> or \<open>S_VERIFIED\<close> they give the same answer and the same error, and
  neither lets a request without a user through a handler that names a role and not \<open>S_EVERYONE\<close>.
\<close>

theorem role_guards_agree:
  assumes "au_viaBetterAuth u" "ba_hasRole u"
    and "roles = mergeRolesMetadata (hx_handlerRoles hx) (hx_classRoles hx)"
    and "S_SELF \<notin> set roles" "S_VERIFIED \<notin> set roles"
  shows "fst (roles_guard_canActivate cfg hx enabled v1 v2 sub passport (Some (Some u)))
      = fst (ba_guard_canActivate cfg hx v1 target (Some (Some u)))
    \<and> (some_role roles \<longrightarrow> S_EVERYONE \<notin> set roles \<longrightarrow>
         fst (ba_guard_canActivate cfg hx None target request) = Inr () \<longrightarrow> (\<exists>usr. request = Some (Some usr)))"
proof -
  have a: "fst (roles_guard_canActivate cfg hx enabled v1 v2 sub passport (Some (Some u)))
      = fst (ba_guard_canActivate cfg hx v1 target (Some (Some u)))"
  proof (cases "S_NO_ONE \<in> set roles \<or> \<not> some_role roles \<or> S_EVERYONE \<in> set roles")
    case True
    then show ?thesis
      by (auto simp: roles_guard_canActivate_def ba_guard_canActivate_def assms(3) [symmetric] Let_def)
  next
    case False
    show ?thesis
    proof (cases "S_USER \<in> set roles")
      case True
      then show ?thesis using False assms(1)
        by (simp add: roles_guard_canActivate_def ba_guard_canActivate_def assms(3) [symmetric] Let_def
            check_roles_def roles_handleRequest_def)
    next
      case nu: False
      have h: "user_hasRole (Some u) roles = token_hasRole (u_roles u) roles"
        using ba_hasRole_ordinary [OF assms(2)] False nu assms(5) by blast
      have t: "(case u_roles u of None \<Rightarrow> False | Some rs \<Rightarrow> list_ex (\<lambda>role. role \<in> set rs) roles) = token_hasRole (u_roles u) roles"
        by (simp add: token_hasRole_def)
      show ?thesis using False nu assms(1,4,5)
        by (simp add: roles_guard_canActivate_def ba_guard_canActivate_def assms(3) [symmetric] Let_def
            check_roles_def roles_handleRequest_def h t)
    qed
  qed
  have b: "\<exists>usr. request = Some (Some usr)"
    if "some_role roles" "S_EVERYONE \<notin> set roles" "fst (ba_guard_canActivate cfg hx None target request) = Inr ()"
    using that by (auto simp: ba_guard_canActivate_def assms(3) [symmetric] Let_def split: option.splits if_splits)
  show ?thesis using a b by blast
qed

definition demo_auth_user :: auth_user where
  "demo_auth_user = createUserWithHasRole (JObj [(''_id'', JStr ''u1''), (''roles'', JArr [JStr ''editor'']), (''verified'', JBool True)])"

theorem role_guards_agree_witness:
  "fst (roles_guard_canActivate None (demo_hx [''editor'']) True None None False (PassportRejects UnknownStrategy) (Some (Some demo_auth_user)))
     = Inr ()"
proof -
  have u: "au_viaBetterAuth demo_auth_user" "ba_hasRole demo_auth_user"
    by (simp_all add: demo_auth_user_def createUserWithHasRole_def ba_hasRole_def)
  have b: "fst (ba_guard_canActivate None (demo_hx [''editor'']) None None (Some (Some demo_auth_user))) = Inr ()" by code_simp
  have "fst (roles_guard_canActivate None (demo_hx [''editor'']) True None None False (PassportRejects UnknownStrategy) (Some (Some demo_auth_user)))
      = fst (ba_guard_canActivate None (demo_hx [''editor'']) None None (Some (Some demo_auth_user)))"
    by (rule role_guards_agree [OF u refl, THEN conjunct1])
      (simp_all add: demo_hx_def mergeRolesMetadata_def role_names)
  then show ?thesis using b by simp
qed

text \<open>
  A token yields only a stored user: whatever the token, a user the token service returns is the
  document one of its queries found, with that document's identity, and has a role exactly when
  the document's \<open>roles\<close> array holds it; an unreadable or expired token, a failing backend and an
  unknown user all yield no user to the guards.
\<close>

theorem token_user_is_stored:
  "case verifyToken backend request of
     Some u \<Rightarrow> (\<exists>b q doc. backend = Some b \<and> ab_findUser b q = Inr (Some doc) \<and> u = createUserWithHasRole doc
        \<and> (\<forall>roles. user_hasRole (Some u) roles \<longleftrightarrow>
             (\<exists>rs. jroles (jget doc ''roles'') = Some rs \<and> (\<exists>r \<in> set roles. r \<in> set rs))))
   | None \<Rightarrow> True"
proof (cases "verifyToken backend request")
  case (Some u)
  obtain rq src token where t: "request = Some rq" "extractTokenFromRequest backend rq = Some (src, token)"
    and v: "verifyAndLoadUser backend token = Inr (Some u)"
    using Some by (auto simp: verifyToken_def split: option.splits if_splits sum.splits)
  obtain b where b: "backend = Some b" using v by (auto simp: verifyAndLoadUser_def split: option.splits)
  define session where "session = (case ab_sessionByToken b token of Inr (Some su) \<Rightarrow> loadUserFromSessionResult b su | _ \<Rightarrow> None)"
  have "session = Some u \<or> (\<exists>sub. loadUserFromPayload b sub = Some u)"
    using v unfolding verifyAndLoadUser_def b session_def [symmetric]
    by (auto simp: Let_def session_def [symmetric] split: if_splits jwt_result.splits bool.splits option.splits)
  then obtain qs where "loaded (find_first (ab_findUser b) qs) = Some u"
    by (auto simp: session_def loadUserFromPayload_def loadUserFromSessionResult_def split: sum.splits option.splits)
  then obtain q doc where d: "ab_findUser b q = Inr (Some doc)" "u = createUserWithHasRole doc"
    using loaded_found by blast
  have r: "\<forall>roles. user_hasRole (Some u) roles \<longleftrightarrow>
      (\<exists>rs. jroles (jget doc ''roles'') = Some rs \<and> (\<exists>r \<in> set roles. r \<in> set rs))"
    by (auto simp: d(2) user_hasRole_def createUserWithHasRole_def token_hasRole_def list_ex_iff split: option.splits)
  show ?thesis unfolding Some option.case using b d r by blast
qed simp

text \<open>
  Where the guards differ. On a handler whose only role is \<open>S_VERIFIED\<close>, \<open>RolesGuard\<close> refuses a
  verified user whose \<open>hasRole\<close> comes from the token service and lets the same user through when the
  session mapper made it, while \<open>BetterAuthRolesGuard\<close> lets both through; and for a subscription whose
  context carries no Better-Auth user, \<open>RolesGuard\<close> without Better-Auth lets everyone through, signed in
  or not, whatever roles the handler names.
\<close>

theorem role_guard_gaps:
  assumes "isMultiTenancyActive cfg = False"
    and "mergeRolesMetadata (hx_handlerRoles hx) (hx_classRoles hx) = [S_VERIFIED]"
    and "au_viaBetterAuth u" "au_hasRole u = Some (token_hasRole (Some rs))" "S_VERIFIED \<notin> set rs" "u_verified u"
    and "S_NO_ONE \<notin> set (mergeRolesMetadata (hx_handlerRoles hx') (hx_classRoles hx'))"
    and "\<forall>usr. request = Some (Some usr) \<longrightarrow> \<not> au_viaBetterAuth usr"
  shows "fst (roles_guard_canActivate cfg hx enabled v1 v2 sub passport (Some (Some u))) = Inl AccessDenied
    \<and> fst (roles_guard_canActivate cfg hx enabled v1 v2 sub passport
            (Some (Some (u\<lparr>au_hasRole := Some (createHasRole rs True)\<rparr>)))) = Inr ()
    \<and> fst (ba_guard_canActivate cfg hx v1 target (Some (Some u))) = Inr ()
    \<and> roles_guard_canActivate cfg' hx' False v1' v2' True passport' request = (Inr (), request)"
proof -
  have n: "S_VERIFIED \<noteq> S_NO_ONE" "S_VERIFIED \<noteq> S_EVERYONE" "S_VERIFIED \<noteq> S_USER" "S_VERIFIED \<noteq> S_SELF" "S_VERIFIED \<noteq> []"
    by (simp_all add: role_names)
  have s: "\<not> (case (case request of None \<Rightarrow> None | Some u \<Rightarrow> u) of Some u \<Rightarrow> au_viaBetterAuth u | None \<Rightarrow> False)"
    using assms(8) by (cases request) (auto split: option.splits)
  have d: "roles_guard_canActivate cfg' hx' False v1' v2' True passport' request = (Inr (), request)"
    using assms(7) s by (simp add: roles_guard_canActivate_def authguard_canActivate_def Let_def)
  show ?thesis
    using assms(1-6) n d
    by (auto simp: roles_guard_canActivate_def ba_guard_canActivate_def check_roles_def roles_handleRequest_def some_role_def
        user_hasRole_def token_hasRole_def createHasRole_def is_verified_def user.truncate_def)
qed

theorem role_guard_gaps_witness:
  "fst (roles_guard_canActivate None (demo_hx [S_VERIFIED]) True None None False (PassportRejects UnknownStrategy) (Some (Some demo_auth_user)))
     = Inl AccessDenied
   \<and> roles_guard_canActivate None (demo_hx [ADMIN]) False None None True (PassportRejects UnknownStrategy) None = (Inr (), None)"
proof -
  have m: "isMultiTenancyActive None = False" by code_simp
  have r: "mergeRolesMetadata (hx_handlerRoles (demo_hx [S_VERIFIED])) (hx_classRoles (demo_hx [S_VERIFIED])) = [S_VERIFIED]"
    by (simp add: demo_hx_def mergeRolesMetadata_def)
  have u: "au_viaBetterAuth demo_auth_user" "au_hasRole demo_auth_user = Some (token_hasRole (Some [''editor'']))"
    "S_VERIFIED \<notin> set [''editor'']" "u_verified demo_auth_user"
    by (simp_all add: demo_auth_user_def createUserWithHasRole_def jroles_def List.map_filter_def jtruthy_def role_names)
  have n: "S_NO_ONE \<notin> set (mergeRolesMetadata (hx_handlerRoles (demo_hx [ADMIN])) (hx_classRoles (demo_hx [ADMIN])))"
    by (simp add: demo_hx_def mergeRolesMetadata_def role_names)
  show ?thesis
    using role_guard_gaps [OF m r u n, of None True None None False "PassportRejects UnknownStrategy"] by simp
qed

text \<open>
  The query string evades the legacy limit: the guard takes the last path segment of the URL with its
  query as the endpoint, so sign-in requests of one address whose queries differ pairwise all pass,
  however small the limit and however many there are, while the store has room; the Better-Auth
  limiter gives all of them one counter.
\<close>

theorem query_string_evades_limit:
  assumes "lg_enabled (ll_config L)" "1 \<le> lg_max (ll_config L)" "ll_store L = Some (MemStore m)" "ip \<noteq> []"
    and "distinct (map fst qs)" "\<forall>q \<in> set qs. CHR ''/'' \<notin> set (fst q)"
    and "length qs + length (ms_store m) \<le> ms_maxEntries m"
    and "\<forall>q \<in> set qs. map_of (ms_store m) (rateLimitKey [ip, ''signin?'' @ fst q]) = None"
  shows "list_all (\<lambda>b. b) (legacy_guard_run env (map (\<lambda>q. (signin_with_query ip (fst q), snd q)) qs) (L, r))
    \<and> (\<forall>q q'. ba_getKey ip (''/iam/sign-in/email?'' @ q) = ba_getKey ip (''/iam/sign-in/email?'' @ q'))"
proof -
  have "hd (js_split (CHR ''?'') (''/iam/sign-in/email'' @ CHR ''?'' # q)) = ''/iam/sign-in/email''" for q
    by (simp split: list.splits)
  then have "ba_normalizeEndpoint (''/iam/sign-in/email?'' @ q) = ba_normalizeEndpoint ''/iam/sign-in/email?''" for q
    unfolding ba_normalizeEndpoint_def by simp
  then show ?thesis using fresh_queries_allowed [OF assms] unfolding ba_getKey_def by metis
qed

definition demo_legacy_limiter :: legacy_limiter where
  "demo_legacy_limiter = \<lparr>ll_config = LEGACY_DEFAULT_CONFIG\<lparr>lg_enabled := True, lg_max := 1\<rparr>, ll_store = Some (MemStore (mem_new 10000))\<rparr>"

theorem query_string_evades_limit_witness:
  "list_all (\<lambda>b. b) (legacy_guard_run demo_redis_env [(signin_with_query ''1.2.3.4'' ''a'', 0), (signin_with_query ''1.2.3.4'' ''b'', 1)]
     (demo_legacy_limiter, Map.empty))"
  using query_string_evades_limit [of demo_legacy_limiter "mem_new 10000" "''1.2.3.4''" "[(''a'', 0), (''b'', 1)]" demo_redis_env Map.empty]
  by (simp add: demo_legacy_limiter_def mem_new_def)

end
