(* ===== verification/JsHeap.thy ===== *)
theory JsHeap
  imports RequestContext
begin

text \<open>
  Objects that are shared and changed in place, and the identifiers of documents:
  \<^item> \<open>val\<close> and \<open>hobj\<close>: JavaScript values with references into a heap of objects;
  \<^item> \<^verbatim>\<open>common/helpers/id.helper.ts\<close>: the string of an id, of a list of ids, comparison, inclusion.

  A heap is a list of objects, an address its index. An object has the class whose constructor it
  inherits, its own enumerable properties in the order of \<^verbatim>\<open>Object.keys\<close>, and the properties that are
  only read (getters of the class, hidden properties). Objects of the BSON library
  and Buffers are opaque values with the string they stand for. Reading a chain of ids follows
  references; a chain longer than the stack of the runtime ends in \<open>RangeError\<close>.
\<close>

subsection \<open>Values and the heap\<close>

datatype val =
    VUndef | VNull | VBool bool | VNum int | VStr string
  | VBuf string        \<comment> \<open>a Buffer\<close>
  | VOid string        \<comment> \<open>an ObjectId, by its hexadecimal string\<close>
  | VCls string        \<comment> \<open>a class\<close>
  | VFun               \<comment> \<open>any other function\<close>
  | VRef nat

record hobj =
  ho_class :: string
  ho_elems :: "val list option"
  ho_own :: "(string, val) jsmap"
  ho_inherited :: "(string, val) jsmap"
  ho_marked :: bool

type_synonym heap = "hobj list"

datatype js_error =
    RangeError string
  | TypeError
  | BSONError
  | Forbidden
  | Unauthorized

definition hget :: "heap \<Rightarrow> nat \<Rightarrow> hobj option" where
  "hget h a = (if a < length h then Some (h ! a) else None)"

definition truthy :: "val \<Rightarrow> bool" where
  "truthy v = (case v of VUndef \<Rightarrow> False | VNull \<Rightarrow> False | VBool b \<Rightarrow> b | VNum n \<Rightarrow> n \<noteq> 0 | VStr s \<Rightarrow> s \<noteq> [] | _ \<Rightarrow> True)"

text \<open>\<^verbatim>\<open>o.k\<close>, \<^verbatim>\<open>k in o\<close>, and \<^verbatim>\<open>v?.k\<close> for a value.\<close>

definition oprop :: "hobj \<Rightarrow> string \<Rightarrow> val" where
  "oprop ob k = (case map_of (ho_own ob) k of Some v \<Rightarrow> v
     | None \<Rightarrow> (case map_of (ho_inherited ob) k of Some v \<Rightarrow> v | None \<Rightarrow> VUndef))"

definition ohas :: "hobj \<Rightarrow> string \<Rightarrow> bool" where
  "ohas ob k = (map_of (ho_own ob) k \<noteq> None \<or> map_of (ho_inherited ob) k \<noteq> None \<or> k \<in> set object_prototype)"

definition vprop :: "heap \<Rightarrow> val \<Rightarrow> string \<Rightarrow> val" where
  "vprop h v k = (case v of VRef a \<Rightarrow> (case hget h a of Some ob \<Rightarrow> oprop ob k | None \<Rightarrow> VUndef) | _ \<Rightarrow> VUndef)"

definition elems_of :: "heap \<Rightarrow> val \<Rightarrow> val list option" where
  "elems_of h v = (case v of VRef a \<Rightarrow> (case hget h a of Some ob \<Rightarrow> ho_elems ob | None \<Rightarrow> None) | _ \<Rightarrow> None)"

text \<open>
  What the runtime answers: \<^verbatim>\<open>toString()\<close>, \<^verbatim>\<open>toHexString()\<close> of an id object of another BSON copy, the
  ObjectId of a string, and the frames left for nested ids.
\<close>

record js_runtime =
  rt_toString :: "hobj \<Rightarrow> string"
  rt_funString :: "val \<Rightarrow> string"
  rt_toHexString :: "hobj \<Rightarrow> string"
  rt_ObjectId :: "string \<Rightarrow> string option"
  rt_stack :: nat

subsection \<open>id.helper\<close>

text \<open>\<open>element.toString()\<close> at the end of \<open>getStringId\<close>; a property of that name hides the method.\<close>

definition object_toString :: "js_runtime \<Rightarrow> hobj \<Rightarrow> val" where
  "object_toString rt ob =
     (if map_of (ho_own ob) ''toString'' \<noteq> None \<or> map_of (ho_inherited ob) ''toString'' \<noteq> None
      then (case oprop ob ''toString'' of
          VFun \<Rightarrow> VStr (rt_toString rt ob) | VCls _ \<Rightarrow> VStr (rt_toString rt ob) | _ \<Rightarrow> VUndef)
      else VStr (rt_toString rt ob))"

text \<open>
  \<open>getStringId\<close> of an object, with the function itself for the ids it finds in it.
\<close>

definition objectStringId :: "js_runtime \<Rightarrow> (val \<Rightarrow> js_error + val) \<Rightarrow> hobj \<Rightarrow> js_error + val" where
  "objectStringId rt rec ob =
     (if truthy (oprop ob ''id'')
      then (case oprop ob ''id'' of
          VBuf s \<Rightarrow> if truthy (oprop ob ''toHexString'')
                    then (case oprop ob ''toHexString'' of
                        VFun \<Rightarrow> Inr (VStr (rt_toHexString rt ob)) | _ \<Rightarrow> Inl TypeError)
                    else rec (VBuf s)
        | v \<Rightarrow> rec v)
      else if truthy (oprop ob ''_id'') then rec (oprop ob ''_id'')
      else Inr (object_toString rt ob))"

fun getStringId :: "js_runtime \<Rightarrow> heap \<Rightarrow> nat \<Rightarrow> val \<Rightarrow> js_error + val" where
  "getStringId rt h 0 v = Inl (RangeError ''getStringId'')"
| "getStringId rt h (Suc n) v =
     (if \<not> truthy v then Inr v
      else case v of
          VBuf s \<Rightarrow> Inr (VStr s)
        | VStr s \<Rightarrow> Inr (VStr s)
        | VOid s \<Rightarrow> Inr (VStr s)
        | VRef a \<Rightarrow> (case hget h a of Some ob \<Rightarrow> objectStringId rt (getStringId rt h n) ob | None \<Rightarrow> Inr VUndef)
        | VNum i \<Rightarrow> Inr (VStr (show_int i))
        | VBool b \<Rightarrow> Inr (VStr ''true'')
        | _ \<Rightarrow> Inr (VStr (rt_funString rt v)))"

text \<open>
  The arguments of the id functions: a value, a list the caller built, or an object that is not part
  of the heap (the requesting user). The result of \<open>getStringIds\<close> is one id or a new list of ids.
\<close>

datatype element = EVal val | EList "val list" | EObj hobj

datatype string_ids = OneId val | IdList "val list"

fun js_uniq :: "'a list \<Rightarrow> 'a list" where
  "js_uniq [] = []"
| "js_uniq (x # xs) = x # filter (\<lambda>y. y \<noteq> x) (js_uniq xs)"

text \<open>The loop of \<open>getStringIds\<close> over an array; \<open>deep\<close> flattens nested arrays.\<close>

fun list_string_ids :: "js_runtime \<Rightarrow> heap \<Rightarrow> nat \<Rightarrow> bool \<Rightarrow> val list \<Rightarrow> js_error + val list" where
  "list_string_ids rt h n deep [] = Inr []"
| "list_string_ids rt h n deep (v # vs) =
     then_do (case elems_of h v of
          Some inner \<Rightarrow>
            (if deep then (case n of 0 \<Rightarrow> Inl (RangeError ''getStringIds'')
               | Suc m \<Rightarrow> list_string_ids rt h m deep inner)
             else Inr [])
        | None \<Rightarrow> then_do (getStringId rt h (rt_stack rt) v) (\<lambda>i. Inr (if truthy i then [i] else [])))
       (\<lambda>ids. then_do (list_string_ids rt h n deep vs) (\<lambda>rest. Inr (ids @ rest)))"

definition getStringIds :: "js_runtime \<Rightarrow> heap \<Rightarrow> bool \<Rightarrow> bool \<Rightarrow> element \<Rightarrow> js_error + string_ids" where
  "getStringIds rt h deep unique elements =
     (let from_list = (\<lambda>vs. then_do (list_string_ids rt h (rt_stack rt) deep vs)
                              (\<lambda>ids. Inr (IdList (if unique then js_uniq ids else ids))))
      in case elements of
          EVal v \<Rightarrow>
            if \<not> truthy v then Inr (OneId v)
            else (case elems_of h v of
                None \<Rightarrow> then_do (getStringId rt h (rt_stack rt) v) (\<lambda>i. Inr (OneId i))
              | Some vs \<Rightarrow> from_list vs)
        | EList vs \<Rightarrow> from_list vs
        | EObj ob \<Rightarrow> then_do (objectStringId rt (getStringId rt h (rt_stack rt)) ob) (\<lambda>i. Inr (OneId i)))"

abbreviation ids_of :: "js_runtime \<Rightarrow> heap \<Rightarrow> element \<Rightarrow> js_error + string_ids" where
  "ids_of rt h e \<equiv> getStringIds rt h False False e"

text \<open>\<^verbatim>\<open>===\<close> on two results: lists are different objects, so never equal.\<close>

fun same_ids :: "string_ids \<Rightarrow> string_ids \<Rightarrow> bool" where
  "same_ids (OneId v) (OneId w) = (v = w)"
| "same_ids _ _ = False"

fun every_equals :: "js_runtime \<Rightarrow> heap \<Rightarrow> string_ids \<Rightarrow> element list \<Rightarrow> js_error + bool" where
  "every_equals rt h c [] = Inr True"
| "every_equals rt h c (i # is) =
     then_do (ids_of rt h i) (\<lambda>s. if same_ids s c then every_equals rt h c is else Inr False)"

definition equalIds :: "js_runtime \<Rightarrow> heap \<Rightarrow> element list \<Rightarrow> js_error + bool" where
  "equalIds rt h ids =
     then_do (case ids of [] \<Rightarrow> Inr (OneId VUndef) | i # _ \<Rightarrow> ids_of rt h i)
       (\<lambda>compare. case compare of
           OneId v \<Rightarrow> if truthy v then every_equals rt h compare ids else Inr False
         | IdList _ \<Rightarrow> every_equals rt h compare ids)"

text \<open>\<open>getObjectIds\<close> and \<open>getIncludedIds\<close>.\<close>

definition getObjectIds :: "js_runtime \<Rightarrow> val list \<Rightarrow> js_error + val list" where
  "getObjectIds rt ids =
     each (\<lambda>v. case v of
         VStr s \<Rightarrow> (case rt_ObjectId rt s of Some hex \<Rightarrow> Inr (VOid hex) | None \<Rightarrow> Inl BSONError)
       | _ \<Rightarrow> Inl BSONError) ids"

datatype id_conversion = ToObject | ToString

datatype included = IncMissing | IncNone | IncList "element list"

definition element_missing :: "element \<Rightarrow> bool" where
  "element_missing e = (case e of EVal v \<Rightarrow> \<not> truthy v | _ \<Rightarrow> False)"

definition as_list :: "heap \<Rightarrow> element \<Rightarrow> element list" where
  "as_list h e = (case e of
       EList vs \<Rightarrow> map EVal vs
     | EVal v \<Rightarrow> (case elems_of h v of Some vs \<Rightarrow> map EVal vs | None \<Rightarrow> [e])
     | EObj ob \<Rightarrow> [e])"

text \<open>The strings of \<open>includes\<close>; an object outside the heap is the only element of its list.\<close>

definition element_strings :: "js_runtime \<Rightarrow> heap \<Rightarrow> element \<Rightarrow> js_error + val list" where
  "element_strings rt h e = (case e of
       EObj ob \<Rightarrow> then_do (objectStringId rt (getStringId rt h (rt_stack rt)) ob)
                    (\<lambda>i. Inr (if truthy i then [i] else []))
     | EList vs \<Rightarrow> list_string_ids rt h (rt_stack rt) False vs
     | EVal v \<Rightarrow> (case elems_of h v of
           Some vs \<Rightarrow> list_string_ids rt h (rt_stack rt) False vs
         | None \<Rightarrow> list_string_ids rt h (rt_stack rt) False [v]))"

fun included_of :: "js_runtime \<Rightarrow> heap \<Rightarrow> val list \<Rightarrow> element list \<Rightarrow> js_error + element list" where
  "included_of rt h strings [] = Inr []"
| "included_of rt h strings (i # is) =
     then_do (ids_of rt h i) (\<lambda>s. then_do (included_of rt h strings is) (\<lambda>rest.
       Inr (case s of OneId v \<Rightarrow> if v \<in> set strings then i # rest else rest | IdList _ \<Rightarrow> rest)))"

definition convert_ids :: "js_runtime \<Rightarrow> heap \<Rightarrow> id_conversion \<Rightarrow> element list \<Rightarrow> js_error + val list" where
  "convert_ids rt h c ids =
     then_do (each (\<lambda>e. then_do (ids_of rt h e) (\<lambda>s. Inr (case s of OneId v \<Rightarrow> v | IdList _ \<Rightarrow> VUndef))) ids)
       (\<lambda>vs. case c of ToString \<Rightarrow> Inr (filter truthy vs) | ToObject \<Rightarrow> getObjectIds rt vs)"

definition getIncludedIds ::
  "js_runtime \<Rightarrow> heap \<Rightarrow> element \<Rightarrow> element \<Rightarrow> id_conversion option \<Rightarrow> js_error + included" where
  "getIncludedIds rt h includes ids convert =
     (if element_missing includes \<or> element_missing ids then Inr IncMissing
      else then_do (element_strings rt h includes) (\<lambda>strings.
        then_do (included_of rt h strings (as_list h ids)) (\<lambda>found.
          then_do (case convert of None \<Rightarrow> Inr found
              | Some c \<Rightarrow> then_do (convert_ids rt h c found) (\<lambda>vs. Inr (map EVal vs))) (\<lambda>result.
            Inr (if result = [] then IncNone else IncList result)))))"

end
