(* ===== verification/Restricted.thy ===== *)
theory Restricted
  imports JsHeap
begin

text \<open>
  Field-level access control, \<^verbatim>\<open>common/decorators/restricted.decorator.ts\<close>, with the access error of
  \<^verbatim>\<open>common/exceptions/access-denied.exception.ts\<close>, the marker of checked objects and the registry of
  nested types.

  \<open>checkRestricted\<close> walks over the data it is given, removes in place every property the requester may
  not see (or throws), and returns the data; arrays are replaced by new ones. The walk is over a heap,
  so that shared and cyclic data are what they are at run time. \<open>processedObjects\<close> is the list of
  addresses visited so far. The first argument of the recursive call is the number of stack frames
  left. The metadata of the decorators, the prototype chains and the registered nested types
  are arguments (\<open>meta_env\<close>), since they are built while the classes of an application are loaded.
  The requesting user is an object of its own, not part of the checked data.
\<close>

subsection \<open>The decorators' metadata\<close>

datatype process_type = INPUT | OUTPUT

datatype role_spec = OneRole string | ManyRoles "string list"

record restriction_spec =
  rs_roles :: "role_spec option"
  rs_memberOf :: "role_spec option"
  rs_processType :: "process_type option"

datatype restriction = RRole string | RRoles "string list" | RSpec restriction_spec

text \<open>
  What \<^verbatim>\<open>Reflect.getMetadata\<close> finds for a class (\<open>None\<close>) or a property of its instances, along the
  prototype chain; the chain of a class, itself first; the names of classes; the registry.
\<close>

record meta_env =
  me_meta :: "string \<Rightarrow> string option \<Rightarrow> restriction list option"
  me_chain :: "string \<Rightarrow> string list"
  me_name :: "string \<Rightarrow> string"
  me_nestedTypes :: "(string, val) jsmap"
  me_mt :: "mt_config option"
  me_registry :: registry
  me_tenantRole :: "string option"
  me_rt :: js_runtime

definition object_class :: string where "object_class = ''Object''"

text \<open>\<^verbatim>\<open>data.constructor\<close>: an own or hidden property of that name hides the class.\<close>

definition constructor_of :: "hobj \<Rightarrow> val" where
  "constructor_of ob =
     (if map_of (ho_own ob) ''constructor'' \<noteq> None \<or> map_of (ho_inherited ob) ''constructor'' \<noteq> None
      then oprop ob ''constructor'' else VCls (ho_class ob))"

text \<open>The objects metadata is read from: a value, or the prototype of a class.\<close>

datatype meta_target = OnValue val | OnPrototype string

definition reflect_getMetadata :: "meta_env \<Rightarrow> heap \<Rightarrow> meta_target \<Rightarrow> string option \<Rightarrow> js_error + restriction list option" where
  "reflect_getMetadata E h tgt key = (case tgt of
       OnPrototype c \<Rightarrow> Inr (case key of None \<Rightarrow> None | Some k \<Rightarrow> me_meta E c key)
     | OnValue v \<Rightarrow> (case v of
           VCls c \<Rightarrow> Inr (case key of None \<Rightarrow> me_meta E c None | Some k \<Rightarrow> None)
         | VRef a \<Rightarrow> Inr (case key of None \<Rightarrow> None
             | Some k \<Rightarrow> (case hget h a of None \<Rightarrow> None | Some ob \<Rightarrow> me_meta E (ho_class ob) key))
         | VFun \<Rightarrow> Inr None | VOid _ \<Rightarrow> Inr None | VBuf _ \<Rightarrow> Inr None
         | _ \<Rightarrow> Inl TypeError))"

definition getRestricted :: "meta_env \<Rightarrow> heap \<Rightarrow> meta_target \<Rightarrow> string option \<Rightarrow> js_error + restriction list option" where
  "getRestricted E h tgt key =
     (case tgt of OnValue v \<Rightarrow> if \<not> truthy v then Inr None else reflect_getMetadata E h tgt key
      | OnPrototype c \<Rightarrow> reflect_getMetadata E h tgt key)"

text \<open>
  The same with its cache, keyed by the constructor of the target and by the property, the class itself
  under \<open>__class__\<close>.
\<close>

type_synonym meta_cache = "((val \<times> string) \<times> restriction list option) list"

definition cache_target :: "heap \<Rightarrow> meta_target \<Rightarrow> val" where
  "cache_target h tgt = (case tgt of
       OnPrototype c \<Rightarrow> VCls c
     | OnValue v \<Rightarrow> (case v of
           VCls c \<Rightarrow> v
         | VFun \<Rightarrow> v
         | VRef a \<Rightarrow> (case hget h a of Some ob \<Rightarrow> constructor_of ob | None \<Rightarrow> VUndef)
         | VOid _ \<Rightarrow> VCls ''ObjectId'' | VBuf _ \<Rightarrow> VCls ''Buffer''
         | VStr _ \<Rightarrow> VCls ''String'' | VNum _ \<Rightarrow> VCls ''Number'' | VBool _ \<Rightarrow> VCls ''Boolean''
         | _ \<Rightarrow> VUndef))"

definition weak_key :: "val \<Rightarrow> bool" where
  "weak_key v = (case v of VRef _ \<Rightarrow> True | VCls _ \<Rightarrow> True | VFun \<Rightarrow> True | VOid _ \<Rightarrow> True | VBuf _ \<Rightarrow> True | _ \<Rightarrow> False)"

text \<open>\<^verbatim>\<open>propertyKey || '__class__'\<close>, and the key the look-up is made with: the empty string counts as none.\<close>

definition asked_key :: "string option \<Rightarrow> string option" where
  "asked_key key = (if js_truthy key then key else None)"

definition cache_key :: "string option \<Rightarrow> string" where
  "cache_key key = (if js_truthy key then the key else ''__class__'')"

definition cached_getRestricted ::
  "meta_env \<Rightarrow> heap \<Rightarrow> meta_cache \<Rightarrow> meta_target \<Rightarrow> string option \<Rightarrow> js_error + restriction list option \<times> meta_cache" where
  "cached_getRestricted E h cache tgt key =
     (if (case tgt of OnValue v \<Rightarrow> \<not> truthy v | OnPrototype c \<Rightarrow> False) then Inr (None, cache)
      else if \<not> truthy (cache_target h tgt)
        then then_do (reflect_getMetadata E h tgt (asked_key key)) (\<lambda>m. Inr (m, cache))
      else if \<not> weak_key (cache_target h tgt) then Inl TypeError
      else (case map_of cache (cache_target h tgt, cache_key key) of
          Some m \<Rightarrow> Inr (m, cache)
        | None \<Rightarrow> then_do (reflect_getMetadata E h tgt (asked_key key))
            (\<lambda>m. Inr (m, AList.update (cache_target h tgt, cache_key key) m cache))))"

text \<open>The registry of nested types, along the prototype chain of the owner.\<close>

definition resolveNestedType :: "meta_env \<Rightarrow> val \<Rightarrow> string \<Rightarrow> val" where
  "resolveNestedType E owner propertyKey = (case owner of
       VCls c \<Rightarrow> (case filter (\<lambda>d. case map_of (me_nestedTypes E) (me_name E d @ ''.'' @ propertyKey) of
                              Some v \<Rightarrow> truthy v | None \<Rightarrow> False) (takeWhile (\<lambda>d. d \<noteq> object_class) (me_chain E c)) of
           [] \<Rightarrow> VUndef
         | d # _ \<Rightarrow> the (map_of (me_nestedTypes E) (me_name E d @ ''.'' @ propertyKey)))
     | _ \<Rightarrow> VUndef)"

text \<open>
  The marker of an object that was checked before: a property that is not enumerable and holds a private symbol.
  A property of that name that arrives as data is not it, and gives way to it.
\<close>

definition RESTRICTIONS_CHECKED_KEY :: string where
  "RESTRICTIONS_CHECKED_KEY = ''_objectAlreadyCheckedForRestrictions''"

definition markRestrictionsChecked :: "heap \<Rightarrow> val \<Rightarrow> heap" where
  "markRestrictionsChecked h v = (case v of
       VRef a \<Rightarrow> (case hget h a of 
         Some ob \<Rightarrow> h[a := ob\<lparr>ho_own := AList.delete RESTRICTIONS_CHECKED_KEY (ho_own ob), ho_marked := True\<rparr>]
       | None \<Rightarrow> h)
     | _ \<Rightarrow> h)"

definition hasRestrictionsCheckedMarker :: "heap \<Rightarrow> val \<Rightarrow> bool" where
  "hasRestrictionsCheckedMarker h v = (case v of
       VRef a \<Rightarrow> (case hget h a of Some ob \<Rightarrow> ho_marked ob | None \<Rightarrow> False)
     | _ \<Rightarrow> False)"

subsection \<open>The decision on one list of restrictions\<close>

record requester =
  ru_self :: hobj
  ru_roles :: "string list option"
  ru_hasRole :: "(string list \<Rightarrow> bool) option"

record check_config =
  cc_allowCreatorOfParent :: bool
  cc_checkObjectItself :: bool
  cc_dbObject :: val
  cc_ignoreFunctions :: bool
  cc_ignoreUndefined :: bool
  cc_isCreatorOfParent :: bool
  cc_mergeRoles :: bool
  cc_noteCheckedObjects :: bool
  cc_processType :: "process_type option"
  cc_removeUndefined :: bool
  cc_throwError :: bool

definition default_config :: check_config where
  "default_config = \<lparr>cc_allowCreatorOfParent = True, cc_checkObjectItself = False, cc_dbObject = VUndef,
     cc_ignoreFunctions = True, cc_ignoreUndefined = True, cc_isCreatorOfParent = False, cc_mergeRoles = True,
     cc_noteCheckedObjects = True, cc_processType = None, cc_removeUndefined = True, cc_throwError = True\<rparr>"

definition ru_id :: "requester option \<Rightarrow> val" where
  "ru_id user = (case user of None \<Rightarrow> VUndef | Some u \<Rightarrow> oprop (ru_self u) ''id'')"

definition user_element :: "requester option \<Rightarrow> element" where
  "user_element user = (case user of None \<Rightarrow> EVal VUndef | Some u \<Rightarrow> EObj (ru_self u))"

definition accessDeniedException :: "requester option \<Rightarrow> js_error" where
  "accessDeniedException user =
     (let authenticated = (ru_id user \<noteq> VUndef \<and> ru_id user \<noteq> VNull)
      in if authenticated then Forbidden else Unauthorized)"

definition checkFieldRoleAccess :: "meta_env \<Rightarrow> string list \<Rightarrow> requester option \<Rightarrow> bool" where
  "checkFieldRoleAccess E roles user =
     (let (globalRoles, tenantRoles) =
            resolveGlobalAndTenantRoles (me_mt E) (me_registry E) (filter (\<lambda>r. \<not> isSystemRole r) roles);
          userRoles = (case user of None \<Rightarrow> None | Some u \<Rightarrow> ru_roles u)
      in if list_ex (\<lambda>r. case userRoles of None \<Rightarrow> False | Some rs \<Rightarrow> r \<in> set rs) globalRoles then True
         else length tenantRoles > 0 \<and> checkRoleAccess (me_mt E) tenantRoles userRoles (me_tenantRole E))"

fun spec_length :: "role_spec option \<Rightarrow> nat" where
  "spec_length None = 0"
| "spec_length (Some (OneRole s)) = length s"
| "spec_length (Some (ManyRoles rs)) = length rs"

fun spec_list :: "role_spec option \<Rightarrow> string list" where
  "spec_list None = []"
| "spec_list (Some (OneRole s)) = [s]"
| "spec_list (Some (ManyRoles rs)) = rs"

definition process_matches :: "process_type option \<Rightarrow> process_type option \<Rightarrow> bool" where
  "process_matches current wanted =
     (case (current, wanted) of (Some p, Some q) \<Rightarrow> p = q | _ \<Rightarrow> True)"

text \<open>The roles and the groups of a list of restrictions.\<close>

fun restricted_roles :: "process_type option \<Rightarrow> restriction list \<Rightarrow> string list" where
  "restricted_roles pt [] = []"
| "restricted_roles pt (RRole r # rest) = r # restricted_roles pt rest"
| "restricted_roles pt (RRoles rs # rest) = rs @ restricted_roles pt rest"
| "restricted_roles pt (RSpec s # rest) =
     (if spec_length (rs_roles s) > 0 \<and> process_matches pt (rs_processType s) then spec_list (rs_roles s) else [])
     @ restricted_roles pt rest"

fun restricted_groups :: "process_type option \<Rightarrow> restriction list \<Rightarrow> string list list" where
  "restricted_groups pt [] = []"
| "restricted_groups pt (RSpec s # rest) =
     (if spec_length (rs_memberOf s) > 0 \<and> process_matches pt (rs_processType s)
      then [spec_list (rs_memberOf s)] else []) @ restricted_groups pt rest"
| "restricted_groups pt (_ # rest) = restricted_groups pt rest"

definition js_or :: "js_error + bool \<Rightarrow> js_error + bool \<Rightarrow> js_error + bool" where
  "js_or a b = then_do a (\<lambda>x. if x then Inr True else b)"

definition js_and :: "bool \<Rightarrow> js_error + bool \<Rightarrow> js_error + bool" where
  "js_and a b = (if a then b else Inr False)"

text \<open>\<^verbatim>\<open>'createdBy' in v\<close> for a truthy value.\<close>

definition has_createdBy :: "heap \<Rightarrow> val \<Rightarrow> js_error + bool" where
  "has_createdBy h v = (case v of
       VRef a \<Rightarrow> Inr (case hget h a of Some ob \<Rightarrow> ohas ob ''createdBy'' | None \<Rightarrow> False)
     | VOid _ \<Rightarrow> Inr False | VBuf _ \<Rightarrow> Inr False | VCls _ \<Rightarrow> Inr False | VFun \<Rightarrow> Inr False
     | _ \<Rightarrow> Inl TypeError)"

definition is_self :: "meta_env \<Rightarrow> heap \<Rightarrow> val \<Rightarrow> requester option \<Rightarrow> js_error + bool" where
  "is_self E h owner user = equalIds (me_rt E) h [EVal owner, user_element user]"

definition is_creator :: "meta_env \<Rightarrow> heap \<Rightarrow> val \<Rightarrow> requester option \<Rightarrow> js_error + bool" where
  "is_creator E h owner user = equalIds (me_rt E) h [EVal (vprop h owner ''createdBy''), user_element user]"

definition creator_access ::
  "meta_env \<Rightarrow> check_config \<Rightarrow> heap \<Rightarrow> requester option \<Rightarrow> val \<Rightarrow> js_error + bool" where
  "creator_access E cfg h user owner =
     (if \<not> truthy owner then Inr False
      else then_do (has_createdBy h owner) (\<lambda>has.
        js_or (if has then is_creator E h owner user else Inr False)
              (Inr (cc_allowCreatorOfParent cfg \<and> \<not> has \<and> cc_isCreatorOfParent cfg))))"

definition requester_verified :: "requester option \<Rightarrow> bool" where
  "requester_verified user = (case user of None \<Rightarrow> False | Some u \<Rightarrow>
     truthy (oprop (ru_self u) ''verified'') \<or> truthy (oprop (ru_self u) ''verifiedAt'')
     \<or> truthy (oprop (ru_self u) ''emailVerified''))"

definition user_has_role :: "requester option \<Rightarrow> string list \<Rightarrow> bool" where
  "user_has_role user roles =
     (case user of None \<Rightarrow> False | Some u \<Rightarrow> (case ru_hasRole u of None \<Rightarrow> False | Some f \<Rightarrow> f roles))"

definition role_access ::
  "meta_env \<Rightarrow> check_config \<Rightarrow> heap \<Rightarrow> requester option \<Rightarrow> val \<Rightarrow> string list \<Rightarrow> js_error + bool" where
  "role_access E cfg h user owner roles =
     js_or (Inr (S_EVERYONE \<in> set roles))
     (js_or (Inr (user_has_role user roles))
     (js_or (Inr (truthy (ru_id user) \<and> S_USER \<in> set roles))
     (js_or (js_and (S_SELF \<in> set roles) (is_self E h owner user))
     (js_or (js_and (S_CREATOR \<in> set roles) (creator_access E cfg h user owner))
     (js_or (Inr (S_VERIFIED \<in> set roles \<and> requester_verified user))
            (Inr (truthy (ru_id user) \<and> checkFieldRoleAccess E roles user)))))))"

definition members_of :: "heap \<Rightarrow> val \<Rightarrow> string list list \<Rightarrow> val list" where
  "members_of h db groups =
     concat (map (\<lambda>property. let items = vprop h db property
       in if \<not> truthy items then [] else (case elems_of h items of Some vs \<Rightarrow> vs | None \<Rightarrow> [items]))
       (concat groups))"

definition group_access :: "meta_env \<Rightarrow> check_config \<Rightarrow> heap \<Rightarrow> requester option \<Rightarrow> string list list \<Rightarrow> js_error + bool" where
  "group_access E cfg h user groups =
     (if groups = [] then Inr False
      else then_do (getIncludedIds (me_rt E) h (EList (members_of h (cc_dbObject cfg) groups)) (user_element user) None)
        (\<lambda>found. Inr (case found of IncList _ \<Rightarrow> True | _ \<Rightarrow> False)))"

definition validateRestricted ::
  "meta_env \<Rightarrow> check_config \<Rightarrow> heap \<Rightarrow> requester option \<Rightarrow> val \<Rightarrow> restriction list \<Rightarrow> js_error + bool" where
  "validateRestricted E cfg h user data restricted =
     (if cc_noteCheckedObjects cfg \<and> hasRestrictionsCheckedMarker h data then Inr True
      else if restricted = [] then Inr True
      else
        (let roles = restricted_roles (cc_processType cfg) restricted;
             owner = (if cc_processType cfg = Some INPUT then cc_dbObject cfg else data);
             groups = restricted_groups (cc_processType cfg) restricted
         in if S_NO_ONE \<in> set roles then Inr False
            else js_or (if roles = [] then Inr False else role_access E cfg h user owner roles)
              (js_or (group_access E cfg h user groups)
                 (Inr (roles = [] \<and> groups = [])))))"

subsection \<open>The walk\<close>

text \<open>What a check changes: the heap, and the objects visited.\<close>

record walk =
  wk_heap :: heap
  wk_done :: "nat list"

definition new_array :: "val list \<Rightarrow> walk \<Rightarrow> val \<times> walk" where
  "new_array vs s = (VRef (length (wk_heap s)),
     s\<lparr>wk_heap := wk_heap s @ [\<lparr>ho_class = ''Array'', ho_elems = Some vs, ho_own = [], ho_inherited = [], ho_marked = False\<rparr>]\<rparr>)"

definition set_prop :: "nat \<Rightarrow> string \<Rightarrow> val \<Rightarrow> walk \<Rightarrow> walk" where
  "set_prop a k v s = s\<lparr>wk_heap := (wk_heap s)[a := (wk_heap s ! a)\<lparr>ho_own := AList.update k v (ho_own (wk_heap s ! a))\<rparr>]\<rparr>"

definition delete_prop :: "nat \<Rightarrow> string \<Rightarrow> walk \<Rightarrow> walk" where
  "delete_prop a k s = s\<lparr>wk_heap := (wk_heap s)[a := (wk_heap s ! a)\<lparr>ho_own := AList.delete k (ho_own (wk_heap s ! a))\<rparr>]\<rparr>"

text \<open>A recursive call: the trust inherited from the parent, the value, its declared type, the state.\<close>

type_synonym checker = "bool \<Rightarrow> val \<Rightarrow> val \<Rightarrow> walk \<Rightarrow> js_error + val \<times> walk"

fun check_items :: "checker \<Rightarrow> bool \<Rightarrow> val \<Rightarrow> val list \<Rightarrow> walk \<Rightarrow> js_error + val list \<times> walk" where
  "check_items rec icp declared [] s = Inr ([], s)"
| "check_items rec icp declared (v # vs) s =
     then_do (rec icp v declared s) (\<lambda>(r, s1).
       then_do (check_items rec icp declared vs s1) (\<lambda>(rs, s2). Inr (r # rs, s2)))"

definition drop_undefined :: "check_config \<Rightarrow> val list \<Rightarrow> val list" where
  "drop_undefined cfg vs =
     (if \<not> cc_throwError cfg \<and> cc_removeUndefined cfg then filter (\<lambda>v. v \<noteq> VUndef) vs else vs)"

text \<open>Does a restriction mention ownership, in one of its notations?\<close>

definition mentions_owner :: "restriction \<Rightarrow> bool" where
  "mentions_owner r = (case r of
       RRole s \<Rightarrow> s = S_CREATOR \<or> s = S_SELF
     | RRoles rs \<Rightarrow> S_CREATOR \<in> set rs \<or> S_SELF \<in> set rs
     | RSpec s \<Rightarrow> S_CREATOR \<in> set (spec_list (rs_roles s)) \<or> S_SELF \<in> set (spec_list (rs_roles s)))"

text \<open>\<^verbatim>\<open>v.constructor\<close> of a truthy value of type object, and whether it is an array.\<close>

definition is_object :: "heap \<Rightarrow> val \<Rightarrow> bool" where
  "is_object h v = (case v of VRef a \<Rightarrow> a < length h | VOid _ \<Rightarrow> True | VBuf _ \<Rightarrow> True | _ \<Rightarrow> False)"

definition value_constructor :: "heap \<Rightarrow> val \<Rightarrow> val" where
  "value_constructor h v = (case v of
       VRef a \<Rightarrow> (case hget h a of Some ob \<Rightarrow> constructor_of ob | None \<Rightarrow> VUndef)
     | VOid _ \<Rightarrow> VCls ''ObjectId'' | VBuf _ \<Rightarrow> VCls ''Buffer'' | _ \<Rightarrow> VUndef)"

definition is_class :: "val \<Rightarrow> bool" where
  "is_class v = (case v of VCls _ \<Rightarrow> True | VFun \<Rightarrow> True | _ \<Rightarrow> False)"

definition metadata_owner :: "hobj \<Rightarrow> val \<Rightarrow> val" where
  "metadata_owner ob declared =
     (if truthy (constructor_of ob) \<and> constructor_of ob \<noteq> VCls object_class then constructor_of ob
      else if is_class declared then declared else VUndef)"

definition metadata_target :: "nat \<Rightarrow> hobj \<Rightarrow> val \<Rightarrow> meta_target" where
  "metadata_target a ob declared =
     (let owner = metadata_owner ob declared
      in if \<not> truthy owner \<or> constructor_of ob = owner then OnValue (VRef a)
         else (case owner of VCls c \<Rightarrow> OnPrototype c | _ \<Rightarrow> OnValue VUndef))"

definition restrictions_of :: "meta_env \<Rightarrow> heap \<Rightarrow> meta_target \<Rightarrow> string option \<Rightarrow> js_error + restriction list" where
  "restrictions_of E h tgt key =
     then_do (getRestricted E h tgt key) (\<lambda>m. Inr (case m of None \<Rightarrow> [] | Some rs \<Rightarrow> rs))"

text \<open>
  Does the first element speak for all: it is an instance of a class (its own or the declared one) that is
  restricted, but not by ownership?
\<close>

definition sample_owner :: "heap \<Rightarrow> val \<Rightarrow> val \<Rightarrow> val" where
  "sample_owner h sample declared =
     (if is_object h sample \<and> elems_of h sample = None \<and> value_constructor h sample \<noteq> VCls object_class
      then value_constructor h sample
      else if is_class declared then declared else VUndef)"

definition sample_decides :: "meta_env \<Rightarrow> heap \<Rightarrow> val \<Rightarrow> val \<Rightarrow> js_error + bool" where
  "sample_decides E h sample declared =
     (if is_object h sample \<and> elems_of h sample = None \<and> truthy (sample_owner h sample declared)
      then then_do (restrictions_of E h (OnValue (sample_owner h sample declared)) None)
        (\<lambda>classRestrictions. Inr (classRestrictions \<noteq> [] \<and> \<not> list_ex mentions_owner classRestrictions))
      else Inr False)"

definition check_array ::
  "meta_env \<Rightarrow> check_config \<Rightarrow> checker \<Rightarrow> bool \<Rightarrow> val \<Rightarrow> val list \<Rightarrow> val \<Rightarrow> walk \<Rightarrow> js_error + val \<times> walk" where
  "check_array E cfg rec icp data items declared s =
     (case items of
        [] \<Rightarrow> Inr (data, s)
      | sample # others \<Rightarrow>
          then_do (sample_decides E (wk_heap s) sample declared) (\<lambda>decides.
            if decides
            then then_do (rec icp sample declared s) (\<lambda>(sampleResult, s1).
              if sampleResult = VUndef \<or> sampleResult = VNull
              then (if cc_throwError cfg then Inr (data, s1)
                    else Inr (new_array (if cc_removeUndefined cfg then [] else map (\<lambda>_. VUndef) items) s1))
              else then_do (check_items rec icp declared others s1)
                (\<lambda>(rs, s2). Inr (new_array (drop_undefined cfg (sampleResult # rs)) s2)))
            else then_do (check_items rec icp declared items s)
              (\<lambda>(rs, s'). Inr (new_array (drop_undefined cfg rs) s'))))"

text \<open>\<^verbatim>\<open>_.uniq\<close>: lists and objects of different decorators are never the same.\<close>

fun uniq_restrictions :: "restriction list \<Rightarrow> restriction list" where
  "uniq_restrictions [] = []"
| "uniq_restrictions (r # rs) =
     r # (case r of RRole s \<Rightarrow> filter (\<lambda>q. q \<noteq> RRole s) (uniq_restrictions rs) | _ \<Rightarrow> uniq_restrictions rs)"

definition merged_restrictions :: "check_config \<Rightarrow> restriction list \<Rightarrow> restriction list \<Rightarrow> restriction list" where
  "merged_restrictions cfg object_rs property_rs =
     (if cc_mergeRoles cfg \<and> object_rs \<noteq> [] then uniq_restrictions (object_rs @ property_rs) else property_rs)"

text \<open>The ownership handed down to nested objects.\<close>

definition creator_of_parent ::
  "meta_env \<Rightarrow> check_config \<Rightarrow> heap \<Rightarrow> requester option \<Rightarrow> val \<Rightarrow> js_error + bool" where
  "creator_of_parent E cfg h user data =
     (let parent = (if cc_processType cfg = Some INPUT then cc_dbObject cfg else data)
      in js_or (is_self E h parent user)
           (if \<not> truthy parent then Inr (cc_isCreatorOfParent cfg)
            else then_do (has_createdBy h parent) (\<lambda>has.
              if has then is_creator E h parent user else Inr (cc_isCreatorOfParent cfg))))"

fun check_props ::
  "meta_env \<Rightarrow> check_config \<Rightarrow> requester option \<Rightarrow> checker \<Rightarrow> nat \<Rightarrow> val \<Rightarrow> meta_target \<Rightarrow> restriction list
    \<Rightarrow> string list \<Rightarrow> bool \<Rightarrow> walk \<Rightarrow> js_error + walk" where
  "check_props E cfg user rec a owner tgt object_rs [] icp s = Inr s"
| "check_props E cfg user rec a owner tgt object_rs (k # ks) icp s =
     (let value = vprop (wk_heap s) (VRef a) k
      in if is_class value \<and> cc_ignoreFunctions cfg
         then check_props E cfg user rec a owner tgt object_rs ks icp s
         else if value = VUndef \<and> cc_ignoreUndefined cfg
         then check_props E cfg user rec a owner tgt object_rs ks icp s
         else
           then_do (restrictions_of E (wk_heap s) tgt (Some k)) (\<lambda>restricted.
           then_do (validateRestricted E (cfg\<lparr>cc_isCreatorOfParent := icp\<rparr>) (wk_heap s) user (VRef a)
                      (merged_restrictions cfg object_rs restricted)) (\<lambda>valid.
             if valid
             then then_do (creator_of_parent E (cfg\<lparr>cc_isCreatorOfParent := icp\<rparr>) (wk_heap s) user (VRef a)) (\<lambda>icp'.
                  then_do (rec icp' value (if truthy owner then resolveNestedType E owner k else VUndef) s) (\<lambda>(r, s').
                    check_props E cfg user rec a owner tgt object_rs ks icp' (set_prop a k r s')))
             else if cc_throwError cfg then Inl (accessDeniedException user)
             else check_props E cfg user rec a owner tgt object_rs ks icp (delete_prop a k s))))"

definition check_object ::
  "meta_env \<Rightarrow> check_config \<Rightarrow> requester option \<Rightarrow> checker \<Rightarrow> bool \<Rightarrow> nat \<Rightarrow> hobj \<Rightarrow> val \<Rightarrow> walk \<Rightarrow> js_error + val \<times> walk" where
  "check_object E cfg user rec icp a ob declared s =
     (let owner = metadata_owner ob declared;
          tgt = metadata_target a ob declared
      in then_do (restrictions_of E (wk_heap s) (OnValue owner) None) (\<lambda>object_rs.
         then_do (if cc_checkObjectItself cfg
                  then validateRestricted E (cfg\<lparr>cc_isCreatorOfParent := icp\<rparr>) (wk_heap s) user (VRef a) object_rs
                  else Inr True) (\<lambda>objectIsValid.
           if \<not> objectIsValid
           then (if cc_throwError cfg then Inl (accessDeniedException user) else Inr (VNull, s))
           else then_do (check_props E cfg user rec a owner tgt object_rs (map fst (ho_own ob)) icp s)
             (\<lambda>s'. Inr (VRef a, s')))))"

definition check_body :: "meta_env \<Rightarrow> check_config \<Rightarrow> requester option \<Rightarrow> checker \<Rightarrow> checker" where
  "check_body E cfg user rec icp data declared s =
     (case data of
        VRef a \<Rightarrow>
          (case hget (wk_heap s) a of
             None \<Rightarrow> Inr (data, s)
           | Some ob \<Rightarrow>
               if cc_noteCheckedObjects cfg \<and> hasRestrictionsCheckedMarker (wk_heap s) data then Inr (data, s)
               else if a \<in> set (wk_done s) then Inr (data, s)
               else
                 (let s1 = s\<lparr>wk_done := a # wk_done s\<rparr>
                  in case ho_elems ob of
                       Some items \<Rightarrow> check_array E cfg rec icp data items declared s1
                     | None \<Rightarrow> check_object E cfg user rec icp a ob declared s1))
      | _ \<Rightarrow> Inr (data, s))"

primrec check_within :: "nat \<Rightarrow> meta_env \<Rightarrow> check_config \<Rightarrow> requester option \<Rightarrow> checker" where
  "check_within 0 E cfg user icp data declared s = Inl (RangeError ''checkRestricted'')"
| "check_within (Suc n) E cfg user icp data declared s =
     check_body E cfg user (check_within n E cfg user) icp data declared s"

text \<open>The call from outside: nothing visited yet, no declared type.\<close>

definition checkRestricted ::
  "nat \<Rightarrow> meta_env \<Rightarrow> check_config \<Rightarrow> requester option \<Rightarrow> val \<Rightarrow> heap \<Rightarrow> js_error + val \<times> walk" where
  "checkRestricted stack E cfg user data h =
     check_within stack E cfg user (cc_isCreatorOfParent cfg) data VUndef \<lparr>wk_heap = h, wk_done = []\<rparr>"

end
