(* ===== verification/RestrictedWalk.thy ===== *)
theory RestrictedWalk
  imports Restricted
begin

text \<open>
  What \<open>checkRestricted\<close> guarantees: the walk is the depth-first search of the heap it is given. The
  invariant \<open>walk_inv\<close> holds of every state of the walk over the initial heap; \<open>walk_step\<close> relates the states
  before and after a complete recursive call: everything visited in between is settled, nothing visited
  before is touched. From the two follow the safety of the result, the termination of the walk with one frame
  for every object, and the well-formedness of the heap.
\<close>

subsection \<open>Well-formed heaps and the objects a value reaches\<close>

definition vals_of :: "hobj \<Rightarrow> val set" where
  "vals_of ob = (case ho_elems ob of Some vs \<Rightarrow> set vs | None \<Rightarrow> snd ` set (ho_own ob))"

definition val_ok :: "nat \<Rightarrow> val \<Rightarrow> bool" where
  "val_ok n v = (\<forall>b. v = VRef b \<longrightarrow> b < n)"

definition heap_ok :: "heap \<Rightarrow> bool" where
  "heap_ok h = (\<forall>a < length h. jsmap_ok (ho_own (h ! a)) \<and> (\<forall>v \<in> vals_of (h ! a). val_ok (length h) v))"

inductive reaches :: "heap \<Rightarrow> val \<Rightarrow> nat \<Rightarrow> bool" for h v where
  here: "v = VRef a \<Longrightarrow> a < length h \<Longrightarrow> reaches h v a"
| there: "reaches h v a \<Longrightarrow> VRef b \<in> vals_of (h ! a) \<Longrightarrow> b < length h \<Longrightarrow> reaches h v b"

inductive_simps reaches_simps: "reaches h v b"

lemma val_ok_simps [simp]:
  "val_ok n (VRef b) \<longleftrightarrow> b < n" "val_ok n VUndef" "val_ok n VNull" "val_ok n (VBool x)" "val_ok n (VNum i)"
  "val_ok n (VStr s)" "val_ok n (VBuf s)" "val_ok n (VOid s)" "val_ok n (VCls s)" "val_ok n VFun"
  by (simp_all add: val_ok_def)

lemma val_ok_mono: "val_ok n v \<Longrightarrow> n \<le> m \<Longrightarrow> val_ok m v"
  by (auto simp: val_ok_def)

lemma val_ok_Suc: "val_ok n v \<Longrightarrow> val_ok (Suc n) v"
  by (auto simp: val_ok_def)

lemma hget_Some [simp]: "a < length h \<Longrightarrow> hget h a = Some (h ! a)"
  by (simp add: hget_def)

subsection \<open>Properties nobody in the requester's position may see\<close>

text \<open>
  A list of restrictions denies without looking at the data: it names \<^verbatim>\<open>S_NO_ONE\<close>, or it names roles but
  neither ownership nor groups, and the requester has none of them.
\<close>

definition always_denied :: "meta_env \<Rightarrow> check_config \<Rightarrow> requester option \<Rightarrow> restriction list \<Rightarrow> bool" where
  "always_denied E cfg user rs =
     (let roles = restricted_roles (cc_processType cfg) rs
      in S_NO_ONE \<in> set roles
       \<or> (roles \<noteq> [] \<and> restricted_groups (cc_processType cfg) rs = [] \<and> S_SELF \<notin> set roles \<and> S_CREATOR \<notin> set roles
          \<and> S_EVERYONE \<notin> set roles \<and> \<not> user_has_role user roles \<and> \<not> (truthy (ru_id user) \<and> S_USER \<in> set roles)
          \<and> \<not> (S_VERIFIED \<in> set roles \<and> requester_verified user) \<and> \<not> (truthy (ru_id user) \<and> checkFieldRoleAccess E roles user)))"

definition class_restrictions :: "meta_env \<Rightarrow> string \<Rightarrow> string option \<Rightarrow> restriction list" where
  "class_restrictions E c key = (case me_meta E c key of None \<Rightarrow> [] | Some rs \<Rightarrow> rs)"

definition forbidden :: "meta_env \<Rightarrow> check_config \<Rightarrow> requester option \<Rightarrow> string \<Rightarrow> string \<Rightarrow> bool" where
  "forbidden E cfg user c k =
     always_denied E cfg user (merged_restrictions cfg (class_restrictions E c None) (class_restrictions E c (Some k)))"

text \<open>An instance of a model class that has no property called \<^verbatim>\<open>constructor\<close>.\<close>

definition model_instance :: "hobj \<Rightarrow> bool" where
  "model_instance ob = (ho_elems ob = None \<and> constructor_of ob = VCls (ho_class ob) \<and> ho_class ob \<noteq> object_class)"

definition skipped :: "check_config \<Rightarrow> val \<Rightarrow> bool" where
  "skipped cfg v = ((is_class v \<and> cc_ignoreFunctions cfg) \<or> (v = VUndef \<and> cc_ignoreUndefined cfg))"

text \<open>The object at address \<open>a\<close>, whose state at the start is in \<open>h0\<close>, has no forbidden property any more.\<close>

definition clean :: "meta_env \<Rightarrow> check_config \<Rightarrow> requester option \<Rightarrow> heap \<Rightarrow> nat \<Rightarrow> hobj \<Rightarrow> bool" where
  "clean E cfg user h0 a ob = (a < length h0 \<and> model_instance (h0 ! a) \<longrightarrow>
     (\<forall>(k, v) \<in> set (ho_own ob). forbidden E cfg user (ho_class (h0 ! a)) k \<longrightarrow> skipped cfg v))"

lemma js_or_simps [simp]:
  "js_or (Inr True) b = Inr True" "js_or (Inr False) b = b" "js_or (Inl e) b = Inl e" "js_and False b = Inr False"
  by (simp_all add: js_or_def js_and_def)

lemma restricted_roles_Nil: "restricted_roles pt rs \<noteq> [] \<Longrightarrow> rs \<noteq> []"
  by auto

lemma always_denied_validate:
  assumes "always_denied E cfg user rs" "\<not> (cc_noteCheckedObjects cfg \<and> hasRestrictionsCheckedMarker h data)"
  shows "validateRestricted E (cfg\<lparr>cc_isCreatorOfParent := icp\<rparr>) h user data rs = Inr False"
proof (cases "S_NO_ONE \<in> set (restricted_roles (cc_processType cfg) rs)")
  case True
  then have "rs \<noteq> []" by auto
  with True assms(2) show ?thesis by (simp add: validateRestricted_def Let_def)
next
  case False
  with assms(1) have d: "restricted_roles (cc_processType cfg) rs \<noteq> []" "restricted_groups (cc_processType cfg) rs = []"
    "S_SELF \<notin> set (restricted_roles (cc_processType cfg) rs)" "S_CREATOR \<notin> set (restricted_roles (cc_processType cfg) rs)"
    "S_EVERYONE \<notin> set (restricted_roles (cc_processType cfg) rs)" "\<not> user_has_role user (restricted_roles (cc_processType cfg) rs)"
    "\<not> (truthy (ru_id user) \<and> S_USER \<in> set (restricted_roles (cc_processType cfg) rs))"
    "\<not> (S_VERIFIED \<in> set (restricted_roles (cc_processType cfg) rs) \<and> requester_verified user)"
    "\<not> (truthy (ru_id user) \<and> checkFieldRoleAccess E (restricted_roles (cc_processType cfg) rs) user)"
    by (simp_all add: always_denied_def Let_def)
  have r: "role_access E c' h user owner (restricted_roles (cc_processType cfg) rs) = Inr False" for c' owner
    using d(3-9) by (auto simp: role_access_def)
  have "rs \<noteq> []" using d(1) by auto
  then show ?thesis
    using assms(2) False d(1,2) by (simp add: validateRestricted_def Let_def r group_access_def)
qed

subsection \<open>The invariant of the walk\<close>

text \<open>\<open>h0\<close> is the heap the check started with; addresses from its length on are new arrays.\<close>

definition good :: "heap \<Rightarrow> walk \<Rightarrow> val \<Rightarrow> bool" where
  "good h0 s v = (\<forall>b. v = VRef b \<longrightarrow> b \<in> set (wk_done s) \<or> (length h0 \<le> b \<and> b < length (wk_heap s)))"

definition settled :: "meta_env \<Rightarrow> check_config \<Rightarrow> requester option \<Rightarrow> heap \<Rightarrow> walk \<Rightarrow> nat \<Rightarrow> bool" where
  "settled E cfg user h0 s a =
     ((\<forall>v \<in> vals_of (wk_heap s ! a). good h0 s v) \<and> clean E cfg user h0 a (wk_heap s ! a))"

text \<open>An object of the initial heap may only lose own properties or have them replaced.\<close>

definition same_shape :: "hobj \<Rightarrow> hobj \<Rightarrow> bool" where
  "same_shape ob ob' = (ho_class ob' = ho_class ob \<and> ho_elems ob' = ho_elems ob
     \<and> ho_inherited ob' = ho_inherited ob \<and> ho_marked ob' = ho_marked ob)"

definition shrunk :: "hobj \<Rightarrow> hobj \<Rightarrow> bool" where
  "shrunk ob ob' = (same_shape ob ob' \<and> fst ` set (ho_own ob') \<subseteq> fst ` set (ho_own ob))"

lemma same_shape_refl [simp]: "same_shape ob ob"
  by (simp add: same_shape_def)

lemma shrunk_refl [simp]: "shrunk ob ob"
  by (simp add: shrunk_def)

definition walk_inv :: "meta_env \<Rightarrow> check_config \<Rightarrow> requester option \<Rightarrow> heap \<Rightarrow> walk \<Rightarrow> bool" where
  "walk_inv E cfg user h0 s \<longleftrightarrow>
     length h0 \<le> length (wk_heap s) \<and> set (wk_done s) \<subseteq> {..<length h0}
   \<and> (\<forall>x < length h0. x \<notin> set (wk_done s) \<longrightarrow> wk_heap s ! x = h0 ! x)
   \<and> (\<forall>x < length h0. shrunk (h0 ! x) (wk_heap s ! x))
   \<and> heap_ok (wk_heap s)
   \<and> (\<forall>x < length (wk_heap s). cc_noteCheckedObjects cfg \<longrightarrow> \<not> ho_marked (wk_heap s ! x))
   \<and> (\<forall>x < length (wk_heap s). length h0 \<le> x \<longrightarrow> settled E cfg user h0 s x)"

definition walk_step :: "meta_env \<Rightarrow> check_config \<Rightarrow> requester option \<Rightarrow> heap \<Rightarrow> walk \<Rightarrow> walk \<Rightarrow> bool" where
  "walk_step E cfg user h0 s s' \<longleftrightarrow>
     set (wk_done s) \<subseteq> set (wk_done s') \<and> length (wk_heap s) \<le> length (wk_heap s')
   \<and> (\<forall>x \<in> set (wk_done s). wk_heap s' ! x = wk_heap s ! x)
   \<and> (\<forall>x < length (wk_heap s). length h0 \<le> x \<longrightarrow> wk_heap s' ! x = wk_heap s ! x)
   \<and> (\<forall>x \<in> set (wk_done s') - set (wk_done s). settled E cfg user h0 s' x)"

lemma walk_step_refl [simp]: "walk_step E cfg user h0 s s"
  by (simp add: walk_step_def)

lemma good_mono: "walk_step E cfg user h0 s s' \<Longrightarrow> good h0 s v \<Longrightarrow> good h0 s' v"
  by (auto simp: walk_step_def good_def)

lemma good_simps [simp]: "good h0 s VUndef" "good h0 s VNull"
  by (simp_all add: good_def)

lemma good_nonref: "\<not> (\<exists>b. v = VRef b) \<Longrightarrow> good h0 s v"
  by (auto simp: good_def)

lemma settled_mono:
  assumes "walk_step E cfg user h0 s s'" "settled E cfg user h0 s x" "wk_heap s' ! x = wk_heap s ! x"
  shows "settled E cfg user h0 s' x"
  using assms(2,3) good_mono [OF assms(1)] by (simp add: settled_def)

lemma walk_step_trans:
  assumes "walk_step E cfg user h0 s s1" "walk_step E cfg user h0 s1 s2"
  shows "walk_step E cfg user h0 s s2"
proof -
  have "settled E cfg user h0 s2 x" if x: "x \<in> set (wk_done s2)" "x \<notin> set (wk_done s)" for x
  proof (cases "x \<in> set (wk_done s1)")
    case True
    then have "settled E cfg user h0 s1 x" "wk_heap s2 ! x = wk_heap s1 ! x"
      using assms x by (auto simp: walk_step_def)
    then show ?thesis using settled_mono [OF assms(2)] by blast
  next
    case False
    then show ?thesis using assms(2) x by (auto simp: walk_step_def)
  qed
  moreover have "set (wk_done s) \<subseteq> set (wk_done s2)" "length (wk_heap s) \<le> length (wk_heap s2)"
    using assms by (auto simp: walk_step_def)
  moreover have "\<forall>x \<in> set (wk_done s). wk_heap s2 ! x = wk_heap s ! x"
    using assms by (auto simp: walk_step_def subset_iff)
  moreover have "\<forall>x < length (wk_heap s). length h0 \<le> x \<longrightarrow> wk_heap s2 ! x = wk_heap s ! x"
    using assms by (auto simp: walk_step_def)
  ultimately show ?thesis by (simp add: walk_step_def)
qed

text \<open>What holds of a recursive call on a value of the initial heap.\<close>

definition call_ok :: "meta_env \<Rightarrow> check_config \<Rightarrow> requester option \<Rightarrow> heap \<Rightarrow> checker \<Rightarrow> bool" where
  "call_ok E cfg user h0 rec \<longleftrightarrow>
     (\<forall>icp v d s r s'. walk_inv E cfg user h0 s \<longrightarrow> val_ok (length h0) v \<longrightarrow> rec icp v d s = Inr (r, s') \<longrightarrow>
        walk_inv E cfg user h0 s' \<and> walk_step E cfg user h0 s s' \<and> good h0 s' r
      \<and> (\<forall>b. v = VRef b \<longrightarrow> b \<in> set (wk_done s') \<and> (\<exists>c. r = VRef c))
      \<and> ((\<forall>b. v \<noteq> VRef b) \<longrightarrow> r = v))"

lemma call_okD:
  assumes "call_ok E cfg user h0 rec" "walk_inv E cfg user h0 s" "val_ok (length h0) v" "rec icp v d s = Inr (r, s')"
  shows "walk_inv E cfg user h0 s'" "walk_step E cfg user h0 s s'" "good h0 s' r"
    "\<And>b. v = VRef b \<Longrightarrow> b \<in> set (wk_done s')" "is_object (wk_heap s) v \<Longrightarrow> r \<noteq> VUndef \<and> r \<noteq> VNull"
proof -
  have c: "walk_inv E cfg user h0 s' \<and> walk_step E cfg user h0 s s' \<and> good h0 s' r
      \<and> (\<forall>b. v = VRef b \<longrightarrow> b \<in> set (wk_done s') \<and> (\<exists>c. r = VRef c)) \<and> ((\<forall>b. v \<noteq> VRef b) \<longrightarrow> r = v)"
    using assms unfolding call_ok_def by blast
  show "walk_inv E cfg user h0 s'" "walk_step E cfg user h0 s s'" "good h0 s' r" using c by blast+
  show "b \<in> set (wk_done s')" if "v = VRef b" for b using c that by auto
  show "r \<noteq> VUndef \<and> r \<noteq> VNull" if "is_object (wk_heap s) v"
    using c that by (cases v) (auto simp: is_object_def)
qed

lemma check_items_ok:
  assumes rec: "call_ok E cfg user h0 rec"
  shows "check_items rec icp d vs s = Inr (rs, s') \<Longrightarrow> walk_inv E cfg user h0 s \<Longrightarrow> \<forall>v \<in> set vs. val_ok (length h0) v \<Longrightarrow>
    walk_inv E cfg user h0 s' \<and> walk_step E cfg user h0 s s' \<and> (\<forall>r \<in> set rs. good h0 s' r)
    \<and> (\<forall>b. VRef b \<in> set vs \<longrightarrow> b \<in> set (wk_done s'))"
proof (induction vs arbitrary: s rs)
  case Nil
  then show ?case by auto
next
  case (Cons v vs)
  from Cons.prems(1) obtain r s1 rs1 where r: "rec icp v d s = Inr (r, s1)"
    and rs: "check_items rec icp d vs s1 = Inr (rs1, s')" "rs = r # rs1"
    by (auto simp: then_do_Inr)
  have v: "val_ok (length h0) v" using Cons.prems(3) by simp
  note c = call_okD [OF rec Cons.prems(2) v r]
  have i: "walk_inv E cfg user h0 s'" "walk_step E cfg user h0 s1 s'" "\<forall>r \<in> set rs1. good h0 s' r"
    "\<forall>b. VRef b \<in> set vs \<longrightarrow> b \<in> set (wk_done s')"
    using Cons.IH [OF rs(1) c(1)] Cons.prems(3) by simp_all
  have "b \<in> set (wk_done s')" if "v = VRef b" for b
    using c(4) [OF that] i(2) by (auto simp: walk_step_def)
  then show ?case
    using i(1,3,4) walk_step_trans [OF c(2) i(2)] good_mono [OF i(2) c(3)] rs(2) by auto
qed

text \<open>A new array of good values.\<close>

lemma heap_ok_append:
  assumes "heap_ok h" "jsmap_ok (ho_own ob)" "\<forall>v \<in> vals_of ob. val_ok (Suc (length h)) v"
  shows "heap_ok (h @ [ob])"
  using assms by (auto simp: heap_ok_def nth_append less_Suc_eq intro: val_ok_Suc)

lemma good_val_ok: "walk_inv E cfg user h0 s \<Longrightarrow> good h0 s v \<Longrightarrow> val_ok (length (wk_heap s)) v"
  by (auto simp: good_def val_ok_def walk_inv_def subset_iff)

lemma new_array_ok:
  assumes inv: "walk_inv E cfg user h0 s" and vs: "\<forall>v \<in> set vs. good h0 s v" and n: "new_array vs s = (r, s')"
  shows "walk_inv E cfg user h0 s' \<and> walk_step E cfg user h0 s s' \<and> good h0 s' r \<and> (\<exists>c. r = VRef c)
    \<and> wk_done s' = wk_done s"
proof -
  let ?ob = "\<lparr>ho_class = ''Array'', ho_elems = Some vs, ho_own = [], ho_inherited = [], ho_marked = False\<rparr>"
  have s': "wk_heap s' = wk_heap s @ [?ob]" "wk_done s' = wk_done s" "r = VRef (length (wk_heap s))"
    using n by (auto simp: new_array_def)
  have len: "length h0 \<le> length (wk_heap s)" using inv by (simp add: walk_inv_def)
  have same: "x < length (wk_heap s) \<Longrightarrow> wk_heap s' ! x = wk_heap s ! x" for x
    by (simp add: s'(1) nth_append)
  have done_lt: "x \<in> set (wk_done s) \<Longrightarrow> x < length (wk_heap s)" for x
    using inv len by (auto simp: walk_inv_def subset_iff)
  have step: "walk_step E cfg user h0 s s'"
    using same done_lt by (simp add: walk_step_def s')
  have new: "settled E cfg user h0 s' (length (wk_heap s))"
    using vs good_mono [OF step] len by (auto simp: settled_def s'(1) vals_of_def clean_def)
  have old: "settled E cfg user h0 s' x" if "x < length (wk_heap s)" "length h0 \<le> x" for x
    using settled_mono [OF step _ same [OF that(1)]] inv that by (simp add: walk_inv_def)
  have "heap_ok (wk_heap s')"
    unfolding s'(1)
    using inv vs good_val_ok [OF inv] by (intro heap_ok_append) (auto simp: walk_inv_def vals_of_def intro: val_ok_Suc)
  moreover have "\<forall>x < length (wk_heap s'). cc_noteCheckedObjects cfg \<longrightarrow> \<not> ho_marked (wk_heap s' ! x)"
    using inv by (auto simp: walk_inv_def s'(1) nth_append less_Suc_eq)
  moreover have "\<forall>x < length (wk_heap s'). length h0 \<le> x \<longrightarrow> settled E cfg user h0 s' x"
    using new old by (auto simp: s'(1) less_Suc_eq)
  moreover have "\<forall>x < length h0. x \<notin> set (wk_done s') \<longrightarrow> wk_heap s' ! x = h0 ! x"
    using inv same len by (simp add: walk_inv_def s'(2))
  moreover have "\<forall>x < length h0. shrunk (h0 ! x) (wk_heap s' ! x)"
    using inv same len by (simp add: walk_inv_def)
  ultimately have "walk_inv E cfg user h0 s'" using inv len by (simp add: walk_inv_def s')
  then show ?thesis using step len by (simp add: good_def s')
qed

lemma drop_undefined_subset: "set (drop_undefined cfg vs) \<subseteq> set vs"
  by (auto simp: drop_undefined_def)

text \<open>Visiting an object: it is marked as visited, and settled at the end.\<close>

lemma visit_inv:
  assumes "walk_inv E cfg user h0 s" "a < length h0"
  shows "walk_inv E cfg user h0 (s\<lparr>wk_done := a # wk_done s\<rparr>)"
proof -
  have g: "good h0 s v \<Longrightarrow> good h0 (s\<lparr>wk_done := a # wk_done s\<rparr>) v" for v by (auto simp: good_def)
  show ?thesis using assms g by (auto simp: walk_inv_def settled_def)
qed

lemma visit_step:
  assumes st: "walk_step E cfg user h0 (s\<lparr>wk_done := a # wk_done s\<rparr>) s'" and "settled E cfg user h0 s' a"
  shows "walk_step E cfg user h0 s s'"
  using assms by (auto simp: walk_step_def)

text \<open>Arrays.\<close>

lemma walk_inv_elems:
  assumes inv: "walk_inv E cfg user h0 s" and a: "a < length h0" "a \<notin> set (wk_done s)" and h0: "heap_ok h0"
    and v: "v \<in> vals_of (wk_heap s ! a)"
  shows "val_ok (length h0) v"
proof -
  have "wk_heap s ! a = h0 ! a" using inv a by (simp add: walk_inv_def)
  then show ?thesis using h0 a v by (simp add: heap_ok_def)
qed

lemma check_array_cases:
  assumes "check_array E cfg rec icp data items d s = Inr (r, s')"
  obtains (empty) "items = []" "r = data" "s' = s"
  | (items) rs s1 where "check_items rec icp d items s = Inr (rs, s1)" "new_array (drop_undefined cfg rs) s1 = (r, s')"
  | (denied) r0 s0 where "items \<noteq> []" "is_object (wk_heap s) (hd items)" "rec icp (hd items) d s = Inr (r0, s0)"
      "r0 = VUndef \<or> r0 = VNull"
proof (cases items)
  case Nil
  then show ?thesis using assms that(1) by (simp add: check_array_def)
next
  case (Cons sample others)
  from assms obtain b where b: "(if b
            then then_do (rec icp sample d s) (\<lambda>(sampleResult, s1).
              if sampleResult = VUndef \<or> sampleResult = VNull
              then (if cc_throwError cfg then Inr (data, s1)
                    else Inr (new_array (if cc_removeUndefined cfg then [] else map (\<lambda>_. VUndef) items) s1))
              else then_do (check_items rec icp d others s1)
                (\<lambda>(rs, s2). Inr (new_array (drop_undefined cfg (sampleResult # rs)) s2)))
            else then_do (check_items rec icp d items s)
              (\<lambda>(rs, s'). Inr (new_array (drop_undefined cfg rs) s'))) = Inr (r, s')"
    and o: "sample_decides E (wk_heap s) sample d = Inr b"
    unfolding check_array_def Cons list.case then_do_Inr by blast
  show ?thesis
  proof (cases b)
    case False
    with b show ?thesis using items by (auto simp: then_do_Inr)
  next
    case True
    with b obtain r0 s0 where r0: "rec icp sample d s = Inr (r0, s0)" by (auto simp: then_do_Inr)
    have obj: "is_object (wk_heap s) sample" using o True by (auto simp: sample_decides_def split: if_splits)
    show ?thesis
    proof (cases "r0 = VUndef \<or> r0 = VNull")
      case True
      then show ?thesis using denied [of r0 s0] r0 obj Cons by simp
    next
      case False
      with b \<open>b\<close> r0 obtain rs s2 where "check_items rec icp d others s0 = Inr (rs, s2)"
        "new_array (drop_undefined cfg (r0 # rs)) s2 = (r, s')"
        by (auto simp: then_do_Inr)
      then show ?thesis using items [of "r0 # rs" s2] r0 Cons by simp
    qed
  qed
qed

lemma check_array_ok:
  assumes rec: "call_ok E cfg user h0 rec" and inv: "walk_inv E cfg user h0 s"
    and items: "\<forall>v \<in> set items. val_ok (length h0) v"
    and r: "check_array E cfg rec icp (VRef a) items d s = Inr (r, s')" and a: "a \<in> set (wk_done s)"
  shows "walk_inv E cfg user h0 s' \<and> walk_step E cfg user h0 s s' \<and> good h0 s' r \<and> (\<exists>c. r = VRef c)
    \<and> (\<forall>b. VRef b \<in> set items \<longrightarrow> b \<in> set (wk_done s'))"
  using r
proof (cases rule: check_array_cases)
  case empty
  then show ?thesis using inv a by (auto simp: good_def)
next
  case (items rs s1)
  note c = check_items_ok [OF rec items(1) inv assms(3)]
  then have v: "\<forall>v \<in> set (drop_undefined cfg rs). good h0 s1 v" using drop_undefined_subset by fastforce
  have i: "walk_inv E cfg user h0 s1" "walk_step E cfg user h0 s s1" using c by blast+
  note n = new_array_ok [OF i(1) v items(2)]
  then have "walk_step E cfg user h0 s s'" using walk_step_trans [OF i(2)] by blast
  then show ?thesis using n c by metis
next
  case (denied r0 s0)
  then have "val_ok (length h0) (hd items)" using items by simp
  with denied show ?thesis using call_okD(5) [OF rec inv] by blast
qed

text \<open>Objects: the loop over the keys.\<close>

lemma own_iff: "jsmap_ok m \<Longrightarrow> (k, v) \<in> set m \<longleftrightarrow> map_of m k = Some v"
  by (simp add: jsmap_ok_def)

lemma vals_of_object: "ho_elems ob = None \<Longrightarrow> jsmap_ok (ho_own ob) \<Longrightarrow> v \<in> vals_of ob \<longleftrightarrow> (\<exists>k. map_of (ho_own ob) k = Some v)"
  by (force simp: vals_of_def own_iff image_iff simp flip: own_iff)

text \<open>The part of the object that the loop has dealt with; \<open>ks\<close> are the keys to come.\<close>

definition loop_inv ::
  "meta_env \<Rightarrow> check_config \<Rightarrow> requester option \<Rightarrow> heap \<Rightarrow> nat \<Rightarrow> string list \<Rightarrow> walk \<Rightarrow> bool" where
  "loop_inv E cfg user h0 a ks s \<longleftrightarrow>
     walk_inv E cfg user h0 s \<and> a \<in> set (wk_done s) \<and> same_shape (h0 ! a) (wk_heap s ! a) \<and> ho_elems (h0 ! a) = None
   \<and> distinct ks
   \<and> (\<forall>k \<in> set ks. map_of (ho_own (wk_heap s ! a)) k = map_of (ho_own (h0 ! a)) k)
   \<and> (\<forall>k v. map_of (ho_own (wk_heap s ! a)) k = Some v \<longrightarrow> k \<notin> set ks \<longrightarrow>
        good h0 s v \<and> (model_instance (h0 ! a) \<longrightarrow> forbidden E cfg user (ho_class (h0 ! a)) k \<longrightarrow> skipped cfg v))"

text \<open>The steps of the loop change the object itself and nothing else that was visited.\<close>

definition loop_step :: "meta_env \<Rightarrow> check_config \<Rightarrow> requester option \<Rightarrow> heap \<Rightarrow> nat \<Rightarrow> walk \<Rightarrow> walk \<Rightarrow> bool" where
  "loop_step E cfg user h0 a s s' \<longleftrightarrow>
     set (wk_done s) \<subseteq> set (wk_done s') \<and> length (wk_heap s) \<le> length (wk_heap s')
   \<and> (\<forall>x \<in> set (wk_done s). x \<noteq> a \<longrightarrow> wk_heap s' ! x = wk_heap s ! x)
   \<and> (\<forall>x < length (wk_heap s). length h0 \<le> x \<longrightarrow> wk_heap s' ! x = wk_heap s ! x)
   \<and> (\<forall>x \<in> set (wk_done s') - set (wk_done s). settled E cfg user h0 s' x)"

lemma loop_step_refl [simp]: "loop_step E cfg user h0 a s s"
  by (simp add: loop_step_def)

lemma loop_step_of_walk: "walk_step E cfg user h0 s s' \<Longrightarrow> loop_step E cfg user h0 a s s'"
  by (simp add: loop_step_def walk_step_def)

lemma loop_good_mono: "loop_step E cfg user h0 a s s' \<Longrightarrow> good h0 s v \<Longrightarrow> good h0 s' v"
  by (auto simp: loop_step_def good_def)

lemma loop_step_trans:
  assumes "loop_step E cfg user h0 a s s1" "loop_step E cfg user h0 a s1 s2" "a \<in> set (wk_done s)"
  shows "loop_step E cfg user h0 a s s2"
proof -
  have "settled E cfg user h0 s2 x" if x: "x \<in> set (wk_done s2)" "x \<notin> set (wk_done s)" for x
  proof (cases "x \<in> set (wk_done s1)")
    case True
    have "x \<noteq> a" using x assms(3) by auto
    then have "settled E cfg user h0 s1 x" "wk_heap s2 ! x = wk_heap s1 ! x"
      using assms x True by (auto simp: loop_step_def)
    then show ?thesis using loop_good_mono [OF assms(2)] by (simp add: settled_def)
  next
    case False
    then show ?thesis using assms(2) x by (auto simp: loop_step_def)
  qed
  moreover have "set (wk_done s) \<subseteq> set (wk_done s2)" "length (wk_heap s) \<le> length (wk_heap s2)"
    using assms by (auto simp: loop_step_def)
  moreover have "\<forall>x \<in> set (wk_done s). x \<noteq> a \<longrightarrow> wk_heap s2 ! x = wk_heap s ! x"
    using assms by (auto simp: loop_step_def subset_iff)
  moreover have "\<forall>x < length (wk_heap s). length h0 \<le> x \<longrightarrow> wk_heap s2 ! x = wk_heap s ! x"
    using assms by (auto simp: loop_step_def)
  ultimately show ?thesis by (simp add: loop_step_def)
qed

text \<open>Changing the own properties of a visited object to good values.\<close>

lemma change_own:
  assumes inv: "walk_inv E cfg user h0 s" and a: "a \<in> set (wk_done s)" and el: "ho_elems (wk_heap s ! a) = None"
    and ok: "jsmap_ok m" and vals: "\<forall>k v. map_of m k = Some v \<longrightarrow> val_ok (length (wk_heap s)) v"
    and keys: "fst ` set m \<subseteq> fst ` set (ho_own (wk_heap s ! a))"
    and s': "s' = s\<lparr>wk_heap := (wk_heap s)[a := (wk_heap s ! a)\<lparr>ho_own := m\<rparr>]\<rparr>"
  shows "walk_inv E cfg user h0 s'" "loop_step E cfg user h0 a s s'" "wk_heap s' ! a = (wk_heap s ! a)\<lparr>ho_own := m\<rparr>"
proof -
  have a0: "a < length h0" "a < length (wk_heap s)" using inv a by (auto simp: walk_inv_def subset_iff)
  have eq: "wk_heap s' ! x = wk_heap s ! x" if "x \<noteq> a" for x using that by (simp add: s')
  show at: "wk_heap s' ! a = (wk_heap s ! a)\<lparr>ho_own := m\<rparr>" using a0 by (simp add: s')
  have len: "length (wk_heap s') = length (wk_heap s)" "wk_done s' = wk_done s" by (simp_all add: s')
  show "loop_step E cfg user h0 a s s'" using eq a0 by (auto simp: loop_step_def len)
  have g: "good h0 s' v \<longleftrightarrow> good h0 s v" for v by (simp add: good_def len)
  have "vals_of ((wk_heap s ! a)\<lparr>ho_own := m\<rparr>) = snd ` set m" by (simp add: vals_of_def el)
  then have "\<forall>v \<in> vals_of ((wk_heap s ! a)\<lparr>ho_own := m\<rparr>). val_ok (length (wk_heap s)) v"
    using vals ok by (auto simp: own_iff)
  then have "jsmap_ok (ho_own (wk_heap s' ! x)) \<and> (\<forall>v \<in> vals_of (wk_heap s' ! x). val_ok (length (wk_heap s)) v)"
    if "x < length (wk_heap s)" for x
    using inv ok at eq that by (cases "x = a") (simp_all add: walk_inv_def heap_ok_def)
  then have "heap_ok (wk_heap s')" by (simp add: heap_ok_def len)
  moreover have "cc_noteCheckedObjects cfg \<longrightarrow> \<not> ho_marked (wk_heap s' ! x)" if "x < length (wk_heap s')" for x
    using inv at eq that by (cases "x = a") (simp_all add: walk_inv_def len)
  moreover have "x \<notin> set (wk_done s') \<longrightarrow> wk_heap s' ! x = h0 ! x" if "x < length h0" for x
    using inv a eq that by (cases "x = a") (simp_all add: walk_inv_def len)
  moreover have "\<forall>x < length (wk_heap s'). length h0 \<le> x \<longrightarrow> settled E cfg user h0 s' x"
    using inv a0 eq by (auto simp: walk_inv_def len settled_def g)
  moreover have "shrunk (h0 ! x) (wk_heap s' ! x)" if "x < length h0" for x
  proof (cases "x = a")
    case True
    have "shrunk (h0 ! a) (wk_heap s ! a)" using inv a0 by (simp add: walk_inv_def)
    then show ?thesis using keys True by (auto simp: at shrunk_def same_shape_def)
  next
    case False
    then show ?thesis using inv that eq by (simp add: walk_inv_def)
  qed
  ultimately show "walk_inv E cfg user h0 s'" using inv by (simp add: walk_inv_def len)
qed

text \<open>What the metadata says of a model instance.\<close>

lemma object_metadata:
  assumes "model_instance ob" "hget h a = Some ob'" "ho_class ob' = ho_class ob"
  shows "metadata_owner ob d = VCls (ho_class ob)" "metadata_target a ob d = OnValue (VRef a)"
    "restrictions_of E h (OnValue (metadata_owner ob d)) None = Inr (class_restrictions E (ho_class ob) None)"
    "restrictions_of E h (OnValue (VRef a)) (Some k) = Inr (class_restrictions E (ho_class ob) (Some k))"
proof -
  show o: "metadata_owner ob d = VCls (ho_class ob)"
    using assms(1) by (simp add: metadata_owner_def model_instance_def truthy_def)
  show "metadata_target a ob d = OnValue (VRef a)"
    using assms(1) by (simp add: metadata_target_def o model_instance_def Let_def)
  show "restrictions_of E h (OnValue (metadata_owner ob d)) None = Inr (class_restrictions E (ho_class ob) None)"
    by (simp add: o restrictions_of_def getRestricted_def truthy_def reflect_getMetadata_def class_restrictions_def)
  show "restrictions_of E h (OnValue (VRef a)) (Some k) = Inr (class_restrictions E (ho_class ob) (Some k))"
    using assms(2,3)
    by (simp add: restrictions_of_def getRestricted_def truthy_def reflect_getMetadata_def class_restrictions_def)
qed

lemma vprop_own: "a < length h \<Longrightarrow> map_of (ho_own (h ! a)) k = Some v \<Longrightarrow> vprop h (VRef a) k = v"
  by (simp add: vprop_def oprop_def)

text \<open>The three ways one key is dealt with.\<close>

lemma loop_skip:
  assumes "loop_inv E cfg user h0 a (k # ks) s" "map_of (ho_own (h0 ! a)) k = Some v" "skipped cfg v"
  shows "loop_inv E cfg user h0 a ks s"
proof -
  have "good h0 s v" using assms(3) by (auto simp: skipped_def is_class_def intro: good_nonref split: val.splits)
  then have "good h0 s v' \<and> (model_instance (h0 ! a) \<longrightarrow> forbidden E cfg user (ho_class (h0 ! a)) k' \<longrightarrow> skipped cfg v')"
    if "map_of (ho_own (wk_heap s ! a)) k' = Some v'" "k' \<notin> set ks" for k' v'
    using assms that by (cases "k' = k") (simp_all add: loop_inv_def)
  then show ?thesis using assms(1) by (simp add: loop_inv_def)
qed

lemma loop_change:
  assumes inv: "loop_inv E cfg user h0 a (k # ks) s" and ok: "jsmap_ok m"
    and m: "\<And>k'. map_of m k' = (if k' = k then x else map_of (ho_own (wk_heap s ! a)) k')"
    and kin: "k \<in> fst ` set (ho_own (wk_heap s ! a))"
    and x: "\<And>v. x = Some v \<Longrightarrow> good h0 s v \<and> (model_instance (h0 ! a) \<longrightarrow> \<not> forbidden E cfg user (ho_class (h0 ! a)) k)"
    and s': "s' = s\<lparr>wk_heap := (wk_heap s)[a := (wk_heap s ! a)\<lparr>ho_own := m\<rparr>]\<rparr>"
  shows "loop_inv E cfg user h0 a ks s' \<and> loop_step E cfg user h0 a s s'"
proof -
  have wi: "walk_inv E cfg user h0 s" and a: "a \<in> set (wk_done s)" and sh: "same_shape (h0 ! a) (wk_heap s ! a)"
    and el: "ho_elems (h0 ! a) = None" and d: "distinct (k # ks)"
    and todo: "\<forall>k' \<in> set (k # ks). map_of (ho_own (wk_heap s ! a)) k' = map_of (ho_own (h0 ! a)) k'"
    and finished: "\<forall>k' v. map_of (ho_own (wk_heap s ! a)) k' = Some v \<longrightarrow> k' \<notin> set (k # ks) \<longrightarrow>
        good h0 s v \<and> (model_instance (h0 ! a) \<longrightarrow> forbidden E cfg user (ho_class (h0 ! a)) k' \<longrightarrow> skipped cfg v)"
    using inv unfolding loop_inv_def by blast+
  have e: "ho_elems (wk_heap s ! a) = None" using sh el by (simp add: same_shape_def)
  have a0: "a < length (wk_heap s)" using wi a by (auto simp: walk_inv_def subset_iff)
  have old: "jsmap_ok (ho_own (wk_heap s ! a))" "\<And>k v. map_of (ho_own (wk_heap s ! a)) k = Some v \<Longrightarrow> val_ok (length (wk_heap s)) v"
  proof -
    have h: "jsmap_ok (ho_own (wk_heap s ! a))" "\<forall>v \<in> vals_of (wk_heap s ! a). val_ok (length (wk_heap s)) v"
      using wi a0 by (simp_all add: walk_inv_def heap_ok_def)
    show "jsmap_ok (ho_own (wk_heap s ! a))" by (rule h(1))
    show "val_ok (length (wk_heap s)) v" if "map_of (ho_own (wk_heap s ! a)) k = Some v" for k v
      using h(2) that vals_of_object [OF e h(1)] by blast
  qed
  have "\<forall>k' v. map_of m k' = Some v \<longrightarrow> val_ok (length (wk_heap s)) v"
    using old(2) x good_val_ok [OF wi] by (auto simp: m)
  moreover have "fst ` set m \<subseteq> fst ` set (ho_own (wk_heap s ! a))"
    using kin unfolding dom_map_of_conv_image_fst [symmetric] by (auto simp: m split: if_splits)
  ultimately have c: "walk_inv E cfg user h0 s'" "loop_step E cfg user h0 a s s'"
    "wk_heap s' ! a = (wk_heap s ! a)\<lparr>ho_own := m\<rparr>"
    by (rule change_own [OF wi a e ok _ _ s'])+
  have g: "good h0 s' v \<longleftrightarrow> good h0 s v" for v by (simp add: good_def s')
  have "\<forall>k' \<in> set ks. map_of m k' = map_of (ho_own (h0 ! a)) k'" using todo d by (auto simp: m)
  moreover have "\<forall>k' v. map_of m k' = Some v \<longrightarrow> k' \<notin> set ks \<longrightarrow>
        good h0 s v \<and> (model_instance (h0 ! a) \<longrightarrow> forbidden E cfg user (ho_class (h0 ! a)) k' \<longrightarrow> skipped cfg v)"
    using finished x by (auto simp: m split: if_splits)
  moreover have "same_shape (h0 ! a) (wk_heap s' ! a)" using sh by (simp add: c(3) same_shape_def)
  moreover have "a \<in> set (wk_done s')" using a by (simp add: s')
  ultimately have "loop_inv E cfg user h0 a ks s'"
    using c(1) el d by (simp add: loop_inv_def c(3) g)
  then show ?thesis using c(2) by blast
qed

lemma loop_call:
  assumes "loop_inv E cfg user h0 a ks s" "walk_inv E cfg user h0 s'" "walk_step E cfg user h0 s s'"
  shows "loop_inv E cfg user h0 a ks s'"
proof -
  have a: "a \<in> set (wk_done s)" using assms(1) by (simp add: loop_inv_def)
  then have "wk_heap s' ! a = wk_heap s ! a" "a \<in> set (wk_done s')" using assms(3) by (auto simp: walk_step_def)
  then show ?thesis using assms(1,2) good_mono [OF assms(3)] by (simp add: loop_inv_def)
qed

lemma loop_key:
  assumes "loop_inv E cfg user h0 a (k # ks) s" "k \<in> fst ` set (ho_own (h0 ! a))"
  shows "k \<in> fst ` set (ho_own (wk_heap s ! a))"
proof -
  have "map_of (ho_own (wk_heap s ! a)) k = map_of (ho_own (h0 ! a)) k" using assms(1) by (simp add: loop_inv_def)
  then show ?thesis using assms(2) by (metis map_of_eq_None_iff)
qed

text \<open>The value of the next key is the one it had at the start.\<close>

lemma loop_value:
  assumes inv: "loop_inv E cfg user h0 a (k # ks) s" and h0: "heap_ok h0" and k: "k \<in> fst ` set (ho_own (h0 ! a))"
  shows "map_of (ho_own (h0 ! a)) k = Some (vprop (wk_heap s) (VRef a) k)"
    "val_ok (length h0) (vprop (wk_heap s) (VRef a) k)" "a < length h0" "a < length (wk_heap s)" "walk_inv E cfg user h0 s"
proof -
  have wi: "walk_inv E cfg user h0 s" and a: "a \<in> set (wk_done s)" and el: "ho_elems (h0 ! a) = None"
    using inv by (simp_all add: loop_inv_def)
  show "walk_inv E cfg user h0 s" by (rule wi)
  show al: "a < length h0" "a < length (wk_heap s)" using wi a by (auto simp: walk_inv_def subset_iff)
  have m0: "jsmap_ok (ho_own (h0 ! a))" using h0 al by (simp add: heap_ok_def)
  obtain v where v0: "map_of (ho_own (h0 ! a)) k = Some v"
    using k by (auto simp: image_iff) (metis m0 own_iff)
  then have "map_of (ho_own (wk_heap s ! a)) k = Some v" using inv by (simp add: loop_inv_def)
  then have v: "vprop (wk_heap s) (VRef a) k = v" by (rule vprop_own [OF al(2)])
  then show "map_of (ho_own (h0 ! a)) k = Some (vprop (wk_heap s) (VRef a) k)" using v0 by simp
  show "val_ok (length h0) (vprop (wk_heap s) (VRef a) k)"
    using h0 al(1) vals_of_object [OF el m0] v0 v by (auto simp: heap_ok_def)
qed

lemma valid_not_forbidden:
  assumes inv: "loop_inv E cfg user h0 a (k # ks) s" and mi: "model_instance (h0 ! a)"
    and meta: "tgt = OnValue (VRef a) \<and> object_rs = class_restrictions E (ho_class (h0 ! a)) None"
    and rs: "restrictions_of E (wk_heap s) tgt (Some k) = Inr rs"
    and valid: "validateRestricted E (cfg\<lparr>cc_isCreatorOfParent := icp\<rparr>) (wk_heap s) user (VRef a)
                  (merged_restrictions cfg object_rs rs) = Inr True"
  shows "\<not> forbidden E cfg user (ho_class (h0 ! a)) k"
proof
  assume f: "forbidden E cfg user (ho_class (h0 ! a)) k"
  have wi: "walk_inv E cfg user h0 s" and sh: "same_shape (h0 ! a) (wk_heap s ! a)" and alen: "a < length (wk_heap s)"
    using inv by (auto simp: loop_inv_def walk_inv_def subset_iff)
  have "rs = class_restrictions E (ho_class (h0 ! a)) (Some k)"
    using rs meta object_metadata(4) [OF mi hget_Some [OF alen]] sh by (simp add: same_shape_def)
  then have "always_denied E cfg user (merged_restrictions cfg object_rs rs)"
    using f meta by (simp add: forbidden_def)
  moreover have "\<not> (cc_noteCheckedObjects cfg \<and> hasRestrictionsCheckedMarker (wk_heap s) (VRef a))"
    using wi alen by (auto simp: walk_inv_def hasRestrictionsCheckedMarker_def)
  ultimately have "validateRestricted E (cfg\<lparr>cc_isCreatorOfParent := icp\<rparr>) (wk_heap s) user (VRef a)
                  (merged_restrictions cfg object_rs rs) = Inr False" by (rule always_denied_validate)
  then show False using valid by simp
qed

lemma loop_allowed:
  assumes rec: "call_ok E cfg user h0 rec" and inv: "loop_inv E cfg user h0 a (k # ks) s"
    and v: "val_ok (length h0) v" and r: "rec icp' v d s = Inr (r, s1)"
    and nf: "model_instance (h0 ! a) \<Longrightarrow> \<not> forbidden E cfg user (ho_class (h0 ! a)) k"
    and k: "k \<in> fst ` set (ho_own (h0 ! a))"
  shows "loop_inv E cfg user h0 a ks (set_prop a k r s1) \<and> loop_step E cfg user h0 a s (set_prop a k r s1)"
proof -
  have wi: "walk_inv E cfg user h0 s" and a: "a \<in> set (wk_done s)" using inv by (simp_all add: loop_inv_def)
  note c = call_okD(1,2,3) [OF rec wi v r]
  have i1: "loop_inv E cfg user h0 a (k # ks) s1" using loop_call [OF inv c(1,2)] .
  then have a1: "a < length (wk_heap s1)" by (auto simp: loop_inv_def walk_inv_def subset_iff)
  then have "jsmap_ok (ho_own (wk_heap s1 ! a))" using c(1) by (simp add: walk_inv_def heap_ok_def)
  then have ok: "jsmap_ok (AList.update k r (ho_own (wk_heap s1 ! a)))" by (rule jsmap_ok_update)
  have x: "good h0 s1 w \<and> (model_instance (h0 ! a) \<longrightarrow> \<not> forbidden E cfg user (ho_class (h0 ! a)) k)" if "Some r = Some w" for w
    using that c(3) nf by simp
  have u: "map_of (AList.update k r (ho_own (wk_heap s1 ! a))) k' = (if k' = k then Some r else map_of (ho_own (wk_heap s1 ! a)) k')" for k'
    by (rule map_of_update_eq)
  have "loop_inv E cfg user h0 a ks (set_prop a k r s1) \<and> loop_step E cfg user h0 a s1 (set_prop a k r s1)"
    using loop_change [OF i1 ok u loop_key [OF i1 k] x refl] by (simp add: set_prop_def)
  then show ?thesis using loop_step_trans [OF loop_step_of_walk [OF c(2)] _ a] by blast
qed

lemma loop_removed:
  assumes inv: "loop_inv E cfg user h0 a (k # ks) s" and k: "k \<in> fst ` set (ho_own (h0 ! a))"
  shows "loop_inv E cfg user h0 a ks (delete_prop a k s) \<and> loop_step E cfg user h0 a s (delete_prop a k s)"
proof -
  have "jsmap_ok (ho_own (wk_heap s ! a))" using inv by (auto simp: loop_inv_def walk_inv_def heap_ok_def subset_iff)
  then have ok: "jsmap_ok (AList.delete k (ho_own (wk_heap s ! a)))" by (rule jsmap_ok_delete)
  have d: "map_of (AList.delete k (ho_own (wk_heap s ! a))) k' = (if k' = k then None else map_of (ho_own (wk_heap s ! a)) k')" for k'
    by (rule map_of_delete_eq)
  show ?thesis using loop_change [OF inv ok d loop_key [OF inv k] _ refl] by (simp add: delete_prop_def)
qed

lemma check_props_ok:
  assumes rec: "call_ok E cfg user h0 rec" and h0: "heap_ok h0"
    and meta: "model_instance (h0 ! a) \<Longrightarrow> tgt = OnValue (VRef a) \<and> object_rs = class_restrictions E (ho_class (h0 ! a)) None"
  shows "check_props E cfg user rec a owner tgt object_rs ks icp s = Inr s' \<Longrightarrow> loop_inv E cfg user h0 a ks s \<Longrightarrow>
    set ks \<subseteq> fst ` set (ho_own (h0 ! a)) \<Longrightarrow> loop_inv E cfg user h0 a [] s' \<and> loop_step E cfg user h0 a s s'"
proof (induction ks arbitrary: icp s)
  case Nil
  then show ?case by simp
next
  case (Cons k ks)
  note inv = Cons.prems(2)
  define v where "v = vprop (wk_heap s) (VRef a) k"
  have kin: "k \<in> fst ` set (ho_own (h0 ! a))" and sub: "set ks \<subseteq> fst ` set (ho_own (h0 ! a))" using Cons.prems(3) by simp_all
  note lv = loop_value [OF inv h0 kin, folded v_def]
  have a: "a \<in> set (wk_done s)" using inv by (simp add: loop_inv_def)
  note run = Cons.prems(1) [unfolded check_props.simps Let_def, folded v_def]
  show ?case
  proof (cases "skipped cfg v")
    case True
    with run have "check_props E cfg user rec a owner tgt object_rs ks icp s = Inr s'"
      unfolding skipped_def by (metis (full_types))
    then show ?thesis using Cons.IH loop_skip [OF inv lv(1) True] sub by blast
  next
    case False
    then obtain rs valid where rs: "restrictions_of E (wk_heap s) tgt (Some k) = Inr rs"
      and valid: "validateRestricted E (cfg\<lparr>cc_isCreatorOfParent := icp\<rparr>) (wk_heap s) user (VRef a)
                      (merged_restrictions cfg object_rs rs) = Inr valid"
      and cont: "(if valid
             then then_do (creator_of_parent E (cfg\<lparr>cc_isCreatorOfParent := icp\<rparr>) (wk_heap s) user (VRef a)) (\<lambda>icp'.
                  then_do (rec icp' v (if truthy owner then resolveNestedType E owner k else VUndef) s) (\<lambda>(r, s').
                    check_props E cfg user rec a owner tgt object_rs ks icp' (set_prop a k r s')))
             else if cc_throwError cfg then Inl (accessDeniedException user)
             else check_props E cfg user rec a owner tgt object_rs ks icp (delete_prop a k s)) = Inr s'"
      using run unfolding skipped_def by (auto simp: then_do_Inr simp del: not_None_eq)
    have "\<exists>icp' s2. check_props E cfg user rec a owner tgt object_rs ks icp' s2 = Inr s'
        \<and> loop_inv E cfg user h0 a ks s2 \<and> loop_step E cfg user h0 a s s2"
    proof (cases valid)
      case True
      with cont obtain icp' r s1 where r: "rec icp' v (if truthy owner then resolveNestedType E owner k else VUndef) s = Inr (r, s1)"
        and next_: "check_props E cfg user rec a owner tgt object_rs ks icp' (set_prop a k r s1) = Inr s'"
        by (auto simp: then_do_Inr)
      have nf: "\<not> forbidden E cfg user (ho_class (h0 ! a)) k" if mi: "model_instance (h0 ! a)"
        using valid_not_forbidden [OF inv mi meta [OF mi] rs] valid True by simp
      then show ?thesis using loop_allowed [OF rec inv lv(2) r nf kin] next_ by blast
    next
      case invalid: False
      with cont have "check_props E cfg user rec a owner tgt object_rs ks icp (delete_prop a k s) = Inr s'"
        by (auto split: if_splits)
      then show ?thesis using loop_removed [OF inv kin] by blast
    qed
    then show ?thesis using Cons.IH sub loop_step_trans [OF _ _ a] by blast
  qed
qed

lemma loop_start:
  assumes "walk_inv E cfg user h0 s" "heap_ok h0" "a < length h0" "a \<notin> set (wk_done s)" "ho_elems (h0 ! a) = None"
  shows "loop_inv E cfg user h0 a (map fst (ho_own (h0 ! a))) (s\<lparr>wk_done := a # wk_done s\<rparr>)"
proof -
  have "wk_heap s ! a = h0 ! a" using assms by (simp add: walk_inv_def)
  moreover have "distinct (map fst (ho_own (h0 ! a)))" using assms(2,3) by (simp add: heap_ok_def jsmap_ok_def)
  ultimately show ?thesis
    using visit_inv [OF assms(1,3)] assms(5)
    by (auto simp: loop_inv_def same_shape_def dest!: map_of_SomeD intro: rev_image_eqI)
qed

lemma loop_end:
  assumes li: "loop_inv E cfg user h0 a [] s'" and ls: "loop_step E cfg user h0 a (s\<lparr>wk_done := a # wk_done s\<rparr>) s'"
    and a: "a \<notin> set (wk_done s)"
  shows "walk_step E cfg user h0 s s'"
proof -
  have wi: "walk_inv E cfg user h0 s'" and el: "ho_elems (wk_heap s' ! a) = None" and ad: "a \<in> set (wk_done s')"
    and fin: "\<And>k v. map_of (ho_own (wk_heap s' ! a)) k = Some v \<Longrightarrow>
        good h0 s' v \<and> (model_instance (h0 ! a) \<longrightarrow> forbidden E cfg user (ho_class (h0 ! a)) k \<longrightarrow> skipped cfg v)"
    using li by (simp_all add: loop_inv_def same_shape_def)
  have "a < length (wk_heap s')" using wi ad by (auto simp: walk_inv_def subset_iff)
  then have ok: "jsmap_ok (ho_own (wk_heap s' ! a))" using wi by (simp add: walk_inv_def heap_ok_def)
  have v: "good h0 s' v" if "v \<in> vals_of (wk_heap s' ! a)" for v
    using that fin by (auto simp: vals_of_object [OF el ok])
  have c: "clean E cfg user h0 a (wk_heap s' ! a)"
    using fin by (auto simp: clean_def own_iff [OF ok])
  have "settled E cfg user h0 s' a" using v c by (simp add: settled_def)
  then show ?thesis using ls a by (auto simp: loop_step_def walk_step_def)
qed

lemma check_object_ok:
  assumes rec: "call_ok E cfg user h0 rec" and h0: "heap_ok h0" and inv: "walk_inv E cfg user h0 s"
    and a: "a < length h0" "a \<notin> set (wk_done s)" "ho_elems (h0 ! a) = None" and itself: "\<not> cc_checkObjectItself cfg"
    and r: "check_object E cfg user rec icp a (h0 ! a) d (s\<lparr>wk_done := a # wk_done s\<rparr>) = Inr (r, s')"
  shows "walk_inv E cfg user h0 s' \<and> walk_step E cfg user h0 s s' \<and> r = VRef a \<and> a \<in> set (wk_done s')"
proof -
  let ?s1 = "s\<lparr>wk_done := a # wk_done s\<rparr>"
  have alen: "a < length (wk_heap s)" using inv a(1) by (simp add: walk_inv_def)
  have same: "wk_heap s ! a = h0 ! a" using inv a by (simp add: walk_inv_def)
  from r itself obtain object_rs where o: "restrictions_of E (wk_heap s) (OnValue (metadata_owner (h0 ! a) d)) None = Inr object_rs"
    and p: "check_props E cfg user rec a (metadata_owner (h0 ! a) d) (metadata_target a (h0 ! a) d) object_rs
              (map fst (ho_own (h0 ! a))) icp ?s1 = Inr s'" and ra: "r = VRef a"
    by (auto simp: check_object_def Let_def then_do_Inr)
  have meta: "metadata_target a (h0 ! a) d = OnValue (VRef a) \<and> object_rs = class_restrictions E (ho_class (h0 ! a)) None"
    if "model_instance (h0 ! a)"
    using object_metadata(2) [OF that hget_Some [OF alen], where d = d]
      object_metadata(3) [OF that hget_Some [OF alen], where d = d] o same by simp
  have l: "loop_inv E cfg user h0 a [] s' \<and> loop_step E cfg user h0 a ?s1 s'"
    using check_props_ok [OF rec h0 meta p loop_start [OF inv h0 a]] by simp
  then show ?thesis using loop_end [OF _ _ a(2)] ra by (auto simp: loop_inv_def)
qed

lemma check_body_ok:
  assumes rec: "call_ok E cfg user h0 rec" and h0: "heap_ok h0" and itself: "\<not> cc_checkObjectItself cfg"
  shows "call_ok E cfg user h0 (check_body E cfg user rec)"
  unfolding call_ok_def
proof (intro allI impI)
  fix icp v d s r s'
  assume inv: "walk_inv E cfg user h0 s" and v: "val_ok (length h0) v"
    and r: "check_body E cfg user rec icp v d s = Inr (r, s')"
  let ?goal = "walk_inv E cfg user h0 s' \<and> walk_step E cfg user h0 s s' \<and> good h0 s' r
      \<and> (\<forall>b. v = VRef b \<longrightarrow> b \<in> set (wk_done s') \<and> (\<exists>c. r = VRef c)) \<and> ((\<forall>b. v \<noteq> VRef b) \<longrightarrow> r = v)"
  show ?goal
  proof (cases "\<exists>a. v = VRef a")
    case False
    then have "r = v" "s' = s" using r by (auto simp: check_body_def split: val.splits)
    then show ?thesis using False inv by (auto simp: good_def)
  next
    case True
    then obtain a where a: "v = VRef a" "a < length h0" using v by (auto simp: val_ok_def)
    have alen: "a < length (wk_heap s)" using inv a(2) by (simp add: walk_inv_def)
    have mk: "\<not> (cc_noteCheckedObjects cfg \<and> hasRestrictionsCheckedMarker (wk_heap s) v)"
      using inv alen a by (auto simp: walk_inv_def hasRestrictionsCheckedMarker_def)
    show ?thesis
    proof (cases "a \<in> set (wk_done s)")
      case True
      then have "r = v" "s' = s" using r a alen mk by (auto simp: check_body_def)
      then show ?thesis using True inv a by (auto simp: good_def)
    next
      case False
      have same: "wk_heap s ! a = h0 ! a" using inv a False by (simp add: walk_inv_def)
      let ?s1 = "s\<lparr>wk_done := a # wk_done s\<rparr>"
      note vi = visit_inv [OF inv a(2)]
      show ?thesis
      proof (cases "ho_elems (h0 ! a)")
        case None
        then have "check_object E cfg user rec icp a (h0 ! a) d ?s1 = Inr (r, s')"
          using r a alen mk False same by (auto simp: check_body_def Let_def)
        from check_object_ok [OF rec h0 inv a(2) False None itself this] show ?thesis
          using a by (auto simp: good_def)
      next
        case (Some items)
        have arr: "check_array E cfg rec icp (VRef a) items d ?s1 = Inr (r, s')"
          using r a alen mk False same Some by (auto simp: check_body_def Let_def)
        have "\<forall>v \<in> set items. val_ok (length h0) v"
          using h0 a(2) Some by (auto simp: heap_ok_def vals_of_def)
        from check_array_ok [OF rec vi this arr] have c: "walk_inv E cfg user h0 s'" "walk_step E cfg user h0 ?s1 s'"
          "good h0 s' r" "\<exists>c. r = VRef c" "\<forall>b. VRef b \<in> set items \<longrightarrow> b \<in> set (wk_done s')"
          by auto
        have at: "wk_heap s' ! a = h0 ! a" "a \<in> set (wk_done s')" using c(2) same by (auto simp: walk_step_def)
        have "settled E cfg user h0 s' a"
          using c(5) Some by (auto simp: settled_def at(1) vals_of_def good_def clean_def model_instance_def)
        then show ?thesis using visit_step [OF c(2)] c a at(2) by auto
      qed
    qed
  qed
qed

lemma check_within_ok:
  assumes "heap_ok h0" "\<not> cc_checkObjectItself cfg"
  shows "call_ok E cfg user h0 (check_within n E cfg user)"
proof (induction n)
  case 0
  then show ?case by (simp add: call_ok_def)
next
  case (Suc n)
  have "check_within (Suc n) E cfg user = check_body E cfg user (check_within n E cfg user)"
    by (intro ext) simp
  then show ?case using check_body_ok [OF Suc assms] by simp
qed

lemma walk_start:
  assumes "heap_ok h" "cc_noteCheckedObjects cfg \<longrightarrow> list_all (\<lambda>ob. \<not> ho_marked ob) h"
  shows "walk_inv E cfg user h \<lparr>wk_heap = h, wk_done = []\<rparr>"
  using assms by (auto simp: walk_inv_def list_all_iff)

text \<open>Everything a good value reaches at the end is settled.\<close>

lemma reaches_settled:
  assumes inv: "walk_inv E cfg user h0 s" and st: "\<forall>x \<in> set (wk_done s). settled E cfg user h0 s x" and "good h0 s v"
  shows "reaches (wk_heap s) v b \<Longrightarrow> settled E cfg user h0 s b"
proof (induction rule: reaches.induct)
  case (here a)
  then show ?case using assms by (auto simp: good_def walk_inv_def)
next
  case (there a b)
  then have "good h0 s (VRef b)" by (simp add: settled_def)
  then show ?case using inv st there(3) by (auto simp: good_def walk_inv_def)
qed

subsection \<open>One frame per object is enough\<close>

definition calm :: "js_error + 'a \<Rightarrow> bool" where
  "calm r = (r \<noteq> Inl (RangeError ''checkRestricted''))"

lemma calm_simps [simp]: "calm (Inr x)" "calm (Inl TypeError)" "calm (Inl BSONError)" "calm (Inl Forbidden)"
  "calm (Inl Unauthorized)" "calm (Inl (RangeError ''getStringId''))" "calm (Inl (RangeError ''getStringIds''))"
  by (simp_all add: calm_def)

lemma calm_then [intro]: "calm r \<Longrightarrow> (\<And>x. r = Inr x \<Longrightarrow> calm (f x)) \<Longrightarrow> calm (then_do r f)"
  by (cases r) (auto simp: calm_def)

lemma calm_js_or [intro]: "calm a \<Longrightarrow> calm b \<Longrightarrow> calm (js_or a b)"
  unfolding js_or_def by (rule calm_then) auto

lemma calm_js_and [intro]: "calm b \<Longrightarrow> calm (js_and a b)"
  by (simp add: js_and_def)

lemma calm_objectStringId: "(\<And>v. calm (rec v)) \<Longrightarrow> calm (objectStringId rt rec ob)"
  by (auto simp: objectStringId_def split: val.splits)

lemma calm_getStringId: "calm (getStringId rt h n v)"
proof (induction n arbitrary: v)
  case (Suc n)
  have "calm (objectStringId rt (getStringId rt h n) ob)" for ob by (rule calm_objectStringId) (rule Suc)
  then show ?case by (auto split: val.splits option.splits)
qed simp

lemma calm_list_string_ids: "calm (list_string_ids rt h n deep vs)"
  by (induction rt h n deep vs rule: list_string_ids.induct)
    (auto intro!: calm_then calm_getStringId split: option.splits nat.splits)

lemma calm_string_ids: "calm (getStringIds rt h deep unique e)"
  by (auto simp: getStringIds_def Let_def intro!: calm_then calm_list_string_ids calm_getStringId calm_objectStringId
      split: element.splits option.splits)

lemma calm_every_equals: "calm (every_equals rt h c is)"
  by (induction "is") (auto intro!: calm_then calm_string_ids)

lemma calm_equalIds: "calm (equalIds rt h ids)"
  unfolding equalIds_def
  by (rule calm_then) (auto intro!: calm_string_ids calm_every_equals split: list.splits string_ids.splits)

lemma calm_included_of: "calm (included_of rt h strings is)"
  by (induction "is") (auto intro!: calm_then calm_string_ids)

lemma calm_group_access: "calm (group_access E cfg h user groups)"
proof -
  have "calm (element_strings rt h e)" for rt e
    by (auto simp: element_strings_def intro!: calm_then calm_list_string_ids calm_objectStringId calm_getStringId
        simp del: list_string_ids.simps split: element.splits option.splits)
  then have "calm (getIncludedIds rt h i e None)" for rt i e
    by (auto simp: getIncludedIds_def intro!: calm_then calm_included_of)
  then show ?thesis by (auto simp: group_access_def intro!: calm_then)
qed

lemma calm_has_createdBy: "calm (has_createdBy h v)"
  by (auto simp: has_createdBy_def split: val.splits)

lemma calm_creator_access: "calm (creator_access E cfg h user owner)"
  unfolding creator_access_def is_creator_def
  by (auto intro!: calm_then calm_js_or calm_has_createdBy calm_equalIds)

lemma calm_validate: "calm (validateRestricted E cfg h user data rs)"
  unfolding validateRestricted_def role_access_def Let_def is_self_def
  by (auto intro!: calm_js_or calm_js_and calm_group_access calm_creator_access calm_equalIds)

lemma calm_restrictions: "calm (restrictions_of E h tgt key)"
  unfolding restrictions_of_def
  by (rule calm_then) (auto simp: getRestricted_def reflect_getMetadata_def split: meta_target.splits val.splits)

lemma calm_creator_of_parent: "calm (creator_of_parent E cfg h user data)"
  unfolding creator_of_parent_def Let_def is_self_def is_creator_def
  by (auto intro!: calm_js_or calm_then calm_has_createdBy calm_equalIds)

lemmas calm_rules = calm_validate calm_restrictions calm_creator_of_parent

text \<open>
  Two recursive calls agree, and neither exhausts the stack, in every state with fewer than \<open>n\<close> objects left to visit.
\<close>

definition unvisited :: "heap \<Rightarrow> walk \<Rightarrow> nat" where
  "unvisited h0 s = card ({..<length h0} - set (wk_done s))"

definition agree :: "meta_env \<Rightarrow> check_config \<Rightarrow> requester option \<Rightarrow> heap \<Rightarrow> nat \<Rightarrow> checker \<Rightarrow> checker \<Rightarrow> bool" where
  "agree E cfg user h0 n rec rec' = (\<forall>icp v d s. walk_inv E cfg user h0 s \<longrightarrow> val_ok (length h0) v \<longrightarrow>
     unvisited h0 s < n \<longrightarrow> rec icp v d s = rec' icp v d s \<and> calm (rec' icp v d s))"

lemma agreeD:
  assumes "agree E cfg user h0 n rec rec'" "walk_inv E cfg user h0 s" "val_ok (length h0) v" "unvisited h0 s < n"
  shows "rec icp v d s = rec' icp v d s" "calm (rec' icp v d s)"
  using assms unfolding agree_def by metis+

lemma unvisited_mono: "set (wk_done s) \<subseteq> set (wk_done s') \<Longrightarrow> unvisited h0 s' \<le> unvisited h0 s"
  unfolding unvisited_def by (intro card_mono) auto

lemma unvisited_visit: "a < length h0 \<Longrightarrow> a \<notin> set (wk_done s) \<Longrightarrow> unvisited h0 (s\<lparr>wk_done := a # wk_done s\<rparr>) < unvisited h0 s"
  unfolding unvisited_def by (intro psubset_card_mono) auto

lemma check_items_agree:
  assumes ag: "agree E cfg user h0 n rec rec'" and ok: "call_ok E cfg user h0 rec'"
  shows "walk_inv E cfg user h0 s \<Longrightarrow> \<forall>v \<in> set vs. val_ok (length h0) v \<Longrightarrow> unvisited h0 s < n \<Longrightarrow>
    check_items rec icp d vs s = check_items rec' icp d vs s \<and> calm (check_items rec' icp d vs s)"
proof (induction vs arbitrary: s)
  case (Cons v vs)
  have v: "val_ok (length h0) v" using Cons.prems(2) by simp
  note a = agreeD [OF ag Cons.prems(1) v Cons.prems(3)]
  have rest: "check_items rec icp d vs s1 = check_items rec' icp d vs s1 \<and> calm (check_items rec' icp d vs s1)"
    if "rec' icp v d s = Inr (r, s1)" for r s1
  proof -
    note c = call_okD(1,2) [OF ok Cons.prems(1) v that]
    have "unvisited h0 s1 < n"
      using unvisited_mono [of s s1 h0] c(2) Cons.prems(3) by (simp add: walk_step_def)
    then show ?thesis using Cons.IH [OF c(1)] Cons.prems(2) by simp
  qed
  then have "check_items rec icp d (v # vs) s = check_items rec' icp d (v # vs) s"
    by (auto simp: a(1) intro!: then_do_cong)
  moreover have "calm (check_items rec' icp d (v # vs) s)"
    using a(2) rest by (auto intro!: calm_then)
  ultimately show ?case by blast
qed simp

lemma check_array_agree:
  assumes ag: "agree E cfg user h0 n rec rec'" and ok: "call_ok E cfg user h0 rec'"
    and inv: "walk_inv E cfg user h0 s" and vs: "\<forall>v \<in> set items. val_ok (length h0) v" and n: "unvisited h0 s < n"
  shows "check_array E cfg rec icp data items d s = check_array E cfg rec' icp data items d s
    \<and> calm (check_array E cfg rec' icp data items d s)"
proof (cases items)
  case (Cons sample others)
  have i: "check_items rec icp d items s = check_items rec' icp d items s" "calm (check_items rec' icp d items s)"
    using check_items_agree [OF ag ok inv vs n] by blast+
  have v: "val_ok (length h0) sample" using vs Cons by simp
  note a = agreeD [OF ag inv v n]
  have o: "check_items rec icp d others s1 = check_items rec' icp d others s1 \<and> calm (check_items rec' icp d others s1)"
    if "rec' icp sample d s = Inr (r, s1)" for r s1
  proof -
    note c = call_okD(1,2) [OF ok inv v that]
    have "unvisited h0 s1 < n" using unvisited_mono [of s s1 h0] c(2) n by (simp add: walk_step_def)
    then show ?thesis using check_items_agree [OF ag ok c(1)] vs Cons by simp
  qed
  have sd: "calm (sample_decides E (wk_heap s) sample d)"
    by (auto simp: sample_decides_def intro!: calm_then calm_restrictions)
  have "check_array E cfg rec icp data items d s = check_array E cfg rec' icp data items d s"
    unfolding check_array_def Cons list.case
    by (intro then_do_cong if_cong refl) (auto simp: a(1) o i(1) [unfolded Cons] intro!: then_do_cong)
  moreover have "calm (check_array E cfg rec' icp data items d s)"
    unfolding check_array_def Cons list.case
    by (intro calm_then sd) (auto intro!: calm_then a(2) i(2) [unfolded Cons] dest: o)
  ultimately show ?thesis by blast
qed (simp add: check_array_def)

lemma check_props_agree:
  assumes ag: "agree E cfg user h0 n rec rec'" and ok: "call_ok E cfg user h0 rec'" and h0: "heap_ok h0"
    and meta: "model_instance (h0 ! a) \<Longrightarrow> tgt = OnValue (VRef a) \<and> object_rs = class_restrictions E (ho_class (h0 ! a)) None"
  shows "loop_inv E cfg user h0 a ks s \<Longrightarrow> set ks \<subseteq> fst ` set (ho_own (h0 ! a)) \<Longrightarrow> unvisited h0 s < n \<Longrightarrow>
    check_props E cfg user rec a owner tgt object_rs ks icp s = check_props E cfg user rec' a owner tgt object_rs ks icp s
    \<and> calm (check_props E cfg user rec' a owner tgt object_rs ks icp s)"
proof (induction ks arbitrary: icp s)
  case (Cons k ks)
  note inv = Cons.prems(1)
  define v where "v = vprop (wk_heap s) (VRef a) k"
  have kin: "k \<in> fst ` set (ho_own (h0 ! a))" and sub: "set ks \<subseteq> fst ` set (ho_own (h0 ! a))" using Cons.prems(2) by simp_all
  note lv = loop_value [OF inv h0 kin, folded v_def]
  note ag1 = agreeD [OF ag lv(5,2) Cons.prems(3)]
  have next_: "check_props E cfg user rec a owner tgt object_rs ks icp' s2 = check_props E cfg user rec' a owner tgt object_rs ks icp' s2
      \<and> calm (check_props E cfg user rec' a owner tgt object_rs ks icp' s2)"
    if "loop_inv E cfg user h0 a ks s2 \<and> loop_step E cfg user h0 a s s2" for s2 icp'
  proof -
    have "unvisited h0 s2 < n"
      using unvisited_mono [of s s2 h0] that Cons.prems(3) by (simp add: loop_step_def)
    then show ?thesis using Cons.IH that sub by blast
  qed
  have skip: "loop_inv E cfg user h0 a ks s \<and> loop_step E cfg user h0 a s s" if "skipped cfg v"
    using loop_skip [OF inv lv(1) that] by simp
  have allowed: "loop_inv E cfg user h0 a ks (set_prop a k r s1) \<and> loop_step E cfg user h0 a s (set_prop a k r s1)"
    if "restrictions_of E (wk_heap s) tgt (Some k) = Inr rs"
      "validateRestricted E (cfg\<lparr>cc_isCreatorOfParent := icp\<rparr>) (wk_heap s) user (VRef a) (merged_restrictions cfg object_rs rs) = Inr True"
      "rec' icp' v d s = Inr (r, s1)" for rs icp' d r s1
    using loop_allowed [OF ok inv lv(2) that(3) _ kin] valid_not_forbidden [OF inv _ meta that(1,2)] by blast
  define V where "V rec = then_do (creator_of_parent E (cfg\<lparr>cc_isCreatorOfParent := icp\<rparr>) (wk_heap s) user (VRef a)) (\<lambda>icp'.
      then_do (rec icp' v (if truthy owner then resolveNestedType E owner k else VUndef) s)
        (\<lambda>(r, s'). check_props E cfg user rec a owner tgt object_rs ks icp' (set_prop a k r s')))" for rec
  have valid: "V rec = V rec' \<and> calm (V rec')"
    if "restrictions_of E (wk_heap s) tgt (Some k) = Inr rs"
      "validateRestricted E (cfg\<lparr>cc_isCreatorOfParent := icp\<rparr>) (wk_heap s) user (VRef a) (merged_restrictions cfg object_rs rs) = Inr True" for rs
  proof
    show "V rec = V rec'" unfolding V_def
      by (intro then_do_cong refl) (auto simp: ag1(1) next_ [OF allowed [OF that]] intro!: then_do_cong)
    show "calm (V rec')" unfolding V_def
      by (intro calm_then calm_creator_of_parent) (auto intro!: calm_then ag1(2) dest: next_ [OF allowed [OF that]])
  qed
  have run: "check_props E cfg user R a owner tgt object_rs (k # ks) icp s =
      (if is_class v \<and> cc_ignoreFunctions cfg then check_props E cfg user R a owner tgt object_rs ks icp s
       else if v = VUndef \<and> cc_ignoreUndefined cfg then check_props E cfg user R a owner tgt object_rs ks icp s
       else then_do (restrictions_of E (wk_heap s) tgt (Some k)) (\<lambda>rs.
         then_do (validateRestricted E (cfg\<lparr>cc_isCreatorOfParent := icp\<rparr>) (wk_heap s) user (VRef a) (merged_restrictions cfg object_rs rs))
           (\<lambda>valid. if valid then V R else if cc_throwError cfg then Inl (accessDeniedException user)
             else check_props E cfg user R a owner tgt object_rs ks icp (delete_prop a k s))))" for R
    by (simp only: check_props.simps Let_def V_def v_def)
  have "check_props E cfg user rec a owner tgt object_rs (k # ks) icp s = check_props E cfg user rec' a owner tgt object_rs (k # ks) icp s"
    unfolding run using next_ [OF skip] next_ [OF loop_removed [OF inv kin]] valid
    by (intro if_cong then_do_cong refl) (auto simp: skipped_def)
  moreover have "calm (check_props E cfg user rec' a owner tgt object_rs (k # ks) icp s)"
    unfolding run using next_ [OF skip] next_ [OF loop_removed [OF inv kin]] valid
    by (auto simp: skipped_def accessDeniedException_def Let_def intro!: calm_then calm_restrictions calm_validate)
  ultimately show ?case by blast
qed simp

lemma check_body_agree:
  assumes ag: "agree E cfg user h0 n rec rec'" and ok: "call_ok E cfg user h0 rec'" and h0: "heap_ok h0"
    and itself: "\<not> cc_checkObjectItself cfg"
  shows "agree E cfg user h0 (Suc n) (check_body E cfg user rec) (check_body E cfg user rec')"
  unfolding agree_def
proof (intro allI impI)
  fix icp v d s
  assume inv: "walk_inv E cfg user h0 s" and v: "val_ok (length h0) v" and n: "unvisited h0 s < Suc n"
  show "check_body E cfg user rec icp v d s = check_body E cfg user rec' icp v d s \<and> calm (check_body E cfg user rec' icp v d s)"
  proof (cases "\<exists>a. v = VRef a \<and> a \<notin> set (wk_done s)")
    case False
    then show ?thesis by (auto simp: check_body_def split: val.splits option.splits)
  next
    case True
    then obtain a where a: "v = VRef a" "a < length h0" "a \<notin> set (wk_done s)" using v by auto
    let ?s1 = "s\<lparr>wk_done := a # wk_done s\<rparr>"
    have alen: "a < length (wk_heap s)" using inv a(2) by (simp add: walk_inv_def)
    have same: "wk_heap s ! a = h0 ! a" using inv a by (simp add: walk_inv_def)
    have n1: "unvisited h0 ?s1 < n" using unvisited_visit [OF a(2,3)] n by simp
    note vi = visit_inv [OF inv a(2)]
    have "(case ho_elems (h0 ! a) of Some items \<Rightarrow> check_array E cfg rec icp v items d ?s1
           | None \<Rightarrow> check_object E cfg user rec icp a (h0 ! a) d ?s1)
        = (case ho_elems (h0 ! a) of Some items \<Rightarrow> check_array E cfg rec' icp v items d ?s1
           | None \<Rightarrow> check_object E cfg user rec' icp a (h0 ! a) d ?s1)
        \<and> calm (case ho_elems (h0 ! a) of Some items \<Rightarrow> check_array E cfg rec' icp v items d ?s1
           | None \<Rightarrow> check_object E cfg user rec' icp a (h0 ! a) d ?s1)"
    proof (cases "ho_elems (h0 ! a)")
      case None
      have p: "check_props E cfg user rec a (metadata_owner (h0 ! a) d) (metadata_target a (h0 ! a) d) object_rs (map fst (ho_own (h0 ! a))) icp ?s1
          = check_props E cfg user rec' a (metadata_owner (h0 ! a) d) (metadata_target a (h0 ! a) d) object_rs (map fst (ho_own (h0 ! a))) icp ?s1
          \<and> calm (check_props E cfg user rec' a (metadata_owner (h0 ! a) d) (metadata_target a (h0 ! a) d) object_rs (map fst (ho_own (h0 ! a))) icp ?s1)"
        if o: "restrictions_of E (wk_heap s) (OnValue (metadata_owner (h0 ! a) d)) None = Inr object_rs" for object_rs
      proof (rule check_props_agree [OF ag ok h0])
        show "metadata_target a (h0 ! a) d = OnValue (VRef a) \<and> object_rs = class_restrictions E (ho_class (h0 ! a)) None"
          if "model_instance (h0 ! a)"
          using object_metadata(2) [OF that hget_Some [OF alen], where d = d]
            object_metadata(3) [OF that hget_Some [OF alen], where d = d] o same by simp
      qed (use loop_start [OF inv h0 a(2,3) None] n1 in simp_all)
      have "check_object E cfg user rec icp a (h0 ! a) d ?s1 = check_object E cfg user rec' icp a (h0 ! a) d ?s1"
        unfolding check_object_def Let_def using p itself by (intro then_do_cong refl) (auto intro!: then_do_cong)
      moreover have "calm (check_object E cfg user rec' icp a (h0 ! a) d ?s1)"
        unfolding check_object_def Let_def using p itself by (auto intro!: calm_then calm_restrictions)
      ultimately show ?thesis using None by simp
    next
      case (Some items)
      then have "\<forall>v \<in> set items. val_ok (length h0) v" using h0 a(2) by (auto simp: heap_ok_def vals_of_def)
      then show ?thesis using check_array_agree [OF ag ok vi _ n1] Some by simp
    qed
    then show ?thesis using a alen same by (auto simp: check_body_def Let_def)
  qed
qed

lemma check_within_agree:
  assumes "heap_ok h0" "\<not> cc_checkObjectItself cfg"
  shows "n \<le> m \<Longrightarrow> n \<le> m' \<Longrightarrow> agree E cfg user h0 n (check_within m E cfg user) (check_within m' E cfg user)"
proof (induction n arbitrary: m m')
  case 0
  then show ?case by (simp add: agree_def)
next
  case (Suc n)
  then obtain k k' where k: "m = Suc k" "m' = Suc k'" "n \<le> k" "n \<le> k'" by (metis Suc_le_D Suc_le_mono)
  have e: "check_within (Suc j) E cfg user = check_body E cfg user (check_within j E cfg user)" for j
    by (intro ext) simp
  show ?case
    unfolding k(1,2) e
    using check_body_agree [OF Suc.IH [OF k(3,4)] check_within_ok [OF assms] assms] .
qed

subsection \<open>The guarantees of \<open>checkRestricted\<close>\<close>

lemma checkRestricted_result:
  assumes r: "checkRestricted stack E cfg user data h = Inr (r, s')"
    and ok: "heap_ok h" "val_ok (length h) data" "cc_noteCheckedObjects cfg \<longrightarrow> list_all (\<lambda>ob. \<not> ho_marked ob) h"
      "\<not> cc_checkObjectItself cfg"
  shows "walk_inv E cfg user h s'" "good h s' r" "\<forall>x \<in> set (wk_done s'). settled E cfg user h s' x"
proof -
  note c = call_okD(1,2,3) [OF check_within_ok [OF ok(1,4)] walk_start [OF ok(1,3)] ok(2) r [unfolded checkRestricted_def]]
  show "walk_inv E cfg user h s'" "good h s' r" by (rule c(1), rule c(3))
  show "\<forall>x \<in> set (wk_done s'). settled E cfg user h s' x" using c(2) by (simp add: walk_step_def)
qed

definition crd_env :: meta_env where
  "crd_env = \<lparr>me_meta = (\<lambda>c k. if c = ''User'' \<and> k = Some ''password'' then Some [RRole S_NO_ONE]
                else if c = ''User'' \<and> k = Some ''email'' then Some [RRoles [ADMIN, S_VERIFIED]] else None),
     me_chain = (\<lambda>c. [c]), me_name = (\<lambda>c. c), me_nestedTypes = [], me_mt = None, me_registry = [], me_tenantRole = None,
     me_rt = \<lparr>rt_toString = (\<lambda>_. ''[object Object]''), rt_funString = (\<lambda>_. ''function''), rt_toHexString = (\<lambda>_. ''0''),
       rt_ObjectId = Some, rt_stack = 8\<rparr>\<rparr>"

definition crd_cfg :: check_config where
  "crd_cfg = default_config\<lparr>cc_processType := Some OUTPUT, cc_throwError := False\<rparr>"

definition crd_user :: requester where
  "crd_user = \<lparr>ru_self = \<lparr>ho_class = ''User'', ho_elems = None, ho_own = [(''id'', VStr ''u2'')], ho_inherited = [],
     ho_marked = False\<rparr>, ru_roles = Some [], ru_hasRole = Some (\<lambda>_. False)\<rparr>"

text \<open>Two users that refer to each other, in a list.\<close>

definition crd_heap :: heap where
  "crd_heap = [\<lparr>ho_class = ''Array'', ho_elems = Some [VRef 1, VRef 2], ho_own = [], ho_inherited = [], ho_marked = False\<rparr>,
     \<lparr>ho_class = ''User'', ho_elems = None, ho_own = [(''id'', VStr ''u1''), (''password'', VStr ''x''), (''friend'', VRef 2)],
       ho_inherited = [], ho_marked = False\<rparr>,
     \<lparr>ho_class = ''User'', ho_elems = None, ho_own = [(''id'', VStr ''u2''), (''email'', VStr ''e''), (''friend'', VRef 1)],
       ho_inherited = [], ho_marked = False\<rparr>]"



text \<open>
  C36. The check always comes to an end, on any data, also cyclic: one stack frame for every object (and one more)
  is enough, further frames change nothing, and the check itself never exhausts the stack.
  Assumed: the heap has no dangling references, with marks in use none is set before the walk, and the object itself is not checked.
\<close>

theorem check_terminates:
  assumes "heap_ok h" "val_ok (length h) data" "cc_noteCheckedObjects cfg \<longrightarrow> list_all (\<lambda>ob. \<not> ho_marked ob) h"
    and "\<not> cc_checkObjectItself cfg" "length h < stack"
  shows "checkRestricted stack E cfg user data h = checkRestricted (Suc (length h)) E cfg user data h
    \<and> checkRestricted stack E cfg user data h \<noteq> Inl (RangeError ''checkRestricted'')"
proof -
  have n: "unvisited h \<lparr>wk_heap = h, wk_done = []\<rparr> < Suc (length h)" by (simp add: unvisited_def)
  have m: "Suc (length h) \<le> stack" using assms(5) by simp
  note a = agreeD [OF check_within_agree [OF assms(1,4) m order_refl] walk_start [OF assms(1,3)] assms(2) n]
  show ?thesis using a by (simp add: checkRestricted_def calm_def)
qed

theorem check_terminates_witness:
  "checkRestricted 9 crd_env crd_cfg (Some crd_user) (VRef 0) crd_heap
     = checkRestricted (Suc (length crd_heap)) crd_env crd_cfg (Some crd_user) (VRef 0) crd_heap
   \<and> checkRestricted 9 crd_env crd_cfg (Some crd_user) (VRef 0) crd_heap \<noteq> Inl (RangeError ''checkRestricted'')"
proof (rule check_terminates)
  show "heap_ok crd_heap" by (auto simp: heap_ok_def crd_heap_def less_Suc_eq vals_of_def jsmap_ok_def)
qed (simp_all add: crd_heap_def crd_cfg_def default_config_def)

text \<open>
  The check only takes away: the heap stays well formed and the result is one of its objects, every object keeps
  its class, its elements and its hidden properties and gains no property, and an object that was not visited is unchanged.
\<close>

theorem check_only_removes:
  assumes "checkRestricted stack E cfg user data h = Inr (r, s')" "heap_ok h" "val_ok (length h) data"
    and "cc_noteCheckedObjects cfg \<longrightarrow> list_all (\<lambda>ob. \<not> ho_marked ob) h" "\<not> cc_checkObjectItself cfg"
  shows "heap_ok (wk_heap s') \<and> val_ok (length (wk_heap s')) r
    \<and> list_all (\<lambda>a. shrunk (h ! a) (wk_heap s' ! a) \<and> (a \<in> set (wk_done s') \<or> wk_heap s' ! a = h ! a)) [0..<length h]"
  using checkRestricted_result [OF assms] good_val_ok by (auto simp: walk_inv_def list_all_iff)

theorem check_only_removes_witness:
  "case checkRestricted 4 crd_env crd_cfg (Some crd_user) (VRef 0) crd_heap of
     Inl e \<Rightarrow> False
   | Inr (r, s') \<Rightarrow> heap_ok (wk_heap s') \<and> val_ok (length (wk_heap s')) r
       \<and> list_all (\<lambda>a. shrunk (crd_heap ! a) (wk_heap s' ! a) \<and> (a \<in> set (wk_done s') \<or> wk_heap s' ! a = crd_heap ! a))
           [0..<length crd_heap]"
proof -
  have "is_ok (checkRestricted 4 crd_env crd_cfg (Some crd_user) (VRef 0) crd_heap)" by code_simp
  then obtain r s' where c: "checkRestricted 4 crd_env crd_cfg (Some crd_user) (VRef 0) crd_heap = Inr (r, s')"
    by (auto simp: is_ok_iff)
  have ok: "heap_ok crd_heap" "val_ok (length crd_heap) (VRef 0)"
    "cc_noteCheckedObjects crd_cfg \<longrightarrow> list_all (\<lambda>ob. \<not> ho_marked ob) crd_heap" "\<not> cc_checkObjectItself crd_cfg"
    by (auto simp: heap_ok_def crd_heap_def less_Suc_eq vals_of_def jsmap_ok_def crd_cfg_def default_config_def)
  show ?thesis using check_only_removes [OF c ok] c by simp
qed

end
