(* ===== verification/RestrictedDecisions.thy ===== *)
theory RestrictedDecisions
  imports RestrictedWalk
begin

text \<open>
  The decision on one property: what it may depend on. On input it is taken from the stored object alone;
  system and global roles are out of reach of the role of a tenant membership; the cache of the metadata is
  transparent. The last part records where the order of the properties, the identity of an object and a property
  called \<^verbatim>\<open>constructor\<close> decide instead of the restrictions.
\<close>

subsection \<open>Reading below a set of addresses\<close>

definition val_in :: "nat set \<Rightarrow> val \<Rightarrow> bool" where
  "val_in A v = (\<forall>a. v = VRef a \<longrightarrow> a \<in> A)"

definition obj_in :: "nat set \<Rightarrow> hobj \<Rightarrow> bool" where
  "obj_in A ob = ((\<forall>(k, v) \<in> set (ho_own ob). val_in A v) \<and> (\<forall>(k, v) \<in> set (ho_inherited ob). val_in A v)
     \<and> (\<forall>vs. ho_elems ob = Some vs \<longrightarrow> list_all (val_in A) vs))"

text \<open>Two heaps agree on a set of addresses that is closed under the references of its objects.\<close>

definition same_on :: "nat set \<Rightarrow> heap \<Rightarrow> heap \<Rightarrow> bool" where
  "same_on A h h' = (\<forall>a \<in> A. hget h a = hget h' a \<and> (\<forall>ob. hget h a = Some ob \<longrightarrow> obj_in A ob))"

definition element_in :: "nat set \<Rightarrow> element \<Rightarrow> bool" where
  "element_in A e = (case e of EVal v \<Rightarrow> val_in A v | EList vs \<Rightarrow> list_all (val_in A) vs | EObj ob \<Rightarrow> obj_in A ob)"

lemma val_in_simps [simp]: "val_in A VUndef" "val_in A (VRef a) \<longleftrightarrow> a \<in> A" "val_in A (VBuf s)" "val_in A (VStr s)"
  "val_in A VNull" "val_in A (VBool b)" "val_in A (VNum i)" "val_in A (VOid s)" "val_in A (VCls s)" "val_in A VFun"
  by (simp_all add: val_in_def)

lemma oprop_in: "obj_in A ob \<Longrightarrow> val_in A (oprop ob k)"
  by (auto simp: oprop_def obj_in_def split: option.split dest!: map_of_SomeD)

lemma hget_same: "same_on A h h' \<Longrightarrow> a \<in> A \<Longrightarrow> hget h' a = hget h a"
  by (simp add: same_on_def)

lemma hget_in: "same_on A h h' \<Longrightarrow> a \<in> A \<Longrightarrow> hget h a = Some ob \<Longrightarrow> obj_in A ob"
  by (simp add: same_on_def)

lemma vprop_same: "same_on A h h' \<Longrightarrow> val_in A v \<Longrightarrow> vprop h' v k = vprop h v k \<and> val_in A (vprop h v k)"
  by (cases v) (auto simp: vprop_def hget_same oprop_in dest: hget_in split: option.split)

lemma elems_same: "same_on A h h' \<Longrightarrow> val_in A v \<Longrightarrow> elems_of h' v = elems_of h v"
  by (cases v) (auto simp: elems_of_def hget_same)

lemma elems_in: "same_on A h h' \<Longrightarrow> val_in A v \<Longrightarrow> elems_of h v = Some vs \<Longrightarrow> list_all (val_in A) vs"
  by (cases v) (auto simp: elems_of_def obj_in_def dest!: hget_in split: option.splits)

lemma objectStringId_same:
  "obj_in A ob \<Longrightarrow> (\<And>v. val_in A v \<Longrightarrow> rec' v = rec v) \<Longrightarrow> objectStringId rt rec' ob = objectStringId rt rec ob"
  using oprop_in [of A ob "''id''"] oprop_in [of A ob "''_id''"] unfolding objectStringId_def by (auto split: val.split)

lemma getStringId_same: "same_on A h h' \<Longrightarrow> val_in A v \<Longrightarrow> getStringId rt h' n v = getStringId rt h n v"
proof (induction n arbitrary: v)
  case (Suc n)
  show ?case
  proof (cases v)
    case (VRef a)
    then have "hget h' a = hget h a" using Suc.prems hget_same by simp
    moreover have "objectStringId rt (getStringId rt h' n) ob = objectStringId rt (getStringId rt h n) ob"
      if "hget h a = Some ob" for ob
      using objectStringId_same [OF hget_in [OF Suc.prems(1) _ that] Suc.IH [OF Suc.prems(1)]] Suc.prems(2) VRef by simp
    ultimately show ?thesis using VRef by (simp split: option.split)
  qed simp_all
qed simp

lemma list_string_ids_same:
  "same_on A h h' \<Longrightarrow> list_all (val_in A) vs \<Longrightarrow> list_string_ids rt h' n deep vs = list_string_ids rt h n deep vs"
proof (induction rt h' n deep vs rule: list_string_ids.induct)
  case (2 rt h' n deep v vs)
  have v: "val_in A v" "list_all (val_in A) vs" using 2(4) by simp_all
  note e = elems_same [OF 2(3) v(1)]
  show ?case
  proof (cases "elems_of h v")
    case None
    then show ?thesis using 2(2) [OF _ 2(3) v(2)] e getStringId_same [OF 2(3) v(1)]
      by (cases "getStringId rt h (rt_stack rt) v") simp_all
  next
    case (Some inner)
    have i: "list_all (val_in A) inner" using elems_in [OF 2(3) v(1) Some] .
    then have "list_string_ids rt h' m deep inner = list_string_ids rt h m deep inner" if "deep" "n = Suc m" for m
      using 2(1) [OF _ that] 2(3) e Some by simp
    then show ?thesis using 2(2) 2(3) v(2) e Some
      by (cases n; cases deep) (auto intro!: then_do_cong)
  qed
qed simp

lemma getStringIds_same:
  "same_on A h h' \<Longrightarrow> element_in A e \<Longrightarrow> getStringIds rt h' deep unique e = getStringIds rt h deep unique e"
  by (cases e)
    (auto simp: getStringIds_def element_in_def Let_def elems_same getStringId_same list_string_ids_same elems_in
      intro!: then_do_cong objectStringId_same [where A = A] split: option.split)

lemma every_equals_same:
  "same_on A h h' \<Longrightarrow> list_all (element_in A) is \<Longrightarrow> every_equals rt h' c is = every_equals rt h c is"
  by (induction "is") (auto simp: getStringIds_same intro!: then_do_cong)

lemma equalIds_same: "same_on A h h' \<Longrightarrow> list_all (element_in A) ids \<Longrightarrow> equalIds rt h' ids = equalIds rt h ids"
  unfolding equalIds_def
  by (rule then_do_cong) (auto simp: getStringIds_same every_equals_same split: list.split string_ids.split)

lemma included_of_same:
  "same_on A h h' \<Longrightarrow> list_all (element_in A) is \<Longrightarrow> included_of rt h' strings is = included_of rt h strings is"
  by (induction "is") (auto simp: getStringIds_same intro!: then_do_cong)

lemma getIncludedIds_same:
  assumes s: "same_on A h h'" and i: "list_all (val_in A) members" and u: "element_in A user"
    and nolist: "\<And>v. user = EVal v \<Longrightarrow> \<not> truthy v" "\<And>vs. user \<noteq> EList vs"
  shows "getIncludedIds rt h' (EList members) user None = getIncludedIds rt h (EList members) user None"
proof (cases "element_missing user")
  case True
  then show ?thesis by (simp add: getIncludedIds_def)
next
  case False
  then obtain ob where o: "user = EObj ob" using nolist by (cases user) (auto simp: element_missing_def)
  then have "included_of rt h' strings (as_list h' user) = included_of rt h strings (as_list h user)" for strings
    using included_of_same [OF s, of "[EObj ob]"] u by (simp add: as_list_def)
  moreover have "element_strings rt h' (EList members) = element_strings rt h (EList members)"
    using list_string_ids_same [OF s i] by (simp add: element_strings_def)
  ultimately show ?thesis by (simp add: getIncludedIds_def)
qed

lemma members_same:
  assumes s: "same_on A h h'" and db: "val_in A db"
  shows "members_of h' db groups = members_of h db groups" "list_all (val_in A) (members_of h db groups)"
proof -
  have v: "vprop h' db p = vprop h db p" "val_in A (vprop h db p)" for p using vprop_same [OF s db] by auto
  show "members_of h' db groups = members_of h db groups"
    using v elems_same [OF s v(2)] by (simp add: members_of_def Let_def cong: if_cong)
  have "val_in A x" if "x \<in> set (case elems_of h (vprop h db p) of Some vs \<Rightarrow> vs | None \<Rightarrow> [vprop h db p])" for p x
    using that v elems_in [OF s v(2)] by (auto simp: list_all_iff split: option.splits)
  then show "list_all (val_in A) (members_of h db groups)"
    by (auto simp: members_of_def Let_def list_all_iff split: if_splits)
qed

lemma has_createdBy_same: "same_on A h h' \<Longrightarrow> val_in A v \<Longrightarrow> has_createdBy h' v = has_createdBy h v"
  by (cases v) (auto simp: has_createdBy_def hget_same)

subsection \<open>On input the payload does not count\<close>

definition user_in :: "nat set \<Rightarrow> requester option \<Rightarrow> bool" where
  "user_in A user = (case user of None \<Rightarrow> True | Some u \<Rightarrow> obj_in A (ru_self u))"

lemma user_element_in: "user_in A user \<Longrightarrow> element_in A (user_element user)"
  by (cases user) (auto simp: user_in_def user_element_def element_in_def)

lemma ownership_same:
  assumes s: "same_on A h h'" and o: "val_in A owner" and u: "user_in A user"
  shows "is_self E h' owner user = is_self E h owner user" "is_creator E h' owner user = is_creator E h owner user"
proof -
  have v: "vprop h' owner ''createdBy'' = vprop h owner ''createdBy''" "val_in A (vprop h owner ''createdBy'')"
    using vprop_same [OF s o] by auto
  show "is_self E h' owner user = is_self E h owner user"
    unfolding is_self_def using o user_element_in [OF u] by (intro equalIds_same [OF s]) (simp add: element_in_def)
  show "is_creator E h' owner user = is_creator E h owner user"
    unfolding is_creator_def v(1) using v(2) user_element_in [OF u]
    by (intro equalIds_same [OF s]) (simp add: element_in_def)
qed

lemma role_access_same:
  assumes s: "same_on A h h'" and o: "val_in A owner" and u: "user_in A user"
  shows "role_access E cfg h' user owner roles = role_access E cfg h user owner roles"
  using ownership_same [OF assms] has_createdBy_same [OF s o]
  by (simp add: role_access_def creator_access_def js_and_def cong: if_cong)

lemma group_access_same:
  assumes s: "same_on A h h'" and o: "val_in A (cc_dbObject cfg)" and u: "user_in A user"
  shows "group_access E cfg h' user groups = group_access E cfg h user groups"
  using getIncludedIds_same [OF s members_same(2) [OF s o] user_element_in [OF u]] members_same(1) [OF s o]
  by (cases user) (simp_all add: group_access_def user_element_def truthy_def)

text \<open>
  C6. On input ownership cannot be forged in one decision. For a given list of restrictions and a given configuration, which holds the ownership
  of the parent, the decision of \<open>validateRestricted\<close> and the ownership handed down to nested objects are read from the stored object and
  the requester alone: another payload in place of the given one, at any address and with any ids in it, and any change of the heap outside the stored
  object and the requester changes neither. Both payloads carry no marker of an earlier check. Which objects of a payload are walked
  and which restrictions apply to them is the matter of \<open>checkRestricted\<close>, which does read the payload.
\<close>

theorem forged_ownership_ignored:
  assumes "cc_processType cfg = Some INPUT" "same_on A h h'" "val_in A (cc_dbObject cfg)" "user_in A user"
    and "\<not> hasRestrictionsCheckedMarker h data" "\<not> hasRestrictionsCheckedMarker h' data'"
  shows "validateRestricted E cfg h user data rs = validateRestricted E cfg h' user data' rs
    \<and> creator_of_parent E cfg h user data = creator_of_parent E cfg h' user data'"
  using assms(1,5,6) role_access_same [OF assms(2,3,4)] group_access_same [OF assms(2,3,4)] ownership_same [OF assms(2,3,4)]
    has_createdBy_same [OF assms(2,3)]
  by (simp add: validateRestricted_def creator_of_parent_def Let_def cong: if_cong)

definition payload :: "string \<Rightarrow> hobj" where
  "payload owner = \<lparr>ho_class = ''User'', ho_elems = None, ho_own = [(''id'', VStr owner), (''createdBy'', VStr owner)],
     ho_inherited = [], ho_marked = False\<rparr>"

definition input_cfg :: check_config where
  "input_cfg = default_config\<lparr>cc_processType := Some INPUT, cc_dbObject := VRef 0\<rparr>"

theorem forged_ownership_ignored_witness:
  "validateRestricted crd_env input_cfg [payload ''u1'', payload ''u2''] (Some crd_user) (VRef 1) [RRoles [S_SELF, S_CREATOR]]
     = validateRestricted crd_env input_cfg [payload ''u1'', payload ''u1''] (Some crd_user) (VRef 1) [RRoles [S_SELF, S_CREATOR]]
   \<and> creator_of_parent crd_env input_cfg [payload ''u1'', payload ''u2''] (Some crd_user) (VRef 1)
     = creator_of_parent crd_env input_cfg [payload ''u1'', payload ''u1''] (Some crd_user) (VRef 1)"
proof (rule forged_ownership_ignored)
  show "same_on {0} [payload ''u1'', payload ''u2''] [payload ''u1'', payload ''u1'']"
    by (simp add: same_on_def hget_def obj_in_def payload_def)
qed (simp_all add: input_cfg_def default_config_def user_in_def crd_user_def obj_in_def hasRestrictionsCheckedMarker_def
    hget_def payload_def)

subsection \<open>Membership roles and fields\<close>

text \<open>The roles on the account of the requester.\<close>

definition account_roles :: "requester option \<Rightarrow> string list" where
  "account_roles user = (case user of None \<Rightarrow> [] | Some u \<Rightarrow> (case ru_roles u of None \<Rightarrow> [] | Some rs \<Rightarrow> rs))"

lemma account_roles_mem:
  "(case (case user of None \<Rightarrow> None | Some u \<Rightarrow> ru_roles u) of None \<Rightarrow> False | Some rs \<Rightarrow> r \<in> set rs) = (r \<in> set (account_roles user))"
  by (simp add: account_roles_def split: option.split)

lemma checkFieldRoleAccess_iff:
  "checkFieldRoleAccess E roles user \<longleftrightarrow>
     list_ex (\<lambda>r. \<not> isSystemRole r \<and> goes_global (me_mt E) (me_registry E) r \<and> r \<in> set (account_roles user)) roles
   \<or> (let t = filter (\<lambda>r. \<not> isSystemRole r \<and> \<not> goes_global (me_mt E) (me_registry E) r) roles
      in t \<noteq> [] \<and> checkRoleAccess (me_mt E) t (case user of None \<Rightarrow> None | Some u \<Rightarrow> ru_roles u) (me_tenantRole E))"
  unfolding checkFieldRoleAccess_def resolveGlobalAndTenantRoles_def Let_def prod.case account_roles_mem
  by (auto simp: list_ex_iff conj_commute)

text \<open>
  A membership role never opens a system-restricted or global-restricted field. Where every required role is
  a system role or a global one, the membership role of the request (whatever it is called) makes no difference: access is
  exactly holding one of the required global roles on the account; and \<^verbatim>\<open>S_NO_ONE\<close> is refused to everybody.
\<close>

theorem membership_opens_no_global_field:
  assumes "list_all (\<lambda>r. isSystemRole r \<or> goes_global (me_mt E) (me_registry E) r) roles"
  shows "(checkFieldRoleAccess (E\<lparr>me_tenantRole := t\<rparr>) roles user \<longleftrightarrow>
      list_ex (\<lambda>r. \<not> isSystemRole r \<and> r \<in> set (account_roles user)) roles)
    \<and> validateRestricted E (cfg\<lparr>cc_noteCheckedObjects := False\<rparr>) h user data (RRole S_NO_ONE # rs) = Inr False"
proof
  have e: "filter (\<lambda>r. \<not> isSystemRole r \<and> \<not> goes_global (me_mt E) (me_registry E) r) roles = []"
    using assms by (auto simp: list_all_iff filter_empty_conv)
  show "checkFieldRoleAccess (E\<lparr>me_tenantRole := t\<rparr>) roles user \<longleftrightarrow>
      list_ex (\<lambda>r. \<not> isSystemRole r \<and> r \<in> set (account_roles user)) roles"
    using assms by (auto simp: checkFieldRoleAccess_iff e list_ex_iff list_all_iff)
  show "validateRestricted E (cfg\<lparr>cc_noteCheckedObjects := False\<rparr>) h user data (RRole S_NO_ONE # rs) = Inr False"
    by (simp add: validateRestricted_def)
qed

theorem membership_opens_no_global_field_witness:
  "(checkFieldRoleAccess (crd_env\<lparr>me_tenantRole := Some ''s_self''\<rparr>) [S_SELF, ADMIN] (Some crd_user) \<longleftrightarrow>
      list_ex (\<lambda>r. \<not> isSystemRole r \<and> r \<in> set (account_roles (Some crd_user))) [S_SELF, ADMIN])
   \<and> validateRestricted crd_env (crd_cfg\<lparr>cc_noteCheckedObjects := False\<rparr>) crd_heap (Some crd_user) (VRef 1) (RRole S_NO_ONE # [RRole ADMIN]) = Inr False"
proof (rule membership_opens_no_global_field)
  show "list_all (\<lambda>r. isSystemRole r \<or> goes_global (me_mt crd_env) (me_registry crd_env) r) [S_SELF, ADMIN]"
    by code_simp
qed

subsection \<open>The cache of the metadata\<close>

text \<open>
  A target whose constructor is its own class, and a property whose name is not the key of the class itself.
  A cache is coherent when every entry is what the decorators left for that class.
\<close>

definition plain_target :: "heap \<Rightarrow> meta_target \<Rightarrow> string option \<Rightarrow> bool" where
  "plain_target h tgt key = (key \<noteq> Some ''__class__'' \<and> key \<noteq> Some [] \<and> (case tgt of
       OnPrototype c \<Rightarrow> key \<noteq> None
     | OnValue v \<Rightarrow> (case v of
         VCls c \<Rightarrow> key = None
       | VRef a \<Rightarrow> key \<noteq> None \<and> (case hget h a of Some ob \<Rightarrow> constructor_of ob = VCls (ho_class ob) | None \<Rightarrow> False)
       | _ \<Rightarrow> False)))"

definition cache_coherent :: "meta_env \<Rightarrow> meta_cache \<Rightarrow> bool" where
  "cache_coherent E cache = (\<forall>c k m. map_of cache (VCls c, k) = Some m \<longrightarrow>
     m = me_meta E c (if k = ''__class__'' then None else Some k))"

text \<open>
  The cache of the restriction metadata is transparent: on a coherent cache, a look-up for a class or for a property
  of an instance or prototype answers what the decorators say, and leaves the cache coherent.
\<close>

theorem metadata_cache_transparent:
  assumes "plain_target h tgt key" "cache_coherent E cache"
  shows "case cached_getRestricted E h cache tgt key of
      Inl e \<Rightarrow> False
    | Inr (m, cache') \<Rightarrow> getRestricted E h tgt key = Inr m \<and> cache_coherent E cache'"
proof -
  have main: "case cached_getRestricted E h cache tgt key of
      Inl e \<Rightarrow> False
    | Inr (m, cache') \<Rightarrow> getRestricted E h tgt key = Inr m \<and> cache_coherent E cache'"
    if ct: "cache_target h tgt = VCls c" and t: "\<not> (case tgt of OnValue v \<Rightarrow> \<not> truthy v | OnPrototype c \<Rightarrow> False)"
      and r: "reflect_getMetadata E h tgt key = Inr (me_meta E c key)" for c
  proof -
    define ck where "ck = cache_key key"
    have k: "(if ck = ''__class__'' then None else Some ck) = key" "asked_key key = key"
      using assms(1) by (cases key; simp add: plain_target_def ck_def cache_key_def asked_key_def)+
    have g: "getRestricted E h tgt key = Inr (me_meta E c key)"
      using t r by (auto simp: getRestricted_def split: meta_target.splits)
    have hit: "m = me_meta E c key" if "map_of cache (VCls c, ck) = Some m" for m
    proof -
      have "m = me_meta E c (if ck = ''__class__'' then None else Some ck)"
        using assms(2) that unfolding cache_coherent_def by blast
      then show ?thesis by (simp only: k(1))
    qed
    have put: "cache_coherent E (AList.update (VCls c, ck) (me_meta E c key) cache)"
      unfolding cache_coherent_def
    proof (intro allI impI)
      fix c' k' m
      assume m: "map_of (AList.update (VCls c, ck) (me_meta E c key) cache) (VCls c', k') = Some m"
      show "m = me_meta E c' (if k' = ''__class__'' then None else Some k')"
      proof (cases "c' = c \<and> k' = ck")
        case True
        then have "m = me_meta E c key" using m by (simp add: map_of_update_eq)
        then show ?thesis using True by (simp only: k(1))
      next
        case False
        then have "map_of cache (VCls c', k') = Some m" using m by (auto simp: map_of_update_eq split: if_splits)
        then show ?thesis using assms(2) unfolding cache_coherent_def by blast
      qed
    qed
    have eq: "cached_getRestricted E h cache tgt key = (case map_of cache (VCls c, ck) of
        Some m \<Rightarrow> Inr (m, cache) | None \<Rightarrow> Inr (me_meta E c key, AList.update (VCls c, ck) (me_meta E c key) cache))"
      unfolding cached_getRestricted_def ct k(2) r ck_def [symmetric]
      using t by (simp add: truthy_def weak_key_def split: option.split)
    show ?thesis using g hit put assms(2) by (simp add: eq split: option.split)
  qed
  show ?thesis
  proof (cases tgt)
    case (OnPrototype c)
    then show ?thesis using assms(1) by (intro main [of c]) (auto simp: cache_target_def reflect_getMetadata_def plain_target_def split: option.splits)
  next
    case (OnValue v)
    show ?thesis
    proof (cases v)
      case (VCls c)
      then show ?thesis using assms(1) OnValue
        by (intro main [of c]) (auto simp: cache_target_def reflect_getMetadata_def plain_target_def truthy_def split: option.splits)
    next
      case (VRef a)
      then obtain ob where ob: "hget h a = Some ob" "constructor_of ob = VCls (ho_class ob)"
        using assms(1) OnValue by (auto simp: plain_target_def split: option.splits)
      then show ?thesis using assms(1) OnValue VRef
        by (intro main [of "ho_class ob"]) (auto simp: cache_target_def reflect_getMetadata_def plain_target_def truthy_def split: option.splits)
    qed (use assms(1) OnValue in \<open>simp_all add: plain_target_def\<close>)
  qed
qed

theorem metadata_cache_transparent_witness:
  "case cached_getRestricted crd_env crd_heap [] (OnValue (VRef 1)) (Some ''password'') of
      Inl e \<Rightarrow> False
    | Inr (m, cache') \<Rightarrow> getRestricted crd_env crd_heap (OnValue (VRef 1)) (Some ''password'') = Inr m \<and> cache_coherent crd_env cache'"
  by (rule metadata_cache_transparent)
    (simp_all add: plain_target_def crd_heap_def hget_def constructor_of_def cache_coherent_def)

subsection \<open>Where something else than the restrictions decides\<close>

definition gap_env :: meta_env where
  "gap_env = crd_env\<lparr>me_meta := (\<lambda>c k.
       if c = ''Doc'' \<and> k = Some ''note'' then Some [RRole S_CREATOR]
       else if c = ''Secret'' \<and> k = None then Some [RRole ADMIN]
       else if c = ''Part'' \<and> k = Some ''price'' then Some [RRole ADMIN] else None),
     me_nestedTypes := [(''Doc.part'', VCls ''Part'')]\<rparr>"

definition plain_obj :: "string \<Rightarrow> (string \<times> val) list \<Rightarrow> hobj" where
  "plain_obj c m = \<lparr>ho_class = c, ho_elems = None, ho_own = m, ho_inherited = [], ho_marked = False\<rparr>"

text \<open>The own keys of an object after a check of the value at address 0.\<close>

definition keys_after :: "check_config \<Rightarrow> heap \<Rightarrow> nat \<Rightarrow> string list option" where
  "keys_after cfg h a = (case checkRestricted 9 gap_env cfg (Some crd_user) (VRef 0) h of
     Inl e \<Rightarrow> None | Inr (r, s) \<Rightarrow> Some (map fst (ho_own (wk_heap s ! a))))"

text \<open>
  Three facts of the walk that no restriction states. (1) The trust \<^verbatim>\<open>isCreatorOfParent\<close> is carried from one
  property to the next of the same object: a property for the creator is removed when it comes first and kept when
  any visible property comes before it. (2) A nested object that carries a property called \<^verbatim>\<open>constructor\<close> is checked
  without the restrictions of the type its property declares. (3) An object the requester may not see at all
  is replaced by null where it is met first, and returned with everything in it where it is met again.
\<close>

theorem walk_depends_on_order_and_identity:
  "keys_after crd_cfg [plain_obj ''Doc'' [(''note'', VStr ''n''), (''id'', VStr ''u2'')]] 0 = Some [''id'']
   \<and> keys_after crd_cfg [plain_obj ''Doc'' [(''title'', VStr ''t''), (''note'', VStr ''n''), (''id'', VStr ''u2'')]] 0
       = Some [''title'', ''note'', ''id'']
   \<and> keys_after crd_cfg [plain_obj ''Doc'' [(''part'', VRef 1)], plain_obj ''Object'' [(''price'', VNum 1)]] 1 = Some []
   \<and> keys_after crd_cfg [plain_obj ''Doc'' [(''part'', VRef 1)],
         plain_obj ''Object'' [(''price'', VNum 1), (''constructor'', VRef 2)], plain_obj ''Object'' []] 1
       = Some [''price'', ''constructor'']
   \<and> (case checkRestricted 9 gap_env (crd_cfg\<lparr>cc_checkObjectItself := True\<rparr>) (Some crd_user) (VRef 0)
          [plain_obj ''Doc'' [(''a'', VRef 1), (''b'', VRef 1)], plain_obj ''Secret'' [(''code'', VStr ''c'')]] of
        Inl e \<Rightarrow> False
      | Inr (r, s) \<Rightarrow> ho_own (wk_heap s ! 0) = [(''a'', VNull), (''b'', VRef 1)]
          \<and> ho_own (wk_heap s ! 1) = [(''code'', VStr ''c'')])"
  by code_simp

end
