(* ===== verification/MigrationLock.thy ===== *)
theory MigrationLock
  imports Prelude
begin

text \<open>
  The lock that keeps migrations of several replicas apart, \<^verbatim>\<open>modules/migrate/mongo-state-store.ts\<close>.

  The lock collection has a unique index on the one value its documents can have, so it holds at most one
  document. Every database operation is one atomic step; between two of them any other replica may run. A replica
  is where it stands in \<open>acquireLock\<close> (\<open>phase\<close>), and its clock is the global time plus a skew of its own.
  \<open>randomUUID\<close> makes the tokens of the replicas different, which is a hypothesis (\<open>inj\<close>).
\<close>

subsection \<open>The collection and its operations\<close>

record lock_doc =
  ld_id :: nat
  ld_owner :: "string option"
  ld_acquiredAt :: "int option"

record lock_coll =
  lc_doc :: "lock_doc option"
  lc_nextId :: nat

text \<open>\<^verbatim>\<open>updateOne(..., { upsert: true })\<close>: \<open>upsertedCount\<close> and the collection.\<close>

definition upsert_lock :: "string \<Rightarrow> int \<Rightarrow> lock_coll \<Rightarrow> nat \<times> lock_coll" where
  "upsert_lock token now c = (case lc_doc c of
       Some d \<Rightarrow> (0, c)
     | None \<Rightarrow> (1, c\<lparr>lc_doc := Some \<lparr>ld_id = lc_nextId c, ld_owner = Some token, ld_acquiredAt = Some now\<rparr>,
                   lc_nextId := Suc (lc_nextId c)\<rparr>))"

definition stamp_lock :: "nat \<Rightarrow> int \<Rightarrow> lock_coll \<Rightarrow> lock_coll" where
  "stamp_lock i now c = (case lc_doc c of
       Some d \<Rightarrow> if ld_id d = i \<and> ld_acquiredAt d = None then c\<lparr>lc_doc := Some (d\<lparr>ld_acquiredAt := Some now\<rparr>)\<rparr> else c
     | None \<Rightarrow> c)"

definition break_lock :: "nat \<Rightarrow> int \<Rightarrow> lock_coll \<Rightarrow> lock_coll" where
  "break_lock i acquiredAt c = (case lc_doc c of
       Some d \<Rightarrow> if ld_id d = i \<and> ld_acquiredAt d = Some acquiredAt then c\<lparr>lc_doc := None\<rparr> else c
     | None \<Rightarrow> c)"

definition beat :: "string \<Rightarrow> int \<Rightarrow> lock_coll \<Rightarrow> lock_coll" where
  "beat token now c = (case lc_doc c of
       Some d \<Rightarrow> if ld_owner d = Some token then c\<lparr>lc_doc := Some (d\<lparr>ld_acquiredAt := Some now\<rparr>)\<rparr> else c
     | None \<Rightarrow> c)"

definition releaseLock :: "string \<Rightarrow> lock_coll \<Rightarrow> lock_coll" where
  "releaseLock token c = (case lc_doc c of
       Some d \<Rightarrow> if ld_owner d = Some token then c\<lparr>lc_doc := None\<rparr> else c
     | None \<Rightarrow> c)"

lemmas lock_ops = upsert_lock_def stamp_lock_def break_lock_def beat_def releaseLock_def

subsection \<open>Acquiring\<close>

definition LOCK_STALE_AFTER_MS :: int where "LOCK_STALE_AFTER_MS = 60000"
definition LOCK_HEARTBEAT_INTERVAL_MS :: int where "LOCK_HEARTBEAT_INTERVAL_MS = 15000"
definition LOCK_WAIT_TIMEOUT_MS :: int where "LOCK_WAIT_TIMEOUT_MS = 15 * 60000"

text \<open>
  Where a replica stands; the first number of the phases inside the loop is its deadline. The
  look at the clock and the deletion that follows it are different steps.
\<close>

datatype phase =
    Idle
  | Upserting int
  | Seeking int
  | Judging int "lock_doc option"
  | Stamping int nat
  | Breaking int nat int
  | Checking int
  | Sleeping int int
  | Holding
  | Released
  | TimedOut
  | Crashed

text \<open>\<open>acquireLock\<close> up to its loop, and one step of the loop, at the time of the replica's own clock.\<close>

definition acquire_start :: "int \<Rightarrow> phase" where
  "acquire_start now = Upserting (now + LOCK_WAIT_TIMEOUT_MS)"

fun acquireLock :: "string \<Rightarrow> int \<Rightarrow> phase \<Rightarrow> lock_coll \<Rightarrow> phase \<times> lock_coll" where
  "acquireLock token now (Upserting deadline) c =
     (let (upsertedCount, c') = upsert_lock token now c
      in (if upsertedCount > 0 then Holding else Seeking deadline, c'))"
| "acquireLock token now (Seeking deadline) c = (Judging deadline (lc_doc c), c)"
| "acquireLock token now (Judging deadline holder) c =
     (case holder of
        None \<Rightarrow> (Checking deadline, c)
      | Some d \<Rightarrow> (case ld_acquiredAt d of
            None \<Rightarrow> (Stamping deadline (ld_id d), c)
          | Some acquiredAt \<Rightarrow>
              if now - acquiredAt > LOCK_STALE_AFTER_MS then (Breaking deadline (ld_id d) acquiredAt, c)
              else (Checking deadline, c)))"
| "acquireLock token now (Stamping deadline i) c = (Checking deadline, stamp_lock i now c)"
| "acquireLock token now (Breaking deadline i acquiredAt) c = (Upserting deadline, break_lock i acquiredAt c)"
| "acquireLock token now (Checking deadline) c =
     (if now > deadline then TimedOut else Sleeping deadline (now + 100), c)"
| "acquireLock token now (Sleeping deadline wake) c =
     (if now \<ge> wake then Upserting deadline else Sleeping deadline wake, c)"
| "acquireLock token now ph c = (ph, c)"

definition acquiring :: "phase \<Rightarrow> bool" where
  "acquiring ph = (case ph of Idle \<Rightarrow> False | Holding \<Rightarrow> False | Released \<Rightarrow> False | TimedOut \<Rightarrow> False | Crashed \<Rightarrow> False | _ \<Rightarrow> True)"

subsection \<open>The replicas together\<close>

text \<open>
  \<open>cl_beat\<close> is the time a replica last wrote into its lock. \<open>withMigrationLock\<close> acquires, runs its work
  while the heart beats, and releases whether the work succeeded or not; a crashed process does nothing any more.
\<close>

record cluster =
  cl_now :: int
  cl_coll :: lock_coll
  cl_phase :: "nat \<Rightarrow> phase"
  cl_beat :: "nat \<Rightarrow> int"

definition local :: "(nat \<Rightarrow> int) \<Rightarrow> cluster \<Rightarrow> nat \<Rightarrow> int" where
  "local skew s p = cl_now s + skew p"

inductive lock_step :: "(nat \<Rightarrow> string) \<Rightarrow> (nat \<Rightarrow> int) \<Rightarrow> cluster \<Rightarrow> cluster \<Rightarrow> bool" for token skew where
  enters: "cl_phase s p = Idle \<Longrightarrow>
     lock_step token skew s (s\<lparr>cl_phase := (cl_phase s)(p := acquire_start (local skew s p))\<rparr>)"
| tries: "acquiring (cl_phase s p) \<Longrightarrow> acquireLock (token p) (local skew s p) (cl_phase s p) (cl_coll s) = (ph, c) \<Longrightarrow>
     lock_step token skew s (s\<lparr>cl_phase := (cl_phase s)(p := ph), cl_coll := c,
        cl_beat := (if ph = Holding then (cl_beat s)(p := local skew s p) else cl_beat s)\<rparr>)"
| beats: "cl_phase s p = Holding \<Longrightarrow>
     lock_step token skew s (s\<lparr>cl_coll := beat (token p) (local skew s p) (cl_coll s), cl_beat := (cl_beat s)(p := local skew s p)\<rparr>)"
| releases: "cl_phase s p = Holding \<Longrightarrow>
     lock_step token skew s (s\<lparr>cl_phase := (cl_phase s)(p := Released), cl_coll := releaseLock (token p) (cl_coll s)\<rparr>)"
| crashes: "lock_step token skew s (s\<lparr>cl_phase := (cl_phase s)(p := Crashed)\<rparr>)"
| ticks: "0 \<le> d \<Longrightarrow> lock_step token skew s (s\<lparr>cl_now := cl_now s + d\<rparr>)"

text \<open>
  The heart of every holder has beaten recently: within the staleness limit less the largest difference
  \<open>S\<close> between two clocks.
\<close>

definition timely :: "(nat \<Rightarrow> int) \<Rightarrow> int \<Rightarrow> cluster \<Rightarrow> bool" where
  "timely skew S s = (\<forall>p. cl_phase s p = Holding \<longrightarrow> local skew s p - cl_beat s p + S \<le> LOCK_STALE_AFTER_MS)"

inductive timely_run :: "(nat \<Rightarrow> string) \<Rightarrow> (nat \<Rightarrow> int) \<Rightarrow> int \<Rightarrow> cluster \<Rightarrow> bool" for token skew S where
  begins: "(\<forall>p. cl_phase s p = Idle) \<Longrightarrow> timely_run token skew S s"
| continues: "timely_run token skew S s \<Longrightarrow> lock_step token skew s s' \<Longrightarrow> timely skew S s' \<Longrightarrow> timely_run token skew S s'"

subsection \<open>Mutual exclusion\<close>

text \<open>A replica about to break a lock has seen it stale; a holder's lock is in the collection.\<close>

definition breaking_ok :: "(nat \<Rightarrow> int) \<Rightarrow> cluster \<Rightarrow> bool" where
  "breaking_ok skew s = (\<forall>p dl i t. cl_phase s p = Breaking dl i t \<longrightarrow> local skew s p - t > LOCK_STALE_AFTER_MS)"

definition lock_inv :: "(nat \<Rightarrow> string) \<Rightarrow> cluster \<Rightarrow> bool" where
  "lock_inv token s =
     (\<forall>p. cl_phase s p = Holding \<longrightarrow> (\<exists>d. lc_doc (cl_coll s) = Some d \<and> ld_owner d = Some (token p)
        \<and> ld_acquiredAt d = Some (cl_beat s p)))"

lemma acquire_effect:
  assumes "acquireLock token now ph c = (ph', c')" "acquiring ph"
  shows "(ph' = Holding \<longleftrightarrow> (\<exists>dl. ph = Upserting dl) \<and> lc_doc c = None)"
    "ph' = Holding \<Longrightarrow> lc_doc c' = Some \<lparr>ld_id = lc_nextId c, ld_owner = Some token, ld_acquiredAt = Some now\<rparr>"
    "ph' \<noteq> Holding \<Longrightarrow> lc_doc c = Some d \<Longrightarrow> ld_acquiredAt d = Some t \<Longrightarrow>
       (\<And>dl i. ph \<noteq> Breaking dl i t) \<Longrightarrow> lc_doc c' = Some d"
    "ph' = Breaking dl i t' \<Longrightarrow> now - t' > LOCK_STALE_AFTER_MS"
  using assms
  by (cases ph; auto simp: lock_ops acquiring_def Let_def split: option.splits if_splits)+

lemma breaking_step:
  assumes "lock_step token skew s s'" "breaking_ok skew s"
  shows "breaking_ok skew s'"
proof -
  have "local skew s' q - t > LOCK_STALE_AFTER_MS" if b: "cl_phase s' q = Breaking dl i t" for q dl i t
    using assms(1)
  proof (cases rule: lock_step.cases)
    case (tries p ph c)
    show ?thesis
    proof (cases "q = p")
      case True
      then show ?thesis using acquire_effect(4) [OF tries(3,2)] tries(1) b by (simp add: local_def)
    next
      case False
      then show ?thesis using assms(2) tries(1) b by (simp add: breaking_ok_def local_def)
    qed
  next
    case (ticks d)
    then have "local skew s q - t > LOCK_STALE_AFTER_MS" using assms(2) b by (simp add: breaking_ok_def)
    then show ?thesis using ticks by (simp add: local_def)
  qed (use assms(2) b in \<open>auto simp: breaking_ok_def local_def acquire_start_def split: if_splits\<close>)
  then show ?thesis unfolding breaking_ok_def by blast
qed

lemma holder_doc: "lock_inv token s \<Longrightarrow> cl_phase s p = Holding \<Longrightarrow>
    \<exists>d. lc_doc (cl_coll s) = Some d \<and> ld_owner d = Some (token p) \<and> ld_acquiredAt d = Some (cl_beat s p)"
  by (simp add: lock_inv_def)

lemma holder_unique:
  assumes "lock_inv token s" "inj token" "cl_phase s p = Holding" "cl_phase s q = Holding"
  shows "p = q"
proof -
  have "token p = token q" using holder_doc [OF assms(1,3)] holder_doc [OF assms(1,4)] by auto
  then show ?thesis using assms(2) by (simp add: inj_eq)
qed

lemma lock_inv_step:
  assumes st: "lock_step token skew s s'" and inv: "lock_inv token s" and br: "breaking_ok skew s" and t: "timely skew S s"
    and inj: "inj token" and sk: "\<And>p q. skew p - skew q \<le> S"
  shows "lock_inv token s'"
  unfolding lock_inv_def
proof (intro allI impI)
  fix q
  assume q: "cl_phase s' q = Holding"
  show "\<exists>d. lc_doc (cl_coll s') = Some d \<and> ld_owner d = Some (token q) \<and> ld_acquiredAt d = Some (cl_beat s' q)"
    using st
  proof (cases rule: lock_step.cases)
    case (tries p ph c)
    show ?thesis
    proof (cases "ph = Holding")
      case True
      then have "lc_doc (cl_coll s) = None" using acquire_effect(1) [OF tries(3,2)] by simp
      then have "cl_phase s q' \<noteq> Holding" for q' using holder_doc [OF inv] by auto
      then have "q = p" using q tries(1) by (auto split: if_splits)
      then show ?thesis using acquire_effect(2) [OF tries(3,2) True] tries(1) True by simp
    next
      case False
      then have qs: "cl_phase s q = Holding" using q tries(1) by (auto split: if_splits)
      then obtain d where d: "lc_doc (cl_coll s) = Some d" "ld_owner d = Some (token q)" "ld_acquiredAt d = Some (cl_beat s q)"
        using holder_doc [OF inv] by blast
      have "cl_phase s p \<noteq> Breaking dl i (cl_beat s q)" for dl i
      proof
        assume "cl_phase s p = Breaking dl i (cl_beat s q)"
        then have "local skew s p - cl_beat s q > LOCK_STALE_AFTER_MS" using br by (simp add: breaking_ok_def)
        moreover have "local skew s q - cl_beat s q + S \<le> LOCK_STALE_AFTER_MS" using t qs by (simp add: timely_def)
        ultimately show False using sk [of p q] by (simp add: local_def)
      qed
      then have "lc_doc c = Some d" using acquire_effect(3) [OF tries(3,2) False d(1,3)] by blast
      then show ?thesis using d tries(1) False by simp
    qed
  next
    case (beats p)
    have "q = p" using holder_unique [OF inv inj _ beats(2)] q beats(1) by simp
    obtain d where d: "lc_doc (cl_coll s) = Some d" "ld_owner d = Some (token p)"
      using holder_doc [OF inv beats(2)] by blast
    show ?thesis using d \<open>q = p\<close> beats(1) by (simp add: beat_def)
  next
    case (releases p)
    then have "q \<noteq> p" "cl_phase s q = Holding" using q by (auto split: if_splits)
    then show ?thesis using holder_unique [OF inv inj _ releases(2)] by blast
  next
    case (enters p)
    then have "cl_phase s q = Holding" using q by (cases "q = p") (simp_all add: acquire_start_def)
    then show ?thesis using holder_doc [OF inv] enters(1) by simp
  next
    case (crashes p)
    then have "cl_phase s q = Holding" using q by (cases "q = p") simp_all
    then show ?thesis using holder_doc [OF inv] crashes(1) by simp
  next
    case (ticks d)
    then show ?thesis using holder_doc [OF inv] q by simp
  qed
qed

lemma timely_run_inv:
  assumes "timely_run token skew S s" "inj token" "\<And>p q. skew p - skew q \<le> S"
  shows "lock_inv token s \<and> breaking_ok skew s \<and> timely skew S s"
  using assms(1)
proof (induction rule: timely_run.induct)
  case (begins s)
  then show ?case by (simp add: lock_inv_def breaking_ok_def timely_def)
next
  case (continues s s')
  then have i: "lock_inv token s" "breaking_ok skew s" "timely skew S s" by blast+
  show ?case
    using lock_inv_step [OF continues(2) i assms(2,3)] breaking_step [OF continues(2) i(2)] continues(3) by blast
qed

text \<open>
  C9. One migrating replica at a time: as long as the heart of every holder beats within the staleness limit
  (less the difference between two clocks), two replicas are never past \<open>acquireLock\<close> together, however their
  steps interleave, whoever crashes, and whatever lock a former run left behind; and the holder's own lock is in the
  collection.
  Assumed: the tokens of the replicas are distinct, and their clocks differ by at most the skew that the staleness limit allows for.
\<close>

theorem migration_mutual_exclusion:
  assumes "timely_run token skew S s" "inj token" "\<And>p q. skew p - skew q \<le> S"
    and "cl_phase s p = Holding" "cl_phase s q = Holding"
  shows "p = q \<and> (case lc_doc (cl_coll s) of None \<Rightarrow> False | Some d \<Rightarrow> ld_owner d = Some (token p))"
proof -
  have inv: "lock_inv token s" using timely_run_inv [OF assms(1-3)] by blast
  show ?thesis using holder_unique [OF inv assms(2,4,5)] holder_doc [OF inv assms(4)] by auto
qed

text \<open>Three replicas: the first holds the lock, the second has found it taken.\<close>

definition replica_token :: "nat \<Rightarrow> string" where
  "replica_token p = replicate p (CHR ''t'')"

definition idle_cluster :: cluster where
  "idle_cluster = \<lparr>cl_now = 0, cl_coll = \<lparr>lc_doc = None, lc_nextId = 0\<rparr>, cl_phase = (\<lambda>_. Idle), cl_beat = (\<lambda>_. 0)\<rparr>"

definition held_cluster :: cluster where
  "held_cluster = idle_cluster\<lparr>cl_coll := \<lparr>lc_doc = Some \<lparr>ld_id = 0, ld_owner = Some (replica_token 1), ld_acquiredAt = Some 0\<rparr>, lc_nextId = 1\<rparr>,
     cl_phase := (cl_phase idle_cluster)(1 := Holding)\<rparr>"

lemma held_cluster_run: "timely_run replica_token (\<lambda>_. 0) 0 held_cluster"
proof -
  let ?s1 = "idle_cluster\<lparr>cl_phase := (cl_phase idle_cluster)(1 := acquire_start (local (\<lambda>_. 0) idle_cluster 1))\<rparr>"
  have a: "acquireLock (replica_token 1) (local (\<lambda>_. 0) ?s1 1) (cl_phase ?s1 1) (cl_coll ?s1) = (Holding, cl_coll held_cluster)"
    by (simp add: idle_cluster_def held_cluster_def acquire_start_def local_def upsert_lock_def)
  have "timely_run replica_token (\<lambda>_. 0) 0 idle_cluster" by (rule timely_run.begins) (simp add: idle_cluster_def)
  then have 1: "timely_run replica_token (\<lambda>_. 0) 0 ?s1"
    by (rule timely_run.continues) (rule lock_step.enters, simp_all add: idle_cluster_def timely_def acquire_start_def)
  have "lock_step replica_token (\<lambda>_. 0) ?s1 (?s1\<lparr>cl_phase := (cl_phase ?s1)(1 := Holding), cl_coll := cl_coll held_cluster,
        cl_beat := (if Holding = Holding then (cl_beat ?s1)(1 := local (\<lambda>_. 0) ?s1 1) else cl_beat ?s1)\<rparr>)"
    by (rule lock_step.tries [where token = replica_token and p = 1, OF _ a]) (simp add: acquiring_def acquire_start_def)
  also have "?s1\<lparr>cl_phase := (cl_phase ?s1)(1 := Holding), cl_coll := cl_coll held_cluster,
        cl_beat := (if Holding = Holding then (cl_beat ?s1)(1 := local (\<lambda>_. 0) ?s1 1) else cl_beat ?s1)\<rparr> = held_cluster"
    by (simp add: held_cluster_def idle_cluster_def local_def fun_upd_def cong: if_cong)
  finally show ?thesis
    by (rule timely_run.continues [OF 1]) (simp add: timely_def held_cluster_def idle_cluster_def local_def LOCK_STALE_AFTER_MS_def)
qed

theorem migration_mutual_exclusion_witness:
  "cl_phase held_cluster 1 = Holding
   \<and> (case lc_doc (cl_coll held_cluster) of None \<Rightarrow> False | Some d \<Rightarrow> ld_owner d = Some (replica_token 1))"
proof -
  have h: "cl_phase held_cluster 1 = Holding" by (simp add: held_cluster_def)
  have "inj replica_token" by (rule injI) (metis length_replicate replica_token_def)
  from migration_mutual_exclusion [OF held_cluster_run this _ h h] h show ?thesis by simp
qed

subsection \<open>Nobody else's lock\<close>

inductive lock_run :: "(nat \<Rightarrow> string) \<Rightarrow> (nat \<Rightarrow> int) \<Rightarrow> cluster \<Rightarrow> bool" for token skew where
  starts: "(\<forall>p. cl_phase s p = Idle) \<Longrightarrow> lock_run token skew s"
| steps: "lock_run token skew s \<Longrightarrow> lock_step token skew s s' \<Longrightarrow> lock_run token skew s'"

lemma lock_run_breaking: "lock_run token skew s \<Longrightarrow> breaking_ok skew s"
proof (induction rule: lock_run.induct)
  case (starts s)
  then show ?case by (simp add: breaking_ok_def)
next
  case (steps s s')
  then show ?case using breaking_step by blast
qed

lemma timely_run_run: "timely_run token skew S s \<Longrightarrow> lock_run token skew s"
  by (induction rule: timely_run.induct) (auto intro: lock_run.intros)

text \<open>
  A lock is only taken away by its owner or when it is stale, also when hearts do not beat: whatever step
  makes the lock document disappear or changes its time, it was made by the replica that owns it, or the document had not been
  refreshed for longer than the staleness limit on the clock of the replica that removed it, or it carried no time.
\<close>

theorem lock_removed_by_owner_or_stale:
  assumes "lock_step token skew s s'" "lc_doc (cl_coll s) = Some d" "lc_doc (cl_coll s') \<noteq> Some d"
    and "lock_run token skew s"
  shows "\<exists>p. (cl_phase s p = Holding \<and> ld_owner d = Some (token p))
    \<or> (case ld_acquiredAt d of
         None \<Rightarrow> (\<exists>dl. cl_phase s p = Stamping dl (ld_id d)) \<and> lc_doc (cl_coll s') \<noteq> None
       | Some t \<Rightarrow> local skew s p - t > LOCK_STALE_AFTER_MS \<and> lc_doc (cl_coll s') = None)"
  using assms(1)
proof (cases rule: lock_step.cases)
  case (tries p ph c)
  have "lc_doc c \<noteq> Some d" using assms(3) tries(1) by simp
  moreover have "acquireLock (token p) (local skew s p) (cl_phase s p) (cl_coll s) = (ph, c)" by (rule tries(3))
  ultimately consider dl i t where "cl_phase s p = Breaking dl i t" "ld_acquiredAt d = Some t" "lc_doc c = None"
    | dl where "cl_phase s p = Stamping dl (ld_id d)" "ld_acquiredAt d = None" "lc_doc c \<noteq> None"
    using assms(2) by (cases "cl_phase s p") (auto simp: lock_ops Let_def split: option.splits if_splits)
  then show ?thesis
  proof cases
    case 1
    then have "local skew s p - t > LOCK_STALE_AFTER_MS" using lock_run_breaking [OF assms(4)] by (simp add: breaking_ok_def)
    then show ?thesis using 1 tries(1) by (intro exI [of _ p]) simp
  next
    case 2
    then show ?thesis using tries(1) by (intro exI [of _ p]) simp
  qed
next
  case (beats p)
  then show ?thesis using assms(2,3) by (intro exI [of _ p]) (auto simp: beat_def split: if_splits)
next
  case (releases p)
  then show ?thesis using assms(2,3) by (intro exI [of _ p]) (auto simp: releaseLock_def split: if_splits)
qed (use assms(2,3) in simp_all)

text \<open>A lock nobody refreshes any more, and a replica that has judged it stale.\<close>

definition stale_doc :: lock_doc where
  "stale_doc = \<lparr>ld_id = 7, ld_owner = Some ''gone'', ld_acquiredAt = Some 0\<rparr>"

definition stale_cluster :: cluster where
  "stale_cluster = \<lparr>cl_now = 70000, cl_coll = \<lparr>lc_doc = Some stale_doc, lc_nextId = 8\<rparr>, cl_phase = (\<lambda>_. Idle), cl_beat = (\<lambda>_. 0)\<rparr>"

definition at_phase :: "phase \<Rightarrow> cluster" where
  "at_phase ph = stale_cluster\<lparr>cl_phase := (\<lambda>_. Idle)(1 := ph)\<rparr>"

lemma stale_step:
  assumes "acquireLock (replica_token 1) 70000 ph (cl_coll stale_cluster) = (ph', c)" "acquiring ph" "ph' \<noteq> Holding"
  shows "lock_step replica_token (\<lambda>_. 0) (at_phase ph) ((at_phase ph')\<lparr>cl_coll := c\<rparr>)"
proof -
  have a: "acquireLock (replica_token 1) (local (\<lambda>_. 0) (at_phase ph) 1) (cl_phase (at_phase ph) 1) (cl_coll (at_phase ph)) = (ph', c)"
    using assms(1) by (simp add: at_phase_def stale_cluster_def local_def)
  have "acquiring (cl_phase (at_phase ph) 1)" using assms(2) by (simp add: at_phase_def)
  from lock_step.tries [where token = replica_token and p = 1, OF this a] assms(3) show ?thesis
    by (simp add: at_phase_def)
qed

lemma stale_run: "lock_run replica_token (\<lambda>_. 0) (at_phase (Breaking (70000 + LOCK_WAIT_TIMEOUT_MS) 7 0))"
proof -
  let ?dl = "70000 + LOCK_WAIT_TIMEOUT_MS"
  have "lock_run replica_token (\<lambda>_. 0) stale_cluster" by (rule lock_run.starts) (simp add: stale_cluster_def)
  then have "lock_run replica_token (\<lambda>_. 0) (stale_cluster\<lparr>cl_phase := (cl_phase stale_cluster)(1 := acquire_start (local (\<lambda>_. 0) stale_cluster 1))\<rparr>)"
    by (rule lock_run.steps) (rule lock_step.enters, simp add: stale_cluster_def)
  then have 1: "lock_run replica_token (\<lambda>_. 0) (at_phase (Upserting ?dl))"
    by (simp add: at_phase_def stale_cluster_def acquire_start_def local_def)
  have "lock_step replica_token (\<lambda>_. 0) (at_phase (Upserting ?dl)) (at_phase (Seeking ?dl))"
    using stale_step [of "Upserting ?dl" "Seeking ?dl" "cl_coll stale_cluster"]
    by (simp add: acquiring_def stale_cluster_def upsert_lock_def at_phase_def)
  from lock_run.steps [OF 1 this] have 2: "lock_run replica_token (\<lambda>_. 0) (at_phase (Seeking ?dl))" .
  have "lock_step replica_token (\<lambda>_. 0) (at_phase (Seeking ?dl)) (at_phase (Judging ?dl (Some stale_doc)))"
    using stale_step [of "Seeking ?dl" "Judging ?dl (Some stale_doc)" "cl_coll stale_cluster"]
    by (simp add: acquiring_def stale_cluster_def at_phase_def)
  from lock_run.steps [OF 2 this] have 3: "lock_run replica_token (\<lambda>_. 0) (at_phase (Judging ?dl (Some stale_doc)))" .
  have "lock_step replica_token (\<lambda>_. 0) (at_phase (Judging ?dl (Some stale_doc))) (at_phase (Breaking ?dl 7 0))"
    using stale_step [of "Judging ?dl (Some stale_doc)" "Breaking ?dl 7 0" "cl_coll stale_cluster"]
    by (simp add: acquiring_def stale_cluster_def at_phase_def stale_doc_def LOCK_STALE_AFTER_MS_def)
  from lock_run.steps [OF 3 this] show ?thesis .
qed

theorem lock_removed_by_owner_or_stale_witness:
  "\<exists>p. local (\<lambda>_. 0) (at_phase (Breaking (70000 + LOCK_WAIT_TIMEOUT_MS) 7 0)) p - 0 > LOCK_STALE_AFTER_MS"
proof -
  let ?s = "at_phase (Breaking (70000 + LOCK_WAIT_TIMEOUT_MS) 7 0)"
  let ?s' = "(at_phase (Upserting (70000 + LOCK_WAIT_TIMEOUT_MS)))\<lparr>cl_coll := \<lparr>lc_doc = None, lc_nextId = 8\<rparr>\<rparr>"
  have st: "lock_step replica_token (\<lambda>_. 0) ?s ?s'"
    by (rule stale_step) (simp_all add: stale_cluster_def break_lock_def stale_doc_def acquiring_def)
  have d: "lc_doc (cl_coll ?s) = Some stale_doc" "lc_doc (cl_coll ?s') \<noteq> Some stale_doc"
    by (simp_all add: at_phase_def stale_cluster_def)
  have "cl_phase ?s p \<noteq> Holding" for p by (simp add: at_phase_def)
  then show ?thesis
    using lock_removed_by_owner_or_stale [OF st d stale_run] by (simp add: stale_doc_def)
qed

subsection \<open>An abandoned lock is taken over\<close>

text \<open>One replica on its own, the database answering at once: its clock only moves while it sleeps.\<close>

definition alone_step :: "string \<Rightarrow> int \<times> phase \<times> lock_coll \<Rightarrow> int \<times> phase \<times> lock_coll" where
  "alone_step token st = (case st of (now, ph, c) \<Rightarrow>
     (let now' = (case ph of Sleeping _ wake \<Rightarrow> max now wake | _ \<Rightarrow> now);
          (ph', c') = acquireLock token now' ph c
      in (now', ph', c')))"

lemma alone_simps:
  "lc_doc c = None \<Longrightarrow> alone_step token (now, Upserting dl, c)
     = (now, Holding, c\<lparr>lc_doc := Some \<lparr>ld_id = lc_nextId c, ld_owner = Some token, ld_acquiredAt = Some now\<rparr>, lc_nextId := Suc (lc_nextId c)\<rparr>)"
  "lc_doc c = Some d \<Longrightarrow> alone_step token (now, Upserting dl, c) = (now, Seeking dl, c)"
  "alone_step token (now, Seeking dl, c) = (now, Judging dl (lc_doc c), c)"
  "ld_acquiredAt d = None \<Longrightarrow> alone_step token (now, Judging dl (Some d), c) = (now, Stamping dl (ld_id d), c)"
  "ld_acquiredAt d = Some a \<Longrightarrow> now - a > LOCK_STALE_AFTER_MS \<Longrightarrow>
     alone_step token (now, Judging dl (Some d), c) = (now, Breaking dl (ld_id d) a, c)"
  "ld_acquiredAt d = Some a \<Longrightarrow> now - a \<le> LOCK_STALE_AFTER_MS \<Longrightarrow>
     alone_step token (now, Judging dl (Some d), c) = (now, Checking dl, c)"
  "alone_step token (now, Stamping dl i, c) = (now, Checking dl, stamp_lock i now c)"
  "alone_step token (now, Breaking dl i a, c) = (now, Upserting dl, break_lock i a c)"
  "now \<le> dl \<Longrightarrow> alone_step token (now, Checking dl, c) = (now, Sleeping dl (now + 100), c)"
  "alone_step token (now, Sleeping dl (now + 100), c) = (now + 100, Upserting dl, c)"
  by (simp_all add: alone_step_def upsert_lock_def)

definition gets_lock :: "string \<Rightarrow> nat \<Rightarrow> int \<Rightarrow> int \<times> phase \<times> lock_coll \<Rightarrow> bool" where
  "gets_lock token n until st = (\<exists>k \<le> n. \<exists>t c' d. (alone_step token ^^ k) st = (t, Holding, c') \<and> t \<le> until
     \<and> lc_doc c' = Some d \<and> ld_owner d = Some token)"

lemma gets_lock_step: "gets_lock token n until (alone_step token st) \<Longrightarrow> gets_lock token (Suc n) until st"
  unfolding gets_lock_def by (metis Suc_le_mono comp_apply funpow_Suc_right)

lemma gets_lock_steps: "gets_lock token n until ((alone_step token ^^ m) st) \<Longrightarrow> gets_lock token (m + n) until st"
proof (induction m arbitrary: st)
  case (Suc m)
  then have "gets_lock token n until ((alone_step token ^^ m) (alone_step token st))"
    by (simp only: funpow_Suc_right comp_def)
  from gets_lock_step [OF Suc.IH [OF this]] show ?case by simp
qed simp

lemma gets_lock_free: "lc_doc c = None \<Longrightarrow> now \<le> until \<Longrightarrow> gets_lock token 1 until (now, Upserting dl, c)"
  unfolding gets_lock_def by (intro exI [of _ 1]) (simp add: alone_simps)

lemma gets_lock_stale:
  assumes "lc_doc c = Some d" "ld_acquiredAt d = Some a" "now - a > LOCK_STALE_AFTER_MS" "now \<le> until"
  shows "gets_lock token 5 until (now, Upserting dl, c)"
proof -
  have "(alone_step token ^^ 4) (now, Upserting dl, c) = (now, Upserting dl, c\<lparr>lc_doc := None\<rparr>)"
    using assms by (simp add: eval_nat_numeral alone_simps break_lock_def)
  then show ?thesis using gets_lock_steps [of token 1 until 4] gets_lock_free [of "c\<lparr>lc_doc := None\<rparr>"] assms(4) by simp
qed

lemma gets_lock_waiting:
  assumes "lc_doc c = Some d" "ld_acquiredAt d = Some a"
  shows "LOCK_STALE_AFTER_MS - (now - a) < 100 * int k \<Longrightarrow> now + 100 * int k \<le> dl \<Longrightarrow> now + 100 * int k \<le> until \<Longrightarrow>
    gets_lock token (5 * k + 5) until (now, Upserting dl, c)"
proof (induction k arbitrary: now)
  case 0
  then show ?case using gets_lock_stale [OF assms] by simp
next
  case (Suc k)
  show ?case
  proof (cases "now - a > LOCK_STALE_AFTER_MS")
    case True
    have "gets_lock token 5 until (now, Upserting dl, c)" using gets_lock_stale [OF assms True] Suc.prems by simp
    then show ?thesis unfolding gets_lock_def by (meson le_trans le_add2)
  next
    case False
    have "(alone_step token ^^ 5) (now, Upserting dl, c) = (now + 100, Upserting dl, c)"
      using assms False Suc.prems by (simp add: eval_nat_numeral alone_simps)
    then show ?thesis using gets_lock_steps [of token "5 * k + 5" until 5] Suc by simp
  qed
qed

text \<open>
  C38. A lock whose holder is gone does not block the next start: whatever lock document is left behind (fresh, stale,
  or written by a version that recorded no time), a replica that finds the database to itself holds the lock after
  at most 3020 steps of its loop and 60.3 seconds, long before it would give up.
  Assumed: the lock document is not dated in the future.
\<close>

theorem abandoned_lock_is_taken_over:
  assumes "\<forall>d a. lc_doc c = Some d \<longrightarrow> ld_acquiredAt d = Some a \<longrightarrow> a \<le> now"
  shows "gets_lock token 3020 (now + 60300) (now, acquire_start now, c)"
proof -
  let ?dl = "now + LOCK_WAIT_TIMEOUT_MS"
  have more: "gets_lock token n until st \<Longrightarrow> n \<le> 3020 \<Longrightarrow> until \<le> now + 60300 \<Longrightarrow> gets_lock token 3020 (now + 60300) st" for n until st
    unfolding gets_lock_def by (meson le_trans order_trans)
  show ?thesis
  proof (cases "lc_doc c")
    case None
    then show ?thesis using more [OF gets_lock_free [of c now "now + 60300"]] by (simp add: acquire_start_def)
  next
    case (Some d)
    show ?thesis
    proof (cases "ld_acquiredAt d")
      case None
      let ?c = "c\<lparr>lc_doc := Some (d\<lparr>ld_acquiredAt := Some now\<rparr>)\<rparr>"
      have s: "(alone_step token ^^ 6) (now, Upserting ?dl, c) = (now + 100, Upserting ?dl, ?c)"
        using Some None by (simp add: eval_nat_numeral alone_simps stamp_lock_def LOCK_WAIT_TIMEOUT_MS_def)
      have "gets_lock token (5 * 601 + 5) (now + 60300) (now + 100, Upserting ?dl, ?c)"
        by (rule gets_lock_waiting [where a = now and d = "d\<lparr>ld_acquiredAt := Some now\<rparr>"])
          (simp_all add: LOCK_WAIT_TIMEOUT_MS_def LOCK_STALE_AFTER_MS_def)
      then have "gets_lock token (6 + (5 * 601 + 5)) (now + 60300) (now, Upserting ?dl, c)"
        using gets_lock_steps [of token "5 * 601 + 5" "now + 60300" 6 "(now, Upserting ?dl, c)"] by (simp only: s)
      then show ?thesis using more by (simp add: acquire_start_def)
    next
      case (Some a)
      then have "a \<le> now" using assms \<open>lc_doc c = Some d\<close> by blast
      then have "gets_lock token (5 * 601 + 5) (now + 60300) (now, Upserting ?dl, c)"
        by (intro gets_lock_waiting [OF \<open>lc_doc c = Some d\<close> Some])
          (simp_all add: LOCK_WAIT_TIMEOUT_MS_def LOCK_STALE_AFTER_MS_def)
      then show ?thesis using more by (simp add: acquire_start_def)
    qed
  qed
qed

theorem abandoned_lock_is_taken_over_witness:
  "gets_lock ''new'' 3020 (5 + 60300) (5, acquire_start 5, \<lparr>lc_doc = Some stale_doc, lc_nextId = 8\<rparr>)"
  by (rule abandoned_lock_is_taken_over) (simp add: stale_doc_def)

end
