(* ===== verification/MigrationRunner.thy ===== *)
theory MigrationRunner
  imports MigrationLock "HOL-Library.List_Lexorder" "HOL-Library.Char_ord"
begin

text \<open>
  Running migrations, \<^verbatim>\<open>modules/migrate/migration-runner.ts\<close> and the state store of
  \<^verbatim>\<open>modules/migrate/mongo-state-store.ts\<close>.

  What a migration does to the application's database is a parameter: its functions map the database (\<open>'w\<close>)
  to a new one and say whether they returned or threw. A directory is the list of its files with what \<^verbatim>\<open>require\<close> makes of
  them (\<open>None\<close> when it throws), \<open>None\<close> when it does not exist. The state collection is a list of documents. A run returns the
  exception it ends with, if any, the collection and the database.
\<close>

subsection \<open>The state store\<close>

record recorded_migration =
  rm_timestamp :: "int option"
  rm_title :: string

record migration_state =
  ms_lastRun :: "string option"
  ms_migrations :: "recorded_migration list option"

datatype migration_error =
    TooManyStates nat
  | LoadFailed string
  | StrictMissing "string list"
  | UpFailed string
  | DownFailed string
  | FileNotFound string
  | NoDown string

definition empty_state :: migration_state where
  "empty_state = \<lparr>ms_lastRun = None, ms_migrations = None\<rparr>"

definition loadAsync :: "migration_state list \<Rightarrow> migration_error + migration_state" where
  "loadAsync coll =
     (if length coll > 1 then Inl (TooManyStates (length coll))
      else if coll = [] then Inr empty_state else Inr (hd coll))"

text \<open>\<^verbatim>\<open>replaceOne({}, ..., { upsert: true })\<close>.\<close>

definition saveAsync :: "migration_state \<Rightarrow> migration_state list \<Rightarrow> migration_state list" where
  "saveAsync st coll = (case coll of [] \<Rightarrow> [st] | _ # rest \<Rightarrow> st # rest)"

definition recorded_of :: "migration_state \<Rightarrow> recorded_migration list" where
  "recorded_of st = (case ms_migrations st of None \<Rightarrow> [] | Some ms \<Rightarrow> ms)"

subsection \<open>Files\<close>

definition DEFAULT_MIGRATION_FILE_PATTERN_test :: "string \<Rightarrow> bool" where
  "DEFAULT_MIGRATION_FILE_PATTERN_test file =
     ((js_ends_with file ''.ts'' \<and> \<not> js_ends_with file ''.d.ts'') \<or> js_ends_with file ''.js'')"

definition migrationId :: "string \<Rightarrow> string" where
  "migrationId title =
     (if js_ends_with title ''.ts'' \<or> js_ends_with title ''.js'' then take (length title - 3) title else title)"

definition parseStrictEnv :: "string option \<Rightarrow> bool" where
  "parseStrictEnv v = (case v of None \<Rightarrow> False
     | Some s \<Rightarrow> js_lower (js_trim s) \<in> {''1'', ''true'', ''yes''})"

text \<open>What \<^verbatim>\<open>require\<close> of a file exports, and a loaded migration.\<close>

record 'w migration_module =
  mm_up :: "('w \<Rightarrow> bool \<times> 'w) option"
  mm_down :: "('w \<Rightarrow> bool \<times> 'w) option"

record 'w migration_file =
  mf_down :: "('w \<Rightarrow> bool \<times> 'w) option"
  mf_timestamp :: int
  mf_title :: string
  mf_up :: "'w \<Rightarrow> bool \<times> 'w"

definition file_timestamp :: "int \<Rightarrow> string \<Rightarrow> int" where
  "file_timestamp now file =
     (let digits = takeWhile is_digit file
      in if digits \<noteq> [] \<and> js_starts_with (drop (length digits) file) ''-'' then int (parse_nat digits) else now)"

fun load_files :: "int \<Rightarrow> string list \<Rightarrow> (string \<times> 'w migration_module option) list
    \<Rightarrow> migration_error + 'w migration_file list" where
  "load_files now seenIds [] = Inr []"
| "load_files now seenIds ((file, module) # rest) =
     (if migrationId file \<in> set seenIds then load_files now seenIds rest
      else case module of
          None \<Rightarrow> Inl (LoadFailed file)
        | Some exports \<Rightarrow> (case mm_up exports of
              None \<Rightarrow> load_files now seenIds rest
            | Some up \<Rightarrow> then_do (load_files now (migrationId file # seenIds) rest) (\<lambda>migrations.
                Inr (\<lparr>mf_down = mm_down exports, mf_timestamp = file_timestamp now file, mf_title = file, mf_up = up\<rparr>
                  # migrations))))"

type_synonym 'w directory = "(string \<times> 'w migration_module option) list option"

definition loadMigrationFiles :: "int \<Rightarrow> (string \<Rightarrow> bool) \<Rightarrow> 'w directory \<Rightarrow> migration_error + 'w migration_file list" where
  "loadMigrationFiles now pattern dir = (case dir of
       None \<Rightarrow> Inr []
     | Some files \<Rightarrow> load_files now [] (sort_key fst (filter (\<lambda>f. pattern (fst f)) files)))"

subsection \<open>Running\<close>

record 'w runner =
  rn_now :: int
  rn_pattern :: "string \<Rightarrow> bool"
  rn_dir :: "'w directory"
  rn_strict :: bool

abbreviation files_of :: "'w runner \<Rightarrow> migration_error + 'w migration_file list" where
  "files_of R \<equiv> loadMigrationFiles (rn_now R) (rn_pattern R) (rn_dir R)"

abbreviation mf_id :: "'w migration_file \<Rightarrow> string" where
  "mf_id m \<equiv> migrationId (mf_title m)"

definition completed_ids :: "recorded_migration list \<Rightarrow> string list" where
  "completed_ids recorded = map (\<lambda>m. migrationId (rm_title m)) recorded"

definition pending_files :: "'w migration_file list \<Rightarrow> recorded_migration list \<Rightarrow> 'w migration_file list" where
  "pending_files allMigrations recorded = filter (\<lambda>m. mf_id m \<notin> set (completed_ids recorded)) allMigrations"

definition missing_files :: "'w migration_file list \<Rightarrow> recorded_migration list \<Rightarrow> recorded_migration list" where
  "missing_files allMigrations recorded = filter (\<lambda>m. migrationId (rm_title m) \<notin> set (map mf_id allMigrations)) recorded"

text \<open>The record that a finished migration leaves.\<close>

definition record_of :: "'w migration_file \<Rightarrow> recorded_migration" where
  "record_of m = \<lparr>rm_timestamp = Some (mf_timestamp m), rm_title = mf_title m\<rparr>"

type_synonym 'w run_result = "migration_error option \<times> migration_state list \<times> 'w"

fun run_pending :: "'w migration_file list \<Rightarrow> migration_state list \<Rightarrow> 'w \<Rightarrow> 'w run_result" where
  "run_pending [] coll w = (None, coll, w)"
| "run_pending (m # ms) coll w =
     (let (returned, w') = mf_up m w
      in if \<not> returned then (Some (UpFailed (mf_title m)), coll, w')
         else (case loadAsync coll of
             Inl e \<Rightarrow> (Some e, coll, w')
           | Inr newState \<Rightarrow>
               run_pending ms (saveAsync \<lparr>ms_lastRun = Some (mf_title m),
                 ms_migrations = Some (recorded_of newState @ [record_of m])\<rparr> coll) w'))"

definition runUp :: "'w runner \<Rightarrow> migration_state list \<Rightarrow> 'w \<Rightarrow> 'w run_result" where
  "runUp R coll w = (case files_of R of
       Inl e \<Rightarrow> (Some e, coll, w)
     | Inr allMigrations \<Rightarrow> (case loadAsync coll of
         Inl e \<Rightarrow> (Some e, coll, w)
       | Inr state \<Rightarrow>
           (let recorded = recorded_of state;
                missing = missing_files allMigrations recorded
            in if missing \<noteq> [] \<and> rn_strict R then (Some (StrictMissing (map rm_title missing)), coll, w)
               else run_pending (pending_files allMigrations recorded) coll w)))"

text \<open>
  \<open>down\<close> in two halves, since it takes no lock: reading the state and finding the file, and
  running the rollback and writing the state back.
\<close>

datatype 'w rollback = NothingToRollback | Rollback "recorded_migration list" string "'w \<Rightarrow> bool \<times> 'w"

definition down_read :: "'w runner \<Rightarrow> migration_state list \<Rightarrow> migration_error + 'w rollback" where
  "down_read R coll = then_do (loadAsync coll) (\<lambda>state.
     let completed = recorded_of state
     in if completed = [] then Inr NothingToRollback
        else then_do (files_of R) (\<lambda>allMigrations.
          let lastMigration = last completed;
              rollbackId = migrationId (rm_title lastMigration)
          in case find (\<lambda>m. mf_id m = rollbackId) allMigrations of
               None \<Rightarrow> Inl (FileNotFound (rm_title lastMigration))
             | Some m \<Rightarrow> (case mf_down m of
                  None \<Rightarrow> Inl (NoDown (rm_title lastMigration))
                | Some down \<Rightarrow> Inr (Rollback completed (mf_title m) down))))"

definition down_write :: "'w rollback \<Rightarrow> migration_state list \<Rightarrow> 'w \<Rightarrow> 'w run_result" where
  "down_write rb coll w = (case rb of
       NothingToRollback \<Rightarrow> (None, coll, w)
     | Rollback completed title down \<Rightarrow>
         (let (returned, w') = down w;
              newMigrations = butlast completed
          in if \<not> returned then (Some (DownFailed title), coll, w')
             else (None, saveAsync \<lparr>ms_lastRun = (if newMigrations = [] then None else Some (rm_title (last newMigrations))),
                           ms_migrations = Some newMigrations\<rparr> coll, w')))"

definition down :: "'w runner \<Rightarrow> migration_state list \<Rightarrow> 'w \<Rightarrow> 'w run_result" where
  "down R coll w = (case down_read R coll of Inl e \<Rightarrow> (Some e, coll, w) | Inr rb \<Rightarrow> down_write rb coll w)"

record migration_status =
  sta_completed :: "string list"
  sta_missing :: "string list"
  sta_pending :: "string list"

definition status :: "'w runner \<Rightarrow> migration_state list \<Rightarrow> migration_error + migration_status" where
  "status R coll = then_do (files_of R) (\<lambda>allMigrations. then_do (loadAsync coll) (\<lambda>state.
     let completed = map rm_title (recorded_of state);
         completedIds = map migrationId completed;
         presentIds = map mf_id allMigrations
     in Inr \<lparr>sta_completed = completed,
             sta_missing = filter (\<lambda>t. migrationId t \<notin> set presentIds) completed,
             sta_pending = map mf_title (filter (\<lambda>m. mf_id m \<notin> set completedIds) allMigrations)\<rparr>))"

subsection \<open>What one run does\<close>

definition coll_recorded :: "migration_state list \<Rightarrow> recorded_migration list" where
  "coll_recorded coll = (case coll of [] \<Rightarrow> [] | st # _ \<Rightarrow> recorded_of st)"

definition run_ups :: "'w migration_file list \<Rightarrow> 'w \<Rightarrow> 'w" where
  "run_ups ms w = foldl (\<lambda>w m. snd (mf_up m w)) w ms"

fun ups_return :: "'w migration_file list \<Rightarrow> 'w \<Rightarrow> bool" where
  "ups_return [] w = True"
| "ups_return (m # ms) w = (fst (mf_up m w) \<and> ups_return ms (snd (mf_up m w)))"

lemma run_ups_simps [simp]:
  "run_ups [] w = w" "run_ups (m # ms) w = run_ups ms (snd (mf_up m w))" "run_ups (ms @ ms') w = run_ups ms' (run_ups ms w)"
  by (simp_all add: run_ups_def)

lemma ups_return_append: "ups_return (ms @ ms') w \<longleftrightarrow> ups_return ms w \<and> ups_return ms' (run_ups ms w)"
  by (induction ms arbitrary: w) auto

lemma loadAsync_ok: "length coll \<le> 1 \<Longrightarrow> \<exists>st. loadAsync coll = Inr st \<and> recorded_of st = coll_recorded coll"
  by (cases coll) (auto simp: loadAsync_def coll_recorded_def empty_state_def recorded_of_def)

lemma saveAsync_ok: "length coll \<le> 1 \<Longrightarrow> saveAsync st coll = [st]"
  by (cases coll) (auto simp: saveAsync_def)

text \<open>The migrations that ran to the end, and the one the run stopped at.\<close>

definition ran_until :: "'w migration_file list \<Rightarrow> 'w migration_file list \<Rightarrow> migration_state list \<Rightarrow> 'w \<Rightarrow> 'w run_result \<Rightarrow> bool" where
  "ran_until finished rest coll w res = (case res of (err, coll', w') \<Rightarrow>
     ups_return finished w \<and> length coll' \<le> 1 \<and> coll_recorded coll' = coll_recorded coll @ map record_of finished
     \<and> (case rest of
          [] \<Rightarrow> err = None \<and> w' = run_ups finished w
        | m # _ \<Rightarrow> err = Some (UpFailed (mf_title m)) \<and> \<not> fst (mf_up m (run_ups finished w))
            \<and> w' = snd (mf_up m (run_ups finished w))))"

lemma run_pending_ran:
  "length coll \<le> 1 \<Longrightarrow> \<exists>finished rest. ms = finished @ rest \<and> ran_until finished rest coll w (run_pending ms coll w)"
proof (induction ms arbitrary: coll w)
  case Nil
  then show ?case by (simp add: ran_until_def)
next
  case (Cons m ms)
  obtain ok w' where u: "mf_up m w = (ok, w')" by (cases "mf_up m w")
  show ?case
  proof (cases ok)
    case False
    then have "ran_until [] (m # ms) coll w (run_pending (m # ms) coll w)"
      using u Cons.prems by (simp add: ran_until_def)
    then show ?thesis by (intro exI [of _ "[]"] exI [of _ "m # ms"]) simp
  next
    case True
    obtain st where st: "loadAsync coll = Inr st" "recorded_of st = coll_recorded coll" using loadAsync_ok [OF Cons.prems] by blast
    define coll1 where "coll1 = [\<lparr>ms_lastRun = Some (mf_title m), ms_migrations = Some (coll_recorded coll @ [record_of m])\<rparr>]"
    have r: "run_pending (m # ms) coll w = run_pending ms coll1 w'"
      using u True st saveAsync_ok [OF Cons.prems] by (simp add: coll1_def)
    have c1: "length coll1 \<le> 1" "coll_recorded coll1 = coll_recorded coll @ [record_of m]"
      by (simp_all add: coll1_def coll_recorded_def recorded_of_def)
    obtain finished rest where f: "ms = finished @ rest" "ran_until finished rest coll1 w' (run_pending ms coll1 w')"
      using Cons.IH [OF c1(1)] by blast
    have "ran_until (m # finished) rest coll w (run_pending (m # ms) coll w)"
      unfolding r using f(2) u True c1(2) by (auto simp: ran_until_def split: prod.splits list.splits)
    then show ?thesis using f(1) by (intro exI [of _ "m # finished"] exI [of _ rest]) simp
  qed
qed

lemma runUp_ran:
  assumes "length coll \<le> 1" "files_of R = Inr fs" "\<not> (rn_strict R \<and> missing_files fs (coll_recorded coll) \<noteq> [])"
  shows "runUp R coll w = run_pending (pending_files fs (coll_recorded coll)) coll w"
  using loadAsync_ok [OF assms(1)] assms(2,3) by (auto simp: runUp_def Let_def)

text \<open>Ids of the loaded files are distinct, and their names sorted.\<close>

lemma load_files_distinct:
  "load_files now seen fs = Inr ms \<Longrightarrow> distinct (map mf_id ms) \<and> set (map mf_id ms) \<inter> set seen = {}"
proof (induction now seen fs arbitrary: ms rule: load_files.induct)
  case (2 now seen f exports rest)
  show ?case
  proof (cases "migrationId f \<in> set seen")
    case True
    then show ?thesis using 2 by simp
  next
    case False
    then obtain e where e: "exports = Some e" using 2(4) by (cases exports) simp_all
    show ?thesis
    proof (cases "mm_up e")
      case None
      then show ?thesis using 2(2) [OF False e None] 2(4) False e by simp
    next
      case (Some up)
      obtain ms' where ms': "load_files now (migrationId f # seen) rest = Inr ms'" "map mf_id ms = migrationId f # map mf_id ms'"
        using 2(4) False e Some by (auto simp: then_do_Inr)
      show ?thesis using 2(3) [OF False e Some ms'(1)] ms'(2) False by simp
    qed
  qed
qed simp

lemma load_files_sorted:
  "load_files now seen fs = Inr ms \<Longrightarrow> sorted (map fst fs) \<Longrightarrow> sorted (map mf_title ms) \<and> set (map mf_title ms) \<subseteq> fst ` set fs"
proof (induction now seen fs arbitrary: ms rule: load_files.induct)
  case (2 now seen f exports rest)
  have srt: "sorted (map fst rest)" using 2(5) by simp
  show ?case
  proof (cases "migrationId f \<in> set seen")
    case True
    then show ?thesis using 2(1) [OF True _ srt] 2(4) by auto
  next
    case False
    then obtain e where e: "exports = Some e" using 2(4) by (cases exports) simp_all
    show ?thesis
    proof (cases "mm_up e")
      case None
      then show ?thesis using 2(2) [OF False e None _ srt] 2(4) False e by auto
    next
      case (Some up)
      obtain ms' where ms': "load_files now (migrationId f # seen) rest = Inr ms'" "map mf_title ms = f # map mf_title ms'"
        using 2(4) False e Some by (auto simp: then_do_Inr)
      have i: "sorted (map mf_title ms')" "set (map mf_title ms') \<subseteq> fst ` set rest"
        using 2(3) [OF False e Some ms'(1) srt] by blast+
      have "\<forall>t \<in> fst ` set rest. f \<le> t" using 2(5) by simp
      then have "\<forall>t \<in> set (map mf_title ms'). f \<le> t" using i(2) by blast
      then show ?thesis using ms'(2) i by auto
    qed
  qed
qed simp

lemma files_distinct: "files_of R = Inr fs \<Longrightarrow> distinct (map mf_id fs)"
  by (auto simp: loadMigrationFiles_def load_files_distinct split: option.splits)

lemma files_sorted: "files_of R = Inr fs \<Longrightarrow> sorted (map mf_title fs)"
  by (auto simp: loadMigrationFiles_def dest!: load_files_sorted split: option.splits)

lemma pending_distinct: "distinct (map mf_id fs) \<Longrightarrow> distinct (map mf_id (pending_files fs recorded))"
  unfolding pending_files_def by (rule distinct_map_filter)

lemma record_of_id [simp]: "migrationId (rm_title (record_of m)) = mf_id m"
  by (simp add: record_of_def)

lemma completed_ids_append [simp]:
  "completed_ids (r @ map record_of ms) = completed_ids r @ map mf_id ms"
  by (simp add: completed_ids_def)

text \<open>
  C31. A run executes what is pending, once, in order, and records exactly what it finished: the migrations of the directory
  that no record names run in the order of their file names, each on the database its predecessors left; the run stops at
  the first that throws and says so; what finished before it, and nothing else, is added to the records.
  Assumed: the files can be listed, there is at most one state document, and a strict run finds the file of each record.
\<close>

theorem up_runs_pending_in_order:
  assumes "length coll \<le> 1" "files_of R = Inr fs" "\<not> (rn_strict R \<and> missing_files fs (coll_recorded coll) \<noteq> [])"
  shows "\<exists>finished rest. pending_files fs (coll_recorded coll) = finished @ rest
    \<and> ran_until finished rest coll w (runUp R coll w)
    \<and> sorted (map mf_title (finished @ rest)) \<and> distinct (map mf_id (finished @ rest))"
proof -
  obtain finished rest where f: "pending_files fs (coll_recorded coll) = finished @ rest"
    "ran_until finished rest coll w (runUp R coll w)"
    using run_pending_ran [OF assms(1)] runUp_ran [OF assms] by metis
  have "sorted (map mf_title (pending_files fs (coll_recorded coll)))"
    unfolding pending_files_def by (rule sorted_filter [OF files_sorted [OF assms(2)]])
  then show ?thesis using f pending_distinct [OF files_distinct [OF assms(2)], of "coll_recorded coll"] by metis
qed

definition note_migration :: "string \<Rightarrow> string list \<Rightarrow> bool \<times> string list" where
  "note_migration n w = (True, w @ [n])"

definition drop_note :: "string list \<Rightarrow> bool \<times> string list" where
  "drop_note w = (True, butlast w)"

definition example_runner :: "string \<Rightarrow> string list runner" where
  "example_runner ext = \<lparr>rn_now = 9, rn_pattern = DEFAULT_MIGRATION_FILE_PATTERN_test,
     rn_dir = Some [(''2-b'' @ ext, Some \<lparr>mm_up = Some (note_migration ''b''), mm_down = Some drop_note\<rparr>),
                    (''1-a'' @ ext, Some \<lparr>mm_up = Some (note_migration ''a''), mm_down = Some drop_note\<rparr>),
                    (''1-a.d.ts'', None)],
     rn_strict = True\<rparr>"

definition example_files :: "string \<Rightarrow> string list migration_file list" where
  "example_files ext =
     [\<lparr>mf_down = Some drop_note, mf_timestamp = 1, mf_title = ''1-a'' @ ext, mf_up = note_migration ''a''\<rparr>,
      \<lparr>mf_down = Some drop_note, mf_timestamp = 2, mf_title = ''2-b'' @ ext, mf_up = note_migration ''b''\<rparr>]"

lemma example_names:
  "DEFAULT_MIGRATION_FILE_PATTERN_test ''2-b.ts'' \<and> DEFAULT_MIGRATION_FILE_PATTERN_test ''1-a.ts''
   \<and> \<not> DEFAULT_MIGRATION_FILE_PATTERN_test ''1-a.d.ts'' \<and> \<not> ''2-b.ts'' \<le> ''1-a.ts''"
  "DEFAULT_MIGRATION_FILE_PATTERN_test ''2-b.js'' \<and> DEFAULT_MIGRATION_FILE_PATTERN_test ''1-a.js'' \<and> \<not> ''2-b.js'' \<le> ''1-a.js''"
  "migrationId ''1-a.ts'' = ''1-a'' \<and> migrationId ''2-b.ts'' = ''2-b'' \<and> migrationId ''1-a.js'' = ''1-a'' \<and> migrationId ''2-b.js'' = ''2-b''"
  "file_timestamp 9 ''1-a.ts'' = 1 \<and> file_timestamp 9 ''2-b.ts'' = 2 \<and> file_timestamp 9 ''1-a.js'' = 1 \<and> file_timestamp 9 ''2-b.js'' = 2"
  by code_simp+

lemma example_loads:
  "files_of (example_runner ''.ts'') = Inr (example_files ''.ts'')"
  "files_of (example_runner ''.js'') = Inr (example_files ''.js'')"
  by (simp_all add: loadMigrationFiles_def example_runner_def example_files_def example_names)

theorem up_runs_pending_in_order_witness:
  "\<exists>finished rest. pending_files (example_files ''.ts'') (coll_recorded []) = finished @ rest
    \<and> ran_until finished rest [] [] (runUp (example_runner ''.ts'') [] [])
    \<and> sorted (map mf_title (finished @ rest)) \<and> distinct (map mf_id (finished @ rest))"
  by (rule up_runs_pending_in_order) (simp_all add: example_loads(1) missing_files_def coll_recorded_def)

subsection \<open>Runs one after another\<close>

lemma runUp_cases:
  assumes "length coll \<le> 1"
  obtains (refused) e where "runUp R coll w = (Some e, coll, w)"
  | (ran) fs finished rest where "files_of R = Inr fs" "\<not> (rn_strict R \<and> missing_files fs (coll_recorded coll) \<noteq> [])"
      "pending_files fs (coll_recorded coll) = finished @ rest" "ran_until finished rest coll w (runUp R coll w)"
proof (cases "files_of R")
  case (Inl e)
  then show ?thesis using refused by (simp add: runUp_def)
next
  case (Inr fs)
  obtain st where st: "loadAsync coll = Inr st" "recorded_of st = coll_recorded coll" using loadAsync_ok [OF assms] by blast
  show ?thesis
  proof (cases "rn_strict R \<and> missing_files fs (coll_recorded coll) \<noteq> []")
    case True
    then show ?thesis using refused Inr st by (simp add: runUp_def Let_def)
  next
    case False
    then show ?thesis
      using ran [OF Inr False] run_pending_ran [OF assms] runUp_ran [OF assms Inr False] by metis
  qed
qed

definition well_recorded :: "migration_state list \<Rightarrow> bool" where
  "well_recorded coll = (length coll \<le> 1 \<and> distinct (completed_ids (coll_recorded coll)))"

lemma saved_recorded [simp]: "coll_recorded [st] = recorded_of st" by (simp add: coll_recorded_def)

lemma recorded_of_simps [simp]: "recorded_of \<lparr>ms_lastRun = l, ms_migrations = Some r\<rparr> = r" by (simp add: recorded_of_def)

lemma down_read_Inr:
  assumes "down_read R coll = Inr rb" "loadAsync coll = Inr st"
  shows "rb = NothingToRollback \<and> recorded_of st = [] \<or> (\<exists>title d. rb = Rollback (recorded_of st) title d)"
proof (cases "recorded_of st = []")
  case True
  then show ?thesis using assms by (simp add: down_read_def Let_def)
next
  case False
  then obtain fs where fs: "files_of R = Inr fs" using assms by (auto simp: down_read_def Let_def then_do_Inr)
  obtain m where m: "find (\<lambda>m. mf_id m = migrationId (rm_title (last (recorded_of st)))) fs = Some m"
    using assms False fs by (auto simp: down_read_def Let_def split: option.splits)
  then show ?thesis using assms False fs by (cases "mf_down m") (auto simp: down_read_def Let_def)
qed

lemma down_cases:
  assumes "length coll \<le> 1"
  obtains (stays) e w' where "down R coll w = (e, coll, w')" "e = None \<longrightarrow> coll_recorded coll = []"
  | (drops) st w' where "down R coll w = (None, [st], w')" "recorded_of st = butlast (coll_recorded coll)"
proof (cases "down_read R coll")
  case (Inl e)
  then show ?thesis using stays by (simp add: down_def)
next
  case (Inr rb)
  obtain st where st: "loadAsync coll = Inr st" "recorded_of st = coll_recorded coll" using loadAsync_ok [OF assms] by blast
  show ?thesis
  proof (cases rb)
    case NothingToRollback
    then have "coll_recorded coll = []"
      using down_read_Inr [OF Inr st(1)] st(2) by simp
    then show ?thesis using stays [of None w] Inr NothingToRollback by (simp add: down_def down_write_def)
  next
    case (Rollback completed title d)
    then have c: "completed = coll_recorded coll"
      using down_read_Inr [OF Inr st(1)] st(2) by simp
    obtain ok w' where d: "d w = (ok, w')" by (cases "d w")
    show ?thesis
    proof (cases ok)
      case True
      let ?kept = "butlast completed"
      let ?st = "\<lparr>ms_lastRun = (if ?kept = [] then None else Some (rm_title (last ?kept))), ms_migrations = Some ?kept\<rparr>"
      have "down R coll w = (None, [?st], w')"
        using Inr Rollback d True saveAsync_ok [OF assms] by (simp add: down_def down_write_def Let_def)
      then show ?thesis using drops c by simp
    next
      case False
      then show ?thesis using stays [of "Some (DownFailed title)" w'] Inr Rollback d by (simp add: down_def down_write_def)
    qed
  qed
qed

lemma runUp_well_recorded:
  assumes "well_recorded coll" "runUp R coll w = (err, coll', w')"
  shows "well_recorded coll'"
proof -
  have l: "length coll \<le> 1" using assms(1) by (simp add: well_recorded_def)
  show ?thesis
  proof (cases rule: runUp_cases [OF l, where R = R and w = w])
    case (1 e)
    then show ?thesis using assms by simp
  next
    case (2 fs finished rest)
    note ran = 2
    have "distinct (map mf_id finished)"
      using pending_distinct [OF files_distinct [OF ran(1)], of "coll_recorded coll"] ran(3) by simp
    moreover have "set finished \<subseteq> set (pending_files fs (coll_recorded coll))" using ran(3) by auto
    then have "set (map mf_id finished) \<inter> set (completed_ids (coll_recorded coll)) = {}" by (auto simp: pending_files_def)
    ultimately show ?thesis using ran(4) assms by (auto simp: ran_until_def well_recorded_def)
  qed
qed

lemma down_well_recorded:
  assumes "well_recorded coll" "down R coll w = (err, coll', w')"
  shows "well_recorded coll'"
proof -
  have l: "length coll \<le> 1" using assms(1) by (simp add: well_recorded_def)
  show ?thesis
  proof (cases rule: down_cases [OF l, where R = R and w = w])
    case (1 e w1)
    then show ?thesis using assms by simp
  next
    case (2 st w1)
    then show ?thesis using assms by (auto simp: well_recorded_def completed_ids_def map_butlast distinct_butlast)
  qed
qed

text \<open>Any runs and rollbacks of any runners, one after another: a release may add, rename or delete files in between.\<close>

inductive store_run :: "migration_state list \<Rightarrow> 'w \<Rightarrow> migration_state list \<Rightarrow> 'w \<Rightarrow> bool" for coll0 w0 where
  store_start: "store_run coll0 w0 coll0 w0"
| store_up: "store_run coll0 w0 coll w \<Longrightarrow> runUp R coll w = (err, coll', w') \<Longrightarrow> store_run coll0 w0 coll' w'"
| store_down: "store_run coll0 w0 coll w \<Longrightarrow> down R coll w = (err, coll', w') \<Longrightarrow> store_run coll0 w0 coll' w'"

text \<open>
  No migration is applied on top of itself: through any sequence of runs and rollbacks, whatever fails and whatever the
  directory holds, the collection keeps a single state document in which no migration is recorded twice, neither under
  its name nor under the name its compiled file has.
\<close>

theorem no_migration_recorded_twice:
  assumes "store_run coll0 w0 coll w" "well_recorded coll0"
  shows "length coll \<le> 1 \<and> distinct (map (\<lambda>m. migrationId (rm_title m)) (coll_recorded coll))"
proof -
  have "well_recorded coll"
    using assms by (induction rule: store_run.induct) (auto dest: runUp_well_recorded down_well_recorded)
  then show ?thesis by (simp add: well_recorded_def completed_ids_def)
qed

lemma example_up:
  "runUp (example_runner ''.ts'') [] [] = (None, [\<lparr>ms_lastRun = Some ''2-b.ts'', ms_migrations = Some
     [\<lparr>rm_timestamp = Some 1, rm_title = ''1-a.ts''\<rparr>, \<lparr>rm_timestamp = Some 2, rm_title = ''2-b.ts''\<rparr>]\<rparr>], [''a'', ''b''])"
  using example_loads(1)
  by (simp add: runUp_def loadAsync_def empty_state_def recorded_of_def missing_files_def pending_files_def completed_ids_def
      example_files_def saveAsync_def record_of_def note_migration_def example_names(3))

theorem no_migration_recorded_twice_witness:
  "length [\<lparr>ms_lastRun = Some ''2-b.ts'', ms_migrations = Some
     [\<lparr>rm_timestamp = Some 1, rm_title = ''1-a.ts''\<rparr>, \<lparr>rm_timestamp = Some 2, rm_title = ''2-b.ts''\<rparr>]\<rparr>] \<le> 1
   \<and> distinct (map (\<lambda>m. migrationId (rm_title m)) (coll_recorded [\<lparr>ms_lastRun = Some ''2-b.ts'', ms_migrations = Some
     [\<lparr>rm_timestamp = Some 1, rm_title = ''1-a.ts''\<rparr>, \<lparr>rm_timestamp = Some 2, rm_title = ''2-b.ts''\<rparr>]\<rparr>]))"
  by (rule no_migration_recorded_twice [OF store_up [OF store_start example_up]])
    (simp add: well_recorded_def coll_recorded_def completed_ids_def)

lemma runUp_finished:
  assumes "length coll \<le> 1" "files_of R = Inr fs" "runUp R coll w = (None, coll1, w1)"
  shows "length coll1 \<le> 1 \<and> coll_recorded coll1 = coll_recorded coll @ map record_of (pending_files fs (coll_recorded coll))
    \<and> ups_return (pending_files fs (coll_recorded coll)) w \<and> w1 = run_ups (pending_files fs (coll_recorded coll)) w"
proof (cases rule: runUp_cases [OF assms(1), where R = R and w = w])
  case (2 fs' finished rest)
  then have "fs' = fs" using assms(2) by simp
  moreover have "rest = []" using 2(4) assms(3) by (cases rest) (auto simp: ran_until_def)
  ultimately show ?thesis using 2(3,4) assms(3) by (simp add: ran_until_def)
qed (use assms(3) in simp)

text \<open>
  A second run, of the same release or of one whose migrations were compiled to JavaScript under the same names,
  applies nothing: after a run that finished, no runner whose files carry ids that were already loaded or
  recorded changes the database or the records; it can at most refuse to start.
\<close>

theorem second_run_does_nothing:
  assumes "length coll \<le> 1" "files_of R = Inr fs" "runUp R coll w = (None, coll1, w1)"
    and "files_of R' = Inr fs'" "set (map mf_id fs') \<subseteq> set (map mf_id fs) \<union> set (completed_ids (coll_recorded coll))"
  shows "\<exists>err. runUp R' coll1 w1 = (err, coll1, w1) \<and> (err \<noteq> None \<longrightarrow> rn_strict R')"
proof -
  note f = runUp_finished [OF assms(1-3)]
  have c: "set (completed_ids (coll_recorded coll1))
      = set (completed_ids (coll_recorded coll)) \<union> set (map mf_id (pending_files fs (coll_recorded coll)))"
    using f by simp
  have "set (map mf_id fs') \<subseteq> set (completed_ids (coll_recorded coll1))"
  proof
    fix x
    assume "x \<in> set (map mf_id fs')"
    then have "x \<in> set (map mf_id fs) \<or> x \<in> set (completed_ids (coll_recorded coll))" using assms(5) by blast
    then show "x \<in> set (completed_ids (coll_recorded coll1))"
      unfolding c by (cases "x \<in> set (completed_ids (coll_recorded coll))") (auto simp: pending_files_def)
  qed
  then have "pending_files fs' (coll_recorded coll1) = []" unfolding pending_files_def by (intro filter_False) auto
  moreover obtain st where "loadAsync coll1 = Inr st" "recorded_of st = coll_recorded coll1"
    using loadAsync_ok f by blast
  ultimately show ?thesis using assms(4) by (simp add: runUp_def Let_def)
qed

theorem second_run_does_nothing_witness:
  "\<exists>err. runUp (example_runner ''.js'') [\<lparr>ms_lastRun = Some ''2-b.ts'', ms_migrations = Some
     [\<lparr>rm_timestamp = Some 1, rm_title = ''1-a.ts''\<rparr>, \<lparr>rm_timestamp = Some 2, rm_title = ''2-b.ts''\<rparr>]\<rparr>] [''a'', ''b'']
    = (err, [\<lparr>ms_lastRun = Some ''2-b.ts'', ms_migrations = Some
     [\<lparr>rm_timestamp = Some 1, rm_title = ''1-a.ts''\<rparr>, \<lparr>rm_timestamp = Some 2, rm_title = ''2-b.ts''\<rparr>]\<rparr>], [''a'', ''b''])
    \<and> (err \<noteq> None \<longrightarrow> rn_strict (example_runner ''.js''))"
  by (rule second_run_does_nothing [OF _ example_loads(1) example_up example_loads(2)])
    (simp_all add: example_files_def example_names(3))

subsection \<open>Rolling back\<close>

lemma find_id: "distinct (map mf_id fs) \<Longrightarrow> m \<in> set fs \<Longrightarrow> find (\<lambda>x. mf_id x = mf_id m) fs = Some m"
  by (induction fs) auto

lemma down_last:
  assumes "length coll \<le> 1" "files_of R = Inr fs" "coll_recorded coll = r @ [record_of m]" "m \<in> set fs"
    and "mf_down m = Some d" "d w = (True, w')"
  shows "\<exists>st. down R coll w = (None, [st], w') \<and> recorded_of st = r"
proof -
  obtain st where st: "loadAsync coll = Inr st" "recorded_of st = coll_recorded coll" using loadAsync_ok [OF assms(1)] by blast
  have "down_read R coll = Inr (Rollback (coll_recorded coll) (mf_title m) d)"
    using st assms(2,3,5) find_id [OF files_distinct [OF assms(2)] assms(4)] by (simp add: down_read_def Let_def)
  then show ?thesis
    using assms(3,6) saveAsync_ok [OF assms(1)] by (simp add: down_def down_write_def Let_def)
qed

text \<open>\<open>n\<close> calls of \<open>down\<close>, stopping at one that throws.\<close>

fun downs :: "nat \<Rightarrow> 'w runner \<Rightarrow> migration_state list \<Rightarrow> 'w \<Rightarrow> 'w run_result" where
  "downs 0 R coll w = (None, coll, w)"
| "downs (Suc n) R coll w = (case down R coll w of
       (None, coll', w') \<Rightarrow> downs n R coll' w'
     | (Some e, coll', w') \<Rightarrow> (Some e, coll', w'))"

definition reversible :: "'w migration_file \<Rightarrow> bool" where
  "reversible m = (\<exists>d. mf_down m = Some d \<and> (\<forall>w. fst (mf_up m w) \<longrightarrow> d (snd (mf_up m w)) = (True, w)))"

lemma downs_undo:
  assumes "files_of R = Inr fs"
  shows "set ms \<subseteq> set fs \<Longrightarrow> \<forall>m\<in>set ms. reversible m \<Longrightarrow> ups_return ms w \<Longrightarrow> length coll \<le> 1 \<Longrightarrow>
    coll_recorded coll = r @ map record_of ms \<Longrightarrow>
    \<exists>coll'. downs (length ms) R coll (run_ups ms w) = (None, coll', w) \<and> length coll' \<le> 1 \<and> coll_recorded coll' = r"
proof (induction ms arbitrary: coll rule: rev_induct)
  case (snoc m ms)
  obtain d where d: "mf_down m = Some d" "d (snd (mf_up m (run_ups ms w))) = (True, run_ups ms w)"
    using snoc.prems(2,3) by (auto simp: reversible_def ups_return_append)
  obtain st where st: "down R coll (run_ups (ms @ [m]) w) = (None, [st], run_ups ms w)" "recorded_of st = r @ map record_of ms"
    using down_last [OF snoc.prems(4) assms _ _ d(1), of "r @ map record_of ms" "run_ups (ms @ [m]) w" "run_ups ms w"]
      snoc.prems(1,5) d(2) by auto
  have "\<exists>coll'. downs (length ms) R [st] (run_ups ms w) = (None, coll', w) \<and> length coll' \<le> 1 \<and> coll_recorded coll' = r"
    by (rule snoc.IH) (use snoc.prems st(2) in \<open>auto simp: ups_return_append\<close>)
  then show ?case using st(1) by simp
qed simp

text \<open>
  Rolling back undoes a run: when every migration of a run has a \<open>down\<close> that inverts its \<open>up\<close>, as many calls of
  \<open>down\<close> as the run applied migrations restore the database and the records from before it.
\<close>

theorem down_undoes_up:
  assumes "length coll \<le> 1" "files_of R = Inr fs" "runUp R coll w = (None, coll1, w1)"
    and "\<forall>m \<in> set (pending_files fs (coll_recorded coll)). reversible m"
  shows "\<exists>coll'. downs (length (pending_files fs (coll_recorded coll))) R coll1 w1 = (None, coll', w)
    \<and> length coll' \<le> 1 \<and> coll_recorded coll' = coll_recorded coll"
  using runUp_finished [OF assms(1-3)] downs_undo [OF assms(2) _ assms(4), of w coll1 "coll_recorded coll"]
  by (auto simp: pending_files_def)

theorem down_undoes_up_witness:
  "\<exists>coll'. downs (length (pending_files (example_files ''.ts'') (coll_recorded []))) (example_runner ''.ts'')
      [\<lparr>ms_lastRun = Some ''2-b.ts'', ms_migrations = Some
        [\<lparr>rm_timestamp = Some 1, rm_title = ''1-a.ts''\<rparr>, \<lparr>rm_timestamp = Some 2, rm_title = ''2-b.ts''\<rparr>]\<rparr>] [''a'', ''b''] = (None, coll', [])
    \<and> length coll' \<le> 1 \<and> coll_recorded coll' = coll_recorded []"
  by (rule down_undoes_up [OF _ example_loads(1) example_up])
    (simp_all add: pending_files_def example_files_def reversible_def drop_note_def note_migration_def)

text \<open>
  A rollback is not kept apart from a run: \<open>down\<close> takes no lock and writes back the list it read. When another
  replica's run comes between the two, everything that run applied stays in the database but is erased from the records,
  and is pending again.
\<close>

theorem rollback_outside_lock_forgets:
  assumes "length coll \<le> 1" "down_read R coll = Inr (Rollback completed title d)"
    and "files_of R' = Inr fs" "runUp R' coll w = (None, coll1, w1)" "d w1 = (True, w2)"
  shows "\<exists>coll2. down_write (Rollback completed title d) coll1 w1 = (None, coll2, w2)
    \<and> w2 = snd (d (run_ups (pending_files fs (coll_recorded coll)) w))
    \<and> set (pending_files fs (coll_recorded coll)) \<subseteq> set (pending_files fs (coll_recorded coll2))"
proof -
  note f = runUp_finished [OF assms(1,3,4)]
  have c: "completed = coll_recorded coll"
    using loadAsync_ok [OF assms(1)] down_read_Inr [OF assms(2)] by auto
  let ?kept = "butlast completed"
  let ?st = "\<lparr>ms_lastRun = (if ?kept = [] then None else Some (rm_title (last ?kept))), ms_migrations = Some ?kept\<rparr>"
  have "down_write (Rollback completed title d) coll1 w1 = (None, [?st], w2)"
    using assms(5) f saveAsync_ok [of coll1 ?st] by (simp add: down_write_def Let_def)
  moreover have "set (completed_ids ?kept) \<subseteq> set (completed_ids (coll_recorded coll))"
    using c by (auto simp: completed_ids_def dest: in_set_butlastD)
  then have "set (pending_files fs (coll_recorded coll)) \<subseteq> set (pending_files fs (coll_recorded [?st]))"
    by (auto simp: pending_files_def)
  ultimately show ?thesis using f assms(5) by (metis snd_conv)
qed

definition half_state :: "migration_state list" where
  "half_state = [\<lparr>ms_lastRun = Some ''1-a.ts'', ms_migrations = Some [\<lparr>rm_timestamp = Some 1, rm_title = ''1-a.ts''\<rparr>]\<rparr>]"

lemma half_runs:
  "runUp (example_runner ''.ts'') half_state [''a''] = (None, [\<lparr>ms_lastRun = Some ''2-b.ts'', ms_migrations = Some
     [\<lparr>rm_timestamp = Some 1, rm_title = ''1-a.ts''\<rparr>, \<lparr>rm_timestamp = Some 2, rm_title = ''2-b.ts''\<rparr>]\<rparr>], [''a'', ''b''])"
  "down_read (example_runner ''.ts'') half_state = Inr (Rollback [\<lparr>rm_timestamp = Some 1, rm_title = ''1-a.ts''\<rparr>] ''1-a.ts'' drop_note)"
  using example_loads(1)
  by (simp_all add: runUp_def down_read_def half_state_def loadAsync_def recorded_of_def missing_files_def pending_files_def
      completed_ids_def example_files_def saveAsync_def record_of_def note_migration_def example_names(3))

theorem rollback_outside_lock_forgets_witness:
  "\<exists>coll2. down_write (Rollback [\<lparr>rm_timestamp = Some 1, rm_title = ''1-a.ts''\<rparr>] ''1-a.ts'' drop_note)
      [\<lparr>ms_lastRun = Some ''2-b.ts'', ms_migrations = Some
        [\<lparr>rm_timestamp = Some 1, rm_title = ''1-a.ts''\<rparr>, \<lparr>rm_timestamp = Some 2, rm_title = ''2-b.ts''\<rparr>]\<rparr>] [''a'', ''b''] = (None, coll2, [''a''])
    \<and> [''a''] = snd (drop_note (run_ups (pending_files (example_files ''.ts'') (coll_recorded half_state)) [''a'']))
    \<and> set (pending_files (example_files ''.ts'') (coll_recorded half_state)) \<subseteq> set (pending_files (example_files ''.ts'') (coll_recorded coll2))"
  by (rule rollback_outside_lock_forgets [OF _ half_runs(2) example_loads(1) half_runs(1)])
    (simp_all add: half_state_def drop_note_def)

end
