(* ===== verification/Scim.thy ===== *)
theory Scim
  imports Prelude
begin

text \<open>
  Filters in the SCIM language and their translation into MongoDB queries, \<^verbatim>\<open>common/helpers/scim.helper.ts\<close>:
  the tokenizer, the recursive-descent parser and the translation of its syntax tree.

  The position in the token array is the list of the tokens that are left. The parser's functions and its loop take
  a number that bounds their nesting; \<open>parseTokens\<close> gives them twice the number of tokens, which is
  always enough. Numbers are exact decimals: mantissa and number of decimals.
\<close>

subsection \<open>Tokens\<close>

definition QUOTE :: char where "QUOTE = CHR 0x22"
definition BACKSLASH :: char where "BACKSLASH = CHR 0x5C"

lemmas char_constants = QUOTE_def BACKSLASH_def

definition is_bracket :: "char \<Rightarrow> bool" where
  "is_bracket c = (c = CHR ''('' \<or> c = CHR '')'' \<or> c = CHR ''['' \<or> c = CHR '']'')"

definition is_letter :: "char \<Rightarrow> bool" where
  "is_letter c = (let n = (of_char c :: nat) in (65 \<le> n \<and> n \<le> 90) \<or> (97 \<le> n \<and> n \<le> 122))"

text \<open>\<^verbatim>\<open>[a-zA-Z0-9_.]\<close>.\<close>

definition ident_char :: "char \<Rightarrow> bool" where
  "ident_char c = (is_letter c \<or> is_digit c \<or> c = CHR ''_'' \<or> c = CHR ''.'')"

text \<open>The loop of \<open>tokenize\<close>: brackets outside quotes get spaces around them.\<close>

fun space_brackets :: "bool \<Rightarrow> char option \<Rightarrow> string \<Rightarrow> string" where
  "space_brackets insideQuotes previous [] = []"
| "space_brackets insideQuotes previous (c # cs) =
     (if c = QUOTE \<and> previous \<noteq> Some BACKSLASH then c # space_brackets (\<not> insideQuotes) (Some c) cs
      else if \<not> insideQuotes \<and> is_bracket c
        then CHR '' '' # c # CHR '' '' # space_brackets insideQuotes (Some c) cs
      else c # space_brackets insideQuotes (Some c) cs)"

text \<open>\<^verbatim>\<open>replace(/\s+/g, ' ')\<close>; \<open>skipping\<close> says that the character before was white space.\<close>

fun collapse_ws :: "bool \<Rightarrow> string \<Rightarrow> string" where
  "collapse_ws skipping [] = []"
| "collapse_ws skipping (c # cs) =
     (if js_ws c then (if skipping then collapse_ws True cs else CHR '' '' # collapse_ws True cs)
      else c # collapse_ws False cs)"

definition line_terminator :: "char \<Rightarrow> bool" where
  "line_terminator c = (c = CHR 0x0A \<or> c = CHR 0x0D)"

text \<open>What is left of a quoted string after its first quote, with the text behind it.\<close>

fun quoted_match :: "string \<Rightarrow> (string \<times> string) option" where
  "quoted_match [] = None"
| "quoted_match [c] = (if c = QUOTE then Some ([c], []) else None)"
| "quoted_match (c # d # ds) =
     (if c = QUOTE then Some ([c], d # ds)
      else if c = BACKSLASH then
        (if line_terminator d then None else map_option (\<lambda>(body, rest). (c # d # body, rest)) (quoted_match ds))
      else map_option (\<lambda>(body, rest). (c # body, rest)) (quoted_match (d # ds)))"

lemma quoted_match_shorter: "quoted_match s = Some (body, rest) \<Longrightarrow> length rest < length s"
  by (induction s arbitrary: body rest rule: quoted_match.induct) (fastforce split: if_splits)+

text \<open>\<^verbatim>\<open>match(/.../g)\<close>: the alternatives are tried in order, and a character that starts none is skipped.\<close>

function match_tokens :: "string \<Rightarrow> string list" where
  "match_tokens [] = []"
| "match_tokens (c # cs) =
     (if is_bracket c then [c] # match_tokens cs
      else if ident_char c then (c # takeWhile ident_char cs) # match_tokens (dropWhile ident_char cs)
      else if c = QUOTE then (case quoted_match cs of
          Some (body, rest) \<Rightarrow> (c # body) # match_tokens rest
        | None \<Rightarrow> match_tokens cs)
      else match_tokens cs)"
  by pat_completeness auto
termination
  by (relation "measure length")
    (auto simp: less_Suc_eq_le length_dropWhile_le dest: quoted_match_shorter)

definition tokenize :: "string \<Rightarrow> string list" where
  "tokenize input = match_tokens (js_trim (collapse_ws False (space_brackets False None input)))"

subsection \<open>The parser\<close>

datatype comparator = Aco | Co | Eq | Ew | Ge | Gt | Le | Lt | Pr | Sw
datatype logical_operator = LAnd | LOr
datatype scim_value = SvNull | SvStr string | SvNum int nat | SvBool bool

datatype scim_node =
    ConditionNode string comparator scim_value
  | ArrayFilterNode string scim_node
  | LogicalNode scim_node logical_operator scim_node

datatype scim_error =
    ExpectedClose char
  | UnsupportedComparator string
  | InvalidCondition
  | TypeErrorUndefined
  | TypeErrorNotAString
  | OutOfFuel

definition comparator_of :: "string \<Rightarrow> comparator option" where
  "comparator_of op = map_of [(''aco'', Aco), (''co'', Co), (''eq'', Eq), (''ew'', Ew), (''ge'', Ge), (''gt'', Gt),
     (''le'', Le), (''lt'', Lt), (''pr'', Pr), (''sw'', Sw)] op"

definition logical_of :: "string \<Rightarrow> logical_operator option" where
  "logical_of token = map_of [(''and'', LAnd), (''or'', LOr)] (js_lower token)"

text \<open>\<^verbatim>\<open>/^-?\d+(\.\d+)?$/\<close>, and the number it stands for.\<close>

definition decimal :: "string \<Rightarrow> (int \<times> nat) option" where
  "decimal s =
     (let negative = js_starts_with s ''-'';
          u = (if negative then tl s else s);
          whole = takeWhile is_digit u;
          rest = dropWhile is_digit u;
          fraction = tl rest;
          number = (\<lambda>ds. if negative then - int (parse_nat ds) else int (parse_nat ds))
      in if whole = [] then None
         else if rest = [] then Some (number whole, 0)
         else if hd rest = CHR ''.'' \<and> fraction \<noteq> [] \<and> list_all is_digit fraction
           then Some (number (whole @ fraction), length fraction)
         else None)"

definition parseValue :: "string \<Rightarrow> scim_value" where
  "parseValue v = (case decimal v of
       Some (m, k) \<Rightarrow> SvNum m k
     | None \<Rightarrow> if js_lower v = ''true'' then SvBool True
               else if js_lower v = ''false'' then SvBool False
               else SvStr v)"

fun parseCondition :: "string list \<Rightarrow> scim_error + scim_node \<times> string list" where
  "parseCondition (attr # opToken # ts) =
     (let op = js_lower opToken
      in case comparator_of op of
           None \<Rightarrow> Inl (UnsupportedComparator op)
         | Some Pr \<Rightarrow> Inr (ConditionNode attr Pr SvNull, ts)
         | Some c \<Rightarrow> (case ts of
               [] \<Rightarrow> Inl InvalidCondition
             | rawValue # rest \<Rightarrow>
                 if attr = [] then Inl InvalidCondition
                 else if js_starts_with rawValue [QUOTE]
                   then Inr (ConditionNode attr c (SvStr (butlast (tl rawValue))), rest)
                 else Inr (ConditionNode attr c (parseValue rawValue), rest)))"
| "parseCondition ts = Inl TypeErrorUndefined"

text \<open>\<^verbatim>\<open>tokens[pos + i]\<close>.\<close>

definition token_at :: "nat \<Rightarrow> string list \<Rightarrow> string option" where
  "token_at i ts = (if i < length ts then Some (ts ! i) else None)"

lemma token_at_simps [simp]:
  "token_at i [] = None" "token_at 0 (t # ts) = Some t" "token_at (Suc i) (t # ts) = token_at i ts"
  by (simp_all add: token_at_def)

text \<open>\<open>parse_operators\<close> is the loop of \<open>parseExpression\<close>.\<close>

fun parseExpression :: "nat \<Rightarrow> string list \<Rightarrow> scim_error + scim_node \<times> string list"
and parse_operators :: "nat \<Rightarrow> scim_node \<Rightarrow> string list \<Rightarrow> scim_error + scim_node \<times> string list"
and parseTerm :: "nat \<Rightarrow> string list \<Rightarrow> scim_error + scim_node \<times> string list" where
  "parseExpression 0 ts = Inl OutOfFuel"
| "parseExpression (Suc n) ts = then_do (parseTerm n ts) (\<lambda>(left, rest). parse_operators n left rest)"
| "parse_operators 0 left ts = Inl OutOfFuel"
| "parse_operators (Suc n) left ts = (case ts of
       [] \<Rightarrow> Inr (left, ts)
     | t # rest \<Rightarrow> (case logical_of t of
         None \<Rightarrow> Inr (left, ts)
       | Some op \<Rightarrow> then_do (parseTerm n rest) (\<lambda>(right, rest'). parse_operators n (LogicalNode left op right) rest')))"
| "parseTerm 0 ts = Inl OutOfFuel"
| "parseTerm (Suc n) ts =
     (if token_at 0 ts = Some ''(''
        then then_do (parseExpression n (tl ts)) (\<lambda>(expr, rest).
          if token_at 0 rest \<noteq> Some '')'' then Inl (ExpectedClose (CHR '')'')) else Inr (expr, tl rest))
      else if token_at 1 ts = Some ''[''
        then then_do (parseExpression n (drop 2 ts)) (\<lambda>(expr, rest).
          if token_at 0 rest \<noteq> Some '']'' then Inl (ExpectedClose (CHR '']'')) else Inr (ArrayFilterNode (hd ts) expr, tl rest))
      else parseCondition ts)"

definition parser_fuel :: "string list \<Rightarrow> nat" where
  "parser_fuel ts = 2 * length ts + 2"

definition parseTokens :: "string list \<Rightarrow> scim_error + scim_node" where
  "parseTokens tokens = then_do (parseExpression (parser_fuel tokens) tokens) (\<lambda>(expr, rest). Inr expr)"

subsection \<open>The translation\<close>

datatype mongo =
    MNull
  | MString string
  | MNumber int nat
  | MBoolean bool
  | MArray "mongo list"
  | MObject "(string \<times> mongo) list"

definition mongo_value :: "scim_value \<Rightarrow> mongo" where
  "mongo_value v = (case v of SvNull \<Rightarrow> MNull | SvStr s \<Rightarrow> MString s | SvNum m k \<Rightarrow> MNumber m k | SvBool b \<Rightarrow> MBoolean b)"

definition regex_special :: "char \<Rightarrow> bool" where
  "regex_special c = (c \<in> set ''.*+?^${}()|[]'' \<or> c = BACKSLASH)"

fun escape_chars :: "string \<Rightarrow> string" where
  "escape_chars [] = []"
| "escape_chars (c # cs) = (if regex_special c then BACKSLASH # c # escape_chars cs else c # escape_chars cs)"

text \<open>\<^verbatim>\<open>input.replace\<close> exists for strings only.\<close>

definition escapeRegex :: "scim_value \<Rightarrow> scim_error + string" where
  "escapeRegex input = (case input of SvStr s \<Rightarrow> Inr (escape_chars s) | _ \<Rightarrow> Inl TypeErrorNotAString)"

definition regex_condition :: "string \<Rightarrow> mongo" where
  "regex_condition pattern = MObject [(''$options'', MString ''i''), (''$regex'', MString pattern)]"

definition condition_query :: "comparator \<Rightarrow> scim_value \<Rightarrow> scim_error + mongo" where
  "condition_query comparator v = (case comparator of
       Aco \<Rightarrow> Inr (mongo_value v)
     | Co \<Rightarrow> then_do (escapeRegex v) (\<lambda>e. Inr (regex_condition e))
     | Eq \<Rightarrow> Inr (MObject [(''$eq'', mongo_value v)])
     | Ew \<Rightarrow> then_do (escapeRegex v) (\<lambda>e. Inr (regex_condition (e @ ''$'')))
     | Ge \<Rightarrow> Inr (MObject [(''$gte'', mongo_value v)])
     | Gt \<Rightarrow> Inr (MObject [(''$gt'', mongo_value v)])
     | Le \<Rightarrow> Inr (MObject [(''$lte'', mongo_value v)])
     | Lt \<Rightarrow> Inr (MObject [(''$lt'', mongo_value v)])
     | Pr \<Rightarrow> Inr (MObject [(''$exists'', MBoolean True)])
     | Sw \<Rightarrow> then_do (escapeRegex v) (\<lambda>e. Inr (regex_condition (''^'' @ e))))"

fun flattenLogicalOperator :: "scim_node \<Rightarrow> logical_operator \<Rightarrow> scim_node list" where
  "flattenLogicalOperator (LogicalNode left op right) target =
     (if op \<noteq> target then [LogicalNode left op right]
      else flattenLogicalOperator left target @ flattenLogicalOperator right target)"
| "flattenLogicalOperator node target = [node]"

lemma flatten_size: "x \<in> set (flattenLogicalOperator n op) \<Longrightarrow> size x \<le> size n"
  by (induction n op rule: flattenLogicalOperator.induct) (auto split: if_splits)

definition operator_name :: "logical_operator \<Rightarrow> string" where
  "operator_name op = (case op of LAnd \<Rightarrow> ''and'' | LOr \<Rightarrow> ''or'')"

function transformAstToMongo :: "scim_node \<Rightarrow> scim_error + mongo" where
  "transformAstToMongo (LogicalNode left operator right) =
     then_do (each transformAstToMongo (flattenLogicalOperator (LogicalNode left operator right) operator)) (\<lambda>conditions.
       Inr (MObject [(''$'' @ operator_name operator, MArray conditions)]))"
| "transformAstToMongo (ArrayFilterNode path expr) =
     then_do (transformAstToMongo expr) (\<lambda>q. Inr (MObject [(path, MObject [(''$elemMatch'', q)])]))"
| "transformAstToMongo (ConditionNode attributePath comparator v) =
     then_do (condition_query comparator v) (\<lambda>q. Inr (MObject [(attributePath, q)]))"
  by pat_completeness auto
termination
  by (relation "measure size") (auto dest!: flatten_size simp: less_Suc_eq_le)

definition scimToMongo :: "string \<Rightarrow> scim_error + mongo" where
  "scimToMongo scim =
     (if scim = [] then Inr (MObject [])
      else then_do (parseTokens (tokenize scim)) transformAstToMongo)"

subsection \<open>The parser returns\<close>

text \<open>Every term takes at least one token.\<close>

lemma parseCondition_shorter: "parseCondition ts = Inr (e, rest) \<Longrightarrow> length rest < length ts"
  by (cases ts rule: parseCondition.cases) (auto simp: Let_def split: option.splits comparator.splits list.splits if_splits)

lemma parser_shorter:
  "(parseExpression n ts = Inr (e, rest) \<longrightarrow> length rest < length ts)
   \<and> (parse_operators n left ts = Inr (e, rest) \<longrightarrow> length rest \<le> length ts)
   \<and> (parseTerm n ts = Inr (e, rest) \<longrightarrow> length rest < length ts)"
proof (induction n arbitrary: ts left e rest)
  case (Suc n)
  have E: "length rest < length ts" if r: "parseExpression (Suc n) ts = Inr (e, rest)"
  proof -
    obtain l r where "parseTerm n ts = Inr (l, r)" "parse_operators n l r = Inr (e, rest)"
      using r by (auto simp: then_do_Inr)
    then have "length r < length ts" "length rest \<le> length r" using Suc.IH by blast+
    then show ?thesis by linarith
  qed
  have O: "length rest \<le> length ts" if r: "parse_operators (Suc n) left ts = Inr (e, rest)"
  proof (cases ts)
    case (Cons t us)
    show ?thesis
    proof (cases "logical_of t")
      case (Some op)
      then obtain x y where "parseTerm n us = Inr (x, y)" "parse_operators n (LogicalNode left op x) y = Inr (e, rest)"
        using r Cons by (auto simp: then_do_Inr)
      then have "length y < length us" "length rest \<le> length y" using Suc.IH by blast+
      then show ?thesis using Cons by simp
    qed (use r Cons in simp)
  qed (use r in simp)
  have T: "length rest < length ts" if r: "parseTerm (Suc n) ts = Inr (e, rest)"
  proof -
    consider (paren) x y where "token_at 0 ts = Some ''(''" "parseExpression n (tl ts) = Inr (x, y)" "rest = tl y"
      | (array) x y where "token_at 1 ts = Some ''[''" "parseExpression n (drop 2 ts) = Inr (x, y)" "rest = tl y"
      | (condition) "parseCondition ts = Inr (e, rest)"
      using r by (auto simp: then_do_Inr split: if_splits)
    then show ?thesis
    proof cases
      case paren
      then have "length y < length (tl ts)" using Suc.IH by blast
      then show ?thesis using paren(3) by simp
    next
      case array
      then have "length y < length (drop 2 ts)" using Suc.IH by blast
      then show ?thesis using array(3) by simp
    qed (rule parseCondition_shorter)
  qed
  show ?case using E O T by blast
qed simp

lemma parseCondition_fuel: "parseCondition ts \<noteq> Inl OutOfFuel"
  by (cases ts rule: parseCondition.cases) (auto simp: Let_def split: option.splits comparator.splits list.splits)

lemma parser_enough:
  "(2 * length ts + 2 \<le> n \<longrightarrow> parseExpression n ts \<noteq> Inl OutOfFuel)
   \<and> (2 * length ts + 1 \<le> n \<longrightarrow> parse_operators n left ts \<noteq> Inl OutOfFuel)
   \<and> (2 * length ts + 1 \<le> n \<longrightarrow> parseTerm n ts \<noteq> Inl OutOfFuel)"
proof (induction n arbitrary: ts left)
  case (Suc n)
  have E: "parseExpression (Suc n) ts \<noteq> Inl OutOfFuel" if le: "2 * length ts + 2 \<le> Suc n"
  proof
    assume "parseExpression (Suc n) ts = Inl OutOfFuel"
    then consider "parseTerm n ts = Inl OutOfFuel" | l r where "parseTerm n ts = Inr (l, r)" "parse_operators n l r = Inl OutOfFuel"
      by (auto simp: then_do_Inl)
    then show False
    proof cases
      case 2
      then have "length r < length ts" using parser_shorter by blast
      then show False using Suc.IH 2(2) le by simp
    qed (use Suc.IH le in simp)
  qed
  have O: "parse_operators (Suc n) left ts \<noteq> Inl OutOfFuel" if le: "2 * length ts + 1 \<le> Suc n"
  proof
    assume o: "parse_operators (Suc n) left ts = Inl OutOfFuel"
    then obtain t us where ts: "ts = t # us" by (cases ts) auto
    then obtain op where op: "logical_of t = Some op" using o by (cases "logical_of t") auto
    then consider "parseTerm n us = Inl OutOfFuel"
      | x y where "parseTerm n us = Inr (x, y)" "parse_operators n (LogicalNode left op x) y = Inl OutOfFuel"
      using o ts by (auto simp: then_do_Inl)
    then show False
    proof cases
      case 2
      then have "length y < length us" using parser_shorter by blast
      then show False using Suc.IH 2(2) le ts by simp
    qed (use Suc.IH le ts in simp)
  qed
  have T: "parseTerm (Suc n) ts \<noteq> Inl OutOfFuel" if le: "2 * length ts + 1 \<le> Suc n"
  proof
    assume o: "parseTerm (Suc n) ts = Inl OutOfFuel"
    have nil: "ts \<noteq> []" using o parseCondition_fuel by auto
    consider "parseExpression n (tl ts) = Inl OutOfFuel" | "parseExpression n (drop 2 ts) = Inl OutOfFuel"
      using o parseCondition_fuel by (auto simp: then_do_Inl split: if_splits)
    then show False
    proof cases
      case 1
      have "2 * length (tl ts) + 2 \<le> n" using le nil by (cases ts) simp_all
      then show False using Suc.IH 1 by blast
    next
      case 2
      have "2 * length (drop 2 ts) + 2 \<le> n" using le nil by (cases ts) simp_all
      then show False using Suc.IH 2 by blast
    qed
  qed
  show ?case using E O T by blast
qed simp

lemma parser_more:
  "(parseExpression n ts \<noteq> Inl OutOfFuel \<longrightarrow> parseExpression (Suc n) ts = parseExpression n ts)
   \<and> (parse_operators n left ts \<noteq> Inl OutOfFuel \<longrightarrow> parse_operators (Suc n) left ts = parse_operators n left ts)
   \<and> (parseTerm n ts \<noteq> Inl OutOfFuel \<longrightarrow> parseTerm (Suc n) ts = parseTerm n ts)"
proof (induction n arbitrary: ts left)
  case (Suc n)
  have more: "then_do (parseTerm (Suc n) us) (\<lambda>(x, y). parse_operators (Suc n) (f x) y)
      = then_do (parseTerm n us) (\<lambda>(x, y). parse_operators n (f x) y)"
    if r: "then_do (parseTerm n us) (\<lambda>(x, y). parse_operators n (f x) y) \<noteq> Inl OutOfFuel" for us f
  proof -
    have "parseTerm n us \<noteq> Inl OutOfFuel" using r by auto
    then have t: "parseTerm (Suc n) us = parseTerm n us" using Suc.IH by blast
    show ?thesis unfolding t
    proof (cases "parseTerm n us")
      case (Inr z)
      obtain x y where "z = (x, y)" by (cases z)
      then have "parse_operators n (f x) y \<noteq> Inl OutOfFuel" using r Inr by simp
      then have "parse_operators (Suc n) (f x) y = parse_operators n (f x) y" using Suc.IH by blast
      then show "then_do (parseTerm n us) (\<lambda>(x, y). parse_operators (Suc n) (f x) y)
          = then_do (parseTerm n us) (\<lambda>(x, y). parse_operators n (f x) y)"
        using Inr \<open>z = (x, y)\<close> by (simp only: then_do_simps case_prod_conv)
    qed (simp only: then_do_simps)
  qed
  have E: "parseExpression (Suc (Suc n)) ts = parseExpression (Suc n) ts" if r: "parseExpression (Suc n) ts \<noteq> Inl OutOfFuel"
    using more [where f = "\<lambda>x. x"] r by (simp only: parseExpression.simps)
  have O: "parse_operators (Suc (Suc n)) left ts = parse_operators (Suc n) left ts"
    if r: "parse_operators (Suc n) left ts \<noteq> Inl OutOfFuel"
  proof (cases ts)
    case (Cons t us)
    show ?thesis
    proof (cases "logical_of t")
      case (Some op)
      have u: "parse_operators (Suc m) left ts = then_do (parseTerm m us) (\<lambda>(x, y). parse_operators m (LogicalNode left op x) y)" for m
        using Cons Some by (simp only: parse_operators.simps list.case option.case)
      show ?thesis using more [of us "LogicalNode left op"] r unfolding u by blast
    qed (use Cons in simp)
  qed simp
  have T: "parseTerm (Suc (Suc n)) ts = parseTerm (Suc n) ts" if r: "parseTerm (Suc n) ts \<noteq> Inl OutOfFuel"
  proof -
    have step: "then_do (parseExpression (Suc n) us) f = then_do (parseExpression n us) f"
      if "then_do (parseExpression n us) f \<noteq> Inl OutOfFuel" for us and f :: "scim_node \<times> string list \<Rightarrow> scim_error + scim_node \<times> string list"
    proof -
      have "parseExpression n us \<noteq> Inl OutOfFuel" using that by auto
      then have "parseExpression (Suc n) us = parseExpression n us" using Suc.IH by blast
      then show ?thesis by (simp only:)
    qed
    show ?thesis
    proof (cases "token_at 0 ts = Some ''(''")
      case True
      show ?thesis using step r by (simp only: parseTerm.simps if_P [OF True])
    next
      case notparen: False
      show ?thesis
      proof (cases "token_at 1 ts = Some ''[''")
        case True
        show ?thesis using step r by (simp only: parseTerm.simps if_not_P [OF notparen] if_P [OF True])
      next
        case False
        show ?thesis by (simp only: parseTerm.simps if_not_P [OF notparen] if_not_P [OF False])
      qed
    qed
  qed
  show ?case using E O T by blast
qed simp

text \<open>The parser without its bound.\<close>

definition pE :: "string list \<Rightarrow> scim_error + scim_node \<times> string list" where
  "pE ts = parseExpression (2 * length ts + 2) ts"
definition pO :: "scim_node \<Rightarrow> string list \<Rightarrow> scim_error + scim_node \<times> string list" where
  "pO left ts = parse_operators (2 * length ts + 1) left ts"
definition pT :: "string list \<Rightarrow> scim_error + scim_node \<times> string list" where
  "pT ts = parseTerm (2 * length ts + 1) ts"

lemma parser_any:
  "2 * length ts + 2 \<le> n \<Longrightarrow> parseExpression n ts = pE ts"
  "2 * length ts + 1 \<le> n \<Longrightarrow> parse_operators n left ts = pO left ts"
  "2 * length ts + 1 \<le> n \<Longrightarrow> parseTerm n ts = pT ts"
proof -
  have s: "parseExpression (2 * length ts + 2) ts \<noteq> Inl OutOfFuel" "parse_operators (2 * length ts + 1) left ts \<noteq> Inl OutOfFuel"
    "parseTerm (2 * length ts + 1) ts \<noteq> Inl OutOfFuel"
    using parser_enough by blast+
  show "2 * length ts + 2 \<le> n \<Longrightarrow> parseExpression n ts = pE ts"
    unfolding pE_def
  proof (induction n rule: dec_induct)
    case (step n)
    then show ?case using parser_more [of n ts] s(1) by simp
  qed simp
  show "2 * length ts + 1 \<le> n \<Longrightarrow> parse_operators n left ts = pO left ts"
    unfolding pO_def
  proof (induction n rule: dec_induct)
    case (step n)
    then show ?case using parser_more [of n ts left] s(2) by simp
  qed simp
  show "2 * length ts + 1 \<le> n \<Longrightarrow> parseTerm n ts = pT ts"
    unfolding pT_def
  proof (induction n rule: dec_induct)
    case (step n)
    then show ?case using parser_more [of n ts] s(3) by simp
  qed simp
qed

lemma pE_eq: "pE ts = then_do (pT ts) (\<lambda>(left, rest). pO left rest)"
proof -
  have "pE ts = then_do (pT ts) (\<lambda>(left, rest). parse_operators (2 * length ts + 1) left rest)"
    using parser_any(3) [of ts "2 * length ts + 1"] by (simp add: pE_def del: parseTerm.simps parse_operators.simps)
  also have "\<dots> = then_do (pT ts) (\<lambda>(left, rest). pO left rest)"
  proof (rule then_do_cong [OF refl])
    fix x
    assume "pT ts = Inr x"
    then have "length (snd x) < length ts" using parser_shorter unfolding pT_def by (cases x) (metis snd_conv)
    then show "(\<lambda>(left, rest). parse_operators (2 * length ts + 1) left rest) x = (\<lambda>(left, rest). pO left rest) x"
      using parser_any(2) by (cases x) (simp del: parse_operators.simps)
  qed
  finally show ?thesis .
qed

lemma pO_simps:
  "pO left [] = Inr (left, [])"
  "logical_of t = None \<Longrightarrow> pO left (t # ts) = Inr (left, t # ts)"
  "logical_of t = Some op \<Longrightarrow> pO left (t # ts) = then_do (pT ts) (\<lambda>(right, rest). pO (LogicalNode left op right) rest)"
proof -
  show "pO left [] = Inr (left, [])" by (simp add: pO_def)
  show "logical_of t = None \<Longrightarrow> pO left (t # ts) = Inr (left, t # ts)" by (simp add: pO_def)
  assume op: "logical_of t = Some op"
  obtain n where n: "n = 2 * length ts + 2" by simp
  have "pO left (t # ts) = parse_operators (Suc n) left (t # ts)" by (simp add: pO_def n del: parse_operators.simps)
  also have "\<dots> = then_do (parseTerm n ts) (\<lambda>(right, rest). parse_operators n (LogicalNode left op right) rest)"
    using op by simp
  also have "\<dots> = then_do (pT ts) (\<lambda>(right, rest). pO (LogicalNode left op right) rest)"
  proof (rule then_do_cong)
    show "parseTerm n ts = pT ts" by (rule parser_any) (simp add: n)
    fix x
    assume "pT ts = Inr x"
    then have "length (snd x) < length ts" using parser_shorter unfolding pT_def by (cases x) (metis snd_conv)
    then show "(\<lambda>(right, rest). parse_operators n (LogicalNode left op right) rest) x
        = (\<lambda>(right, rest). pO (LogicalNode left op right) rest) x"
      using parser_any(2) n by (cases x) (simp del: parse_operators.simps)
  qed
  finally show "pO left (t # ts) = then_do (pT ts) (\<lambda>(right, rest). pO (LogicalNode left op right) rest)" .
qed

lemma pT_simps:
  "pT (''('' # ts) = then_do (pE ts) (\<lambda>(expr, rest).
     if token_at 0 rest \<noteq> Some '')'' then Inl (ExpectedClose (CHR '')'')) else Inr (expr, tl rest))"
  "p \<noteq> ''('' \<Longrightarrow> pT (p # ''['' # ts) = then_do (pE ts) (\<lambda>(expr, rest).
     if token_at 0 rest \<noteq> Some '']'' then Inl (ExpectedClose (CHR '']'')) else Inr (ArrayFilterNode p expr, tl rest))"
  "token_at 0 ts \<noteq> Some ''('' \<Longrightarrow> token_at 1 ts \<noteq> Some ''['' \<Longrightarrow> pT ts = parseCondition ts"
proof -
  obtain m where m: "m = 2 * length ts + 2" by simp
  have "pT (''('' # ts) = parseTerm (Suc m) (''('' # ts)" by (simp add: pT_def m del: parseTerm.simps)
  then show "pT (''('' # ts) = then_do (pE ts) (\<lambda>(expr, rest).
     if token_at 0 rest \<noteq> Some '')'' then Inl (ExpectedClose (CHR '')'')) else Inr (expr, tl rest))"
    using parser_any(1) [of ts m] m by simp
  assume p: "p \<noteq> ''(''"
  obtain n where n: "n = 2 * length ts + 4" by simp
  have "pT (p # ''['' # ts) = parseTerm (Suc n) (p # ''['' # ts)" by (simp add: pT_def n eval_nat_numeral del: parseTerm.simps)
  moreover have "parseExpression n ts = pE ts" by (rule parser_any) (simp add: n)
  ultimately show "pT (p # ''['' # ts) = then_do (pE ts) (\<lambda>(expr, rest).
     if token_at 0 rest \<noteq> Some '']'' then Inl (ExpectedClose (CHR '']'')) else Inr (ArrayFilterNode p expr, tl rest))"
    using p by (simp del: parseExpression.simps cong: if_cong)
next
  show "token_at 0 ts \<noteq> Some ''('' \<Longrightarrow> token_at 1 ts \<noteq> Some ''['' \<Longrightarrow> pT ts = parseCondition ts" by (simp add: pT_def)
qed

lemma parseTokens_pE: "parseTokens ts = then_do (pE ts) (\<lambda>(expr, rest). Inr expr)"
  by (simp add: parseTokens_def pE_def parser_fuel_def)

end
