(* ===== verification/ScimFilters.thy ===== *)
theory ScimFilters
  imports Scim
begin

text \<open>
  What the SCIM translation guarantees: it always returns, reads back what is printed, never lets the filter text
  reach an operator of the database, and keeps the meaning of the filter; and where it reads a filter
  differently from its text.
\<close>

subsection \<open>Printing\<close>

definition comparator_name :: "comparator \<Rightarrow> string" where
  "comparator_name c = (case c of Aco \<Rightarrow> ''aco'' | Co \<Rightarrow> ''co'' | Eq \<Rightarrow> ''eq'' | Ew \<Rightarrow> ''ew'' | Ge \<Rightarrow> ''ge'' | Gt \<Rightarrow> ''gt''
     | Le \<Rightarrow> ''le'' | Lt \<Rightarrow> ''lt'' | Pr \<Rightarrow> ''pr'' | Sw \<Rightarrow> ''sw'')"

definition quoted :: "string \<Rightarrow> string" where
  "quoted s = QUOTE # s @ [QUOTE]"

fun value_token :: "scim_value \<Rightarrow> string" where
  "value_token (SvStr s) = quoted s"
| "value_token (SvNum m k) = show_int m"
| "value_token (SvBool b) = (if b then ''true'' else ''false'')"
| "value_token SvNull = []"

definition is_logical :: "scim_node \<Rightarrow> bool" where
  "is_logical n = (case n of LogicalNode _ _ _ \<Rightarrow> True | _ \<Rightarrow> False)"

fun node_tokens :: "scim_node \<Rightarrow> string list" where
  "node_tokens (ConditionNode a c v) = [a, comparator_name c] @ (if c = Pr then [] else [value_token v])"
| "node_tokens (ArrayFilterNode p e) = [p, ''[''] @ node_tokens e @ ['']'']"
| "node_tokens (LogicalNode l op r) = node_tokens l @ [operator_name op]
     @ (if is_logical r then [''(''] @ node_tokens r @ ['')''] else node_tokens r)"

definition print_filter :: "scim_node \<Rightarrow> string" where
  "print_filter n = js_join '' '' (node_tokens n)"

definition is_identifier :: "string \<Rightarrow> bool" where
  "is_identifier s = (s \<noteq> [] \<and> list_all ident_char s)"

text \<open>Text without quotes and backslashes whose white space is single blanks; natural numbers.\<close>

definition plain_text :: "string \<Rightarrow> bool" where
  "plain_text s = (QUOTE \<notin> set s \<and> BACKSLASH \<notin> set s \<and> collapse_ws False s = s)"

fun printable_value :: "scim_value \<Rightarrow> bool" where
  "printable_value (SvStr s) = plain_text s"
| "printable_value (SvNum m k) = (0 \<le> m \<and> k = 0)"
| "printable_value (SvBool b) = True"
| "printable_value SvNull = False"

fun printable :: "scim_node \<Rightarrow> bool" where
  "printable (ConditionNode a c v) = (is_identifier a \<and> (if c = Pr then v = SvNull else printable_value v))"
| "printable (ArrayFilterNode p e) = (is_identifier p \<and> printable e)"
| "printable (LogicalNode l op r) = (printable l \<and> printable r)"

subsection \<open>Parsing what was printed\<close>

lemma char_facts [simp]:
  "\<not> is_bracket QUOTE" "\<not> ident_char QUOTE" "\<not> js_ws QUOTE" "\<not> is_digit QUOTE" "QUOTE \<noteq> CHR ''$''" "CHR ''$'' \<noteq> QUOTE" "QUOTE \<noteq> BACKSLASH"
  "\<not> ident_char (CHR ''('')" "\<not> ident_char (CHR '' '')" "\<not> ident_char (CHR ''-'')" "\<not> ident_char (CHR ''$'')" "\<not> is_bracket (CHR ''$'')"
  by code_simp+

lemma comparator_of_name [simp]: "comparator_of (js_lower (comparator_name c)) = Some c"
proof -
  have "list_all (\<lambda>c. comparator_of (js_lower (comparator_name c)) = Some c) [Aco, Co, Eq, Ew, Ge, Gt, Le, Lt, Pr, Sw]"
    by code_simp
  then show ?thesis by (cases c) simp_all
qed

lemma comparator_name_not_bracket [simp]: "comparator_name c \<noteq> ''[''"
  by (cases c) (simp_all add: comparator_name_def)

lemma logical_of_name [simp]: "logical_of (operator_name op) = Some op" "operator_name op \<noteq> ''[''"
proof -
  have "logical_of (operator_name LAnd) = Some LAnd" "logical_of (operator_name LOr) = Some LOr"
    "operator_name LAnd \<noteq> ''[''" "operator_name LOr \<noteq> ''[''" by code_simp+
  then show "logical_of (operator_name op) = Some op" "operator_name op \<noteq> ''[''" by (cases op; simp)+
qed

lemma logical_of_close [simp]: "logical_of '')'' = None" "logical_of '']'' = None"
  by code_simp+

lemma identifier_not_paren: "is_identifier a \<Longrightarrow> a \<noteq> ''('' \<and> a \<noteq> []"
  by (auto simp: is_identifier_def)

lemma digit_char: "n < 10 \<Longrightarrow> is_digit (char_of (48 + n)) \<and> of_char (char_of (48 + n) :: char) = 48 + n" for n :: nat
  by (simp add: is_digit_def)

lemma parse_nat_snoc: "parse_nat (s @ [c]) = 10 * parse_nat s + (of_char c - 48)"
  by (simp add: parse_nat_def)

lemma show_nat_digits: "list_all is_digit (show_nat n) \<and> show_nat n \<noteq> [] \<and> parse_nat (show_nat n) = n"
proof (induction n rule: show_nat.induct)
  case (1 n)
  show ?case
  proof (cases "n < 10")
    case True
    then show ?thesis using digit_char [of n] by (simp add: show_nat.simps [of n] parse_nat_def)
  next
    case False
    then show ?thesis using 1 digit_char [of "n mod 10"] by (simp add: show_nat.simps [of n] parse_nat_snoc)
  qed
qed

lemma decimal_show: "0 \<le> m \<Longrightarrow> decimal (show_int m) = Some (m, 0)"
proof -
  assume m: "0 \<le> m"
  let ?s = "show_nat (nat m)"
  have d: "list_all is_digit ?s" "?s \<noteq> []" "parse_nat ?s = nat m" using show_nat_digits by blast+
  have "\<not> js_starts_with ?s ''-''"
  proof
    assume "js_starts_with ?s ''-''"
    then have "CHR ''-'' \<in> set ?s" by (auto simp: js_starts_with_def prefix_def)
    then have "is_digit (CHR ''-'')" using d(1) by (auto simp: list_all_iff)
    then show False by (simp add: is_digit_def)
  qed
  moreover have tw: "takeWhile is_digit ?s = ?s" "dropWhile is_digit ?s = []"
    using d(1) by (simp_all add: list_all_iff takeWhile_eq_all_conv)
  ultimately show ?thesis using m d(2,3) by (simp add: show_int_def decimal_def Let_def tw)
qed

lemma value_token_back:
  assumes "printable_value v"
  shows "if js_starts_with (value_token v) [QUOTE] then SvStr (butlast (tl (value_token v))) = v else parseValue (value_token v) = v"
proof (cases v)
  case (SvNum m k)
  have "list_all is_digit (show_int m)" using assms SvNum show_nat_digits by (simp add: show_int_def)
  then have "\<not> js_starts_with (show_int m) [QUOTE]" by (auto simp: js_starts_with_def prefix_def)
  then show ?thesis using SvNum assms decimal_show by (simp add: parseValue_def)
next
  case (SvBool b)
  have "parseValue ''true'' = SvBool True" "parseValue ''false'' = SvBool False"
    "\<not> js_starts_with ''true'' [QUOTE]" "\<not> js_starts_with ''false'' [QUOTE]" by code_simp+
  then show ?thesis using SvBool by simp
qed (use assms in \<open>simp_all add: quoted_def js_starts_with_def\<close>)

lemma parseCondition_tokens:
  assumes "is_identifier a" "if c = Pr then v = SvNull else printable_value v"
  shows "parseCondition (node_tokens (ConditionNode a c v) @ rest) = Inr (ConditionNode a c v, rest)"
proof (cases "c = Pr")
  case True
  then show ?thesis using assms by (simp add: Let_def)
next
  case False
  then show ?thesis using assms value_token_back [of v] identifier_not_paren
    by (cases c) (auto simp: Let_def split: if_splits)
qed

lemma parse_node_tokens:
  "printable n \<Longrightarrow> (\<not> is_logical n \<longrightarrow> pT (node_tokens n @ rest) = Inr (n, rest)) \<and> pE (node_tokens n @ rest) = pO n rest"
proof (induction n arbitrary: rest)
  case (ConditionNode a c v)
  have "token_at 0 (node_tokens (ConditionNode a c v) @ rest) \<noteq> Some ''(''"
    using ConditionNode identifier_not_paren by simp
  moreover have "token_at 1 (node_tokens (ConditionNode a c v) @ rest) \<noteq> Some ''[''" by simp
  ultimately have "pT (node_tokens (ConditionNode a c v) @ rest) = Inr (ConditionNode a c v, rest)"
    using parseCondition_tokens [of a c v rest] ConditionNode pT_simps(3) by simp
  then show ?case by (simp add: pE_eq del: node_tokens.simps)
next
  case (ArrayFilterNode p e)
  have "pE (node_tokens e @ '']'' # rest) = Inr (e, '']'' # rest)" using ArrayFilterNode by (simp add: pO_simps)
  then have "pT (node_tokens (ArrayFilterNode p e) @ rest) = Inr (ArrayFilterNode p e, rest)"
    using ArrayFilterNode.prems identifier_not_paren by (simp add: pT_simps(2))
  then show ?case by (simp add: pE_eq del: node_tokens.simps)
next
  case (LogicalNode l op r)
  let ?R = "if is_logical r then [''(''] @ node_tokens r @ ['')''] else node_tokens r"
  have r: "pT (?R @ rest) = Inr (r, rest)"
  proof (cases "is_logical r")
    case True
    have "pE (node_tokens r @ '')'' # rest) = Inr (r, '')'' # rest)" using LogicalNode by (simp add: pO_simps)
    then show ?thesis using True by (simp add: pT_simps(1))
  next
    case False
    then show ?thesis using LogicalNode by simp
  qed
  have "pE (node_tokens (LogicalNode l op r) @ rest) = pO l (operator_name op # ?R @ rest)"
    using LogicalNode by simp
  also have "\<dots> = pO (LogicalNode l op r) rest" by (simp add: pO_simps(3) r del: append.simps)
  finally show ?case by (simp add: is_logical_def)
qed

subsection \<open>Tokenizing what was printed\<close>

lemma space_brackets_prev: "p \<noteq> Some BACKSLASH \<Longrightarrow> space_brackets q p xs = space_brackets q None xs"
  by (cases xs) simp_all

lemma char_facts2 [simp]:
  "\<not> ident_char BACKSLASH" "\<not> ident_char (CHR '')'')" "\<not> ident_char (CHR ''['')" "\<not> ident_char (CHR '']'')"
  "\<not> js_ws (CHR ''('')" "\<not> js_ws (CHR '')'')" "\<not> js_ws (CHR ''['')" "\<not> js_ws (CHR '']'')" "\<not> js_ws (CHR ''_'')" "\<not> js_ws (CHR ''.'')"
  by code_simp+

lemma ident_not_ws: "ident_char c \<Longrightarrow> \<not> js_ws c"
proof
  assume c: "ident_char c" "js_ws c"
  then have "is_letter c \<or> is_digit c" by (auto simp: ident_char_def)
  then show False using c(2) by (auto simp: is_letter_def is_digit_def js_ws_def Let_def)
qed

lemma ident_not_bracket: "ident_char c \<Longrightarrow> \<not> is_bracket c"
  by (auto simp: is_bracket_def)

lemma ident_not_special: "ident_char c \<Longrightarrow> c \<noteq> QUOTE \<and> c \<noteq> BACKSLASH \<and> \<not> is_bracket c \<and> \<not> js_ws c"
  using ident_not_ws ident_not_bracket by (metis char_facts(2) char_facts2(1))

lemma space_ident: "list_all ident_char s \<Longrightarrow> space_brackets False None (s @ xs) = s @ space_brackets False None xs"
proof (induction s)
  case (Cons c s)
  then show ?case using ident_not_special [of c] space_brackets_prev [of "Some c" False "s @ xs"] by simp
qed simp

lemma space_text:
  "QUOTE \<notin> set s \<Longrightarrow> BACKSLASH \<notin> set s \<Longrightarrow> p \<noteq> Some BACKSLASH \<Longrightarrow>
   space_brackets True p (s @ QUOTE # xs) = s @ QUOTE # space_brackets False None xs"
proof (induction s arbitrary: p)
  case Nil
  then show ?case using space_brackets_prev [of "Some QUOTE" False xs] by simp
next
  case (Cons c s)
  then show ?case by auto
qed

lemma space_quoted: "plain_text s \<Longrightarrow> space_brackets False None (quoted s @ xs) = quoted s @ space_brackets False None xs"
  using space_text [of s "Some QUOTE" xs] by (simp add: quoted_def plain_text_def)

lemma space_bracket: "is_bracket b \<Longrightarrow> space_brackets False None (b # xs) = CHR '' '' # b # CHR '' '' # space_brackets False None xs"
  using space_brackets_prev [of "Some b" False xs] by (auto simp: is_bracket_def char_constants)

text \<open>The tokens behind the white-space step.\<close>

definition toks :: "string \<Rightarrow> string list" where
  "toks xs = match_tokens (collapse_ws False xs)"

lemma ws_not_token: "js_ws w \<Longrightarrow> \<not> is_bracket w \<and> \<not> ident_char w \<and> w \<noteq> QUOTE"
  using ident_not_ws [of w] by (auto simp: is_bracket_def)

lemma blank_ws [simp]: "js_ws (CHR '' '')" by code_simp

lemma match_ws: "js_ws w \<Longrightarrow> match_tokens (w # xs) = match_tokens xs"
  using ws_not_token [of w] by simp

lemma toks_collapse: "match_tokens (collapse_ws b xs) = toks xs"
proof -
  have "match_tokens (collapse_ws True xs) = match_tokens (collapse_ws False xs)"
    by (cases xs) (simp_all add: match_ws del: match_tokens.simps(2))
  then show ?thesis by (cases b) (simp_all add: toks_def)
qed

lemma toks_ws: "js_ws w \<Longrightarrow> toks (w # xs) = toks xs"
  using toks_collapse [of True xs] by (simp add: toks_def match_ws del: match_tokens.simps(2))

lemma toks_bracket: "is_bracket b \<Longrightarrow> toks (b # xs) = [b] # toks xs"
  using ws_not_token [of b] by (auto simp: toks_def)

lemma collapse_ident: "list_all ident_char s \<Longrightarrow> collapse_ws b (s @ xs) = s @ collapse_ws (if s = [] then b else False) xs"
  by (induction s arbitrary: b) (use ident_not_special in auto)

lemma collapse_head: "xs = [] \<or> hd xs = CHR '' '' \<Longrightarrow> takeWhile ident_char (s @ collapse_ws False xs) = takeWhile ident_char s
    \<and> (list_all ident_char s \<longrightarrow> dropWhile ident_char (s @ collapse_ws False xs) = collapse_ws False xs)"
  by (induction s) (cases xs; simp)+

lemma toks_ident:
  assumes "is_identifier s" "xs = [] \<or> hd xs = CHR '' ''"
  shows "toks (s @ xs) = s # toks xs"
proof -
  obtain c cs where s: "s = c # cs" "ident_char c" "list_all ident_char cs" using assms(1) by (cases s) (auto simp: is_identifier_def)
  have "collapse_ws False (s @ xs) = c # cs @ collapse_ws False xs"
    using collapse_ident [of s False xs] s by simp
  then show ?thesis
    using collapse_head [OF assms(2), of cs] s ident_not_special [of c] by (simp add: toks_def takeWhile_eq_all_conv list_all_iff)
qed

lemma collapse_text: "collapse_ws b (s @ QUOTE # xs) = collapse_ws b s @ QUOTE # collapse_ws False xs"
  by (induction s arbitrary: b) auto

lemma quoted_match_text: "QUOTE \<notin> set s \<Longrightarrow> BACKSLASH \<notin> set s \<Longrightarrow> quoted_match (s @ QUOTE # xs) = Some (s @ [QUOTE], xs)"
proof (induction s)
  case Nil
  then show ?case by (cases xs) simp_all
next
  case (Cons c s)
  then show ?case by (cases "s @ QUOTE # xs") auto
qed

lemma toks_quoted: "plain_text s \<Longrightarrow> toks (quoted s @ xs) = quoted s # toks xs"
  using quoted_match_text [of s "collapse_ws False xs"] collapse_text [of False s xs]
  by (simp add: toks_def quoted_def plain_text_def)

text \<open>\<open>trim\<close> changes nothing for the tokens.\<close>

lemma quoted_match_ws: "js_ws w \<Longrightarrow> quoted_match (s @ [w]) = map_option (\<lambda>(b, r). (b, r @ [w])) (quoted_match s)"
proof (induction s rule: quoted_match.induct)
  case (1)
  then show ?case using ws_not_token [of w] by simp
next
  case (2 c)
  then show ?case using ws_not_token [of w] by simp
next
  case (3 c d ds)
  then show ?case by (simp add: option.map_comp comp_def case_prod_unfold)
qed

lemma match_tokens_ws: "js_ws w \<Longrightarrow> match_tokens (s @ [w]) = match_tokens s"
proof (induction s rule: match_tokens.induct)
  case 1
  then show ?case by (simp add: match_ws del: match_tokens.simps(2))
next
  case (2 c cs)
  have t: "takeWhile ident_char (cs @ [w]) = takeWhile ident_char cs" "dropWhile ident_char (cs @ [w]) = dropWhile ident_char cs @ [w]"
    using ws_not_token [OF 2(6)] by (induction cs) auto
  show ?case
  proof (cases "is_bracket c")
    case False
    show ?thesis
    proof (cases "ident_char c")
      case notident: False
      show ?thesis
      proof (cases "c = QUOTE")
        case True
        show ?thesis
        proof (cases "quoted_match cs")
          case None
          then show ?thesis using 2 False notident True quoted_match_ws [OF 2(6), of cs] by simp
        next
          case (Some br)
          then show ?thesis using 2 False notident True quoted_match_ws [OF 2(6), of cs] by (cases br) simp
        qed
      qed (use 2 False notident in simp)
    qed (use 2 False t in simp)
  qed (use 2 in simp)
qed

lemma match_tokens_trim: "match_tokens (js_trim s) = match_tokens s"
proof -
  have l: "match_tokens (dropWhile js_ws s) = match_tokens s" for s
    by (induction s) (simp_all add: match_ws del: match_tokens.simps(2))
  have r: "match_tokens (rev (dropWhile js_ws (rev s))) = match_tokens s" for s
    by (induction s rule: rev_induct) (simp_all add: match_tokens_ws)
  show ?thesis by (simp add: js_trim_def l r)
qed

lemma tokenize_toks: "tokenize s = toks (space_brackets False None s)"
  by (simp add: tokenize_def match_tokens_trim toks_def)

definition good_token :: "string \<Rightarrow> bool" where
  "good_token t = (is_identifier t \<or> (\<exists>b. is_bracket b \<and> t = [b]) \<or> (\<exists>s. plain_text s \<and> t = quoted s))"

lemma toks_good:
  assumes "good_token t" "xs = [] \<or> hd xs = CHR '' ''"
  shows "toks (space_brackets False None (t @ xs)) = t # toks (space_brackets False None xs)"
proof -
  have h: "space_brackets False None xs = [] \<or> hd (space_brackets False None xs) = CHR '' ''"
    using assms(2) by (cases xs) (auto simp: QUOTE_def is_bracket_def)
  from assms(1) consider "is_identifier t" | b where "is_bracket b" "t = [b]" | s where "plain_text s" "t = quoted s"
    unfolding good_token_def by blast
  then show ?thesis
  proof cases
    case 1
    then show ?thesis using space_ident [of t xs] toks_ident [OF 1 h] by (simp add: is_identifier_def)
  next
    case 2
    then show ?thesis using space_bracket toks_bracket toks_ws by simp
  next
    case 3
    then show ?thesis using space_quoted toks_quoted by simp
  qed
qed

lemma tokenize_join: "\<forall>t \<in> set ts. good_token t \<Longrightarrow> tokenize (js_join '' '' ts) = ts"
proof (induction "'' ''" ts rule: js_join.induct)
  case 1
  then show ?case by (simp add: tokenize_toks toks_def)
next
  case (2 t)
  then show ?case using toks_good [of t "[]"] by (simp add: tokenize_toks toks_def)
next
  case (3 t t' ts)
  have "toks (space_brackets False None (CHR '' '' # js_join '' '' (t' # ts))) = toks (space_brackets False None (js_join '' '' (t' # ts)))"
    using toks_ws [of "CHR '' ''"] space_brackets_prev [of "Some (CHR '' '')" False] by (simp add: is_bracket_def QUOTE_def BACKSLASH_def)
  then show ?case using 3 toks_good [of t "CHR '' '' # js_join '' '' (t' # ts)"] by (simp add: tokenize_toks)
qed

lemma good_node_tokens: "printable n \<Longrightarrow> t \<in> set (node_tokens n) \<Longrightarrow> good_token t"
proof (induction n arbitrary: t)
  case (ConditionNode a c v)
  have c: "good_token (comparator_name c)"
  proof -
    have "list_all (\<lambda>c. comparator_name c \<noteq> [] \<and> list_all ident_char (comparator_name c)) [Aco, Co, Eq, Ew, Ge, Gt, Le, Lt, Pr, Sw]"
      by code_simp
    then show ?thesis by (cases c) (simp_all add: good_token_def is_identifier_def)
  qed
  have "good_token (value_token v)" if "printable_value v"
  proof (cases v)
    case (SvNum m k)
    have "list_all is_digit (show_int m) \<and> show_int m \<noteq> []"
      using that SvNum show_nat_digits by (simp add: show_int_def)
    then show ?thesis using SvNum by (auto simp: good_token_def is_identifier_def ident_char_def list_all_iff)
  next
    case (SvBool b)
    have "is_identifier ''true''" "is_identifier ''false''" by code_simp+
    then show ?thesis using SvBool by (simp add: good_token_def)
  qed (use that in \<open>auto simp: good_token_def\<close>)
  then show ?case using ConditionNode c by (auto simp: good_token_def split: if_splits)
next
  case (ArrayFilterNode p e)
  have "good_token ''[''" "good_token '']''" by (simp_all add: good_token_def is_bracket_def)
  then show ?case using ArrayFilterNode by (auto simp: good_token_def [of p])
next
  case (LogicalNode l op r)
  have "good_token ''(''" "good_token '')''" by (simp_all add: good_token_def is_bracket_def)
  moreover have "good_token (operator_name op)"
  proof -
    have "is_identifier ''and''" "is_identifier ''or''" by code_simp+
    then show ?thesis by (cases op) (simp_all add: good_token_def operator_name_def)
  qed
  ultimately show ?case using LogicalNode by (auto split: if_splits)
qed

text \<open>
  C30. A printable filter survives being written down: its text, brackets set only where a right operand is itself a combination, is tokenized and
  parsed back into exactly this tree. Printable are the trees whose attributes are identifiers and whose values are booleans, natural numbers or texts without
  quotes, backslashes and doubled blanks; nothing is claimed of other values. The code has no printer; \<open>print_filter\<close> is the one of this
  theory.
\<close>

theorem scim_round_trip:
  assumes "printable n"
  shows "parseTokens (tokenize (print_filter n)) = Inr n"
proof -
  have "tokenize (print_filter n) = node_tokens n"
    unfolding print_filter_def using good_node_tokens [OF assms] by (intro tokenize_join) blast
  moreover have "pE (node_tokens n) = Inr (n, [])" using parse_node_tokens [OF assms, of "[]"] by (simp add: pO_simps)
  ultimately show ?thesis by (simp add: parseTokens_pE)
qed

definition sample_filter :: scim_node where
  "sample_filter = LogicalNode (ArrayFilterNode ''emails'' (LogicalNode (ConditionNode ''type'' Eq (SvStr ''work and (home)'')) LOr
      (LogicalNode (ConditionNode ''primary'' Pr SvNull) LAnd (ConditionNode ''rank'' Ge (SvNum 2 0))))) LAnd
     (ConditionNode ''active'' Aco (SvBool True))"

theorem scim_round_trip_witness:
  "parseTokens (tokenize (print_filter sample_filter)) = Inr sample_filter"
proof (rule scim_round_trip)
  have "is_identifier ''emails''" "is_identifier ''type''" "is_identifier ''primary''" "is_identifier ''rank''" "is_identifier ''active''"
    "plain_text ''work and (home)''" by code_simp+
  then show "printable sample_filter" by (simp add: sample_filter_def)
qed

text \<open>
  The parser always returns, whatever the text: its loop and its recursion are bounded by twice the number of tokens, a
  larger bound changes nothing, and a translation never ends for want of it.
\<close>

theorem scim_parser_returns:
  "parseExpression (parser_fuel ts + k) ts = parseExpression (parser_fuel ts) ts
   \<and> parseTokens ts \<noteq> Inl OutOfFuel \<and> scimToMongo s \<noteq> Inl OutOfFuel"
proof -
  have p: "parseTokens ts \<noteq> Inl OutOfFuel" for ts
    using parser_enough [of ts "parser_fuel ts"] by (auto simp: parseTokens_def then_do_Inl parser_fuel_def)
  have e: "escapeRegex v \<noteq> Inl OutOfFuel" for v by (cases v) (simp_all add: escapeRegex_def)
  have c: "condition_query c v \<noteq> Inl OutOfFuel" for c v using e by (cases c) (auto simp: condition_query_def then_do_Inl)
  have t: "transformAstToMongo n \<noteq> Inl OutOfFuel" for n
  proof (induction n rule: transformAstToMongo.induct)
    case (1 left operator right)
    then show ?case by (auto simp: then_do_Inl dest: each_Inl)
  next
    case (3 a c v)
    then show ?case using c by (auto simp: then_do_Inl)
  qed (auto simp: then_do_Inl)
  have "parseExpression (parser_fuel ts + k) ts = parseExpression (parser_fuel ts) ts"
    using parser_any(1) [of ts "parser_fuel ts + k"] parser_any(1) [of ts "parser_fuel ts"] by (simp add: parser_fuel_def)
  then show ?thesis using p t by (simp add: scimToMongo_def then_do_Inl)
qed

subsection \<open>No operator from the text\<close>

definition operator_key :: "string \<Rightarrow> bool" where
  "operator_key k = js_starts_with k ''$''"

text \<open>Attribute paths of a syntax tree.\<close>

fun node_paths :: "scim_node \<Rightarrow> string set" where
  "node_paths (ConditionNode a c v) = {a}"
| "node_paths (ArrayFilterNode p e) = insert p (node_paths e)"
| "node_paths (LogicalNode l op r) = node_paths l \<union> node_paths r"

lemma match_tokens_start: "t \<in> set (match_tokens s) \<Longrightarrow> \<not> operator_key t"
proof (induction s rule: match_tokens.induct)
  case (2 c cs)
  have k: "\<not> operator_key (c # xs)" if "is_bracket c \<or> ident_char c \<or> c = QUOTE" for xs
    using that by (auto simp: operator_key_def js_starts_with_def)
  show ?case
  proof (cases "is_bracket c")
    case False
    show ?thesis
    proof (cases "ident_char c")
      case notident: False
      show ?thesis
      proof (cases "c = QUOTE \<and> quoted_match cs \<noteq> None")
        case True
        then obtain b r where br: "quoted_match cs = Some (b, r)" by auto
        have q: "c = QUOTE" using True by blast
        show ?thesis using 2(4) [OF False notident q] 2(6) k br q by auto
      next
        case notquoted: False
        then have "t \<in> set (match_tokens cs)" using 2(6) False notident by (auto split: if_splits option.splits)
        then show ?thesis using 2(3,5) [OF False notident] notquoted by blast
      qed
    qed (use 2 False k in auto)
  qed (use 2 k in auto)
qed simp


text \<open>What the parser puts into the tree comes from the tokens.\<close>

lemma parseCondition_paths:
  "parseCondition ts = Inr (e, rest) \<Longrightarrow> node_paths e \<subseteq> set ts \<and> set rest \<subseteq> set ts"
  by (cases ts rule: parseCondition.cases) (auto simp: Let_def split: option.splits comparator.splits list.splits if_splits)

lemma parser_paths:
  "(parseExpression n ts = Inr (e, rest) \<longrightarrow> node_paths e \<subseteq> set ts \<and> set rest \<subseteq> set ts)
   \<and> (parse_operators n left ts = Inr (e, rest) \<longrightarrow> node_paths e \<subseteq> node_paths left \<union> set ts \<and> set rest \<subseteq> set ts)
   \<and> (parseTerm n ts = Inr (e, rest) \<longrightarrow> node_paths e \<subseteq> set ts \<and> set rest \<subseteq> set ts)"
proof (induction n arbitrary: ts left e rest)
  case (Suc n)
  have E: "node_paths e \<subseteq> set ts \<and> set rest \<subseteq> set ts" if r: "parseExpression (Suc n) ts = Inr (e, rest)"
  proof -
    obtain l r where "parseTerm n ts = Inr (l, r)" "parse_operators n l r = Inr (e, rest)"
      using r by (auto simp: then_do_Inr)
    then have "node_paths l \<subseteq> set ts \<and> set r \<subseteq> set ts" "node_paths e \<subseteq> node_paths l \<union> set r \<and> set rest \<subseteq> set r"
      using Suc.IH by blast+
    then show ?thesis by blast
  qed
  have O: "node_paths e \<subseteq> node_paths left \<union> set ts \<and> set rest \<subseteq> set ts" if r: "parse_operators (Suc n) left ts = Inr (e, rest)"
  proof (cases ts)
    case (Cons t us)
    show ?thesis
    proof (cases "logical_of t")
      case (Some op)
      then obtain x y where "parseTerm n us = Inr (x, y)" "parse_operators n (LogicalNode left op x) y = Inr (e, rest)"
        using r Cons by (auto simp: then_do_Inr)
      then have "node_paths x \<subseteq> set us \<and> set y \<subseteq> set us"
        "node_paths e \<subseteq> node_paths (LogicalNode left op x) \<union> set y \<and> set rest \<subseteq> set y"
        using Suc.IH by blast+
      then show ?thesis using Cons by auto
    qed (use r Cons in auto)
  qed (use r in simp)
  have T: "node_paths e \<subseteq> set ts \<and> set rest \<subseteq> set ts" if r: "parseTerm (Suc n) ts = Inr (e, rest)"
  proof -
    have tail: "set (tl us) \<subseteq> set us" "set (drop 2 us) \<subseteq> set us" for us :: "string list"
      by (rule set_mono_suffix, rule suffix_tl) (rule set_drop_subset)
    consider (paren) y where "parseExpression n (tl ts) = Inr (e, y)" "rest = tl y"
      | (array) x y where "token_at 1 ts = Some ''[''" "parseExpression n (drop 2 ts) = Inr (x, y)" "rest = tl y" "e = ArrayFilterNode (hd ts) x"
      | (condition) "parseCondition ts = Inr (e, rest)"
      using r by (auto simp: then_do_Inr split: if_splits)
    then show ?thesis
    proof cases
      case paren
      then have "node_paths e \<subseteq> set (tl ts) \<and> set y \<subseteq> set (tl ts)" using Suc.IH by blast
      then show ?thesis using paren(2) tail by blast
    next
      case array
      then have "node_paths x \<subseteq> set (drop 2 ts) \<and> set y \<subseteq> set (drop 2 ts)" using Suc.IH by blast
      moreover have "hd ts \<in> set ts" using array(1) by (cases ts) (simp_all add: token_at_def)
      ultimately show ?thesis using array(3,4) tail by (simp only: node_paths.simps) blast
    qed (rule parseCondition_paths)
  qed
  show ?case using E O T by blast
qed simp

lemma scim_paths: "parseTokens (tokenize s) = Inr n \<Longrightarrow> p \<in> node_paths n \<Longrightarrow> \<not> operator_key p"
  using parser_paths [of "parser_fuel (tokenize s)" "tokenize s"] match_tokens_start
  unfolding parseTokens_def tokenize_def by (auto simp: then_do_Inr) blast

definition plain_value :: "mongo \<Rightarrow> bool" where
  "plain_value v = (case v of MArray _ \<Rightarrow> False | MObject _ \<Rightarrow> False | _ \<Rightarrow> True)"

text \<open>The text a pattern of escapes and ordinary characters matches, and nothing else.\<close>

fun literal_regex :: "string \<Rightarrow> string option" where
  "literal_regex [] = Some []"
| "literal_regex [c] = (if regex_special c then None else Some [c])"
| "literal_regex (c # d # ds) =
     (if c = BACKSLASH then map_option ((#) d) (if regex_special d then literal_regex ds else None)
      else if regex_special c then None else map_option ((#) c) (literal_regex (d # ds)))"

lemma literal_escape: "literal_regex (escape_chars t) = Some t"
proof (induction t)
  case (Cons c t)
  show ?case
  proof (cases "regex_special c")
    case False
    then have "c \<noteq> BACKSLASH" by (auto simp: regex_special_def)
    then show ?thesis using False Cons by (cases "escape_chars t") auto
  qed (use Cons in simp)
qed simp

definition literal_pattern :: "string \<Rightarrow> bool" where
  "literal_pattern p = (\<exists>t. literal_regex p \<noteq> None \<or> (p = ''^'' @ t \<or> p = t @ ''$'') \<and> literal_regex t \<noteq> None)"

text \<open>
  A query without operators from outside: combinations by \<open>$and\<close> and \<open>$or\<close>, and fields whose names are no operators
  compared with plain values, with literal text, or element by element.
\<close>

inductive safe_query :: "mongo \<Rightarrow> bool" where
  safe_empty: "safe_query (MObject [])"
| safe_logical: "op \<in> {''$and'', ''$or''} \<Longrightarrow> \<forall>q \<in> set qs. safe_query q \<Longrightarrow> safe_query (MObject [(op, MArray qs)])"
| safe_value: "\<not> operator_key f \<Longrightarrow> plain_value v \<Longrightarrow> safe_query (MObject [(f, v)])"
| safe_comparison: "\<not> operator_key f \<Longrightarrow> op \<in> {''$eq'', ''$gte'', ''$gt'', ''$lte'', ''$lt'', ''$exists''} \<Longrightarrow> plain_value v \<Longrightarrow>
    safe_query (MObject [(f, MObject [(op, v)])])"
| safe_text: "\<not> operator_key f \<Longrightarrow> literal_pattern p \<Longrightarrow>
    safe_query (MObject [(f, MObject [(''$options'', MString ''i''), (''$regex'', MString p)])])"
| safe_elements: "\<not> operator_key f \<Longrightarrow> safe_query q \<Longrightarrow> safe_query (MObject [(f, MObject [(''$elemMatch'', q)])])"

lemma flatten_paths: "x \<in> set (flattenLogicalOperator n op) \<Longrightarrow> node_paths x \<subseteq> node_paths n"
  by (induction n op rule: flattenLogicalOperator.induct) (auto split: if_splits)

lemma plain_mongo [simp]: "plain_value (mongo_value v)" by (cases v) (simp_all add: mongo_value_def plain_value_def)

lemma condition_safe:
  assumes "condition_query c v = Inr q" "\<not> operator_key a"
  shows "safe_query (MObject [(a, q)])"
proof -
  have esc: "literal_pattern (escape_chars t)" "literal_pattern (escape_chars t @ ''$'')" "literal_pattern (''^'' @ escape_chars t)" for t
    using literal_escape [of t] by (auto simp: literal_pattern_def)
  have v: "\<exists>t. v = SvStr t \<and> e = escape_chars t" if "escapeRegex v = Inr e" for e
    using that by (cases v) (simp_all add: escapeRegex_def)
  have "plain_value (MBoolean True)" by (simp add: plain_value_def)
  moreover have "(\<exists>op w. q = MObject [(op, w)] \<and> op \<in> {''$eq'', ''$gte'', ''$gt'', ''$lte'', ''$lt'', ''$exists''} \<and> plain_value w)
      \<or> (\<exists>p. q = regex_condition p \<and> literal_pattern p) \<or> plain_value q"
  proof (cases "c \<in> {Co, Ew, Sw}")
    case True
    then obtain e where e: "escapeRegex v = Inr e" "q = regex_condition e \<or> q = regex_condition (e @ ''$'') \<or> q = regex_condition (''^'' @ e)"
      using assms(1) by (auto simp: condition_query_def then_do_Inr)
    then show ?thesis using v [OF e(1)] esc by (metis append_Cons append_Nil)
  next
    case False
    then show ?thesis using assms(1) \<open>plain_value (MBoolean True)\<close> by (cases c) (auto simp: condition_query_def)
  qed
  ultimately show ?thesis
    using safe_comparison [OF assms(2)] safe_text [OF assms(2)] safe_value [OF assms(2)] unfolding regex_condition_def by blast
qed

lemma list_all2_right: "list_all2 P xs ys \<Longrightarrow> y \<in> set ys \<Longrightarrow> \<exists>x \<in> set xs. P x y"
  by (induction rule: list_all2_induct) auto

lemma transform_safe:
  "transformAstToMongo n = Inr q \<Longrightarrow> \<forall>p \<in> node_paths n. \<not> operator_key p \<Longrightarrow> safe_query q"
proof (induction n arbitrary: q rule: transformAstToMongo.induct)
  case (1 left operator right)
  obtain qs where qs: "list_all2 (\<lambda>x y. transformAstToMongo x = Inr y) (flattenLogicalOperator (LogicalNode left operator right) operator) qs"
    "q = MObject [(''$'' @ operator_name operator, MArray qs)]"
    using 1(2) by (auto simp: then_do_Inr each_Inr)
  have "safe_query y" if y: "y \<in> set qs" for y
  proof -
    obtain x where x: "x \<in> set (flattenLogicalOperator (LogicalNode left operator right) operator)" "transformAstToMongo x = Inr y"
      using list_all2_right [OF qs(1) y] by blast
    show ?thesis using 1(1) [OF x] 1(3) flatten_paths [OF x(1)] by blast
  qed
  moreover have "''$'' @ operator_name operator \<in> {''$and'', ''$or''}" by (cases operator) (simp_all add: operator_name_def)
  ultimately show ?case unfolding qs(2) by (intro safe_logical) blast+
next
  case (2 path expr)
  then show ?case by (auto simp: then_do_Inr intro: safe_elements)
next
  case (3 a c v)
  then show ?case using condition_safe by (auto simp: then_do_Inr)
qed

text \<open>
  C28. No filter text injects an operator: whatever the text, the query that comes out consists of combinations and
  comparisons the translation wrote itself; no field name starts with a dollar sign, every value is plain, and
  every regular expression matches a literal text, at most anchored on one side.
\<close>

theorem scim_injects_no_operator:
  assumes "scimToMongo s = Inr q"
  shows "safe_query q"
proof (cases "s = []")
  case True
  then show ?thesis using assms safe_empty by (auto simp: scimToMongo_def)
next
  case False
  then obtain n where "parseTokens (tokenize s) = Inr n" "transformAstToMongo n = Inr q"
    using assms by (auto simp: scimToMongo_def then_do_Inr)
  then show ?thesis using transform_safe scim_paths by blast
qed

theorem scim_injects_no_operator_witness:
  "safe_query (MObject [(''where'', MObject [(''$options'', MString ''i''), (''$regex'', MString (BACKSLASH # ''$ne''))])])"
proof (rule scim_injects_no_operator [of "''$where co '' @ quoted ''$ne''"])
  show "scimToMongo (''$where co '' @ quoted ''$ne'')
      = Inr (MObject [(''where'', MObject [(''$options'', MString ''i''), (''$regex'', MString (BACKSLASH # ''$ne''))])])"
    by code_simp
qed

subsection \<open>The meaning of a filter\<close>

text \<open>
  Two parameters say what MongoDB makes of one field: whether a document fulfils a condition on a field
  (\<open>leaf\<close>), and which documents a field holds (\<open>elems\<close>). A syntax tree means what it says, a query what MongoDB's
  manual says about \<open>$and\<close>, \<open>$or\<close> and \<open>$elemMatch\<close>.
\<close>

fun holds :: "('d \<Rightarrow> string \<Rightarrow> mongo \<Rightarrow> bool) \<Rightarrow> ('d \<Rightarrow> string \<Rightarrow> 'd list) \<Rightarrow> scim_node \<Rightarrow> 'd \<Rightarrow> bool" where
  "holds leaf elems (ConditionNode a c v) d = (case condition_query c v of Inl e \<Rightarrow> False | Inr q \<Rightarrow> leaf d a q)"
| "holds leaf elems (ArrayFilterNode p e) d = (\<exists>x \<in> set (elems d p). holds leaf elems e x)"
| "holds leaf elems (LogicalNode l op r) d =
     (case op of LAnd \<Rightarrow> holds leaf elems l d \<and> holds leaf elems r d | LOr \<Rightarrow> holds leaf elems l d \<or> holds leaf elems r d)"

definition elem_query :: "mongo \<Rightarrow> mongo option" where
  "elem_query v = (case v of MObject [(op, q)] \<Rightarrow> if op = ''$elemMatch'' then Some q else None | _ \<Rightarrow> None)"

definition subqueries :: "mongo \<Rightarrow> mongo list" where
  "subqueries v = (case v of MArray qs \<Rightarrow> qs | _ \<Rightarrow> [])"

lemma elem_query_size: "elem_query v = Some q \<Longrightarrow> size q < size v"
  by (auto simp: elem_query_def split: mongo.splits list.splits if_splits)

lemma subqueries_size: "q \<in> set (subqueries v) \<Longrightarrow> size q < size v"
proof (cases v)
  case (MArray qs)
  assume "q \<in> set (subqueries v)"
  then have "q \<in> set qs" using MArray by (simp add: subqueries_def)
  then have "size q \<le> size_list size qs" by (rule size_list_estimation') simp
  then show ?thesis using MArray by simp
qed (simp_all add: subqueries_def)

lemma field_size: "(k, v) \<in> set kvs \<Longrightarrow> size v < size (MObject kvs)"
  by (induction kvs) auto

function matches :: "('d \<Rightarrow> string \<Rightarrow> mongo \<Rightarrow> bool) \<Rightarrow> ('d \<Rightarrow> string \<Rightarrow> 'd list) \<Rightarrow> mongo \<Rightarrow> 'd \<Rightarrow> bool" where
  "matches leaf elems (MObject kvs) d = (\<forall>(k, v) \<in> set kvs.
     if k = ''$and'' then \<forall>q \<in> set (subqueries v). matches leaf elems q d
     else if k = ''$or'' then \<exists>q \<in> set (subqueries v). matches leaf elems q d
     else (case elem_query v of Some q \<Rightarrow> \<exists>x \<in> set (elems d k). matches leaf elems q x | None \<Rightarrow> leaf d k v))"
| "matches leaf elems MNull d = False"
| "matches leaf elems (MString s) d = False"
| "matches leaf elems (MNumber m k) d = False"
| "matches leaf elems (MBoolean b) d = False"
| "matches leaf elems (MArray qs) d = False"
  by pat_completeness auto
termination
  by (relation "measure (\<lambda>(_, _, q, _). size q)")
    (auto dest!: field_size subqueries_size elem_query_size simp del: mongo.size)

lemma matches_single:
  "matches leaf elems (MObject [(k, v)]) d =
     (if k = ''$and'' then \<forall>q \<in> set (subqueries v). matches leaf elems q d
      else if k = ''$or'' then \<exists>q \<in> set (subqueries v). matches leaf elems q d
      else (case elem_query v of Some q \<Rightarrow> \<exists>x \<in> set (elems d k). matches leaf elems q x | None \<Rightarrow> leaf d k v))"
  by simp

lemma flatten_holds:
  "(op = LAnd \<longrightarrow> (holds leaf elems n d \<longleftrightarrow> (\<forall>x \<in> set (flattenLogicalOperator n op). holds leaf elems x d)))
   \<and> (op = LOr \<longrightarrow> (holds leaf elems n d \<longleftrightarrow> (\<exists>x \<in> set (flattenLogicalOperator n op). holds leaf elems x d)))"
  by (induction n op rule: flattenLogicalOperator.induct) (auto split: logical_operator.splits)

lemma condition_not_elem: "condition_query c v = Inr q \<Longrightarrow> elem_query q = None"
  by (cases c; cases v)
    (auto simp: condition_query_def elem_query_def regex_condition_def mongo_value_def escapeRegex_def)

lemma list_all2_ball: "list_all2 P xs ys \<Longrightarrow> (\<And>x y. x \<in> set xs \<Longrightarrow> P x y \<Longrightarrow> f x = g y) \<Longrightarrow>
    ((\<forall>y \<in> set ys. g y) \<longleftrightarrow> (\<forall>x \<in> set xs. f x)) \<and> ((\<exists>y \<in> set ys. g y) \<longleftrightarrow> (\<exists>x \<in> set xs. f x))"
  by (induction rule: list_all2_induct) auto

lemma transform_meaning:
  "transformAstToMongo n = Inr q \<Longrightarrow> \<forall>p \<in> node_paths n. \<not> operator_key p \<Longrightarrow> matches leaf elems q d = holds leaf elems n d"
proof (induction n arbitrary: q d rule: transformAstToMongo.induct)
  case (1 left operator right)
  let ?n = "LogicalNode left operator right"
  obtain qs where qs: "list_all2 (\<lambda>x y. transformAstToMongo x = Inr y) (flattenLogicalOperator ?n operator) qs"
    "q = MObject [(''$'' @ operator_name operator, MArray qs)]"
    using 1(2) by (auto simp: then_do_Inr each_Inr)
  have "matches leaf elems y d = holds leaf elems x d"
    if x: "x \<in> set (flattenLogicalOperator ?n operator)" "transformAstToMongo x = Inr y" for x y
    using 1(1) [OF x] 1(3) flatten_paths [OF x(1)] by blast
  then have all: "((\<forall>y \<in> set qs. matches leaf elems y d) \<longleftrightarrow> (\<forall>x \<in> set (flattenLogicalOperator ?n operator). holds leaf elems x d))
      \<and> ((\<exists>y \<in> set qs. matches leaf elems y d) \<longleftrightarrow> (\<exists>x \<in> set (flattenLogicalOperator ?n operator). holds leaf elems x d))"
    by (intro list_all2_ball [OF qs(1)]) simp
  show ?case
  proof (cases operator)
    case LAnd
    then show ?thesis
      using all flatten_holds [of operator leaf elems ?n d] unfolding qs(2) matches_single by (simp add: operator_name_def subqueries_def)
  next
    case LOr
    then show ?thesis
      using all flatten_holds [of operator leaf elems ?n d] unfolding qs(2) matches_single by (simp add: operator_name_def subqueries_def)
  qed
next
  case (2 path expr)
  obtain e where e: "transformAstToMongo expr = Inr e" "q = MObject [(path, MObject [(''$elemMatch'', e)])]"
    using 2(2) by (auto simp: then_do_Inr)
  have "path \<noteq> ''$and''" "path \<noteq> ''$or''" using 2(3) by (auto simp: operator_key_def js_starts_with_def)
  moreover have "\<forall>p \<in> node_paths expr. \<not> operator_key p" using 2(3) by simp
  ultimately show ?case using 2(1) [OF e(1)] unfolding e(2) matches_single by (simp add: elem_query_def)
next
  case (3 a c v)
  obtain e where e: "condition_query c v = Inr e" "q = MObject [(a, e)]" using 3(1) by (auto simp: then_do_Inr)
  have "a \<noteq> ''$and''" "a \<noteq> ''$or''" using 3(2) by (auto simp: operator_key_def js_starts_with_def)
  then show ?case using e(1) condition_not_elem [OF e(1)] unfolding e(2) matches_single by simp
qed

text \<open>
  C29. The query means what the filter says: flattening chains of the same operator, and turning array filters into
  element matches, a document fulfils the query exactly when it fulfils the parsed filter, whatever a single
  comparison means to the database.
\<close>

theorem scim_query_means_filter:
  assumes "parseTokens (tokenize s) = Inr n" "scimToMongo s = Inr q"
  shows "matches leaf elems q d = holds leaf elems n d"
proof (cases "s = []")
  case True
  have "parseTokens (tokenize []) = Inl TypeErrorUndefined" by code_simp
  then show ?thesis using assms(1) True by simp
next
  case False
  then have "transformAstToMongo n = Inr q" using assms by (simp add: scimToMongo_def)
  then show ?thesis using False transform_meaning [of n q leaf elems d] scim_paths [OF assms(1)] by blast
qed

definition sample_leaf :: "nat list \<Rightarrow> string \<Rightarrow> mongo \<Rightarrow> bool" where
  "sample_leaf d a q = (case q of MObject [(op, MNumber m k)] \<Rightarrow> op = ''$eq'' \<and> int (length d) = m | _ \<Rightarrow> False)"

definition sample_query :: mongo where
  "sample_query = MObject [(''$and'', MArray [MObject [(''a'', MObject [(''$eq'', MNumber 2 0)])],
     MObject [(''b'', MObject [(''$elemMatch'', MObject [(''c'', MObject [(''$eq'', MNumber 1 0)])])])],
     MObject [(''d'', MObject [(''$eq'', MNumber 2 0)])]])]"

theorem scim_query_means_filter_witness:
  "matches sample_leaf (\<lambda>d _. map (\<lambda>x. [x]) d) sample_query [3, 4]
    = holds sample_leaf (\<lambda>d _. map (\<lambda>x. [x]) d)
        (LogicalNode (LogicalNode (ConditionNode ''a'' Eq (SvNum 2 0)) LAnd (ArrayFilterNode ''b'' (ConditionNode ''c'' Eq (SvNum 1 0))))
          LAnd (ConditionNode ''d'' Eq (SvNum 2 0))) [3, 4]"
proof (rule scim_query_means_filter)
  show "parseTokens (tokenize ''a eq 2 and b[c EQ 1] AND d eq 2'') = Inr (LogicalNode (LogicalNode (ConditionNode ''a'' Eq (SvNum 2 0)) LAnd
      (ArrayFilterNode ''b'' (ConditionNode ''c'' Eq (SvNum 1 0)))) LAnd (ConditionNode ''d'' Eq (SvNum 2 0)))"
    by code_simp
  show "scimToMongo ''a eq 2 and b[c EQ 1] AND d eq 2'' = Inr sample_query" by code_simp
qed

subsection \<open>Filters read differently\<close>

lemma collapse_subset: "set (collapse_ws b s) \<subseteq> insert (CHR '' '') (set s)"
  by (induction s arbitrary: b) (auto simp: subset_iff)

lemma toks_quoted_any:
  assumes "QUOTE \<notin> set s" "BACKSLASH \<notin> set s"
  shows "toks (quoted s) = [quoted (collapse_ws False s)]"
proof -
  have "QUOTE \<notin> set (collapse_ws False s)" "BACKSLASH \<notin> set (collapse_ws False s)"
    using assms collapse_subset [of False s] by (auto simp: QUOTE_def BACKSLASH_def)
  then show ?thesis
    using quoted_match_text [of "collapse_ws False s" "[]"] collapse_text [of False s "[]"] by (simp add: toks_def quoted_def)
qed

lemma condition_toks:
  assumes "is_identifier x" "is_identifier op" "space_brackets False None r = r"
  shows "tokenize (x @ '' '' @ op @ '' '' @ r) = x # op # toks r"
proof -
  have "toks (space_brackets False None (CHR '' '' # xs)) = toks (space_brackets False None xs)" for xs
    using toks_ws [of "CHR '' ''"] space_brackets_prev [of "Some (CHR '' '')" False] by (simp add: is_bracket_def QUOTE_def BACKSLASH_def)
  then show ?thesis
    using toks_good [of x "CHR '' '' # op @ '' '' @ r"] toks_good [of op "CHR '' '' # r"] assms
    by (simp add: tokenize_toks good_token_def)
qed

lemma digits_ident: "is_identifier (show_nat m)"
  using show_nat_digits [of m] by (auto simp: is_identifier_def ident_char_def list_all_iff)

lemma space_digits: "space_brackets False None (show_nat m) = show_nat m"
  using space_ident [of "show_nat m" "[]"] digits_ident [of m] by (simp add: is_identifier_def)

lemma toks_digits: "toks (show_nat m) = [show_nat m]" "toks (CHR ''-'' # show_nat m) = [show_nat m]"
proof -
  show d: "toks (show_nat m) = [show_nat m]"
    using toks_ident [OF digits_ident, of "[]" m] by (simp add: toks_def)
  have "\<not> js_ws (CHR ''-'')" "\<not> is_bracket (CHR ''-'')" "CHR ''-'' \<noteq> QUOTE" by code_simp+
  then show "toks (CHR ''-'' # show_nat m) = [show_nat m]" using d by (simp add: toks_def)
qed

lemma parseTokens_condition:
  assumes "is_identifier x" "comparator_of (js_lower op) = Some c" "c \<noteq> Pr" "op \<noteq> ''[''"
  shows "parseTokens [x, op, v] = Inr (ConditionNode x c (if js_starts_with v [QUOTE] then SvStr (butlast (tl v)) else parseValue v))"
proof -
  have "pT [x, op, v] = parseCondition [x, op, v]" using assms identifier_not_paren by (intro pT_simps(3)) simp_all
  also have "\<dots> = Inr (ConditionNode x c (if js_starts_with v [QUOTE] then SvStr (butlast (tl v)) else parseValue v), [])"
    using assms identifier_not_paren by (cases c) (simp_all add: Let_def)
  finally show ?thesis by (simp add: parseTokens_pE pE_eq pO_simps)
qed

lemma digits_value: "\<not> js_starts_with (show_nat m) [QUOTE] \<and> parseValue (show_nat m) = SvNum (int m) 0"
  using decimal_show [of "int m"] show_nat_digits [of m]
  by (cases "show_nat m") (auto simp: parseValue_def js_starts_with_def show_int_def)

text \<open>
  Where the translation departs from the text of a filter: what follows a complete filter is dropped unless it starts with
  \<open>and\<close> or \<open>or\<close>; \<open>and\<close> does not bind more strongly than \<open>or\<close>, contrary to the SCIM standard; a minus sign is lost, and so are
  repeated blanks inside a quoted text; and a text comparison with a number is not refused but ends in a type error.
\<close>

theorem scim_departs_from_text:
  assumes "printable a" "printable b" "printable c" "\<not> is_logical b" "\<not> is_logical c" "logical_of t = None"
    and "is_identifier x" "QUOTE \<notin> set s" "BACKSLASH \<notin> set s"
  shows "parseTokens (node_tokens a @ t # ts) = Inr a
    \<and> parseTokens (node_tokens a @ ''or'' # node_tokens b @ ''and'' # node_tokens c) = Inr (LogicalNode (LogicalNode a LOr b) LAnd c)
    \<and> scimToMongo (x @ '' eq -'' @ show_nat m) = Inr (MObject [(x, MObject [(''$eq'', MNumber (int m) 0)])])
    \<and> scimToMongo (x @ '' eq '' @ quoted s) = Inr (MObject [(x, MObject [(''$eq'', MString (collapse_ws False s))])])
    \<and> scimToMongo (x @ '' co '' @ show_nat m) = Inl TypeErrorNotAString"
proof (intro conjI)
  show "parseTokens (node_tokens a @ t # ts) = Inr a"
    using parse_node_tokens [OF assms(1), of "t # ts"] assms(6) by (simp add: parseTokens_pE pO_simps)
  have ops: "logical_of ''or'' = Some LOr" "logical_of ''and'' = Some LAnd" by code_simp+
  have "pT (node_tokens b @ ''and'' # node_tokens c) = Inr (b, ''and'' # node_tokens c)" "pT (node_tokens c) = Inr (c, [])"
    using parse_node_tokens [OF assms(2)] parse_node_tokens [OF assms(3), of "[]"] assms(4,5) by simp_all
  then show "parseTokens (node_tokens a @ ''or'' # node_tokens b @ ''and'' # node_tokens c) = Inr (LogicalNode (LogicalNode a LOr b) LAnd c)"
    using parse_node_tokens [OF assms(1)] by (simp add: parseTokens_pE pO_simps ops)
  have i: "is_identifier ''eq''" "is_identifier ''co''" by code_simp+
  have e: "comparator_of (js_lower ''eq'') = Some Eq" "comparator_of (js_lower ''co'') = Some Co" by code_simp+
  have minus: "space_brackets False None (CHR ''-'' # show_nat m) = CHR ''-'' # show_nat m"
    using space_digits [of m] space_brackets_prev [of "Some (CHR ''-'')" False "show_nat m"]
    by (simp add: QUOTE_def BACKSLASH_def is_bracket_def)
  have x: "x \<noteq> []" using assms(7) by (simp add: is_identifier_def)
  have "tokenize (x @ '' eq -'' @ show_nat m) = [x, ''eq'', show_nat m]"
    using condition_toks [OF assms(7) i(1) minus] toks_digits by simp
  then show "scimToMongo (x @ '' eq -'' @ show_nat m) = Inr (MObject [(x, MObject [(''$eq'', MNumber (int m) 0)])])"
    using parseTokens_condition [OF assms(7) e(1)] digits_value [of m] x
    by (simp add: scimToMongo_def condition_query_def mongo_value_def)
  have q: "space_brackets False None (quoted s) = quoted s"
    using space_text [OF assms(8,9), of "Some QUOTE" "[]"] by (simp add: quoted_def)
  have "tokenize (x @ '' eq '' @ quoted s) = [x, ''eq'', quoted (collapse_ws False s)]"
    using condition_toks [OF assms(7) i(1) q] toks_quoted_any [OF assms(8,9)] by simp
  then show "scimToMongo (x @ '' eq '' @ quoted s) = Inr (MObject [(x, MObject [(''$eq'', MString (collapse_ws False s))])])"
    using parseTokens_condition [OF assms(7) e(1)] x
    by (simp add: scimToMongo_def condition_query_def mongo_value_def quoted_def js_starts_with_def)
  have "tokenize (x @ '' co '' @ show_nat m) = [x, ''co'', show_nat m]"
    using condition_toks [OF assms(7) i(2) space_digits] toks_digits by simp
  then show "scimToMongo (x @ '' co '' @ show_nat m) = Inl TypeErrorNotAString"
    using parseTokens_condition [OF assms(7) e(2)] digits_value [of m] x
    by (simp add: scimToMongo_def condition_query_def escapeRegex_def)
qed

theorem scim_departs_from_text_witness:
  "parseTokens (node_tokens (ConditionNode ''a'' Eq (SvNum 1 0)) @ [''b'', ''eq'', ''2'']) = Inr (ConditionNode ''a'' Eq (SvNum 1 0))
   \<and> scimToMongo (''n eq -'' @ show_nat 5) = Inr (MObject [(''n'', MObject [(''$eq'', MNumber 5 0)])])"
proof -
  have "is_identifier ''a''" "is_identifier ''n''" "logical_of ''b'' = None" by code_simp+
  then show ?thesis
    using scim_departs_from_text [of "ConditionNode ''a'' Eq (SvNum 1 0)" "ConditionNode ''a'' Pr SvNull" "ConditionNode ''a'' Pr SvNull"
        "''b''" "''n''" "''x  y''" "[''eq'', ''2'']" 5]
    by (simp add: is_logical_def QUOTE_def BACKSLASH_def)
qed

end
