(* ===== verification/SystemSetup.thy ===== *)
theory SystemSetup
  imports Prelude
begin

text \<open>
  Creation of the first administrator of a fresh deployment,
  \<^verbatim>\<open>modules/system-setup/core-system-setup.service.ts\<close>.

  Replicas that boot and anonymous callers of the endpoint run \<open>createInitialAdmin\<close> at the same time. One database
  operation, or one call of Better-Auth, is one atomic step; between two of them others may run, users may sign up
  and the process may die. What a call of Better-Auth does is its documented effect: a user is inserted
  unless the unique index on the e-mail address refuses it; every call may fail. The clocks agree.
\<close>

subsection \<open>The database and one attempt\<close>

record setup_user =
  setup_email :: string
  setup_roles :: "string list"

record setup_db =
  sd_users :: "setup_user list"
  sd_claimedAt :: "int option"

definition INITIAL_ADMIN_CLAIM_STALE_AFTER_MS :: int where
  "INITIAL_ADMIN_CLAIM_STALE_AFTER_MS = 5 * 60000"

datatype setup_error = SYSTEM_SETUP_NOT_AVAILABLE | SYSTEM_SETUP_BETTERAUTH_REQUIRED | DatabaseError

text \<open>The next operation of an attempt; \<open>DroppingStale\<close> and \<open>Claiming\<close> are \<open>claimInitialAdminSetup\<close>.\<close>

datatype setup_phase =
    NotStarted
  | Counting
  | DroppingStale
  | Claiming
  | CreatingUser
  | LinkingAccount
  | SyncingUser
  | Promoting
  | SyncingPassword
  | ReleasingClaim
  | SetupSucceeded
  | SetupRefused setup_error
  | SetupDied

definition drop_stale_claim :: "int \<Rightarrow> setup_db \<Rightarrow> setup_db" where
  "drop_stale_claim now db = (case sd_claimedAt db of
       Some t \<Rightarrow> if t < now - INITIAL_ADMIN_CLAIM_STALE_AFTER_MS then db\<lparr>sd_claimedAt := None\<rparr> else db
     | None \<Rightarrow> db)"

text \<open>\<open>claimInitialAdminSetup\<close>: whether there was no claim before, and the database.\<close>

definition claim_upsert :: "int \<Rightarrow> setup_db \<Rightarrow> bool \<times> setup_db" where
  "claim_upsert now db = (case sd_claimedAt db of
       None \<Rightarrow> (True, db\<lparr>sd_claimedAt := Some now\<rparr>)
     | Some _ \<Rightarrow> (False, db))"

definition releaseInitialAdminSetupClaim :: "setup_db \<Rightarrow> setup_db" where
  "releaseInitialAdminSetupClaim db = db\<lparr>sd_claimedAt := None\<rparr>"

definition has_email :: "string \<Rightarrow> setup_db \<Rightarrow> bool" where
  "has_email email db = list_ex (\<lambda>u. setup_email u = email) (sd_users db)"

definition add_setup_user :: "string \<Rightarrow> setup_db \<Rightarrow> setup_db" where
  "add_setup_user email db = db\<lparr>sd_users := sd_users db @ [\<lparr>setup_email = email, setup_roles = []\<rparr>]\<rparr>"

definition promote_user :: "string \<Rightarrow> setup_db \<Rightarrow> setup_db" where
  "promote_user email db = db\<lparr>sd_users :=
     map (\<lambda>u. if setup_email u = email then u\<lparr>setup_roles := [''admin'']\<rparr> else u) (sd_users db)\<rparr>"

text \<open>
  One step of \<open>createInitialAdmin\<close> with the given e-mail address at the given time: \<open>enabled\<close> says whether Better-Auth is,
  \<open>ok\<close> whether the call of this step succeeds.
\<close>

fun createInitialAdmin :: "bool \<Rightarrow> bool \<Rightarrow> string \<Rightarrow> int \<Rightarrow> setup_phase \<Rightarrow> setup_db \<Rightarrow> setup_phase \<times> setup_db" where
  "createInitialAdmin enabled ok email now Counting db =
     (if \<not> ok then (SetupRefused DatabaseError, db)
      else if length (sd_users db) > 0 then (SetupRefused SYSTEM_SETUP_NOT_AVAILABLE, db)
      else if \<not> enabled then (SetupRefused SYSTEM_SETUP_BETTERAUTH_REQUIRED, db)
      else (DroppingStale, db))"
| "createInitialAdmin enabled ok email now DroppingStale db =
     (if \<not> ok then (SetupRefused DatabaseError, db) else (Claiming, drop_stale_claim now db))"
| "createInitialAdmin enabled ok email now Claiming db =
     (if \<not> ok then (SetupRefused DatabaseError, db)
      else let (claimed, db') = claim_upsert now db
           in (if claimed then CreatingUser else SetupRefused SYSTEM_SETUP_NOT_AVAILABLE, db'))"
| "createInitialAdmin enabled ok email now CreatingUser db =
     (if \<not> ok \<or> has_email email db then (ReleasingClaim, db) else (LinkingAccount, add_setup_user email db))"
| "createInitialAdmin enabled ok email now LinkingAccount db =
     (if \<not> ok then (ReleasingClaim, db) else (SyncingUser, db))"
| "createInitialAdmin enabled ok email now SyncingUser db =
     (if \<not> ok then (ReleasingClaim, db)
      else (Promoting, if has_email email db then db else add_setup_user email db))"
| "createInitialAdmin enabled ok email now Promoting db =
     (if \<not> ok then (ReleasingClaim, db) else (SyncingPassword, promote_user email db))"
| "createInitialAdmin enabled ok email now SyncingPassword db = (SetupSucceeded, db)"
| "createInitialAdmin enabled ok email now ReleasingClaim db =
     (SetupRefused SYSTEM_SETUP_NOT_AVAILABLE, if ok then releaseInitialAdminSetupClaim db else db)"
| "createInitialAdmin enabled ok email now ph db = (ph, db)"

subsection \<open>The boot path\<close>

record initial_admin_config =
  ia_email :: "string option"
  ia_password :: "string option"

text \<open>
  Whether \<open>onApplicationBootstrap\<close> goes on to \<open>createInitialAdmin\<close>; \<open>isEmail\<close> is the check of the validation package.
\<close>

definition getSetupStatus :: "bool \<Rightarrow> setup_db \<Rightarrow> bool \<times> bool" where
  "getSetupStatus enabled db = (enabled, length (sd_users db) = 0)"

definition onApplicationBootstrap :: "(string \<Rightarrow> bool) \<Rightarrow> bool \<Rightarrow> initial_admin_config option \<Rightarrow> setup_db \<Rightarrow> string option" where
  "onApplicationBootstrap isEmail enabled config db = (case config of
       None \<Rightarrow> None
     | Some initialAdmin \<Rightarrow>
         (case (ia_email initialAdmin, ia_password initialAdmin) of
            (Some email, Some password) \<Rightarrow>
              if email = [] \<or> password = [] then None
              else if \<not> isEmail email then None
              else if js_trim password = [] then None
              else (let (betterAuthEnabled, needsSetup) = getSetupStatus enabled db
                    in if \<not> needsSetup then None else if \<not> betterAuthEnabled then None else Some email)
          | _ \<Rightarrow> None))"

subsection \<open>All attempts together\<close>

text \<open>\<open>ss_started\<close> and \<open>ss_claimed\<close> record when an attempt began and when it claimed; no step reads them.\<close>

record setup_state =
  ss_now :: int
  ss_db :: setup_db
  ss_phase :: "nat \<Rightarrow> setup_phase"
  ss_started :: "nat \<Rightarrow> int"
  ss_claimed :: "nat \<Rightarrow> int"

inductive setup_step :: "(nat \<Rightarrow> string) \<Rightarrow> setup_state \<Rightarrow> setup_state \<Rightarrow> bool" for email where
  setup_begins: "ss_phase s p = NotStarted \<Longrightarrow>
     setup_step email s (s\<lparr>ss_phase := (ss_phase s)(p := Counting), ss_started := (ss_started s)(p := ss_now s)\<rparr>)"
| setup_acts: "createInitialAdmin enabled ok (email p) (ss_now s) (ss_phase s p) (ss_db s) = (ph, db) \<Longrightarrow>
     setup_step email s (s\<lparr>ss_phase := (ss_phase s)(p := ph), ss_db := db,
       ss_claimed := (if ss_phase s p = Claiming then (ss_claimed s)(p := ss_now s) else ss_claimed s)\<rparr>)"
| setup_dies: "setup_step email s (s\<lparr>ss_phase := (ss_phase s)(p := SetupDied)\<rparr>)"
| signs_up: "\<not> has_email e (ss_db s) \<Longrightarrow> setup_step email s (s\<lparr>ss_db := add_setup_user e (ss_db s)\<rparr>)"
| setup_ticks: "0 \<le> d \<Longrightarrow> setup_step email s (s\<lparr>ss_now := ss_now s + d\<rparr>)"

inductive setup_run :: "(nat \<Rightarrow> string) \<Rightarrow> setup_state \<Rightarrow> setup_state \<Rightarrow> bool" for email s0 where
  run_refl: "setup_run email s0 s0"
| run_step: "setup_run email s0 s \<Longrightarrow> setup_step email s s' \<Longrightarrow> setup_run email s0 s'"

text \<open>The attempts that passed the count, those that hold the claim, and those whose user exists.\<close>

definition passed_count :: "setup_phase \<Rightarrow> bool" where
  "passed_count ph = (ph = DroppingStale \<or> ph = Claiming)"

definition created :: "setup_phase \<Rightarrow> bool" where
  "created ph = (ph = LinkingAccount \<or> ph = SyncingUser \<or> ph = Promoting)"

definition owns_claim :: "setup_phase \<Rightarrow> bool" where
  "owns_claim ph = (ph = CreatingUser \<or> created ph \<or> ph = ReleasingClaim)"

lemmas phase_kinds = passed_count_def created_def owns_claim_def

text \<open>No attempt that is under way has taken longer than \<open>D\<close>.\<close>

definition setup_timely :: "int \<Rightarrow> setup_state \<Rightarrow> bool" where
  "setup_timely D s = (\<forall>p. passed_count (ss_phase s p) \<or> owns_claim (ss_phase s p) \<longrightarrow> ss_now s - ss_started s p \<le> D)"

inductive timely_setup :: "(nat \<Rightarrow> string) \<Rightarrow> int \<Rightarrow> setup_state \<Rightarrow> bool" for email D where
  setup_init: "\<forall>p. ss_phase s p = NotStarted \<Longrightarrow> sd_users (ss_db s) = [] \<Longrightarrow> timely_setup email D s"
| setup_next: "timely_setup email D s \<Longrightarrow> setup_step email s s' \<Longrightarrow> setup_timely D s' \<Longrightarrow> timely_setup email D s'"

definition has_admin_role :: "setup_user \<Rightarrow> bool" where
  "has_admin_role u = (''admin'' \<in> set (setup_roles u))"

definition admins :: "setup_state \<Rightarrow> setup_user list" where
  "admins s = filter has_admin_role (sd_users (ss_db s))"

subsection \<open>One administrator\<close>

text \<open>
  The claim belongs to the one attempt that holds it; who passed the count did so before the
  holder's user existed; and once there is an administrator, the claim outlasts everyone who passed the count.
  The parts of the state are \<open>now\<close>, \<open>db\<close>, the phases \<open>f\<close>, and the times \<open>st\<close> and \<open>cl\<close>.
\<close>

definition claim_inv :: "int \<Rightarrow> setup_db \<Rightarrow> (nat \<Rightarrow> setup_phase) \<Rightarrow> (nat \<Rightarrow> int) \<Rightarrow> (nat \<Rightarrow> int) \<Rightarrow> bool" where
  "claim_inv now db f st cl = (\<forall>p. owns_claim (f p) \<longrightarrow>
     sd_claimedAt db = Some (cl p) \<and> st p \<le> cl p \<and> cl p \<le> now \<and> (\<forall>q. owns_claim (f q) \<longrightarrow> q = p))"

definition started_inv :: "int \<Rightarrow> (nat \<Rightarrow> setup_phase) \<Rightarrow> (nat \<Rightarrow> int) \<Rightarrow> bool" where
  "started_inv now f st = (\<forall>p. f p = Counting \<or> passed_count (f p) \<longrightarrow> st p \<le> now)"

definition created_inv :: "int \<Rightarrow> setup_db \<Rightarrow> (nat \<Rightarrow> setup_phase) \<Rightarrow> (nat \<Rightarrow> int) \<Rightarrow> (nat \<Rightarrow> int) \<Rightarrow> bool" where
  "created_inv D db f st cl = (\<forall>p. created (f p) \<longrightarrow> sd_users db \<noteq> [] \<and> (\<forall>q. passed_count (f q) \<longrightarrow> st q \<le> cl p + D))"

definition admin_list :: "setup_db \<Rightarrow> setup_user list" where
  "admin_list db = filter has_admin_role (sd_users db)"

definition admin_inv :: "int \<Rightarrow> setup_db \<Rightarrow> (nat \<Rightarrow> setup_phase) \<Rightarrow> (nat \<Rightarrow> int) \<Rightarrow> bool" where
  "admin_inv D db f st = (admin_list db \<noteq> [] \<longrightarrow>
     (\<forall>p. \<not> owns_claim (f p)) \<and> (\<exists>t. sd_claimedAt db = Some t \<and> (\<forall>q. passed_count (f q) \<longrightarrow> st q \<le> t + D)))"

definition email_inv :: "setup_db \<Rightarrow> bool" where
  "email_inv db = (distinct (map setup_email (sd_users db)) \<and> length (admin_list db) \<le> 1)"

definition setup_inv :: "int \<Rightarrow> int \<Rightarrow> setup_db \<Rightarrow> (nat \<Rightarrow> setup_phase) \<Rightarrow> (nat \<Rightarrow> int) \<Rightarrow> (nat \<Rightarrow> int) \<Rightarrow> bool" where
  "setup_inv D now db f st cl =
     (claim_inv now db f st cl \<and> started_inv now f st \<and> created_inv D db f st cl \<and> admin_inv D db f st \<and> email_inv db)"

text \<open>The invariant only asks less of fewer attempts, and of more time.\<close>

lemma setup_inv_mono:
  assumes "setup_inv D now db f st cl" "now \<le> now'"
    and "\<And>q. passed_count (g q) \<Longrightarrow> passed_count (f q)" "\<And>q. owns_claim (g q) \<Longrightarrow> owns_claim (f q)"
    and "\<And>q. created (g q) \<Longrightarrow> created (f q)" "\<And>q. g q = Counting \<Longrightarrow> f q = Counting"
  shows "setup_inv D now' db g st cl"
proof -
  have "claim_inv now' db g st cl"
    using assms(1,2,4) unfolding setup_inv_def claim_inv_def by (meson order_trans)
  moreover have "started_inv now' g st"
    using assms(1-3,6) unfolding setup_inv_def started_inv_def by (meson order_trans)
  moreover have "created_inv D db g st cl"
    using assms(1,3,5) unfolding setup_inv_def created_inv_def by blast
  moreover have "admin_inv D db g st"
    using assms(1,3,4) unfolding setup_inv_def admin_inv_def by blast
  ultimately show ?thesis using assms(1) unfolding setup_inv_def by blast
qed

lemma inv_leave:
  assumes "setup_inv D now db f st cl" "\<not> passed_count ph" "\<not> owns_claim ph" "ph \<noteq> Counting"
  shows "setup_inv D now db (f(p := ph)) st cl"
  by (rule setup_inv_mono [OF assms(1)]) (use assms(2-4) in \<open>auto simp: owns_claim_def split: if_splits\<close>)

lemma inv_goes_on:
  assumes "setup_inv D now db f st cl" "owns_claim (f p)" "owns_claim ph" "created ph \<longrightarrow> created (f p)"
  shows "setup_inv D now db (f(p := ph)) st cl"
  by (rule setup_inv_mono [OF assms(1)]) (use assms(2-4) in \<open>auto simp: phase_kinds split: if_splits\<close>)

lemma inv_begins:
  assumes "setup_inv D now db f st cl" "f p = NotStarted"
  shows "setup_inv D now db (f(p := Counting)) (st(p := now)) cl"
proof -
  have k: "\<not> passed_count (f p)" "\<not> owns_claim (f p)" "\<not> created (f p)" "\<not> passed_count Counting" "\<not> owns_claim Counting" "\<not> created Counting"
    using assms(2) by (simp_all add: phase_kinds)
  have "claim_inv now db (f(p := Counting)) (st(p := now)) cl"
    using assms(1) k unfolding setup_inv_def claim_inv_def by auto
  moreover have "started_inv now (f(p := Counting)) (st(p := now))"
    using assms(1) k unfolding setup_inv_def started_inv_def by auto
  moreover have "created_inv D db (f(p := Counting)) (st(p := now)) cl"
    using assms(1) k unfolding setup_inv_def created_inv_def by auto
  moreover have "admin_inv D db (f(p := Counting)) (st(p := now))"
    using assms(1) k unfolding setup_inv_def admin_inv_def by auto
  ultimately show ?thesis using assms(1) unfolding setup_inv_def by blast
qed

lemma inv_counts:
  assumes "setup_inv D now db f st cl" "f p = Counting" "sd_users db = []"
  shows "setup_inv D now db (f(p := DroppingStale)) st cl"
proof -
  have k: "\<not> owns_claim DroppingStale" "\<not> created DroppingStale" by (simp_all add: phase_kinds)
  have "claim_inv now db (f(p := DroppingStale)) st cl"
    using assms(1) k unfolding setup_inv_def claim_inv_def by auto
  moreover have "started_inv now (f(p := DroppingStale)) st"
    using assms(1,2) unfolding setup_inv_def started_inv_def by auto
  moreover have "created_inv D db (f(p := DroppingStale)) st cl"
    using assms(1,3) k unfolding setup_inv_def created_inv_def by auto
  moreover have "admin_inv D db (f(p := DroppingStale)) st" using assms(3) by (simp add: admin_inv_def admin_list_def)
  ultimately show ?thesis using assms(1) unfolding setup_inv_def by blast
qed

text \<open>A stale claim has no holder under way, and there is no administrator whose claim it could be.\<close>

lemma inv_drops:
  assumes "setup_inv D now db f st cl" "passed_count (f p)" "2 * D \<le> INITIAL_ADMIN_CLAIM_STALE_AFTER_MS" "0 \<le> D"
    and "\<And>q. passed_count (f q) \<or> owns_claim (f q) \<Longrightarrow> now - st q \<le> D"
  shows "setup_inv D now (drop_stale_claim now db) f st cl"
proof (cases "drop_stale_claim now db = db")
  case False
  then obtain t where t: "sd_claimedAt db = Some t" "t < now - INITIAL_ADMIN_CLAIM_STALE_AFTER_MS"
    "drop_stale_claim now db = db\<lparr>sd_claimedAt := None\<rparr>"
    by (auto simp: drop_stale_claim_def split: option.splits if_splits)
  have o: "\<not> owns_claim (f q)" for q
  proof
    assume q: "owns_claim (f q)"
    then have "cl q = t" "st q \<le> cl q" using assms(1) t(1) unfolding setup_inv_def claim_inv_def by auto
    moreover have "now - st q \<le> D" using assms(5) q by blast
    ultimately show False using t(2) assms(3,4) by linarith
  qed
  have a: "admin_list db = []"
  proof (rule ccontr)
    assume "admin_list db \<noteq> []"
    then have "st p \<le> t + D" using assms(1,2) t(1) unfolding setup_inv_def admin_inv_def by auto
    moreover have "now - st p \<le> D" using assms(2,5) by blast
    ultimately show False using t(2) assms(3) by linarith
  qed
  have c: "\<not> created (f q)" for q using o by (auto simp: owns_claim_def)
  show ?thesis
    using assms(1) o a c t(3)
    by (simp add: setup_inv_def claim_inv_def created_inv_def admin_inv_def email_inv_def admin_list_def)
qed (use assms(1) in simp)

lemma inv_claims:
  assumes "setup_inv D now db f st cl" "passed_count (f p)" "sd_claimedAt db = None"
  shows "setup_inv D now (db\<lparr>sd_claimedAt := Some now\<rparr>) (f(p := CreatingUser)) st (cl(p := now))"
proof -
  have o: "\<not> owns_claim (f q)" for q using assms(1,3) unfolding setup_inv_def claim_inv_def by auto
  have c: "\<not> created (f q)" for q using o by (auto simp: owns_claim_def)
  have a: "admin_list db = []" using assms(1,3) unfolding setup_inv_def admin_inv_def by auto
  have k: "\<not> created CreatingUser" "\<not> passed_count CreatingUser" by (simp_all add: phase_kinds)
  have p: "st p \<le> now" using assms(1,2) unfolding setup_inv_def started_inv_def by blast
  have "claim_inv now (db\<lparr>sd_claimedAt := Some now\<rparr>) (f(p := CreatingUser)) st (cl(p := now))"
    using o p by (simp add: claim_inv_def)
  moreover have "started_inv now (f(p := CreatingUser)) st" using assms(1) k unfolding setup_inv_def started_inv_def by auto
  moreover have "created_inv D (db\<lparr>sd_claimedAt := Some now\<rparr>) (f(p := CreatingUser)) st (cl(p := now))"
    using c k by (simp add: created_inv_def)
  moreover have "admin_inv D (db\<lparr>sd_claimedAt := Some now\<rparr>) (f(p := CreatingUser)) st" using a by (simp add: admin_inv_def admin_list_def)
  ultimately show ?thesis using assms(1) by (simp add: setup_inv_def email_inv_def admin_list_def)
qed

text \<open>A new user is no administrator.\<close>

lemma admin_list_add [simp]: "admin_list (add_setup_user e db) = admin_list db"
  by (simp add: admin_list_def add_setup_user_def has_admin_role_def)

lemma inv_adds_user:
  assumes "setup_inv D now db f st cl" "\<not> has_email e db"
  shows "setup_inv D now (add_setup_user e db) f st cl"
proof -
  have u: "sd_users (add_setup_user e db) \<noteq> []" "sd_claimedAt (add_setup_user e db) = sd_claimedAt db"
    by (simp_all add: add_setup_user_def)
  have "email_inv (add_setup_user e db)"
    using assms by (auto simp: setup_inv_def email_inv_def add_setup_user_def has_email_def list_ex_iff admin_list_def has_admin_role_def)
  then show ?thesis using assms(1) u by (simp add: setup_inv_def claim_inv_def created_inv_def admin_inv_def)
qed

lemma inv_creates:
  assumes "setup_inv D now db f st cl" "f p = CreatingUser" "\<not> has_email e db" "now - st p \<le> D"
  shows "setup_inv D now (add_setup_user e db) (f(p := LinkingAccount)) st cl"
proof -
  have i: "setup_inv D now (add_setup_user e db) f st cl" by (rule inv_adds_user [OF assms(1,3)])
  have p: "owns_claim (f p)" "owns_claim LinkingAccount" "\<not> passed_count LinkingAccount" using assms(2) by (simp_all add: phase_kinds)
  then have "claim_inv now (add_setup_user e db) (f(p := LinkingAccount)) st cl"
    using i unfolding setup_inv_def claim_inv_def by auto
  moreover have "started_inv now (f(p := LinkingAccount)) st" using i p unfolding setup_inv_def started_inv_def by auto
  moreover have "admin_inv D (add_setup_user e db) (f(p := LinkingAccount)) st"
    using i p unfolding setup_inv_def admin_inv_def by (metis fun_upd_apply)
  moreover have "created_inv D (add_setup_user e db) (f(p := LinkingAccount)) st cl"
  proof -
    have own: "st p \<le> cl p" "\<And>q. owns_claim (f q) \<Longrightarrow> q = p" using i p(1) unfolding setup_inv_def claim_inv_def by blast+
    have "st q \<le> cl p + D" if "passed_count (f q)" for q
    proof -
      have "st q \<le> now" using i that unfolding setup_inv_def started_inv_def by blast
      then show ?thesis using own(1) assms(4) by linarith
    qed
    moreover have "created (f q) \<Longrightarrow> q = p" for q using own(2) by (auto simp: owns_claim_def)
    ultimately show ?thesis using p(3) by (auto simp: created_inv_def add_setup_user_def)
  qed
  ultimately show ?thesis using i unfolding setup_inv_def by blast
qed

lemma promote_admins:
  "distinct (map setup_email us) \<Longrightarrow> filter has_admin_role us = [] \<Longrightarrow>
   length (filter has_admin_role (map (\<lambda>u. if setup_email u = e then u\<lparr>setup_roles := [''admin'']\<rparr> else u) us)) \<le> 1"
proof (induction us)
  case (Cons u us)
  show ?case
  proof (cases "setup_email u = e")
    case True
    have "\<forall>x \<in> set us. setup_email x \<noteq> e" using True Cons.prems(1) by (metis distinct.simps(2) image_eqI list.set_map list.simps(9))
    then have "map (\<lambda>u. if setup_email u = e then u\<lparr>setup_roles := [''admin'']\<rparr> else u) us = us" by (intro map_idI) auto
    then show ?thesis using True Cons.prems(2) by (simp add: has_admin_role_def split: if_splits)
  next
    case False
    then show ?thesis using Cons by (simp split: if_splits)
  qed
qed simp

lemma inv_promotes:
  assumes "setup_inv D now db f st cl" "f p = Promoting"
  shows "setup_inv D now (promote_user e db) (f(p := SyncingPassword)) st cl"
proof -
  have p: "owns_claim (f p)" "created (f p)" "\<not> passed_count SyncingPassword" "\<not> owns_claim SyncingPassword" "\<not> created SyncingPassword"
    using assms(2) by (simp_all add: phase_kinds)
  have own: "sd_claimedAt db = Some (cl p)" "\<And>q. owns_claim (f q) \<Longrightarrow> q = p" "\<And>q. passed_count (f q) \<Longrightarrow> st q \<le> cl p + D"
    using assms(1) p(1,2) unfolding setup_inv_def claim_inv_def created_inv_def by blast+
  have no: "\<not> owns_claim ((f(p := SyncingPassword)) q)" for q using own(2) p(4) by auto
  then have nc: "\<not> created ((f(p := SyncingPassword)) q)" for q by (auto simp: owns_claim_def)
  have "admin_list db = []" using assms(1) p(1) unfolding setup_inv_def admin_inv_def by blast
  moreover have "distinct (map setup_email (sd_users db))" using assms(1) by (simp add: setup_inv_def email_inv_def)
  ultimately have "length (admin_list (promote_user e db)) \<le> 1"
    using promote_admins [of "sd_users db" e] by (simp add: admin_list_def promote_user_def)
  moreover have "map setup_email (sd_users (promote_user e db)) = map setup_email (sd_users db)" by (simp add: promote_user_def)
  ultimately have "email_inv (promote_user e db)" using assms(1) by (simp add: setup_inv_def email_inv_def)
  moreover have "claim_inv now (promote_user e db) (f(p := SyncingPassword)) st cl" using no unfolding claim_inv_def by blast
  moreover have "started_inv now (f(p := SyncingPassword)) st" using assms(1) p(3) unfolding setup_inv_def started_inv_def by auto
  moreover have "created_inv D (promote_user e db) (f(p := SyncingPassword)) st cl" using nc unfolding created_inv_def by blast
  moreover have "admin_inv D (promote_user e db) (f(p := SyncingPassword)) st"
    using no own(1,3) p(3) unfolding admin_inv_def by (auto simp: promote_user_def)
  ultimately show ?thesis unfolding setup_inv_def by blast
qed

lemma inv_releases:
  assumes "setup_inv D now db f st cl" "f p = ReleasingClaim"
  shows "setup_inv D now (releaseInitialAdminSetupClaim db) (f(p := SetupRefused e)) st cl"
proof -
  have p: "owns_claim (f p)" "\<not> passed_count (SetupRefused e)" "\<not> owns_claim (SetupRefused e)" "\<not> created (SetupRefused e)"
    using assms(2) by (simp_all add: phase_kinds)
  have "q = p" if "owns_claim (f q)" for q using assms(1) p(1) that unfolding setup_inv_def claim_inv_def by blast
  then have no: "\<not> owns_claim ((f(p := SetupRefused e)) q)" for q using p(3) by auto
  then have nc: "\<not> created ((f(p := SetupRefused e)) q)" for q by (auto simp: owns_claim_def)
  have a: "admin_list db = []" using assms(1) p(1) unfolding setup_inv_def admin_inv_def by blast
  have "started_inv now (f(p := SetupRefused e)) st" using assms(1) p(2) unfolding setup_inv_def started_inv_def by auto
  then show ?thesis
    using assms(1) no nc a
    by (simp add: setup_inv_def claim_inv_def created_inv_def admin_inv_def email_inv_def admin_list_def releaseInitialAdminSetupClaim_def del: fun_upd_apply)
qed

text \<open>The invariant of a state, and one step of an attempt.\<close>

abbreviation inv_of :: "int \<Rightarrow> setup_state \<Rightarrow> bool" where
  "inv_of D s \<equiv> setup_inv D (ss_now s) (ss_db s) (ss_phase s) (ss_started s) (ss_claimed s)"

lemma inv_acts:
  assumes a: "createInitialAdmin enabled ok e now (f p) db = (ph, db')"
    and i: "setup_inv D now db f st cl" and D: "2 * D \<le> INITIAL_ADMIN_CLAIM_STALE_AFTER_MS" "0 \<le> D"
    and t: "\<And>q. passed_count (f q) \<or> owns_claim (f q) \<Longrightarrow> now - st q \<le> D"
  shows "setup_inv D now db' (f(p := ph)) st (if f p = Claiming then cl(p := now) else cl)"
proof (cases "f p")
  case Counting
  then consider "ph = DroppingStale" "db' = db" "sd_users db = []" | r where "ph = SetupRefused r" "db' = db"
    using a by (auto split: if_splits)
  then show ?thesis using inv_counts [OF i Counting] inv_leave [OF i] Counting by cases (simp_all add: phase_kinds)
next
  case DroppingStale
  then have k: "passed_count (f p)" by (simp add: passed_count_def)
  from DroppingStale a consider "ph = Claiming" "db' = drop_stale_claim now db" | r where "ph = SetupRefused r" "db' = db"
    by (auto split: if_splits)
  then show ?thesis
  proof cases
    case 1
    have "setup_inv D now (drop_stale_claim now db) f st cl" by (rule inv_drops [OF i k D t])
    then have "setup_inv D now (drop_stale_claim now db) (f(p := Claiming)) st cl"
      by (rule setup_inv_mono) (use k in \<open>auto simp: phase_kinds split: if_splits\<close>)
    then show ?thesis using 1 DroppingStale by simp
  qed (use inv_leave [OF i] DroppingStale in \<open>simp add: phase_kinds\<close>)
next
  case Claiming
  then have k: "passed_count (f p)" by (simp add: passed_count_def)
  from Claiming a consider "ph = CreatingUser" "db' = db\<lparr>sd_claimedAt := Some now\<rparr>" "sd_claimedAt db = None" | r where "ph = SetupRefused r" "db' = db"
    by (auto simp: claim_upsert_def Let_def split: if_splits option.splits)
  then show ?thesis
  proof cases
    case 1
    then show ?thesis using inv_claims [OF i k] Claiming by simp
  next
    case 2
    have "\<not> owns_claim (f p)" using Claiming by (simp add: phase_kinds)
    then have "setup_inv D now db f st (cl(p := now))"
      using i by (auto simp: setup_inv_def claim_inv_def created_inv_def owns_claim_def)
    then show ?thesis using inv_leave 2 Claiming by (simp add: phase_kinds)
  qed
next
  case CreatingUser
  then have k: "owns_claim (f p)" by (simp add: owns_claim_def)
  from CreatingUser a consider "ph = ReleasingClaim" "db' = db" | "ph = LinkingAccount" "db' = add_setup_user e db" "\<not> has_email e db"
    by (auto split: if_splits)
  then show ?thesis
  proof cases
    case 1
    then show ?thesis using inv_goes_on [OF i k] CreatingUser by (simp add: phase_kinds)
  next
    case 2
    then show ?thesis using inv_creates [OF i CreatingUser] t [of p] k CreatingUser by simp
  qed
next
  case LinkingAccount
  then have k: "owns_claim (f p)" by (simp add: phase_kinds)
  then show ?thesis using inv_goes_on [OF i k] LinkingAccount a by (auto simp: phase_kinds split: if_splits)
next
  case SyncingUser
  then have k: "owns_claim (f p)" by (simp add: phase_kinds)
  from SyncingUser a consider "ph = ReleasingClaim" "db' = db" | "ph = Promoting" "db' = db"
    | "ph = Promoting" "db' = add_setup_user e db" "\<not> has_email e db" by (auto split: if_splits)
  then show ?thesis
  proof cases
    case 3
    have "owns_claim Promoting" "created Promoting \<longrightarrow> created (f p)" using SyncingUser by (simp_all add: phase_kinds)
    then show ?thesis using inv_goes_on [OF inv_adds_user [OF i 3(3)] k] 3 SyncingUser by simp
  qed (use inv_goes_on [OF i k] SyncingUser in \<open>simp_all add: phase_kinds\<close>)
next
  case Promoting
  then have k: "owns_claim (f p)" by (simp add: phase_kinds)
  from Promoting a consider "ph = ReleasingClaim" "db' = db" | "ph = SyncingPassword" "db' = promote_user e db" by (auto split: if_splits)
  then show ?thesis using inv_promotes [OF i Promoting] inv_goes_on [OF i k] Promoting by cases (simp_all add: phase_kinds)
next
  case SyncingPassword
  then show ?thesis using inv_leave [OF i] a by (simp add: phase_kinds)
next
  case ReleasingClaim
  then show ?thesis using inv_releases [OF i ReleasingClaim] inv_leave [OF i] a by (auto simp: phase_kinds split: if_splits)
next
  case NotStarted
  then show ?thesis using i a by (auto simp: fun_upd_idem)
next
  case SetupSucceeded
  then show ?thesis using i a by (auto simp: fun_upd_idem)
next
  case (SetupRefused r)
  then show ?thesis using i a by (auto simp: fun_upd_idem)
next
  case SetupDied
  then show ?thesis using i a by (auto simp: fun_upd_idem)
qed

lemma inv_step:
  assumes "setup_step email s s'" "inv_of D s" "setup_timely D s" "2 * D \<le> INITIAL_ADMIN_CLAIM_STALE_AFTER_MS" "0 \<le> D"
  shows "inv_of D s'"
  using assms(1)
proof (cases rule: setup_step.cases)
  case (setup_begins p)
  then show ?thesis using inv_begins [OF assms(2)] by simp
next
  case (setup_acts enabled ok p ph db)
  have "\<And>q. passed_count (ss_phase s q) \<or> owns_claim (ss_phase s q) \<Longrightarrow> ss_now s - ss_started s q \<le> D"
    using assms(3) unfolding setup_timely_def by blast
  then show ?thesis using inv_acts [OF setup_acts(2) assms(2,4,5)] setup_acts(1) by simp
next
  case (setup_dies p)
  then show ?thesis using inv_leave [OF assms(2)] by (simp add: phase_kinds)
next
  case (signs_up e)
  then show ?thesis using inv_adds_user [OF assms(2)] by simp
next
  case (setup_ticks d)
  then show ?thesis using setup_inv_mono [OF assms(2), of "ss_now s + d"] by simp
qed

lemma timely_setup_inv:
  assumes "timely_setup email D s" "2 * D \<le> INITIAL_ADMIN_CLAIM_STALE_AFTER_MS" "0 \<le> D"
  shows "inv_of D s \<and> setup_timely D s"
  using assms(1)
proof (induction rule: timely_setup.induct)
  case (setup_init s)
  then show ?case
    by (simp add: setup_inv_def claim_inv_def started_inv_def created_inv_def admin_inv_def email_inv_def admin_list_def setup_timely_def phase_kinds)
next
  case (setup_next s s')
  then show ?case using inv_step [OF setup_next(2) _ _ assms(2,3)] by blast
qed

text \<open>
  C10. A fresh deployment gets one administrator: however booting replicas and anonymous callers interleave, whichever
  call fails, whoever dies, signs up or is taken over, and however many claims went stale, as long as no attempt
  takes longer than half the staleness limit (150 seconds), the set-up never makes a second administrator; and while an
  attempt is creating its user, nobody else is and nobody is administrator yet.
\<close>

theorem setup_makes_one_admin:
  assumes "timely_setup email D s" "2 * D \<le> INITIAL_ADMIN_CLAIM_STALE_AFTER_MS" "0 \<le> D"
  shows "length (admins s) \<le> 1
    \<and> (\<forall>p q. owns_claim (ss_phase s p) \<and> owns_claim (ss_phase s q) \<longrightarrow> p = q \<and> admins s = [])"
proof -
  have i: "inv_of D s" using timely_setup_inv [OF assms] by blast
  have a: "admins s = admin_list (ss_db s)" by (simp add: admins_def admin_list_def)
  have "length (admins s) \<le> 1" using i unfolding a setup_inv_def email_inv_def by blast
  moreover have "p = q \<and> admins s = []" if "owns_claim (ss_phase s p)" "owns_claim (ss_phase s q)" for p q
    using i that unfolding a setup_inv_def claim_inv_def admin_inv_def by blast
  ultimately show ?thesis by blast
qed

text \<open>One attempt by itself, at time zero.\<close>

definition solo :: "setup_phase \<Rightarrow> setup_db \<Rightarrow> setup_state" where
  "solo ph db = \<lparr>ss_now = 0, ss_db = db, ss_phase = (\<lambda>_. NotStarted)(0 := ph), ss_started = (\<lambda>_. 0), ss_claimed = (\<lambda>_. 0)\<rparr>"

definition empty_db :: setup_db where
  "empty_db = \<lparr>sd_users = [], sd_claimedAt = None\<rparr>"

lemma solo_begins: "timely_setup email 0 (solo Counting empty_db)"
proof -
  have "timely_setup email 0 (solo NotStarted empty_db)" by (rule setup_init) (simp_all add: solo_def empty_db_def)
  moreover have "setup_step email (solo NotStarted empty_db) (solo Counting empty_db)"
    using setup_begins [of "solo NotStarted empty_db" 0 email] by (simp add: solo_def fun_upd_idem)
  ultimately show ?thesis by (rule setup_next) (simp add: setup_timely_def solo_def)
qed

lemma solo_step:
  assumes "timely_setup email 0 (solo ph db)" "createInitialAdmin True True (email 0) 0 ph db = (ph', db')"
  shows "timely_setup email 0 (solo ph' db')"
proof -
  have s: "ss_now (solo ph db) = 0" "ss_phase (solo ph db) 0 = ph" "ss_db (solo ph db) = db" "ss_claimed (solo ph db) = (\<lambda>_. 0)"
    by (simp_all add: solo_def)
  have z: "(\<lambda>_. 0::int)(0::nat := 0) = (\<lambda>_. 0)" by (rule ext) simp
  have "createInitialAdmin True True (email 0) (ss_now (solo ph db)) (ss_phase (solo ph db) 0) (ss_db (solo ph db)) = (ph', db')"
    using assms(2) by (simp only: s)
  from setup_acts [where s = "solo ph db" and p = 0 and email = email, OF this]
  have "setup_step email (solo ph db) ((solo ph db)\<lparr>ss_phase := (ss_phase (solo ph db))(0 := ph'), ss_db := db', ss_claimed := (\<lambda>_. 0)\<rparr>)"
    unfolding s z if_cancel .
  also have "(solo ph db)\<lparr>ss_phase := (ss_phase (solo ph db))(0 := ph'), ss_db := db', ss_claimed := (\<lambda>_. 0)\<rparr> = solo ph' db'"
    by (simp add: solo_def)
  finally have "setup_step email (solo ph db) (solo ph' db')" .
  then show ?thesis by (rule setup_next [OF assms(1)]) (simp add: setup_timely_def solo_def)
qed

definition one_admin_db :: setup_db where
  "one_admin_db = \<lparr>sd_users = [\<lparr>setup_email = ''a@b.c'', setup_roles = [''admin'']\<rparr>], sd_claimedAt = Some 0\<rparr>"

theorem setup_makes_one_admin_witness:
  "length (admins (solo SyncingPassword one_admin_db)) \<le> 1 \<and> admins (solo SyncingPassword one_admin_db) \<noteq> []"
proof -
  let ?e = "\<lambda>p::nat. ''a@b.c''"
  let ?d0 = "\<lparr>sd_users = [], sd_claimedAt = Some 0\<rparr>"
  let ?d1 = "\<lparr>sd_users = [\<lparr>setup_email = ''a@b.c'', setup_roles = []\<rparr>], sd_claimedAt = Some 0\<rparr>"
  note ops = empty_db_def drop_stale_claim_def claim_upsert_def has_email_def add_setup_user_def promote_user_def one_admin_db_def
  have "timely_setup ?e 0 (solo DroppingStale empty_db)" by (rule solo_step [OF solo_begins]) (simp add: ops)
  then have "timely_setup ?e 0 (solo Claiming empty_db)" by (rule solo_step) (simp add: ops)
  then have "timely_setup ?e 0 (solo CreatingUser ?d0)" by (rule solo_step) (simp add: ops)
  then have "timely_setup ?e 0 (solo LinkingAccount ?d1)" by (rule solo_step) (simp add: ops)
  then have "timely_setup ?e 0 (solo SyncingUser ?d1)" by (rule solo_step) simp
  then have "timely_setup ?e 0 (solo Promoting ?d1)" by (rule solo_step) (simp add: ops)
  then have "timely_setup ?e 0 (solo SyncingPassword one_admin_db)" by (rule solo_step) (simp add: ops)
  from setup_makes_one_admin [OF this] show ?thesis
    by (simp add: INITIAL_ADMIN_CLAIM_STALE_AFTER_MS_def admins_def solo_def one_admin_db_def has_admin_role_def)
qed

subsection \<open>Abandoned claims\<close>

definition attempt_steps :: "nat \<Rightarrow> string \<Rightarrow> int \<Rightarrow> setup_phase \<times> setup_db \<Rightarrow> setup_phase \<times> setup_db" where
  "attempt_steps n email now = ((\<lambda>(ph, db). createInitialAdmin True True email now ph db) ^^ n)"

text \<open>
  A claimer that died does not lock the deployment out, and a live one is obeyed: an attempt that finds no users creates its
  administrator, and nothing else, when there is no claim or the claim is older than five minutes, and
  is refused without any change when the claim is younger.
\<close>

theorem abandoned_claim_is_taken_over:
  assumes "sd_users db = []"
  shows "case sd_claimedAt db of
      Some t \<Rightarrow> (if t < now - INITIAL_ADMIN_CLAIM_STALE_AFTER_MS
        then attempt_steps 9 email now (Counting, db)
          = (SetupSucceeded, \<lparr>sd_users = [\<lparr>setup_email = email, setup_roles = [''admin'']\<rparr>], sd_claimedAt = Some now\<rparr>)
        else attempt_steps 9 email now (Counting, db) = (SetupRefused SYSTEM_SETUP_NOT_AVAILABLE, db))
    | None \<Rightarrow> attempt_steps 9 email now (Counting, db)
        = (SetupSucceeded, \<lparr>sd_users = [\<lparr>setup_email = email, setup_roles = [''admin'']\<rparr>], sd_claimedAt = Some now\<rparr>)"
proof -
  obtain c where db: "db = \<lparr>sd_users = [], sd_claimedAt = c\<rparr>" using assms by (cases db) simp
  note ops = drop_stale_claim_def claim_upsert_def has_email_def add_setup_user_def promote_user_def
  show ?thesis
    by (cases c) (simp_all add: db attempt_steps_def eval_nat_numeral ops)
qed

theorem abandoned_claim_is_taken_over_witness:
  "attempt_steps 9 ''a@b.c'' 400000 (Counting, \<lparr>sd_users = [], sd_claimedAt = Some 1\<rparr>)
   = (SetupSucceeded, \<lparr>sd_users = [\<lparr>setup_email = ''a@b.c'', setup_roles = [''admin'']\<rparr>], sd_claimedAt = Some 400000\<rparr>)"
  using abandoned_claim_is_taken_over [where db = "\<lparr>sd_users = [], sd_claimedAt = Some 1\<rparr>" and now = 400000 and email = "''a@b.c''"]
  by (simp add: INITIAL_ADMIN_CLAIM_STALE_AFTER_MS_def)

subsection \<open>What goes wrong\<close>

text \<open>Reachability without the recorded times.\<close>

definition setup_reach :: "(nat \<Rightarrow> string) \<Rightarrow> int \<Rightarrow> setup_db \<Rightarrow> (nat \<Rightarrow> setup_phase) \<Rightarrow> bool" where
  "setup_reach email now db f = (\<exists>st cl. setup_run email (solo NotStarted empty_db)
     \<lparr>ss_now = now, ss_db = db, ss_phase = f, ss_started = st, ss_claimed = cl\<rparr>)"

lemma reach_start: "setup_reach email 0 empty_db (\<lambda>_. NotStarted)"
proof -
  have "solo NotStarted empty_db = \<lparr>ss_now = 0, ss_db = empty_db, ss_phase = \<lambda>_. NotStarted, ss_started = \<lambda>_. 0, ss_claimed = \<lambda>_. 0\<rparr>"
    by (simp add: solo_def fun_upd_idem)
  then show ?thesis unfolding setup_reach_def using run_refl [of email "solo NotStarted empty_db"] by metis
qed

lemma reach_begins: "setup_reach email now db f \<Longrightarrow> f p = NotStarted \<Longrightarrow> setup_reach email now db (f(p := Counting))"
  unfolding setup_reach_def by (fastforce dest: run_step [OF _ setup_begins [where p = p]])

lemma reach_acts:
  assumes "setup_reach email now db f" "createInitialAdmin True ok (email p) now (f p) db = (ph, db')"
  shows "setup_reach email now db' (f(p := ph))"
proof -
  obtain st cl where r: "setup_run email (solo NotStarted empty_db)
      \<lparr>ss_now = now, ss_db = db, ss_phase = f, ss_started = st, ss_claimed = cl\<rparr>" (is "setup_run _ _ ?s")
    using assms(1) unfolding setup_reach_def by blast
  have "setup_step email ?s (?s\<lparr>ss_phase := f(p := ph), ss_db := db', ss_claimed := (if f p = Claiming then cl(p := now) else cl)\<rparr>)"
    using setup_acts [of True ok email p ?s ph db'] assms(2) by (simp cong: if_cong)
  then have "setup_run email (solo NotStarted empty_db)
      (?s\<lparr>ss_phase := f(p := ph), ss_db := db', ss_claimed := (if f p = Claiming then cl(p := now) else cl)\<rparr>)" by (rule run_step [OF r])
  then show ?thesis unfolding setup_reach_def by auto
qed

lemma reach_ticks: "setup_reach email now db f \<Longrightarrow> 0 \<le> d \<Longrightarrow> setup_reach email (now + d) db f"
  unfolding setup_reach_def by (fastforce dest: run_step [OF _ setup_ticks [where d = d]])

text \<open>No attempt is under way, users exist, none is administrator: this never changes.\<close>

definition locked_out :: "setup_state \<Rightarrow> bool" where
  "locked_out s = (sd_users (ss_db s) \<noteq> [] \<and> admins s = []
     \<and> (\<forall>p. \<not> passed_count (ss_phase s p) \<and> \<not> owns_claim (ss_phase s p)))"

lemma locked_out_step: "setup_step email s s' \<Longrightarrow> locked_out s \<Longrightarrow> locked_out s'"
proof (induction rule: setup_step.induct)
  case (setup_acts enabled ok p s ph db)
  have "\<not> passed_count (ss_phase s p)" "\<not> owns_claim (ss_phase s p)" "sd_users (ss_db s) \<noteq> []"
    using setup_acts(2) by (simp_all add: locked_out_def)
  then have "db = ss_db s \<and> \<not> passed_count ph \<and> \<not> owns_claim ph"
    using setup_acts(1) by (cases "ss_phase s p") (auto simp: phase_kinds split: if_splits)
  then show ?case using setup_acts(2) by (simp add: locked_out_def admins_def)
qed (auto simp: locked_out_def admins_def phase_kinds add_setup_user_def has_admin_role_def split: if_splits)

text \<open>
  A set-up that fails halfway cannot be repeated: when Better-Auth has inserted the user and the next call fails, the claim is
  released but the user stays, without a role. From then on every attempt is refused because a user exists: whatever
  happens, the set-up creates no administrator any more.
\<close>

theorem half_created_user_locks_setup:
  "\<exists>s. setup_run email (solo NotStarted empty_db) s \<and> sd_claimedAt (ss_db s) = None
     \<and> sd_users (ss_db s) = [\<lparr>setup_email = email 0, setup_roles = []\<rparr>]
     \<and> (\<nexists>s'. setup_run email s s' \<and> admins s' \<noteq> [])"
proof -
  let ?d = "\<lparr>sd_users = [\<lparr>setup_email = email 0, setup_roles = []\<rparr>], sd_claimedAt = Some 0\<rparr>"
  note ops = empty_db_def drop_stale_claim_def claim_upsert_def has_email_def add_setup_user_def releaseInitialAdminSetupClaim_def
  have "setup_reach email 0 empty_db ((\<lambda>_. NotStarted)(0 := Counting))" using reach_begins [OF reach_start, where p = 0] by simp
  from reach_acts [OF this, where ok = True and p = 0] have "setup_reach email 0 empty_db ((\<lambda>_. NotStarted)(0 := DroppingStale))" by (simp add: ops)
  from reach_acts [OF this, where ok = True and p = 0] have "setup_reach email 0 empty_db ((\<lambda>_. NotStarted)(0 := Claiming))" by (simp add: ops)
  from reach_acts [OF this, where ok = True and p = 0] have "setup_reach email 0 (empty_db\<lparr>sd_claimedAt := Some 0\<rparr>) ((\<lambda>_. NotStarted)(0 := CreatingUser))"
    by (simp add: ops)
  from reach_acts [OF this, where ok = True and p = 0] have "setup_reach email 0 ?d ((\<lambda>_. NotStarted)(0 := LinkingAccount))" by (simp add: ops)
  from reach_acts [OF this, where ok = False and p = 0] have "setup_reach email 0 ?d ((\<lambda>_. NotStarted)(0 := ReleasingClaim))" by simp
  from reach_acts [OF this, where ok = True and p = 0]
  have "setup_reach email 0 (?d\<lparr>sd_claimedAt := None\<rparr>) ((\<lambda>_. NotStarted)(0 := SetupRefused SYSTEM_SETUP_NOT_AVAILABLE))"
    by (simp add: ops)
  then obtain st cl where r: "setup_run email (solo NotStarted empty_db) \<lparr>ss_now = 0, ss_db = ?d\<lparr>sd_claimedAt := None\<rparr>,
      ss_phase = (\<lambda>_. NotStarted)(0 := SetupRefused SYSTEM_SETUP_NOT_AVAILABLE), ss_started = st, ss_claimed = cl\<rparr>" (is "setup_run _ _ ?s")
    unfolding setup_reach_def by blast
  have l: "locked_out ?s" by (simp add: locked_out_def admins_def has_admin_role_def phase_kinds)
  have "admins s' = []" if "setup_run email ?s s'" for s'
  proof -
    have "locked_out s'"
      using that
    proof (induction rule: setup_run.induct)
      case (run_step s s')
      then show ?case using locked_out_step by blast
    qed (rule l)
    then show ?thesis by (simp add: locked_out_def)
  qed
  then have "\<nexists>s'. setup_run email ?s s' \<and> admins s' \<noteq> []" by blast
  then show ?thesis using r by (intro exI [of _ ?s]) simp
qed

text \<open>From behind the count to the new administrator, undisturbed.\<close>

lemma reach_creates:
  assumes r: "setup_reach email now db f" and p: "f p = DroppingStale" and c: "sd_claimedAt (drop_stale_claim now db) = None"
    and e: "\<not> has_email (email p) db"
  shows "setup_reach email now (promote_user (email p) (add_setup_user (email p) ((drop_stale_claim now db)\<lparr>sd_claimedAt := Some now\<rparr>)))
    (f(p := SyncingPassword))"
proof -
  let ?d0 = "drop_stale_claim now db"
  let ?d1 = "?d0\<lparr>sd_claimedAt := Some now\<rparr>"
  let ?d2 = "add_setup_user (email p) ?d1"
  have u: "sd_users ?d0 = sd_users db" by (simp add: drop_stale_claim_def split: option.split)
  have h: "\<not> has_email (email p) ?d1" "has_email (email p) ?d2" using e u by (simp_all add: has_email_def add_setup_user_def)
  have "setup_reach email now ?d0 (f(p := Claiming))" using reach_acts [OF r, where ok = True and p = p] p by simp
  from reach_acts [OF this, where ok = True and p = p] have "setup_reach email now ?d1 (f(p := CreatingUser))"
    using c by (simp add: claim_upsert_def)
  from reach_acts [OF this, where ok = True and p = p] have "setup_reach email now ?d2 (f(p := LinkingAccount))" using h by simp
  from reach_acts [OF this, where ok = True and p = p] have "setup_reach email now ?d2 (f(p := SyncingUser))" by simp
  from reach_acts [OF this, where ok = True and p = p] have "setup_reach email now ?d2 (f(p := Promoting))" using h by simp
  from reach_acts [OF this, where ok = True and p = p] show ?thesis by simp
qed

text \<open>
  The count is not repeated behind the claim: an attempt that passed_count no users and then paused for more than five minutes finds
  the claim of the finished set-up stale, takes it over and makes a second administrator.
\<close>

theorem slow_attempt_makes_second_admin:
  "\<exists>s. setup_run (\<lambda>p. if p = 0 then ''b'' else ''a'') (solo NotStarted empty_db) s \<and> length (admins s) = 2"
proof -
  let ?e = "\<lambda>p::nat. if p = 0 then ''b'' else ''a''"
  let ?d1 = "\<lparr>sd_users = [\<lparr>setup_email = ''a'', setup_roles = [''admin'']\<rparr>], sd_claimedAt = Some 0\<rparr>"
  let ?f = "((\<lambda>_. NotStarted)(0 := DroppingStale, 1 := SyncingPassword))"
  have "setup_reach ?e 0 empty_db ((\<lambda>_. NotStarted)(0 := Counting))" by (rule reach_begins [OF reach_start]) simp
  from reach_acts [OF this, where ok = True and p = 0] have "setup_reach ?e 0 empty_db ((\<lambda>_. NotStarted)(0 := DroppingStale))"
    by (simp add: empty_db_def)
  from reach_begins [OF this, where p = 1] have "setup_reach ?e 0 empty_db ((\<lambda>_. NotStarted)(0 := DroppingStale, 1 := Counting))" by simp
  from reach_acts [OF this, where ok = True and p = 1]
  have "setup_reach ?e 0 empty_db ((\<lambda>_. NotStarted)(0 := DroppingStale, 1 := DroppingStale))" by (simp add: empty_db_def)
  from reach_creates [OF this, where p = 1] have "setup_reach ?e 0 ?d1 ?f"
    by (simp add: empty_db_def drop_stale_claim_def has_email_def add_setup_user_def promote_user_def)
  from reach_ticks [OF this, of 300001] have "setup_reach ?e 300001 ?d1 ?f" by simp
  from reach_creates [OF this, where p = 0]
  obtain g where "setup_reach ?e 300001 \<lparr>sd_users = [\<lparr>setup_email = ''a'', setup_roles = [''admin'']\<rparr>, \<lparr>setup_email = ''b'', setup_roles = [''admin'']\<rparr>],
      sd_claimedAt = Some 300001\<rparr> g"
    by (simp add: drop_stale_claim_def has_email_def add_setup_user_def promote_user_def INITIAL_ADMIN_CLAIM_STALE_AFTER_MS_def)
  then obtain st cl where r: "setup_run ?e (solo NotStarted empty_db) \<lparr>ss_now = 300001,
      ss_db = \<lparr>sd_users = [\<lparr>setup_email = ''a'', setup_roles = [''admin'']\<rparr>, \<lparr>setup_email = ''b'', setup_roles = [''admin'']\<rparr>], sd_claimedAt = Some 300001\<rparr>,
      ss_phase = g, ss_started = st, ss_claimed = cl\<rparr>" (is "setup_run _ _ ?s")
    unfolding setup_reach_def by blast
  moreover have "length (admins ?s) = 2" by (simp add: admins_def has_admin_role_def)
  ultimately show ?thesis by blast
qed

end
