(* ===== verification/LegacyAuth.thy ===== *)
theory LegacyAuth
  imports Prelude
begin

text \<open>
  The legacy sign-in sessions, \<^verbatim>\<open>modules/auth/services/core-auth.service.ts\<close>: sign-in, token refresh, log-out and the check of
  a token's session, over the stored users.

  A session of a device is the token id stored for it; the access and the refresh token carry this id. Signing and
  decoding of tokens, \<^verbatim>\<open>randomUUID\<close>, bcrypt, SHA-256 and Better-Auth are parameters. So is the deep merge of lodash
  that \<open>CrudService.update\<close> writes through. A request works on its own copy of the user (\<open>user\<close>), which may
  be older than the stored one. Rights checks and output preparation of the update are left out.
\<close>

subsection \<open>Users, tokens and the environment\<close>

record token_data =
  td_deviceDescription :: "string option"
  td_deviceId :: string
  td_tokenId :: string

record temp_token =
  tt_createdAt :: int
  tt_deviceId :: string
  tt_tokenId :: string

type_synonym device_tokens = "string \<Rightarrow> token_data option"
type_synonym device_temps = "string \<Rightarrow> temp_token option"

record legacy_user =
  lu_id :: string
  lu_email :: string
  lu_password :: "string option"
  lu_iamId :: "string option"
  lu_refreshTokens :: "device_tokens option"
  lu_tempTokens :: "device_temps option"

record jwt_payload =
  jp_id :: string
  jp_deviceId :: string
  jp_deviceDescription :: "string option"
  jp_tokenId :: string

record auth_env =
  ae_decode :: "string \<Rightarrow> jwt_payload option"
  ae_sign :: "bool \<Rightarrow> jwt_payload \<Rightarrow> string"
  ae_uuid :: "nat \<Rightarrow> string"
  ae_mergeTokens :: "device_tokens \<Rightarrow> device_tokens \<Rightarrow> device_tokens"
  ae_mergeTemps :: "device_temps \<Rightarrow> device_temps \<Rightarrow> device_temps"
  ae_compare :: "string \<Rightarrow> string \<Rightarrow> bool"
  ae_sha256 :: "string \<Rightarrow> string"
  ae_iamEnabled :: bool
  ae_iamVerify :: "string \<Rightarrow> string \<Rightarrow> bool"
  ae_iamMigrate :: "string \<Rightarrow> string option"
  ae_preventUserEnumeration :: bool
  ae_renewal :: bool
  ae_sameTokenIdPeriod :: int

text \<open>The stored users and the number of UUIDs drawn so far.\<close>

record auth_state =
  at_users :: "legacy_user list"
  at_drawn :: nat

datatype legacy_error =
    Unauthorized string
  | InvalidTokenError
  | NotFoundError
  | JsTypeError

definition get_user :: "auth_state \<Rightarrow> string \<Rightarrow> legacy_error + legacy_user" where
  "get_user s i = (case find (\<lambda>u. lu_id u = i) (at_users s) of None \<Rightarrow> Inl NotFoundError | Some u \<Rightarrow> Inr u)"

definition getViaEmail :: "auth_state \<Rightarrow> string \<Rightarrow> legacy_error + legacy_user" where
  "getViaEmail s e = (case find (\<lambda>u. lu_email u = e) (at_users s) of None \<Rightarrow> Inl NotFoundError | Some u \<Rightarrow> Inr u)"

definition tokens_of :: "legacy_user \<Rightarrow> device_tokens" where
  "tokens_of u = (case lu_refreshTokens u of None \<Rightarrow> Map.empty | Some m \<Rightarrow> m)"

definition temps_of :: "legacy_user \<Rightarrow> device_temps" where
  "temps_of u = (case lu_tempTokens u of None \<Rightarrow> Map.empty | Some m \<Rightarrow> m)"

text \<open>
  \<open>userService.update\<close>: the stored document is merged with the input and written back; \<open>None\<close> for a property that the
  input does not have.
\<close>

definition update_user :: "auth_env \<Rightarrow> string \<Rightarrow> device_tokens option \<Rightarrow> device_temps option \<Rightarrow> auth_state \<Rightarrow> legacy_error + auth_state" where
  "update_user env i refreshTokens tempTokens s =
     (if list_ex (\<lambda>u. lu_id u = i) (at_users s)
      then Inr (s\<lparr>at_users := map (\<lambda>u. if lu_id u = i
        then u\<lparr>lu_refreshTokens := (case refreshTokens of None \<Rightarrow> lu_refreshTokens u | Some m \<Rightarrow> Some (ae_mergeTokens env (tokens_of u) m)),
               lu_tempTokens := (case tempTokens of None \<Rightarrow> lu_tempTokens u | Some m \<Rightarrow> Some (ae_mergeTemps env (temps_of u) m))\<rparr>
        else u) (at_users s)\<rparr>)
      else Inl NotFoundError)"

subsection \<open>Issuing tokens\<close>

record auth_tokens =
  tk_token :: string
  tk_refreshToken :: string

definition createTokens :: "auth_env \<Rightarrow> int \<Rightarrow> auth_state \<Rightarrow> string \<Rightarrow> string option \<Rightarrow> string option \<Rightarrow> legacy_error + auth_tokens \<times> auth_state" where
  "createTokens env now s userId deviceDescription deviceIdOption =
     (let (deviceId, n) = (if js_truthy deviceIdOption then (the deviceIdOption, at_drawn s) else (ae_uuid env (at_drawn s), Suc (at_drawn s)));
          newId = ae_uuid env n;
          s' = s\<lparr>at_drawn := Suc n\<rparr>;
          chosen = (if ae_sameTokenIdPeriod env \<noteq> 0
            then then_do (get_user s userId) (\<lambda>user. Inr (case temps_of user deviceId of
                Some t \<Rightarrow> if tt_tokenId t \<noteq> [] \<and> tt_createdAt t \<ge> now - ae_sameTokenIdPeriod env then tt_tokenId t else newId
              | None \<Rightarrow> newId))
            else Inr newId)
      in then_do chosen (\<lambda>tokenId.
           let payload = \<lparr>jp_id = userId, jp_deviceId = deviceId, jp_deviceDescription = deviceDescription, jp_tokenId = tokenId\<rparr>
           in Inr (\<lparr>tk_token = ae_sign env False payload, tk_refreshToken = ae_sign env True payload\<rparr>, s')))"

text \<open>
  The device of the presented refresh token, if one was presented. \<open>data\<close> is the description that the caller passes,
  \<open>None\<close> when it passes no data.
\<close>

definition presented_device :: "auth_env \<Rightarrow> legacy_user \<Rightarrow> string option \<Rightarrow> legacy_error + string option" where
  "presented_device env user currentRefreshToken =
     (if \<not> js_truthy currentRefreshToken then Inr None
      else (case ae_decode env (the currentRefreshToken) of
          None \<Rightarrow> Inl InvalidTokenError
        | Some p \<Rightarrow> if jp_deviceId p = [] \<or> tokens_of user (jp_deviceId p) = None then Inl InvalidTokenError
                    else Inr (Some (jp_deviceId p))))"

definition merged_description :: "string option option \<Rightarrow> token_data option \<Rightarrow> string option" where
  "merged_description data oldData = (case data of Some d \<Rightarrow> d
     | None \<Rightarrow> (case oldData of None \<Rightarrow> None | Some o' \<Rightarrow> td_deviceDescription o'))"

definition updateRefreshToken :: "auth_env \<Rightarrow> int \<Rightarrow> auth_state \<Rightarrow> legacy_user \<Rightarrow> string option \<Rightarrow> string \<Rightarrow> string option option
    \<Rightarrow> legacy_error + string \<times> legacy_user \<times> auth_state" where
  "updateRefreshToken env now s user currentRefreshToken newRefreshToken data =
     then_do (presented_device env user currentRefreshToken) (\<lambda>presented.
       if presented \<noteq> None \<and> \<not> ae_renewal env then Inr (the currentRefreshToken, user, s)
       else (case ae_decode env newRefreshToken of
           None \<Rightarrow> Inl InvalidTokenError
         | Some payload \<Rightarrow>
             (let deviceId = (case presented of Some d \<Rightarrow> d | None \<Rightarrow> jp_deviceId payload);
                  oldData = (case presented of Some d \<Rightarrow> tokens_of user d | None \<Rightarrow> None);
                  entry = \<lparr>td_deviceDescription = (if js_truthy (jp_deviceDescription payload) then jp_deviceDescription payload
                             else merged_description data oldData),
                           td_deviceId = deviceId, td_tokenId = jp_tokenId payload\<rparr>;
                  temp = \<lparr>tt_createdAt = now, tt_deviceId = deviceId, tt_tokenId = jp_tokenId payload\<rparr>;
                  refreshTokens = (tokens_of user)(deviceId \<mapsto> entry);
                  tempTokens = (temps_of user)(deviceId \<mapsto> temp)
              in then_do (update_user env (lu_id user) (Some refreshTokens) (Some tempTokens) s) (\<lambda>s'.
                   Inr (newRefreshToken, user\<lparr>lu_refreshTokens := Some refreshTokens, lu_tempTokens := Some tempTokens\<rparr>, s')))))"

definition getResult :: "auth_env \<Rightarrow> int \<Rightarrow> auth_state \<Rightarrow> legacy_user \<Rightarrow> string option \<Rightarrow> string option \<Rightarrow> string option
    \<Rightarrow> legacy_error + auth_tokens \<times> legacy_user \<times> auth_state" where
  "getResult env now s user currentRefreshToken deviceDescription deviceId =
     then_do (createTokens env now s (lu_id user) deviceDescription deviceId) (\<lambda>(tokens, s1).
     then_do (updateRefreshToken env now s1 user currentRefreshToken (tk_refreshToken tokens) (Some deviceDescription)) (\<lambda>(refreshToken, user', s2).
       Inr (tokens\<lparr>tk_refreshToken := refreshToken\<rparr>, user', s2)))"

text \<open>\<open>refreshTokens\<close>; \<open>now\<close> and \<open>now'\<close> are the times of the two rounds it makes.\<close>

definition refreshTokens :: "auth_env \<Rightarrow> int \<Rightarrow> int \<Rightarrow> auth_state \<Rightarrow> legacy_user \<Rightarrow> string
    \<Rightarrow> legacy_error + auth_tokens \<times> legacy_user \<times> auth_state" where
  "refreshTokens env now now' s user currentRefreshToken =
     (case ae_decode env currentRefreshToken of
        None \<Rightarrow> Inl JsTypeError
      | Some p \<Rightarrow>
          then_do (createTokens env now s (lu_id user) (jp_deviceDescription p) (Some (jp_deviceId p))) (\<lambda>(tokens, s1).
          then_do (updateRefreshToken env now s1 user (Some currentRefreshToken) (tk_refreshToken tokens) None) (\<lambda>(_, user', s2).
            getResult env now' s2 user' (Some currentRefreshToken) (jp_deviceDescription p) (Some (jp_deviceId p)))))"

subsection \<open>Signing in and out\<close>

definition credentials_error :: "auth_env \<Rightarrow> string \<Rightarrow> legacy_error" where
  "credentials_error env message = Unauthorized (if ae_preventUserEnumeration env then ''Invalid credentials'' else message)"

definition signIn :: "auth_env \<Rightarrow> int \<Rightarrow> auth_state \<Rightarrow> string \<Rightarrow> string \<Rightarrow> string option \<Rightarrow> string option
    \<Rightarrow> legacy_error + auth_tokens \<times> legacy_user \<times> auth_state" where
  "signIn env now s email password deviceDescription deviceId =
     (case getViaEmail s email of
        Inl _ \<Rightarrow> Inl (credentials_error env ''Unknown email'')
      | Inr user \<Rightarrow>
          if ae_iamEnabled env \<and> js_truthy (lu_iamId user) then
            (if \<not> ae_iamVerify env email password then Inl (credentials_error env ''Wrong password'')
             else getResult env now s user None deviceDescription deviceId)
          else if \<not> js_truthy (lu_password user) then Inl (credentials_error env ''No password set for this account'')
          else if \<not> (ae_compare env password (the (lu_password user)) \<or> ae_compare env (ae_sha256 env password) (the (lu_password user)))
            then Inl (credentials_error env ''Wrong password'')
          else getResult env now s
            (if ae_iamEnabled env \<and> js_truthy (ae_iamMigrate env email) then user\<lparr>lu_iamId := ae_iamMigrate env email\<rparr> else user)
            None deviceDescription deviceId)"

definition logout :: "auth_env \<Rightarrow> auth_state \<Rightarrow> legacy_user option \<Rightarrow> string option \<Rightarrow> bool \<Rightarrow> legacy_error + auth_state" where
  "logout env s currentUser token allDevices =
     (case currentUser of
        None \<Rightarrow> Inl InvalidTokenError
      | Some user \<Rightarrow>
          if \<not> js_truthy token then Inl InvalidTokenError
          else (let deviceId = map_option jp_deviceId (ae_decode env (the token))
                in if \<not> js_truthy deviceId then Inl InvalidTokenError
                   else (case lu_refreshTokens user of
                       None \<Rightarrow> Inl JsTypeError
                     | Some m \<Rightarrow>
                         if m (the deviceId) = None then Inl InvalidTokenError
                         else if allDevices then update_user env (lu_id user) (Some Map.empty) None s
                         else update_user env (lu_id user) (Some (m(the deviceId := None))) None s)))"

definition validateUser :: "auth_state \<Rightarrow> jwt_payload \<Rightarrow> legacy_error + legacy_user option" where
  "validateUser s payload = then_do (get_user s (jp_id payload)) (\<lambda>user.
     case tokens_of user (jp_deviceId payload) of
       None \<Rightarrow> Inr None
     | Some device \<Rightarrow> if jp_tokenId payload = [] \<or> td_tokenId device \<noteq> jp_tokenId payload then Inr None else Inr (Some user))"

subsection \<open>What the environment promises\<close>

text \<open>A signed token decodes to its payload; UUIDs are not empty and never drawn twice.\<close>

definition jwt_law :: "auth_env \<Rightarrow> bool" where
  "jwt_law env = (\<forall>k p. ae_decode env (ae_sign env k p) = Some p)"

definition uuid_law :: "auth_env \<Rightarrow> bool" where
  "uuid_law env = (inj (ae_uuid env) \<and> (\<forall>n. ae_uuid env n \<noteq> []))"

text \<open>
  The documented merge: properties of the source overwrite those of the destination, objects are merged recursively,
  undefined properties of the source are skipped, and nothing is ever removed from the destination.
\<close>

definition merge_entry :: "token_data option \<Rightarrow> token_data \<Rightarrow> token_data" where
  "merge_entry oldEntry n = (case oldEntry of None \<Rightarrow> n
     | Some o' \<Rightarrow> n\<lparr>td_deviceDescription := (if td_deviceDescription n = None then td_deviceDescription o' else td_deviceDescription n)\<rparr>)"

definition merge_law :: "auth_env \<Rightarrow> bool" where
  "merge_law env =
     ((\<forall>d s k. ae_mergeTokens env d s k = (case s k of None \<Rightarrow> d k | Some n \<Rightarrow> Some (merge_entry (d k) n)))
      \<and> (\<forall>d s k. ae_mergeTemps env d s k = (case s k of None \<Rightarrow> d k | Some n \<Rightarrow> Some n)))"

lemma merge_entry_id [simp]: "td_tokenId (merge_entry o' n) = td_tokenId n"
  by (cases o') (simp_all add: merge_entry_def)

text \<open>The token id that is stored for a device.\<close>

definition session_id :: "auth_state \<Rightarrow> string \<Rightarrow> string \<Rightarrow> string option" where
  "session_id s i d = (case get_user s i of Inl _ \<Rightarrow> None | Inr u \<Rightarrow> map_option td_tokenId (tokens_of u d))"

definition accepted :: "auth_state \<Rightarrow> jwt_payload \<Rightarrow> bool" where
  "accepted s p = (\<exists>u. validateUser s p = Inr (Some u))"

lemma accepted_iff: "accepted s p \<longleftrightarrow> jp_tokenId p \<noteq> [] \<and> session_id s (jp_id p) (jp_deviceId p) = Some (jp_tokenId p)"
  by (cases "get_user s (jp_id p)")
    (auto simp: accepted_def validateUser_def session_id_def split: option.splits if_splits)

text \<open>The token id that a device may share: that of its last rotation, while this lies within \<open>sameTokenIdPeriod\<close>.\<close>

definition shared_id :: "auth_env \<Rightarrow> int \<Rightarrow> auth_state \<Rightarrow> string \<Rightarrow> string \<Rightarrow> string option" where
  "shared_id env now s i d = (if ae_sameTokenIdPeriod env = 0 then None
     else (case get_user s i of Inl _ \<Rightarrow> None
       | Inr u \<Rightarrow> (case temps_of u d of None \<Rightarrow> None
           | Some t \<Rightarrow> if tt_tokenId t \<noteq> [] \<and> tt_createdAt t \<ge> now - ae_sameTokenIdPeriod env then Some (tt_tokenId t) else None)))"

subsection \<open>What one update stores\<close>

lemma find_map_same: "(\<And>u. lu_id (f u) = lu_id u) \<Longrightarrow> find (\<lambda>u. lu_id u = i) (map f us) = map_option f (find (\<lambda>u. lu_id u = i) us)"
  by (induction us) auto

lemma list_ex_find: "list_ex P xs \<longleftrightarrow> find P xs \<noteq> None"
  by (induction xs) auto

lemma get_user_id: "get_user s i = Inr u \<Longrightarrow> lu_id u = i"
  by (auto simp: get_user_def find_Some_iff split: option.splits)

lemma update_user_get:
  assumes "update_user env i r t s = Inr s'"
  shows "\<exists>u. get_user s i = Inr u \<and> get_user s' i = Inr (u\<lparr>lu_refreshTokens := (case r of None \<Rightarrow> lu_refreshTokens u | Some m \<Rightarrow> Some (ae_mergeTokens env (tokens_of u) m)),
               lu_tempTokens := (case t of None \<Rightarrow> lu_tempTokens u | Some m \<Rightarrow> Some (ae_mergeTemps env (temps_of u) m))\<rparr>)"
    and "j \<noteq> i \<Longrightarrow> get_user s' j = get_user s j" and "at_drawn s' = at_drawn s"
proof -
  let ?f = "\<lambda>u. if lu_id u = i then u\<lparr>lu_refreshTokens := (case r of None \<Rightarrow> lu_refreshTokens u | Some m \<Rightarrow> Some (ae_mergeTokens env (tokens_of u) m)),
               lu_tempTokens := (case t of None \<Rightarrow> lu_tempTokens u | Some m \<Rightarrow> Some (ae_mergeTemps env (temps_of u) m))\<rparr> else u"
  have s': "s' = s\<lparr>at_users := map ?f (at_users s)\<rparr>" and ex: "list_ex (\<lambda>u. lu_id u = i) (at_users s)"
    using assms by (simp_all add: update_user_def split: if_splits)
  obtain u where u: "find (\<lambda>u. lu_id u = i) (at_users s) = Some u" using ex by (auto simp: list_ex_find)
  then have "lu_id u = i" by (auto simp: find_Some_iff)
  have m: "find (\<lambda>u. lu_id u = j) (map ?f (at_users s)) = map_option ?f (find (\<lambda>u. lu_id u = j) (at_users s))" for j
    by (rule find_map_same) simp
  show "\<exists>u. get_user s i = Inr u \<and> get_user s' i = Inr (u\<lparr>lu_refreshTokens := (case r of None \<Rightarrow> lu_refreshTokens u | Some m \<Rightarrow> Some (ae_mergeTokens env (tokens_of u) m)),
               lu_tempTokens := (case t of None \<Rightarrow> lu_tempTokens u | Some m \<Rightarrow> Some (ae_mergeTemps env (temps_of u) m))\<rparr>)"
    using u \<open>lu_id u = i\<close> m [of i] by (simp add: get_user_def s')
  show "get_user s' j = get_user s j" if "j \<noteq> i"
  proof (cases "find (\<lambda>u. lu_id u = j) (at_users s)")
    case None
    then show ?thesis by (simp add: get_user_def s' m)
  next
    case (Some x)
    then have "lu_id x = j" by (auto simp: find_Some_iff)
    with Some that show ?thesis by (simp add: get_user_def s' m)
  qed
  show "at_drawn s' = at_drawn s" by (simp add: s')
qed

text \<open>What is stored is what was written, and what was there where nothing was written.\<close>

lemma update_user_sessions:
  assumes "update_user env i (Some m) t s = Inr s'" "merge_law env"
  shows "session_id s' i d = (case m d of Some e \<Rightarrow> Some (td_tokenId e) | None \<Rightarrow> session_id s i d)"
    and "j \<noteq> i \<Longrightarrow> session_id s' j d = session_id s j d"
  using update_user_get(1) [OF assms(1)] update_user_get(2) [OF assms(1)] assms(2)
  by (auto simp: session_id_def tokens_of_def [of "_\<lparr>lu_refreshTokens := _, lu_tempTokens := _\<rparr>"] merge_law_def split: option.split)

text \<open>What is stored as temporary token of a device is what may be shared.\<close>

lemma update_user_shared:
  assumes "update_user env i r (Some m) s = Inr s'" "merge_law env" "m d = Some t"
  shows "shared_id env now s' i d = (if ae_sameTokenIdPeriod env \<noteq> 0 \<and> tt_tokenId t \<noteq> [] \<and> tt_createdAt t \<ge> now - ae_sameTokenIdPeriod env
    then Some (tt_tokenId t) else None)"
proof -
  obtain u x where u: "get_user s' i = Inr (u\<lparr>lu_refreshTokens := x, lu_tempTokens := Some (ae_mergeTemps env (temps_of u) m)\<rparr>)"
    using update_user_get(1) [OF assms(1)] by auto
  have "ae_mergeTemps env (temps_of u) m d = Some t" using assms(2,3) by (simp add: merge_law_def)
  then show ?thesis by (simp add: shared_id_def u temps_of_def [of "_\<lparr>lu_refreshTokens := _, lu_tempTokens := _\<rparr>"])
qed

text \<open>A token gets the id that its device may share, else a new one.\<close>

lemma createTokens_id:
  assumes "createTokens env now s i desc dev = Inr (toks, s')" "jwt_law env" "ae_decode env (tk_refreshToken toks) = Some p"
  shows "case shared_id env now s i (jp_deviceId p) of Some t \<Rightarrow> jp_tokenId p = t | None \<Rightarrow> jp_tokenId p \<in> ae_uuid env ` {at_drawn s..<at_drawn s'}"
  using assms
  by (auto simp: createTokens_def Let_def then_do_Inr jwt_law_def js_truthy_def shared_id_def split: if_splits option.splits sum.splits)

lemma createTokens_payload:
  assumes "createTokens env now s i desc dev = Inr (toks, s')" "jwt_law env" "uuid_law env"
  shows "\<exists>p. ae_decode env (tk_token toks) = Some p \<and> ae_decode env (tk_refreshToken toks) = Some p \<and> jp_id p = i
    \<and> (js_truthy dev \<longrightarrow> jp_deviceId p = the dev) \<and> jp_deviceId p \<noteq> [] \<and> jp_tokenId p \<noteq> []
    \<and> (ae_sameTokenIdPeriod env = 0 \<longrightarrow> jp_tokenId p \<in> ae_uuid env ` {at_drawn s..<at_drawn s'})"
    and "at_users s' = at_users s" "at_drawn s \<le> at_drawn s'"
  using assms
  by (auto simp: createTokens_def Let_def then_do_Inr jwt_law_def uuid_law_def js_truthy_def split: if_splits option.splits)

lemma presented_device_Inr:
  "presented_device env u rt = Inr d \<longleftrightarrow> (if js_truthy rt
     then \<exists>p. ae_decode env (the rt) = Some p \<and> jp_deviceId p \<noteq> [] \<and> tokens_of u (jp_deviceId p) \<noteq> None \<and> d = Some (jp_deviceId p)
     else d = None)"
  by (auto simp: presented_device_def split: option.splits)

text \<open>
  A rotation stores the token id of the new token for its device and writes the other sessions of the user's copy, in
  the store as in the copy.
\<close>

lemma updateRefreshToken_sessions:
  assumes "updateRefreshToken env now s u rt new data = Inr (r, u', s')" "merge_law env" "js_truthy rt \<Longrightarrow> ae_renewal env"
    and p: "ae_decode env new = Some p" and dev: "js_truthy rt \<Longrightarrow> map_option jp_deviceId (ae_decode env (the rt)) = Some (jp_deviceId p)"
  shows "session_id s' (lu_id u) (jp_deviceId p) = Some (jp_tokenId p)"
    and "r = new" "lu_id u' = lu_id u" "at_drawn s' = at_drawn s"
    and "d \<noteq> jp_deviceId p \<Longrightarrow> tokens_of u d = Some e \<Longrightarrow> session_id s' (lu_id u) d = Some (td_tokenId e)"
    and "d \<noteq> jp_deviceId p \<Longrightarrow> tokens_of u' d = tokens_of u d"
    and "i \<noteq> lu_id u \<Longrightarrow> session_id s' i d' = session_id s i d'"
    and "shared_id env later s' (lu_id u) (jp_deviceId p) = (if ae_sameTokenIdPeriod env \<noteq> 0 \<and> jp_tokenId p \<noteq> []
           \<and> now \<ge> later - ae_sameTokenIdPeriod env then Some (jp_tokenId p) else None)"
proof -
  obtain pres where pres: "presented_device env u rt = Inr pres" using assms(1) by (auto simp: updateRefreshToken_def then_do_Inr)
  have dp: "(case pres of Some d \<Rightarrow> d | None \<Rightarrow> jp_deviceId p) = jp_deviceId p" and ren: "\<not> (pres \<noteq> None \<and> \<not> ae_renewal env)"
    using pres dev assms(3) by (auto simp: presented_device_Inr split: if_splits)
  let ?e0 = "\<lparr>td_deviceDescription = (if js_truthy (jp_deviceDescription p) then jp_deviceDescription p
      else merged_description data (case pres of Some d \<Rightarrow> tokens_of u d | None \<Rightarrow> None)),
    td_deviceId = jp_deviceId p, td_tokenId = jp_tokenId p\<rparr>"
  let ?t0 = "\<lparr>tt_createdAt = now, tt_deviceId = jp_deviceId p, tt_tokenId = jp_tokenId p\<rparr>"
  let ?ts = "(tokens_of u)(jp_deviceId p \<mapsto> ?e0)" and ?tt = "(temps_of u)(jp_deviceId p \<mapsto> ?t0)"
  have "updateRefreshToken env now s u rt new data = then_do (update_user env (lu_id u) (Some ?ts) (Some ?tt) s)
      (\<lambda>s'. Inr (new, u\<lparr>lu_refreshTokens := Some ?ts, lu_tempTokens := Some ?tt\<rparr>, s'))"
    using ren by (simp only: updateRefreshToken_def pres then_do_simps if_False p option.case Let_def dp)
  then obtain upd: "update_user env (lu_id u) (Some ?ts) (Some ?tt) s = Inr s'" and r: "r = new"
    and u': "u' = u\<lparr>lu_refreshTokens := Some ?ts, lu_tempTokens := Some ?tt\<rparr>"
    by (cases "update_user env (lu_id u) (Some ?ts) (Some ?tt) s") (simp_all only: assms(1) then_do_simps sum.simps prod.inject)
  note ss = update_user_sessions [OF upd assms(2)]
  show "session_id s' (lu_id u) (jp_deviceId p) = Some (jp_tokenId p)" by (simp add: ss)
  show "r = new" by (rule r)
  show "lu_id u' = lu_id u" by (simp add: u')
  show "at_drawn s' = at_drawn s" by (rule update_user_get(3) [OF upd])
  show "session_id s' (lu_id u) d = Some (td_tokenId e)" if "d \<noteq> jp_deviceId p" "tokens_of u d = Some e" using that by (simp add: ss)
  show "tokens_of u' d = tokens_of u d" if "d \<noteq> jp_deviceId p" using that by (simp add: u' tokens_of_def)
  show "session_id s' i d' = session_id s i d'" if "i \<noteq> lu_id u" using that by (simp add: ss)
  have "?tt (jp_deviceId p) = Some ?t0" by simp
  from update_user_shared [OF upd assms(2) this, of later]
  show "shared_id env later s' (lu_id u) (jp_deviceId p) = (if ae_sameTokenIdPeriod env \<noteq> 0 \<and> jp_tokenId p \<noteq> []
           \<and> now \<ge> later - ae_sameTokenIdPeriod env then Some (jp_tokenId p) else None)" by simp
qed

lemma session_id_users: "at_users s' = at_users s \<Longrightarrow> session_id s' i d = session_id s i d"
  by (simp add: session_id_def get_user_def)

text \<open>One round: new tokens for a device and their session.\<close>

lemma getResult_sessions:
  assumes "getResult env now s u rt desc dev = Inr (toks, u', s')" "jwt_law env" "uuid_law env" "merge_law env"
    and "js_truthy rt \<Longrightarrow> ae_renewal env \<and> js_truthy dev \<and> map_option jp_deviceId (ae_decode env (the rt)) = dev"
  obtains p where "ae_decode env (tk_token toks) = Some p" "ae_decode env (tk_refreshToken toks) = Some p"
    "jp_id p = lu_id u" "js_truthy dev \<Longrightarrow> jp_deviceId p = the dev" "accepted s' p"
    "case shared_id env now s (lu_id u) (jp_deviceId p) of Some t \<Rightarrow> jp_tokenId p = t | None \<Rightarrow> jp_tokenId p \<in> ae_uuid env ` {at_drawn s..<at_drawn s'}"
    "\<And>d e. d \<noteq> jp_deviceId p \<Longrightarrow> tokens_of u d = Some e \<Longrightarrow> session_id s' (lu_id u) d = Some (td_tokenId e)"
    "\<And>i d. i \<noteq> lu_id u \<Longrightarrow> session_id s' i d = session_id s i d"
proof -
  obtain toks1 s1 r where ct: "createTokens env now s (lu_id u) desc dev = Inr (toks1, s1)"
    and ur: "updateRefreshToken env now s1 u rt (tk_refreshToken toks1) (Some desc) = Inr (r, u', s')"
    and toks: "toks = toks1\<lparr>tk_refreshToken := r\<rparr>"
    using assms(1) by (auto simp: getResult_def then_do_Inr)
  obtain p where p: "ae_decode env (tk_token toks1) = Some p" "ae_decode env (tk_refreshToken toks1) = Some p" "jp_id p = lu_id u"
    "js_truthy dev \<longrightarrow> jp_deviceId p = the dev" "jp_tokenId p \<noteq> []"
    using createTokens_payload(1) [OF ct assms(2,3)] by blast
  have dev: "map_option jp_deviceId (ae_decode env (the rt)) = Some (jp_deviceId p)" if "js_truthy rt"
    using assms(5) [OF that] p(4) by (cases dev) auto
  note us = updateRefreshToken_sessions [OF ur assms(4) conjunct1 [OF assms(5)] p(2) dev]
  have "accepted s' p" using us(1) p(3,5) by (simp add: accepted_iff)
  moreover have "session_id s' i d = session_id s i d" if "i \<noteq> lu_id u" for i d
    using us(7) [OF _ _ that] session_id_users [OF createTokens_payload(2) [OF ct assms(2,3)]] by simp
  moreover have drawn: "at_drawn s' = at_drawn s1" using us(4) by simp
  moreover have "case shared_id env now s (lu_id u) (jp_deviceId p) of Some t \<Rightarrow> jp_tokenId p = t | None \<Rightarrow> jp_tokenId p \<in> ae_uuid env ` {at_drawn s..<at_drawn s'}"
    using createTokens_id [OF ct assms(2) p(2)] unfolding drawn .
  ultimately show thesis
    using that [of p] p us(1-7) by (simp add: toks)
qed

lemma getResult_drawn: "getResult env now s u rt desc dev = Inr (toks, u', s') \<Longrightarrow> jwt_law env \<Longrightarrow> uuid_law env \<Longrightarrow> at_drawn s \<le> at_drawn s'"
proof -
  assume g: "getResult env now s u rt desc dev = Inr (toks, u', s')" and l: "jwt_law env" "uuid_law env"
  obtain toks1 s1 r where ct: "createTokens env now s (lu_id u) desc dev = Inr (toks1, s1)"
    and ur: "updateRefreshToken env now s1 u rt (tk_refreshToken toks1) (Some desc) = Inr (r, u', s')"
    using g by (auto simp: getResult_def then_do_Inr)
  have "at_drawn s' = at_drawn s1"
    using ur by (auto simp: updateRefreshToken_def then_do_Inr Let_def update_user_get(3) split: if_splits option.splits)
  then show ?thesis using createTokens_payload(3) [OF ct l] by simp
qed

subsection \<open>Sign-in, refresh and log-out\<close>

text \<open>The credentials that open a session: the right password, checked where the account keeps it.\<close>

definition credentials_ok :: "auth_env \<Rightarrow> auth_state \<Rightarrow> string \<Rightarrow> string \<Rightarrow> legacy_user \<Rightarrow> bool" where
  "credentials_ok env s email password user \<longleftrightarrow> getViaEmail s email = Inr user
     \<and> (if ae_iamEnabled env \<and> js_truthy (lu_iamId user) then ae_iamVerify env email password
        else js_truthy (lu_password user)
          \<and> (ae_compare env password (the (lu_password user)) \<or> ae_compare env (ae_sha256 env password) (the (lu_password user))))"

lemma signIn_ok:
  assumes "credentials_ok env s email password user"
  shows "\<exists>iam. signIn env now s email password desc dev = getResult env now s (user\<lparr>lu_iamId := iam\<rparr>) None desc dev"
proof (cases "ae_iamEnabled env \<and> js_truthy (lu_iamId user)")
  case True
  then have "signIn env now s email password desc dev = getResult env now s (user\<lparr>lu_iamId := lu_iamId user\<rparr>) None desc dev"
    using assms by (simp add: signIn_def credentials_ok_def)
  then show ?thesis by blast
next
  case False
  then have "signIn env now s email password desc dev
      = getResult env now s (user\<lparr>lu_iamId := if ae_iamEnabled env \<and> js_truthy (ae_iamMigrate env email) then ae_iamMigrate env email else lu_iamId user\<rparr>) None desc dev"
    using assms by (auto simp: signIn_def credentials_ok_def)
  then show ?thesis by blast
qed

lemma signIn_refused:
  assumes "\<nexists>user. credentials_ok env s email password user"
  shows "\<exists>m. signIn env now s email password desc dev = Inl (credentials_error env m)"
  using assms by (cases "getViaEmail s email") (auto simp: signIn_def credentials_ok_def split: if_splits)

lemma signIn_Inr:
  assumes "signIn env now s email password desc dev = Inr r"
  obtains user iam where "credentials_ok env s email password user" "getResult env now s (user\<lparr>lu_iamId := iam\<rparr>) None desc dev = Inr r"
proof (cases "\<exists>user. credentials_ok env s email password user")
  case True
  then show thesis using signIn_ok assms that by metis
next
  case False
  then show thesis using signIn_refused [OF False, of now desc dev] assms by auto
qed

text \<open>
  C11. Sign-in opens a working session for exactly the account whose credentials were presented: the access token and the refresh token decode to
  one payload, it names this account and is accepted from then on; no session of another user changes.
  Assumed: signed tokens decode to their payload, UUIDs are fresh, and the merge behaves as documented.
\<close>

theorem sign_in_opens_session:
  assumes "signIn env now s email password desc dev = Inr (toks, u', s')" "jwt_law env" "uuid_law env" "merge_law env"
  shows "\<exists>user p. credentials_ok env s email password user \<and> ae_decode env (tk_token toks) = Some p
    \<and> ae_decode env (tk_refreshToken toks) = Some p \<and> jp_id p = lu_id user \<and> accepted s' p
    \<and> (\<forall>i d. i = lu_id user \<or> session_id s' i d = session_id s i d)"
proof -
  obtain user iam where c: "credentials_ok env s email password user"
    and g: "getResult env now s (user\<lparr>lu_iamId := iam\<rparr>) None desc dev = Inr (toks, u', s')"
    using signIn_Inr [OF assms(1)] .
  show ?thesis by (rule getResult_sessions [OF g assms(2-4)]) (use c in auto)
qed

lemma refreshTokens_getResult:
  assumes "refreshTokens env now now' s u rt = Inr (toks, u'', s'')" "jwt_law env" "uuid_law env" "merge_law env" "js_truthy (Some rt)" "ae_renewal env"
  obtains q u' s' i1 where "ae_decode env rt = Some q" "jp_deviceId q \<noteq> []" "lu_id u' = lu_id u" "at_drawn s \<le> at_drawn s'"
    "case shared_id env now s (lu_id u) (jp_deviceId q) of Some t \<Rightarrow> i1 = t | None \<Rightarrow> i1 \<in> ae_uuid env ` {at_drawn s..<at_drawn s'}"
    "shared_id env now' s' (lu_id u) (jp_deviceId q)
       = (if ae_sameTokenIdPeriod env \<noteq> 0 \<and> now \<ge> now' - ae_sameTokenIdPeriod env then Some i1 else None)"
    "\<And>d. d \<noteq> jp_deviceId q \<Longrightarrow> tokens_of u' d = tokens_of u d"
    "getResult env now' s' u' (Some rt) (jp_deviceDescription q) (Some (jp_deviceId q)) = Inr (toks, u'', s'')"
proof -
  obtain q where q: "ae_decode env rt = Some q" using assms(1) by (auto simp: refreshTokens_def split: option.splits)
  obtain toks1 s1 r u' s' where ct: "createTokens env now s (lu_id u) (jp_deviceDescription q) (Some (jp_deviceId q)) = Inr (toks1, s1)"
    and ur: "updateRefreshToken env now s1 u (Some rt) (tk_refreshToken toks1) None = Inr (r, u', s')"
    and g: "getResult env now' s' u' (Some rt) (jp_deviceDescription q) (Some (jp_deviceId q)) = Inr (toks, u'', s'')"
    using assms(1) by (auto simp: refreshTokens_def q then_do_Inr)
  have "jp_deviceId q \<noteq> []"
    using ur assms(5) by (auto simp: updateRefreshToken_def then_do_Inr presented_device_Inr q)
  obtain p where p: "ae_decode env (tk_refreshToken toks1) = Some p" "jp_deviceId p = jp_deviceId q" "jp_tokenId p \<noteq> []"
    using createTokens_payload(1) [OF ct assms(2,3)] \<open>jp_deviceId q \<noteq> []\<close> by auto
  have dev: "map_option jp_deviceId (ae_decode env (the (Some rt))) = Some (jp_deviceId p)" by (simp add: q p(2))
  note us = updateRefreshToken_sessions [OF ur assms(4) assms(6) p(1) dev]
  have id1: "case shared_id env now s (lu_id u) (jp_deviceId q) of Some t \<Rightarrow> jp_tokenId p = t | None \<Rightarrow> jp_tokenId p \<in> ae_uuid env ` {at_drawn s..<at_drawn s'}"
    using createTokens_id [OF ct assms(2) p(1)] unfolding us(4) p(2) .
  have id2: "shared_id env now' s' (lu_id u) (jp_deviceId q)
      = (if ae_sameTokenIdPeriod env \<noteq> 0 \<and> now \<ge> now' - ae_sameTokenIdPeriod env then Some (jp_tokenId p) else None)"
    using us(8) [of now'] by (simp add: p(2,3))
  show thesis
    by (rule that [OF q \<open>jp_deviceId q \<noteq> []\<close> _ _ id1 id2 _ g])
      (use us(3,4,6) p(2) createTokens_payload(3) [OF ct assms(2,3)] in auto)
qed

text \<open>
  C12. A refresh with renewal rotates the session of the device of the presented refresh token: both new tokens carry one payload, which is
  accepted for this device, and no other token id is. Its token id is newly drawn, so no token issued before the refresh is accepted for the device any
  more; but within \<open>sameTokenIdPeriod\<close> of the last rotation of the device the id of that rotation is kept, unless the period ends
  between the two rounds of the refresh, so the tokens that carry it stay valid.
  Assumed: signed tokens decode to their payload, UUIDs are fresh, and the merge behaves as documented.
\<close>

theorem refresh_rotates_session:
  assumes "refreshTokens env now now' s u rt = Inr (toks, u', s')" "jwt_law env" "uuid_law env" "merge_law env" "rt \<noteq> []" "ae_renewal env"
  shows "\<exists>q p. ae_decode env rt = Some q \<and> ae_decode env (tk_token toks) = Some p \<and> ae_decode env (tk_refreshToken toks) = Some p
    \<and> jp_id p = lu_id u \<and> jp_deviceId p = jp_deviceId q \<and> accepted s' p
    \<and> (\<forall>t. accepted s' (p\<lparr>jp_tokenId := t\<rparr>) \<longleftrightarrow> t = jp_tokenId p)
    \<and> (if shared_id env now s (lu_id u) (jp_deviceId q) \<noteq> None \<and> now' - ae_sameTokenIdPeriod env \<le> now
       then shared_id env now s (lu_id u) (jp_deviceId q) = Some (jp_tokenId p)
       else jp_tokenId p \<in> ae_uuid env ` {at_drawn s..<at_drawn s'} \<and> (\<forall>n. at_drawn s \<le> n \<or> \<not> accepted s' (p\<lparr>jp_tokenId := ae_uuid env n\<rparr>)))"
proof -
  have rt: "js_truthy (Some rt)" using assms(5) by simp
  obtain q u1 s1 i1 where q: "ae_decode env rt = Some q" "jp_deviceId q \<noteq> []" "lu_id u1 = lu_id u" "at_drawn s \<le> at_drawn s1"
    and id1: "case shared_id env now s (lu_id u) (jp_deviceId q) of Some t \<Rightarrow> i1 = t | None \<Rightarrow> i1 \<in> ae_uuid env ` {at_drawn s..<at_drawn s1}"
    and id2: "shared_id env now' s1 (lu_id u) (jp_deviceId q)
       = (if ae_sameTokenIdPeriod env \<noteq> 0 \<and> now \<ge> now' - ae_sameTokenIdPeriod env then Some i1 else None)"
    and g: "getResult env now' s1 u1 (Some rt) (jp_deviceDescription q) (Some (jp_deviceId q)) = Inr (toks, u', s')"
    using refreshTokens_getResult [OF assms(1-4) rt assms(6)] by metis
  have le: "at_drawn s1 \<le> at_drawn s'" by (rule getResult_drawn [OF g assms(2,3)])
  have dev: "js_truthy (Some rt) \<Longrightarrow> ae_renewal env \<and> js_truthy (Some (jp_deviceId q))
      \<and> map_option jp_deviceId (ae_decode env (the (Some rt))) = Some (jp_deviceId q)"
    using q assms(6) by simp
  obtain p where p: "ae_decode env (tk_token toks) = Some p" "ae_decode env (tk_refreshToken toks) = Some p" "jp_id p = lu_id u"
    "jp_deviceId p = jp_deviceId q" "accepted s' p"
    "case shared_id env now' s1 (lu_id u) (jp_deviceId q) of Some t \<Rightarrow> jp_tokenId p = t | None \<Rightarrow> jp_tokenId p \<in> ae_uuid env ` {at_drawn s1..<at_drawn s'}"
    by (rule getResult_sessions [OF g assms(2-4) dev]) (use q in auto)
  have only: "accepted s' (p\<lparr>jp_tokenId := t\<rparr>) \<longleftrightarrow> t = jp_tokenId p" for t using p(5) by (auto simp: accepted_iff)
  have fresh: "\<not> accepted s' (p\<lparr>jp_tokenId := ae_uuid env n\<rparr>)" if "jp_tokenId p \<in> ae_uuid env ` {at_drawn s..<at_drawn s'}" "n < at_drawn s" for n
    using that assms(3) by (auto simp: only uuid_law_def inj_eq)
  have "if shared_id env now s (lu_id u) (jp_deviceId q) \<noteq> None \<and> now' - ae_sameTokenIdPeriod env \<le> now
      then shared_id env now s (lu_id u) (jp_deviceId q) = Some (jp_tokenId p) else jp_tokenId p \<in> ae_uuid env ` {at_drawn s..<at_drawn s'}"
  proof (cases "ae_sameTokenIdPeriod env \<noteq> 0 \<and> now' - ae_sameTokenIdPeriod env \<le> now")
    case True
    then have i2: "jp_tokenId p = i1" using p(6) id2 by simp
    show ?thesis using id1 i2 True le by (cases "shared_id env now s (lu_id u) (jp_deviceId q)") auto
  next
    case False
    then have "jp_tokenId p \<in> ae_uuid env ` {at_drawn s1..<at_drawn s'}" using p(6) id2 by (auto split: if_splits)
    then have "jp_tokenId p \<in> ae_uuid env ` {at_drawn s..<at_drawn s'}" using q(4) by auto
    moreover have "shared_id env now s (lu_id u) (jp_deviceId q) = None" if "ae_sameTokenIdPeriod env = 0" using that by (simp add: shared_id_def)
    ultimately show ?thesis using False by auto
  qed
  then show ?thesis using q(1) p(1-5) only fresh by (intro exI [of _ q] exI [of _ p]) (auto simp: not_le split: if_splits)
qed

text \<open>
  A refresh writes the sessions of all devices as the copy of its user has them: for every other device the token
  id that was stored when the user was read is the valid one again, whatever that device has stored since.
\<close>

theorem refresh_restores_other_sessions:
  assumes "refreshTokens env now now' s u rt = Inr (toks, u', s')" "jwt_law env" "uuid_law env" "merge_law env"
    and "rt \<noteq> []" "ae_renewal env" "tokens_of u d = Some e" "map_option jp_deviceId (ae_decode env rt) \<noteq> Some d"
  shows "session_id s' (lu_id u) d = Some (td_tokenId e)"
proof -
  have rt: "js_truthy (Some rt)" using assms(5) by simp
  obtain q u1 s1 where q: "ae_decode env rt = Some q" "jp_deviceId q \<noteq> []" "lu_id u1 = lu_id u"
    and other: "\<And>d. d \<noteq> jp_deviceId q \<Longrightarrow> tokens_of u1 d = tokens_of u d"
    and g: "getResult env now' s1 u1 (Some rt) (jp_deviceDescription q) (Some (jp_deviceId q)) = Inr (toks, u', s')"
    using refreshTokens_getResult [OF assms(1-4) rt assms(6)] by metis
  show ?thesis
    by (rule getResult_sessions [OF g assms(2-4)]) (use q assms(6,7,8) other in auto)
qed

text \<open>
  Without renewal a refresh is useless: it returns the presented refresh token and an access token of a new token
  id, stores nothing, and the access token is never accepted.
\<close>

theorem refresh_without_renewal_is_dead:
  assumes "refreshTokens env now now' s u rt = Inr (toks, u', s')" "jwt_law env" "uuid_law env"
    and "rt \<noteq> []" "\<not> ae_renewal env" "ae_sameTokenIdPeriod env = 0"
    and drawn: "\<forall>d t. session_id s (lu_id u) d = Some t \<longrightarrow> t \<in> ae_uuid env ` {..<at_drawn s}"
  shows "tk_refreshToken toks = rt \<and> at_users s' = at_users s
    \<and> (\<exists>p. ae_decode env (tk_token toks) = Some p \<and> jp_id p = lu_id u \<and> \<not> accepted s' p)"
proof -
  have same: "r = rt \<and> u2 = u1 \<and> s2 = s1" if "updateRefreshToken env n s1 u1 (Some rt) new data = Inr (r, u2, s2)" for n s1 u1 new data r u2 s2
    using that assms(4,5) by (auto simp: updateRefreshToken_def then_do_Inr presented_device_Inr)
  obtain q where q: "ae_decode env rt = Some q" using assms(1) by (auto simp: refreshTokens_def split: option.splits)
  obtain toks1 s1 where ct: "createTokens env now s (lu_id u) (jp_deviceDescription q) (Some (jp_deviceId q)) = Inr (toks1, s1)"
    and g: "getResult env now' s1 u (Some rt) (jp_deviceDescription q) (Some (jp_deviceId q)) = Inr (toks, u', s')"
    using assms(1) by (auto simp: refreshTokens_def q then_do_Inr dest!: same)
  obtain toks2 where ct2: "createTokens env now' s1 (lu_id u) (jp_deviceDescription q) (Some (jp_deviceId q)) = Inr (toks2, s')"
    and toks: "toks = toks2\<lparr>tk_refreshToken := rt\<rparr>"
    using g by (auto simp: getResult_def then_do_Inr dest!: same)
  have us: "at_users s' = at_users s" and le: "at_drawn s \<le> at_drawn s1"
    using createTokens_payload(2,3) [OF ct assms(2,3)] createTokens_payload(2) [OF ct2 assms(2,3)] by auto
  obtain p where p: "ae_decode env (tk_token toks2) = Some p" "jp_id p = lu_id u" "jp_tokenId p \<in> ae_uuid env ` {at_drawn s1..<at_drawn s'}"
    using createTokens_payload(1) [OF ct2 assms(2,3)] assms(6) by auto
  have "session_id s' (lu_id u) (jp_deviceId p) \<noteq> Some (jp_tokenId p)"
  proof
    assume "session_id s' (lu_id u) (jp_deviceId p) = Some (jp_tokenId p)"
    then have "jp_tokenId p \<in> ae_uuid env ` {..<at_drawn s}" using drawn session_id_users [OF us] by auto
    then show False using p(3) le assms(3) by (auto simp: uuid_law_def inj_eq)
  qed
  then show ?thesis using p us by (auto simp: toks accepted_iff)
qed

text \<open>
  Log-out ends no session: the stored sessions are merged with the remaining ones, so after a log-out from one device
  or from all devices every token is accepted exactly when it was before.
\<close>

theorem logout_ends_no_session:
  assumes "logout env s (Some u) tok allDevices = Inr s'" "merge_law env" "get_user s (lu_id u) = Inr u"
  shows "accepted s' p \<longleftrightarrow> accepted s p"
proof -
  obtain m where m: "\<And>d. m d = None \<or> m d = tokens_of u d" "update_user env (lu_id u) (Some m) None s = Inr s'"
  proof (cases allDevices)
    case True
    show ?thesis by (rule that [of Map.empty]) (use True assms(1) in \<open>auto simp: logout_def Let_def split: if_splits option.splits\<close>)
  next
    case False
    show ?thesis
      by (rule that [of "(tokens_of u)(the (map_option jp_deviceId (ae_decode env (the tok))) := None)"])
        (use False assms(1) in \<open>auto simp: logout_def tokens_of_def Let_def split: if_splits option.splits\<close>)
  qed
  have "session_id s' i d = session_id s i d" for i d
  proof (cases "i = lu_id u")
    case True
    then show ?thesis
      using m(1) [of d] update_user_sessions(1) [OF m(2) assms(2), of d] assms(3) by (auto simp: session_id_def split: option.splits)
  next
    case False
    then show ?thesis by (rule update_user_sessions(2) [OF m(2) assms(2)])
  qed
  then show ?thesis by (simp add: accepted_iff)
qed

lemma getResult_total:
  assumes "jwt_law env" "uuid_law env" "u \<in> set (at_users s)" "lu_id v = lu_id u"
  shows "\<exists>r. getResult env now s v None desc dev = Inr r"
proof -
  obtain u0 where u0: "get_user s (lu_id u) = Inr u0"
    using assms(3) by (cases "find (\<lambda>x. lu_id x = lu_id u) (at_users s)") (auto simp: get_user_def find_None_iff)
  obtain toks s1 where ct: "createTokens env now s (lu_id u) desc dev = Inr (toks, s1)"
    by (rule exE [of "\<lambda>r. createTokens env now s (lu_id u) desc dev = Inr r"])
      (simp add: createTokens_def Let_def u0 split: prod.split if_split, simp add: prod_eq_iff)
  obtain p where p: "ae_decode env (tk_refreshToken toks) = Some p" using createTokens_payload(1) [OF ct assms(1,2)] by blast
  have "list_ex (\<lambda>x. lu_id x = lu_id u) (at_users s1)"
    using assms(3) createTokens_payload(2) [OF ct assms(1,2)] by (auto simp: list_ex_iff)
  then have "\<exists>s2. update_user env (lu_id u) r t s1 = Inr s2" for r t by (simp add: update_user_def)
  then show ?thesis
    by (fastforce simp: getResult_def assms(4) ct updateRefreshToken_def presented_device_def p Let_def then_do_Inr)
qed

text \<open>
  With enumeration prevention a sign-in discloses nothing but whether the credentials are right: it fails exactly when they
  are wrong, always with the same error, for an unknown e-mail address, a wrong password and an account without one.
\<close>

theorem sign_in_discloses_only_success:
  assumes "jwt_law env" "uuid_law env" "ae_preventUserEnumeration env"
  shows "if \<exists>user. credentials_ok env s email password user
    then \<exists>r. signIn env now s email password desc dev = Inr r
    else signIn env now s email password desc dev = Inl (Unauthorized ''Invalid credentials'')"
proof (cases "\<exists>user. credentials_ok env s email password user")
  case True
  then obtain user where user: "credentials_ok env s email password user" by blast
  have "user \<in> set (at_users s)" using user by (auto simp: credentials_ok_def getViaEmail_def find_Some_iff split: option.splits)
  then have "\<exists>r. getResult env now s (user\<lparr>lu_iamId := iam\<rparr>) None desc dev = Inr r" for iam
    by (rule getResult_total [OF assms(1,2)]) simp
  then show ?thesis using True signIn_ok [OF user] by metis
next
  case False
  then show ?thesis using signIn_refused [OF False] assms(3) by (auto simp: credentials_error_def)
qed

subsection \<open>A concrete environment\<close>

text \<open>Tokens that write the payload down, strings with their length in front.\<close>

definition put_string :: "string \<Rightarrow> string" where
  "put_string s = replicate (length s) CHR ''1'' @ CHR ''0'' # s"

definition take_string :: "string \<Rightarrow> string \<times> string" where
  "take_string t = (let n = length (takeWhile (\<lambda>c. c = CHR ''1'') t) in (take n (drop (Suc n) t), drop n (drop (Suc n) t)))"

lemma take_put [simp]: "take_string (put_string s @ r) = (s, r)"
proof -
  have "takeWhile (\<lambda>c. c = CHR ''1'') (replicate n CHR ''1'' @ CHR ''0'' # r) = replicate n CHR ''1''" for n r
    by (induction n) auto
  then show ?thesis by (simp add: take_string_def put_string_def Let_def)
qed

definition plain_sign :: "bool \<Rightarrow> jwt_payload \<Rightarrow> string" where
  "plain_sign k p = put_string (jp_id p) @ put_string (jp_deviceId p) @ put_string (jp_tokenId p)
     @ (case jp_deviceDescription p of None \<Rightarrow> [] | Some d \<Rightarrow> CHR ''d'' # d)"

definition plain_decode :: "string \<Rightarrow> jwt_payload option" where
  "plain_decode t = (let (i, t1) = take_string t; (d, t2) = take_string t1; (k, t3) = take_string t2
     in Some \<lparr>jp_id = i, jp_deviceId = d, jp_deviceDescription = (case t3 of [] \<Rightarrow> None | _ # x \<Rightarrow> Some x), jp_tokenId = k\<rparr>)"

definition plain_env :: "bool \<Rightarrow> auth_env" where
  "plain_env renewal = \<lparr>ae_decode = plain_decode, ae_sign = plain_sign, ae_uuid = (\<lambda>n. replicate (Suc n) CHR ''u''),
     ae_mergeTokens = (\<lambda>d s k. case s k of None \<Rightarrow> d k | Some n \<Rightarrow> Some (merge_entry (d k) n)),
     ae_mergeTemps = (\<lambda>d s k. case s k of None \<Rightarrow> d k | Some n \<Rightarrow> Some n),
     ae_compare = (=), ae_sha256 = (\<lambda>x. x), ae_iamEnabled = False, ae_iamVerify = (\<lambda>_ _. False), ae_iamMigrate = (\<lambda>_. None),
     ae_preventUserEnumeration = True, ae_renewal = renewal, ae_sameTokenIdPeriod = 0\<rparr>"

lemma plain_env_laws: "jwt_law (plain_env b)" "uuid_law (plain_env b)" "merge_law (plain_env b)"
proof -
  show "jwt_law (plain_env b)"
    by (simp add: jwt_law_def plain_env_def plain_decode_def plain_sign_def split: option.split)
  show "uuid_law (plain_env b)" by (auto simp: uuid_law_def plain_env_def inj_on_def dest: arg_cong [of _ _ length])
  show "merge_law (plain_env b)" by (simp add: merge_law_def plain_env_def)
qed

text \<open>Ada is signed in on a phone (token id \<open>u\<close>) and on a tablet (token id \<open>uu\<close>).\<close>

definition ada :: legacy_user where
  "ada = \<lparr>lu_id = ''1'', lu_email = ''ada'', lu_password = Some ''pw'', lu_iamId = None,
     lu_refreshTokens = Some [''phone'' \<mapsto> \<lparr>td_deviceDescription = None, td_deviceId = ''phone'', td_tokenId = ''u''\<rparr>,
       ''tablet'' \<mapsto> \<lparr>td_deviceDescription = None, td_deviceId = ''tablet'', td_tokenId = ''uu''\<rparr>],
     lu_tempTokens = None\<rparr>"

definition ada_state :: auth_state where
  "ada_state = \<lparr>at_users = [ada], at_drawn = 2\<rparr>"

definition phone_token :: string where
  "phone_token = plain_sign True \<lparr>jp_id = ''1'', jp_deviceId = ''phone'', jp_deviceDescription = None, jp_tokenId = ''u''\<rparr>"

definition succeeds :: "'e + 'a \<Rightarrow> bool" where
  "succeeds r = (case r of Inl _ \<Rightarrow> False | Inr _ \<Rightarrow> True)"

lemma succeedsE: "succeeds r \<Longrightarrow> (\<And>a. r = Inr a \<Longrightarrow> thesis) \<Longrightarrow> thesis"
  by (cases r) (simp_all add: succeeds_def)

text \<open>Ada after her tablet has rotated its session.\<close>

definition tablet_rotated :: auth_state where
  "tablet_rotated = \<lparr>at_users = [ada\<lparr>lu_refreshTokens := Some ((tokens_of ada)(''tablet'' \<mapsto>
     \<lparr>td_deviceDescription = None, td_deviceId = ''tablet'', td_tokenId = ''uuu''\<rparr>))\<rparr>], at_drawn = 3\<rparr>"

lemma ada_runs:
  "succeeds (signIn (plain_env True) 5 ada_state ''ada'' ''pw'' None None)"
  "succeeds (refreshTokens (plain_env True) 5 6 ada_state ada phone_token)"
  "succeeds (refreshTokens (plain_env False) 5 6 ada_state ada phone_token)"
  "succeeds (refreshTokens (plain_env True) 5 6 tablet_rotated ada phone_token)"
  "succeeds (logout (plain_env True) ada_state (Some ada) (Some phone_token) True)"
  by code_simp+

lemma ada_facts:
  "ae_decode (plain_env b) phone_token = Some \<lparr>jp_id = ''1'', jp_deviceId = ''phone'', jp_deviceDescription = None, jp_tokenId = ''u''\<rparr>"
  "phone_token \<noteq> []" "ae_renewal (plain_env b) = b" "ae_sameTokenIdPeriod (plain_env b) = 0" "ae_preventUserEnumeration (plain_env b)"
  "lu_id ada = ''1''" "get_user ada_state ''1'' = Inr ada" "tokens_of ada ''tablet'' = Some \<lparr>td_deviceDescription = None, td_deviceId = ''tablet'', td_tokenId = ''uu''\<rparr>"
  "at_drawn ada_state = 2" "session_id tablet_rotated ''1'' ''tablet'' = Some ''uuu''"
  by (simp_all add: plain_env_def phone_token_def plain_decode_def plain_sign_def put_string_def ada_def ada_state_def get_user_def
      tokens_of_def tablet_rotated_def session_id_def) (simp add: take_string_def)

lemma ada_sessions: "session_id ada_state ''1'' d = (if d = ''phone'' then Some ''u'' else if d = ''tablet'' then Some ''uu'' else None)"
  by (simp add: session_id_def ada_facts(7)) (simp add: ada_def tokens_of_def)

lemma sign_in_opens_session_witness:
  "\<exists>r p. signIn (plain_env True) 5 ada_state ''ada'' ''pw'' None None = Inr r
    \<and> ae_decode (plain_env True) (tk_token (fst r)) = Some p \<and> jp_id p = ''1'' \<and> accepted (snd (snd r)) p"
proof -
  obtain toks u' s' where r: "signIn (plain_env True) 5 ada_state ''ada'' ''pw'' None None = Inr (toks, u', s')"
    by (rule succeedsE [OF ada_runs(1)]) (metis prod_cases3)
  obtain user p where p: "credentials_ok (plain_env True) ada_state ''ada'' ''pw'' user" "ae_decode (plain_env True) (tk_token toks) = Some p"
    "jp_id p = lu_id user" "accepted s' p"
    using sign_in_opens_session [OF r plain_env_laws] by blast
  have "lu_id user = ''1''" using p(1) by (auto simp: credentials_ok_def getViaEmail_def ada_state_def ada_def)
  with r p show ?thesis by auto
qed

text \<open>Token ids are shared for 2000 units: \<open>ada\<close> has not rotated her phone yet; in \<open>rotated_state\<close> she has, at time 3.\<close>

definition sharing_env :: auth_env where
  "sharing_env = (plain_env True)\<lparr>ae_sameTokenIdPeriod := 2000\<rparr>"

definition rotated_state :: auth_state where
  "rotated_state = \<lparr>at_users = [ada\<lparr>lu_tempTokens := Some [''phone'' \<mapsto> \<lparr>tt_createdAt = 3, tt_deviceId = ''phone'', tt_tokenId = ''u''\<rparr>]\<rparr>], at_drawn = 2\<rparr>"

lemma sharing_env_laws: "jwt_law sharing_env" "uuid_law sharing_env" "merge_law sharing_env"
  using plain_env_laws [of True] by (simp_all add: sharing_env_def jwt_law_def uuid_law_def merge_law_def)

lemma sharing_runs:
  "succeeds (refreshTokens sharing_env 5 6 ada_state ada phone_token)"
  "succeeds (refreshTokens sharing_env 5 6 rotated_state ada phone_token)"
  "shared_id sharing_env 5 ada_state ''1'' ''phone'' = None" "shared_id sharing_env 5 rotated_state ''1'' ''phone'' = Some ''u''"
  by code_simp+

lemma refresh_rotates_session_witness:
  "(\<exists>r. refreshTokens sharing_env 5 6 ada_state ada phone_token = Inr r
     \<and> \<not> accepted (snd (snd r)) \<lparr>jp_id = ''1'', jp_deviceId = ''phone'', jp_deviceDescription = None, jp_tokenId = ''u''\<rparr>)
   \<and> (\<exists>r. refreshTokens sharing_env 5 6 rotated_state ada phone_token = Inr r
     \<and> accepted (snd (snd r)) \<lparr>jp_id = ''1'', jp_deviceId = ''phone'', jp_deviceDescription = None, jp_tokenId = ''u''\<rparr>)"
proof
  have env: "ae_decode sharing_env = ae_decode (plain_env True)" "ae_renewal sharing_env" "ae_sameTokenIdPeriod sharing_env = 2000"
    "ae_uuid sharing_env = ae_uuid (plain_env True)" "ae_uuid (plain_env True) 0 = ''u''"
    by (simp_all add: sharing_env_def plain_env_def)
  obtain toks u' s' where r: "refreshTokens sharing_env 5 6 ada_state ada phone_token = Inr (toks, u', s')"
    by (rule succeedsE [OF sharing_runs(1)]) (metis prod_cases3)
  obtain p where p: "jp_id p = ''1''" "jp_deviceId p = ''phone''" "\<forall>n. 2 \<le> n \<or> \<not> accepted s' (p\<lparr>jp_tokenId := ae_uuid (plain_env True) n\<rparr>)"
    using refresh_rotates_session [OF r sharing_env_laws] by (auto simp: ada_facts env sharing_runs(3))
  then have "\<not> accepted s' (p\<lparr>jp_tokenId := ''u''\<rparr>)" using env(5) by (metis le_zero_eq zero_neq_numeral)
  then show "\<exists>r. refreshTokens sharing_env 5 6 ada_state ada phone_token = Inr r
     \<and> \<not> accepted (snd (snd r)) \<lparr>jp_id = ''1'', jp_deviceId = ''phone'', jp_deviceDescription = None, jp_tokenId = ''u''\<rparr>"
    using r p(1,2) by (auto simp: accepted_iff)
  obtain toks u' s' where r: "refreshTokens sharing_env 5 6 rotated_state ada phone_token = Inr (toks, u', s')"
    by (rule succeedsE [OF sharing_runs(2)]) (metis prod_cases3)
  obtain p where p: "jp_id p = ''1''" "jp_deviceId p = ''phone''" "accepted s' p" "jp_tokenId p = ''u''"
    using refresh_rotates_session [OF r sharing_env_laws] by (auto simp: ada_facts env sharing_runs(4))
  then show "\<exists>r. refreshTokens sharing_env 5 6 rotated_state ada phone_token = Inr r
     \<and> accepted (snd (snd r)) \<lparr>jp_id = ''1'', jp_deviceId = ''phone'', jp_deviceDescription = None, jp_tokenId = ''u''\<rparr>"
    using r by (auto simp: accepted_iff)
qed

lemma refresh_restores_other_sessions_witness:
  "session_id tablet_rotated ''1'' ''tablet'' = Some ''uuu''
   \<and> (\<exists>r. refreshTokens (plain_env True) 5 6 tablet_rotated ada phone_token = Inr r \<and> session_id (snd (snd r)) ''1'' ''tablet'' = Some ''uu'')"
proof -
  obtain toks u' s' where r: "refreshTokens (plain_env True) 5 6 tablet_rotated ada phone_token = Inr (toks, u', s')"
    by (rule succeedsE [OF ada_runs(4)]) (metis prod_cases3)
  show ?thesis
    using refresh_restores_other_sessions [OF r plain_env_laws, of "''tablet''"] r by (simp add: ada_facts)
qed

lemma refresh_without_renewal_is_dead_witness:
  "\<exists>r p. refreshTokens (plain_env False) 5 6 ada_state ada phone_token = Inr r
    \<and> ae_decode (plain_env False) (tk_token (fst r)) = Some p \<and> \<not> accepted (snd (snd r)) p"
proof -
  obtain toks u' s' where r: "refreshTokens (plain_env False) 5 6 ada_state ada phone_token = Inr (toks, u', s')"
    by (rule succeedsE [OF ada_runs(3)]) (metis prod_cases3)
  have ids: "{''u'', ''uu''} \<subseteq> ae_uuid (plain_env False) ` {..<2}" by (auto simp: plain_env_def lessThan_nat_numeral image_iff)
  have "\<forall>d t. session_id ada_state (lu_id ada) d = Some t \<longrightarrow> t \<in> ae_uuid (plain_env False) ` {..<at_drawn ada_state}"
    using ids by (simp add: ada_facts ada_sessions)
  from refresh_without_renewal_is_dead [OF r plain_env_laws(1,2) ada_facts(2) _ ada_facts(4) this] r show ?thesis
    by (auto simp: ada_facts(3))
qed

lemma logout_ends_no_session_witness:
  "\<exists>s'. logout (plain_env True) ada_state (Some ada) (Some phone_token) True = Inr s'
    \<and> accepted s' \<lparr>jp_id = ''1'', jp_deviceId = ''phone'', jp_deviceDescription = None, jp_tokenId = ''u''\<rparr>"
proof -
  obtain s' where r: "logout (plain_env True) ada_state (Some ada) (Some phone_token) True = Inr s'"
    by (rule succeedsE [OF ada_runs(5)])
  show ?thesis
    using logout_ends_no_session [OF r plain_env_laws(3), of "\<lparr>jp_id = ''1'', jp_deviceId = ''phone'', jp_deviceDescription = None, jp_tokenId = ''u''\<rparr>"] r
    by (simp add: ada_facts accepted_iff ada_sessions)
qed

lemma sign_in_discloses_only_success_witness:
  "signIn (plain_env True) 5 ada_state ''bob'' ''pw'' None None = Inl (Unauthorized ''Invalid credentials'')
   \<and> signIn (plain_env True) 5 ada_state ''ada'' ''no'' None None = Inl (Unauthorized ''Invalid credentials'')"
proof -
  have "\<not> credentials_ok (plain_env True) ada_state ''bob'' ''pw'' u" "\<not> credentials_ok (plain_env True) ada_state ''ada'' ''no'' u" for u
    by (auto simp: credentials_ok_def getViaEmail_def ada_state_def ada_def plain_env_def)
  then show ?thesis
    using sign_in_discloses_only_success [OF plain_env_laws(1,2) ada_facts(5)] by simp
qed

end
