(* ===== verification/AiTools.thy ===== *)
theory AiTools
  imports RequestContext
begin

text \<open>
  The tools that the AI module offers to a model, and what stands between a model's request and a tool
  (\<^verbatim>\<open>modules/ai\<close>): the registry and its role filter (\<^verbatim>\<open>tools/ai-tool.registry.ts\<close>), the hooks
  (\<^verbatim>\<open>hooks/ai-hook.registry.ts\<close>), the policies over arguments (\<^verbatim>\<open>services/core-ai-tool-policy.service.ts\<close>), the remembered
  consents (\<^verbatim>\<open>services/core-ai-tool-grant.service.ts\<close>), the conversations and the record of runs.

  Tools and hooks are external: functions over the state \<open>ai_db\<close>, all of which they may change. Regular expressions,
  \<^verbatim>\<open>String(v)\<close> and \<^verbatim>\<open>JSON\<close> are parameters (\<open>ai_runtime\<close>). Failing writes, warnings and the learning from failures are left
  out.
\<close>

subsection \<open>State\<close>

record policy_rule =
  pr_action :: string
  pr_argument :: string
  pr_pattern :: string
  pr_flags :: "string option"
  pr_reason :: "string option"

record tool_policy =
  tp_scope :: string
  tp_refId :: "string option"
  tp_tool :: string
  tp_enabled :: "bool option"
  tp_rules :: "policy_rule list"

record tool_grant =
  tg_scope :: string
  tg_refId :: string
  tg_tool :: string
  tg_decision :: "string option"
  tg_enabled :: "bool option"
  tg_expiresAt :: "int option"

record chat_turn =
  ct_role :: string
  ct_content :: string

record conversation =
  cv_id :: string
  cv_createdBy :: "string option"
  cv_messages :: "chat_turn list"

record interaction =
  in_userId :: "string option"
  in_tenantId :: "string option"
  in_createdAt :: int
  in_totalTokens :: "int option"
  in_prompt :: string

text \<open>\<open>ad_policies\<close> is \<open>None\<close> while the query of the policies fails; \<open>ad_rest\<close> is everything else.\<close>

record 'r ai_db =
  ad_policies :: "tool_policy list option"
  ad_grants :: "tool_grant list"
  ad_conversations :: "conversation list"
  ad_interactions :: "interaction list"
  ad_now :: int
  ad_rest :: 'r

record ai_runtime =
  rt_regexp :: "string \<Rightarrow> string \<Rightarrow> (string \<Rightarrow> bool) option"
  rt_String :: "jv \<Rightarrow> string"
  rt_parse :: "string \<Rightarrow> jv option"
  rt_validObjectId :: "string \<Rightarrow> bool"

subsection \<open>Tools and the registry\<close>

datatype tool_reply = Returned jv | Threw string

record 'r ai_tool =
  tl_name :: string
  tl_roles :: "string list option"
  tl_mutating :: bool
  tl_destructive :: bool
  tl_authorize :: "(jv \<Rightarrow> user option \<Rightarrow> 'r ai_db \<Rightarrow> string + bool \<times> string option) option"
  tl_execute :: "jv \<Rightarrow> user option \<Rightarrow> 'r ai_db \<Rightarrow> tool_reply \<times> 'r ai_db"

type_synonym 'r tool_registry = "(string, 'r ai_tool) jsmap"

definition tools_register :: "'r ai_tool \<Rightarrow> 'r tool_registry \<Rightarrow> 'r tool_registry" where
  "tools_register t reg = AList.update (tl_name t) t reg"

definition tools_unregister :: "string \<Rightarrow> 'r tool_registry \<Rightarrow> 'r tool_registry" where
  "tools_unregister n reg = AList.delete n reg"

definition tools_all :: "'r tool_registry \<Rightarrow> 'r ai_tool list" where
  "tools_all reg = map snd reg"

definition userCanAccess :: "'r ai_tool \<Rightarrow> user option \<Rightarrow> bool" where
  "userCanAccess t usr =
     (let roles = (case tl_roles t of None \<Rightarrow> [] | Some rs \<Rightarrow> rs)
      in if S_NO_ONE \<in> set roles then False
         else if S_EVERYONE \<in> set roles then True
         else (case usr of
             None \<Rightarrow> False
           | Some u \<Rightarrow>
               let held = (case u_roles u of None \<Rightarrow> [] | Some rs \<Rightarrow> rs)
               in if u_id u = [] then False
                  else if ADMIN \<in> set held then True
                  else if S_USER \<in> set roles then True
                  else if S_VERIFIED \<in> set roles \<and> (u_verified u \<or> u_verifiedAt u \<or> u_emailVerified u) then True
                  else list_ex (\<lambda>r. r \<in> set held)
                    (filter (\<lambda>r. r \<notin> {S_CREATOR, S_EVERYONE, S_NO_ONE, S_SELF, S_USER, S_VERIFIED}) roles)))"

definition tools_forUser :: "'r tool_registry \<Rightarrow> user option \<Rightarrow> 'r ai_tool list" where
  "tools_forUser reg usr = filter (\<lambda>t. userCanAccess t usr) (tools_all reg)"

definition find_tool :: "'r ai_tool list \<Rightarrow> string \<Rightarrow> 'r ai_tool option" where
  "find_tool tools n = find (\<lambda>t. tl_name t = n) tools"

subsection \<open>Hooks\<close>

text \<open>A \<^verbatim>\<open>preToolUse\<close> throws, returns nothing, or decides: new arguments, whether to block, the reason.\<close>

datatype hook_reply = HookThrew | HookNothing | HookDecided "jv option" bool "string option"

record 'r ai_hook =
  hk_name :: string
  hk_preToolUse :: "(string \<Rightarrow> jv \<Rightarrow> 'r ai_db \<Rightarrow> hook_reply \<times> 'r ai_db) option"
  hk_postToolUse :: "(string \<Rightarrow> jv \<Rightarrow> jv \<Rightarrow> bool \<Rightarrow> 'r ai_db \<Rightarrow> 'r ai_db) option"
  hk_sessionStart :: "('r ai_db \<Rightarrow> 'r ai_db) option"
  hk_stop :: "('r ai_db \<Rightarrow> 'r ai_db) option"

definition hook_register :: "'r ai_hook \<Rightarrow> 'r ai_hook list \<Rightarrow> 'r ai_hook list" where
  "hook_register h hooks = (if hk_name h = [] \<or> list_ex (\<lambda>x. hk_name x = hk_name h) hooks then hooks else hooks @ [h])"

record pre_decision =
  pd_args :: "jv option"
  pd_block :: bool
  pd_reason :: "string option"

definition no_decision :: pre_decision where
  "no_decision = \<lparr>pd_args = None, pd_block = False, pd_reason = None\<rparr>"

text \<open>The decision, the arguments that the call carries afterwards, and the state.\<close>

fun runPreToolUse :: "'r ai_hook list \<Rightarrow> string \<Rightarrow> jv \<Rightarrow> pre_decision \<Rightarrow> 'r ai_db \<Rightarrow> pre_decision \<times> jv \<times> 'r ai_db" where
  "runPreToolUse [] n args merged w = (merged, args, w)"
| "runPreToolUse (h # hooks) n args merged w =
     (case hk_preToolUse h of
        None \<Rightarrow> runPreToolUse hooks n args merged w
      | Some pre \<Rightarrow> (case pre n args w of
            (HookDecided newArgs block reason, w') \<Rightarrow>
              (let args' = (case newArgs of None \<Rightarrow> args | Some a \<Rightarrow> a);
                   merged' = merged\<lparr>pd_args := (case newArgs of None \<Rightarrow> pd_args merged | Some a \<Rightarrow> Some a)\<rparr>
               in if block then (merged'\<lparr>pd_block := True, pd_reason := (if js_truthy reason then reason else pd_reason merged')\<rparr>, args', w')
                  else runPreToolUse hooks n args' merged' w')
          | (_, w') \<Rightarrow> runPreToolUse hooks n args merged w'))"

definition runPostToolUse :: "'r ai_hook list \<Rightarrow> string \<Rightarrow> jv \<Rightarrow> jv \<Rightarrow> bool \<Rightarrow> 'r ai_db \<Rightarrow> 'r ai_db" where
  "runPostToolUse hooks n args result success w =
     fold (\<lambda>h w. case hk_postToolUse h of None \<Rightarrow> w | Some post \<Rightarrow> post n args result success w) hooks w"

definition runSessionStart :: "'r ai_hook list \<Rightarrow> 'r ai_db \<Rightarrow> 'r ai_db" where
  "runSessionStart hooks w = fold (\<lambda>h w. case hk_sessionStart h of None \<Rightarrow> w | Some f \<Rightarrow> f w) hooks w"

definition runStop :: "'r ai_hook list \<Rightarrow> 'r ai_db \<Rightarrow> 'r ai_db" where
  "runStop hooks w = fold (\<lambda>h w. case hk_stop h of None \<Rightarrow> w | Some f \<Rightarrow> f w) hooks w"

subsection \<open>Policies\<close>

datatype policy_action = PolicyAllow | PolicyAsk | PolicyDeny

record policy_ctx =
  pc_roles :: "string list"
  pc_tenantId :: "string option"
  pc_userId :: "string option"

definition ref_candidates :: "policy_ctx \<Rightarrow> (string option \<times> string) list" where
  "ref_candidates ctx = (None, ''tool'') # (if js_truthy (pc_userId ctx) then [(pc_userId ctx, ''user'')] else [])
     @ (if js_truthy (pc_tenantId ctx) then [(pc_tenantId ctx, ''tenant'')] else []) @ map (\<lambda>r. (Some r, ''role'')) (pc_roles ctx)"

definition policy_matches :: "string \<Rightarrow> policy_ctx \<Rightarrow> tool_policy \<Rightarrow> bool" where
  "policy_matches tool ctx p = ((tp_refId p, tp_scope p) \<in> set (ref_candidates ctx) \<and> tp_enabled p \<noteq> Some False \<and> tp_tool p = tool)"

definition rule_matches :: "ai_runtime \<Rightarrow> jv \<Rightarrow> policy_rule \<Rightarrow> bool" where
  "rule_matches rt args r =
     (pr_argument r \<noteq> [] \<and> pr_pattern r \<noteq> [] \<and> pr_action r \<noteq> [] \<and> jget args (pr_argument r) \<notin> {JUndef, JNull}
      \<and> (case rt_regexp rt (pr_pattern r) (case pr_flags r of None \<Rightarrow> [] | Some f \<Rightarrow> f) of
           None \<Rightarrow> False | Some test \<Rightarrow> test (rt_String rt (jget args (pr_argument r)))))"

text \<open>The decisions found so far: the last deny, the first ask, the first allow, each with its reason.\<close>

record policy_found =
  pf_deny :: "string option option"
  pf_ask :: "string option option"
  pf_allow :: "string option option"

definition consider_rule :: "ai_runtime \<Rightarrow> jv \<Rightarrow> policy_rule \<Rightarrow> policy_found \<Rightarrow> policy_found" where
  "consider_rule rt args r f =
     (if \<not> rule_matches rt args r then f
      else if pr_action r = ''deny'' then f\<lparr>pf_deny := Some (pr_reason r)\<rparr>
      else if pr_action r = ''ask'' then (if pf_ask f = None then f\<lparr>pf_ask := Some (pr_reason r)\<rparr> else f)
      else if pr_action r = ''allow'' then (if pf_allow f = None then f\<lparr>pf_allow := Some (pr_reason r)\<rparr> else f)
      else f)"

definition policy_evaluate :: "ai_runtime \<Rightarrow> 'r ai_db \<Rightarrow> string \<Rightarrow> jv \<Rightarrow> policy_ctx \<Rightarrow> (policy_action \<times> string option) option" where
  "policy_evaluate rt w tool args ctx =
     (if tool = [] then None
      else (case ad_policies w of
          None \<Rightarrow> None
        | Some ps \<Rightarrow>
            let f = fold (consider_rule rt args) (concat (map tp_rules (filter (policy_matches tool ctx) ps)))
                      \<lparr>pf_deny = None, pf_ask = None, pf_allow = None\<rparr>
            in (case pf_deny f of Some r \<Rightarrow> Some (PolicyDeny, r)
                | None \<Rightarrow> (case pf_ask f of Some r \<Rightarrow> Some (PolicyAsk, r)
                | None \<Rightarrow> (case pf_allow f of Some r \<Rightarrow> Some (PolicyAllow, r) | None \<Rightarrow> None)))))"

subsection \<open>Remembered consents\<close>

record grant_scopes =
  gs_conversationId :: "string option"
  gs_tenantId :: "string option"
  gs_userId :: "string option"

definition grant_candidates :: "grant_scopes \<Rightarrow> (string \<times> string) list" where
  "grant_candidates gs = (if js_truthy (gs_conversationId gs) then [(the (gs_conversationId gs), ''conversation'')] else [])
     @ (if js_truthy (gs_userId gs) then [(the (gs_userId gs), ''user'')] else [])
     @ (if js_truthy (gs_tenantId gs) then [(the (gs_tenantId gs), ''tenant'')] else [])"

definition grant_active :: "int \<Rightarrow> tool_grant \<Rightarrow> bool" where
  "grant_active now g = ((case tg_expiresAt g of None \<Rightarrow> True | Some e \<Rightarrow> e > now)
     \<and> tg_decision g \<noteq> Some ''deny'' \<and> tg_enabled g \<noteq> Some False)"

definition findActiveGrant :: "'r ai_db \<Rightarrow> string \<Rightarrow> grant_scopes \<Rightarrow> string option" where
  "findActiveGrant w tool scopes =
     (if tool = [] then None
      else map_option snd (find (\<lambda>(ref, scope). list_ex (\<lambda>g. grant_active (ad_now w) g \<and> tg_refId g = ref \<and> tg_scope g = scope \<and> tg_tool g = tool)
             (ad_grants w)) (grant_candidates scopes)))"

text \<open>\<open>grant\<close> without an expiry: an upsert over the unique index of scope, reference and tool.\<close>

definition grant_tool :: "string \<Rightarrow> string \<Rightarrow> string \<Rightarrow> 'r ai_db \<Rightarrow> 'r ai_db" where
  "grant_tool tool scope refId w =
     (let here = (\<lambda>g. tg_refId g = refId \<and> tg_scope g = scope \<and> tg_tool g = tool)
      in if tool = [] \<or> refId = [] then w
         else if list_ex here (ad_grants w)
         then w\<lparr>ad_grants := map (\<lambda>g. if here g then g\<lparr>tg_decision := Some ''allow'', tg_enabled := Some True, tg_expiresAt := None\<rparr> else g) (ad_grants w)\<rparr>
         else w\<lparr>ad_grants := ad_grants w @ [\<lparr>tg_scope = scope, tg_refId = refId, tg_tool = tool, tg_decision = Some ''allow'',
                 tg_enabled = Some True, tg_expiresAt = None\<rparr>]\<rparr>)"

subsection \<open>Conversations\<close>

definition maxRetainedMessages :: nat where "maxRetainedMessages = 500"

text \<open>The update casts the id first; the cast of an invalid one throws.\<close>

definition appendMessage :: "ai_runtime \<Rightarrow> string \<Rightarrow> chat_turn \<Rightarrow> 'r ai_db \<Rightarrow> string + 'r ai_db" where
  "appendMessage rt i turn w =
     (if \<not> rt_validObjectId rt i then Inl ''CastError''
      else Inr (w\<lparr>ad_conversations := map (\<lambda>c. if cv_id c = i
        then c\<lparr>cv_messages := drop (length (cv_messages c) + 1 - maxRetainedMessages) (cv_messages c @ [turn])\<rparr> else c) (ad_conversations w)\<rparr>))"

definition loadRecentMessages :: "ai_runtime \<Rightarrow> 'r ai_db \<Rightarrow> string \<Rightarrow> user option \<Rightarrow> nat \<Rightarrow> chat_turn list" where
  "loadRecentMessages rt w i usr limit =
     (if i = [] \<or> \<not> rt_validObjectId rt i then []
      else (case find (\<lambda>c. cv_id c = i) (ad_conversations w) of
          None \<Rightarrow> []
        | Some c \<Rightarrow>
            let isOwner = (case usr of None \<Rightarrow> False | Some u \<Rightarrow> u_id u \<noteq> [] \<and> cv_createdBy c = Some (u_id u));
                isAdmin = (case usr of None \<Rightarrow> False | Some u \<Rightarrow> (case u_roles u of None \<Rightarrow> False | Some rs \<Rightarrow> ADMIN \<in> set rs))
            in if \<not> isOwner \<and> \<not> isAdmin then []
               else drop (length (cv_messages c) - limit) (cv_messages c)))"

subsection \<open>What these parts promise\<close>

lemma find_tool_Some: "find_tool tools n = Some t \<Longrightarrow> t \<in> set tools \<and> tl_name t = n"
  by (auto simp: find_tool_def find_Some_iff)

text \<open>Only a tool whose roles the user satisfies is offered; a locked one to nobody.\<close>

lemma forUser_accessible: "t \<in> set (tools_forUser reg usr) \<Longrightarrow> userCanAccess t usr"
  by (simp add: tools_forUser_def)

text \<open>The reference: a matching deny wins, then a matching ask, then a matching allow, whatever the order of the rules.\<close>

definition rule_hits :: "ai_runtime \<Rightarrow> tool_policy list \<Rightarrow> string \<Rightarrow> jv \<Rightarrow> policy_ctx \<Rightarrow> string set" where
  "rule_hits rt ps tool args ctx =
     {pr_action r | r p. p \<in> set ps \<and> policy_matches tool ctx p \<and> r \<in> set (tp_rules p) \<and> rule_matches rt args r}"

lemma fold_consider_rule:
  assumes "f' = fold (consider_rule rt args) rs f"
  shows "pf_deny f' \<noteq> None \<longleftrightarrow> pf_deny f \<noteq> None \<or> (\<exists>r\<in>set rs. rule_matches rt args r \<and> pr_action r = ''deny'')"
    and "pf_ask f' \<noteq> None \<longleftrightarrow> pf_ask f \<noteq> None \<or> (\<exists>r\<in>set rs. rule_matches rt args r \<and> pr_action r = ''ask'')"
    and "pf_allow f' \<noteq> None \<longleftrightarrow> pf_allow f \<noteq> None \<or> (\<exists>r\<in>set rs. rule_matches rt args r \<and> pr_action r = ''allow'')"
proof -
  have "(pf_deny f' \<noteq> None \<longleftrightarrow> pf_deny f \<noteq> None \<or> (\<exists>r\<in>set rs. rule_matches rt args r \<and> pr_action r = ''deny''))
    \<and> (pf_ask f' \<noteq> None \<longleftrightarrow> pf_ask f \<noteq> None \<or> (\<exists>r\<in>set rs. rule_matches rt args r \<and> pr_action r = ''ask''))
    \<and> (pf_allow f' \<noteq> None \<longleftrightarrow> pf_allow f \<noteq> None \<or> (\<exists>r\<in>set rs. rule_matches rt args r \<and> pr_action r = ''allow''))"
    using assms
  proof (induction rs arbitrary: f)
    case (Cons r rs)
    from Cons.IH [of "consider_rule rt args r f"] Cons.prems show ?case
      by (auto simp: consider_rule_def)
  qed simp
  then show "pf_deny f' \<noteq> None \<longleftrightarrow> pf_deny f \<noteq> None \<or> (\<exists>r\<in>set rs. rule_matches rt args r \<and> pr_action r = ''deny'')"
    and "pf_ask f' \<noteq> None \<longleftrightarrow> pf_ask f \<noteq> None \<or> (\<exists>r\<in>set rs. rule_matches rt args r \<and> pr_action r = ''ask'')"
    and "pf_allow f' \<noteq> None \<longleftrightarrow> pf_allow f \<noteq> None \<or> (\<exists>r\<in>set rs. rule_matches rt args r \<and> pr_action r = ''allow'')"
    by blast+
qed

text \<open>
  The policy of a tool call is decided by precedence, not by order: deny if a rule of any matching policy denies, otherwise
  ask if one asks, otherwise allow if one allows, otherwise nothing; and nothing is decided while the policies cannot be read.
\<close>

theorem policy_precedence:
  "map_option fst (policy_evaluate rt w tool args ctx) =
     (if tool = [] \<or> ad_policies w = None then None
      else let hits = rule_hits rt (the (ad_policies w)) tool args ctx
           in if ''deny'' \<in> hits then Some PolicyDeny else if ''ask'' \<in> hits then Some PolicyAsk
              else if ''allow'' \<in> hits then Some PolicyAllow else None)"
proof (cases "tool = [] \<or> ad_policies w = None")
  case True
  then show ?thesis by (auto simp: policy_evaluate_def)
next
  case False
  then obtain ps where ps: "ad_policies w = Some ps" and tool: "tool \<noteq> []" by auto
  define rs where "rs = concat (map tp_rules (filter (policy_matches tool ctx) ps))"
  define f where "f = fold (consider_rule rt args) rs \<lparr>pf_deny = None, pf_ask = None, pf_allow = None\<rparr>"
  have h: "(\<exists>r\<in>set rs. rule_matches rt args r \<and> pr_action r = a) \<longleftrightarrow> a \<in> rule_hits rt ps tool args ctx" for a
    by (auto simp: rs_def rule_hits_def)
  have "map_option fst (policy_evaluate rt w tool args ctx) =
      (if pf_deny f \<noteq> None then Some PolicyDeny else if pf_ask f \<noteq> None then Some PolicyAsk
       else if pf_allow f \<noteq> None then Some PolicyAllow else None)"
    by (auto simp: policy_evaluate_def tool ps rs_def [symmetric] f_def [symmetric] Let_def split: option.split)
  then show ?thesis
    by (simp only: fold_consider_rule [OF f_def] policy_found.simps simp_thms h) (simp add: tool ps Let_def)
qed

lemma list_ex_map: "list_ex P (map f xs) \<longleftrightarrow> list_ex (\<lambda>x. P (f x)) xs"
  by (induction xs) simp_all

lemma grant_tool_active:
  assumes "tool \<noteq> []" "refId \<noteq> []"
  shows "list_ex (\<lambda>g. grant_active now g \<and> tg_refId g = refId \<and> tg_scope g = scope \<and> tg_tool g = tool)
    (ad_grants (grant_tool tool scope refId w))"
proof (cases "list_ex (\<lambda>g. tg_refId g = refId \<and> tg_scope g = scope \<and> tg_tool g = tool) (ad_grants w)")
  case True
  then obtain g where g: "g \<in> set (ad_grants w)" "tg_refId g = refId" "tg_scope g = scope" "tg_tool g = tool" by (auto simp: list_ex_iff)
  let ?g = "g\<lparr>tg_decision := Some ''allow'', tg_enabled := Some True, tg_expiresAt := None\<rparr>"
  have "?g \<in> set (ad_grants (grant_tool tool scope refId w))"
    using g assms True by (auto simp: grant_tool_def Let_def intro!: image_eqI [of _ _ g])
  moreover have "grant_active now ?g \<and> tg_refId ?g = refId \<and> tg_scope ?g = scope \<and> tg_tool ?g = tool" using g by (simp add: grant_active_def)
  ultimately show ?thesis unfolding list_ex_iff by blast
next
  case False
  then show ?thesis using assms by (auto simp: grant_tool_def Let_def grant_active_def list_ex_iff)
qed

text \<open>
  A consent that was remembered is found by every later call in its scope, and what is found is an active grant for this
  tool in one of the scopes of the caller.
\<close>

lemma findActiveGrant_Some:
  "findActiveGrant w tool scopes = Some s \<Longrightarrow> \<exists>ref g. (ref, s) \<in> set (grant_candidates scopes) \<and> g \<in> set (ad_grants w)
     \<and> grant_active (ad_now w) g \<and> tg_refId g = ref \<and> tg_scope g = s \<and> tg_tool g = tool"
  by (fastforce simp: findActiveGrant_def find_Some_iff list_ex_iff in_set_conv_nth split: if_splits)

lemma findActiveGrant_None:
  "tool \<noteq> [] \<Longrightarrow> findActiveGrant w tool scopes = None \<longleftrightarrow> (\<forall>(ref, s)\<in>set (grant_candidates scopes).
     \<not> list_ex (\<lambda>g. grant_active (ad_now w) g \<and> tg_refId g = ref \<and> tg_scope g = s \<and> tg_tool g = tool) (ad_grants w))"
  by (auto simp: findActiveGrant_def find_None_iff)

lemma grant_tool_now [simp]: "ad_now (grant_tool tool scope refId w) = ad_now w"
  by (simp add: grant_tool_def Let_def)

theorem remembered_consent_found:
  assumes "tool \<noteq> []" "refId \<noteq> []" "(refId, scope) \<in> set (grant_candidates scopes)"
  shows "findActiveGrant (grant_tool tool scope refId w) tool scopes \<noteq> None"
proof
  assume "findActiveGrant (grant_tool tool scope refId w) tool scopes = None"
  then have "\<not> list_ex (\<lambda>g. grant_active (ad_now w) g \<and> tg_refId g = refId \<and> tg_scope g = scope \<and> tg_tool g = tool)
      (ad_grants (grant_tool tool scope refId w))"
    using assms(3) by (auto simp: findActiveGrant_None [OF assms(1)])
  then show False using grant_tool_active [OF assms(1,2)] by blast
qed

end
