(* ===== verification/AiText.thy ===== *)
theory AiText
  imports AiTools
begin

text \<open>
  Texts of the AI orchestrator, \<^verbatim>\<open>modules/ai/services/core-ai.service.ts\<close>: finding the JSON object in a model's answer, keeping the
  messages within the context window, cutting and chunking texts. A character is a code unit below 256; the ellipsis of the cut
  marks is written as one such unit.
\<close>

subsection \<open>JSON\<close>

text \<open>The text of \<^verbatim>\<open>JSON.stringify(v)\<close>.\<close>

definition DQUOTE :: char where "DQUOTE = CHR 0x22"
definition BSLASH :: char where "BSLASH = CHR 0x5C"

definition hex_digit :: "nat \<Rightarrow> char" where
  "hex_digit n = char_of (if n < 10 then 48 + n else 87 + n)"

definition json_escape :: "char \<Rightarrow> string" where
  "json_escape c =
     (if c = DQUOTE \<or> c = BSLASH then [BSLASH, c]
      else if c = CHR 8 then [BSLASH, CHR ''b''] else if c = CHR 9 then [BSLASH, CHR ''t'']
      else if c = CHR 10 then [BSLASH, CHR ''n''] else if c = CHR 12 then [BSLASH, CHR ''f'']
      else if c = CHR 13 then [BSLASH, CHR ''r'']
      else if (of_char c :: nat) < 32 then [BSLASH, CHR ''u'', CHR ''0'', CHR ''0'', hex_digit (of_char c div 16), hex_digit (of_char c mod 16)]
      else [c])"

definition json_quote :: "string \<Rightarrow> string" where
  "json_quote s = DQUOTE # concat (map json_escape s) @ [DQUOTE]"

fun json_text :: "jv \<Rightarrow> string" where
  "json_text JUndef = ''null''"
| "json_text JNull = ''null''"
| "json_text (JBool b) = (if b then ''true'' else ''false'')"
| "json_text (JNum n) = show_int n"
| "json_text (JStr s) = json_quote s"
| "json_text (JArr xs) = ''['' @ js_join '','' (map json_text xs) @ '']''"
| "json_text (JObj m) = ''{'' @ js_join '','' (map (\<lambda>kv. json_quote (fst kv) @ '':'' @ json_text (snd kv)) (filter (\<lambda>kv. snd kv \<noteq> JUndef) m)) @ ''}''"

text \<open>\<open>firstBalancedJson\<close>: the text up to the brace that closes the first one; braces in strings do not count.\<close>

fun balanced_prefix :: "int \<Rightarrow> bool \<Rightarrow> bool \<Rightarrow> string \<Rightarrow> string option" where
  "balanced_prefix depth inString escaped [] = None"
| "balanced_prefix depth inString escaped (ch # cs) =
     (if inString
      then map_option (Cons ch)
        (if escaped then balanced_prefix depth True False cs
         else if ch = BSLASH then balanced_prefix depth True True cs
         else if ch = DQUOTE then balanced_prefix depth False False cs
         else balanced_prefix depth True False cs)
      else if ch = DQUOTE then map_option (Cons ch) (balanced_prefix depth True escaped cs)
      else if ch = CHR ''{'' then map_option (Cons ch) (balanced_prefix (depth + 1) False escaped cs)
      else if ch = CHR ''}'' then (if depth - 1 = 0 then Some [ch] else map_option (Cons ch) (balanced_prefix (depth - 1) False escaped cs))
      else map_option (Cons ch) (balanced_prefix depth False escaped cs))"

definition firstBalancedJson :: "string \<Rightarrow> nat \<Rightarrow> string option" where
  "firstBalancedJson text from = balanced_prefix 0 False False (drop from text)"

text \<open>What stands before and behind the first code fence.\<close>

fun split_fence :: "string \<Rightarrow> (string \<times> string) option" where
  "split_fence (a # b # c # r) =
     (if a = CHR ''`'' \<and> b = CHR ''`'' \<and> c = CHR ''`'' then Some ([], r)
      else map_option (apfst (Cons a)) (split_fence (b # c # r)))"
| "split_fence _ = None"

definition fence_content :: "string \<Rightarrow> string option" where
  "fence_content t = (case split_fence t of None \<Rightarrow> None
     | Some (_, r) \<Rightarrow> map_option fst (split_fence (if js_lower (take 4 r) = ''json'' then drop 4 r else r)))"

fun index_of :: "char \<Rightarrow> string \<Rightarrow> nat option" where
  "index_of c [] = None"
| "index_of c (x # xs) = (if x = c then Some 0 else map_option Suc (index_of c xs))"

definition last_index_of :: "char \<Rightarrow> string \<Rightarrow> nat option" where
  "last_index_of c s = map_option (\<lambda>i. length s - 1 - i) (index_of c (rev s))"

definition extractJsonObject :: "ai_runtime \<Rightarrow> string \<Rightarrow> jv option" where
  "extractJsonObject rt text =
     (if text = [] then None
      else (let t0 = js_trim text;
                t = (case fence_content t0 of None \<Rightarrow> t0 | Some inner \<Rightarrow> js_trim inner)
            in (case index_of (CHR ''{'') t of
                None \<Rightarrow> None
              | Some start \<Rightarrow>
                  (case (case firstBalancedJson t start of None \<Rightarrow> None | Some b \<Rightarrow> rt_parse rt b) of
                     Some v \<Rightarrow> Some v
                   | None \<Rightarrow>
                       (case last_index_of (CHR ''}'') t of
                          None \<Rightarrow> None
                        | Some e \<Rightarrow> if e > start then rt_parse rt (take (e + 1 - start) (drop start t)) else None)))))"

subsection \<open>Tool calls in an answer\<close>

record tool_call =
  tc_name :: string
  tc_args :: jv

definition nullish :: "jv \<Rightarrow> bool" where
  "nullish v = (v = JUndef \<or> v = JNull)"

definition args_or_empty :: "jv \<Rightarrow> jv" where
  "args_or_empty v = (if nullish v then JObj [] else v)"

text \<open>The entries that have a name of type string.\<close>

definition calls_of :: "jv list \<Rightarrow> tool_call list" where
  "calls_of xs = concat (map (\<lambda>c. case jget c ''name'' of JStr n \<Rightarrow> [\<lparr>tc_name = n, tc_args = args_or_empty (jget c ''arguments'')\<rparr>] | _ \<Rightarrow> []) xs)"

definition extractToolCalls :: "ai_runtime \<Rightarrow> string \<Rightarrow> tool_call list option" where
  "extractToolCalls rt text =
     (case extractJsonObject rt text of
        None \<Rightarrow> None
      | Some v \<Rightarrow> (case jget v ''tool_calls'' of JArr xs \<Rightarrow> if xs = [] then None else Some (calls_of xs) | _ \<Rightarrow> None))"

subsection \<open>Messages and the context window\<close>

datatype message_role = System | User | Assistant

record llm_message =
  lm_role :: message_role
  lm_content :: string
  lm_attachments :: "jv list option"

record ai_connection =
  ac_id :: string
  ac_contextWindow :: "int option"
  ac_defaultMaxTokens :: "int option"

definition ELLIPSIS :: char where "ELLIPSIS = CHR 0x85"

definition estimateTokens :: "string \<Rightarrow> int" where
  "estimateTokens text = (int (length text) + 3) div 4"

definition contextBudget :: "int option \<Rightarrow> ai_connection \<Rightarrow> int" where
  "contextBudget configWindow c =
     (let window = (case ac_contextWindow c of Some w \<Rightarrow> w | None \<Rightarrow> (case configWindow of Some w \<Rightarrow> w | None \<Rightarrow> 8192));
          reserve = (case ac_defaultMaxTokens c of Some r \<Rightarrow> r | None \<Rightarrow> 2048)
      in max 512 (window - reserve - 256))"

definition context_total :: "llm_message list \<Rightarrow> int" where
  "context_total ms = sum_list (map (\<lambda>m. estimateTokens (lm_content m) + 4) ms)"

text \<open>The oldest messages behind the first are dropped while the total is above the budget and more than two are left.\<close>

fun drop_oldest :: "int \<Rightarrow> llm_message list \<Rightarrow> llm_message list" where
  "drop_oldest budget (a # b # c # ms) =
     (if context_total (a # b # c # ms) > budget then drop_oldest budget (a # c # ms) else a # b # c # ms)"
| "drop_oldest budget ms = ms"

definition truncation_mark :: string where
  "truncation_mark = CHR 10 # ELLIPSIS # ''[truncated to fit the context window]''"

definition truncate_last :: "int \<Rightarrow> llm_message list \<Rightarrow> llm_message list" where
  "truncate_last budget ms =
     (let content = lm_content (last ms);
          keepChars = max 0 (int (length content) - (context_total ms - budget) * 4)
      in if context_total ms > budget \<and> keepChars < int (length content)
         then butlast ms @ [(last ms)\<lparr>lm_content := take (nat keepChars) content @ truncation_mark\<rparr>]
         else ms)"

definition fitMessagesToContext :: "int \<Rightarrow> llm_message list \<Rightarrow> llm_message list" where
  "fitMessagesToContext budget ms = (if ms = [] then [] else truncate_last budget (drop_oldest budget ms))"

subsection \<open>Cutting and chunking\<close>

definition capText :: "string \<Rightarrow> nat \<Rightarrow> string" where
  "capText text n = (if length text > n then take n text @ ELLIPSIS # ''[truncated]'' else text)"

definition capToolResults :: "nat \<Rightarrow> string \<Rightarrow> string" where
  "capToolResults n serialized = (if length serialized > n
     then take n serialized @ CHR 10 # ELLIPSIS # ''[tool result truncated to '' @ show_nat n @ '' characters]'' else serialized)"

text \<open>The matches of one or more characters that are no space with the spaces behind them, or of spaces.\<close>

function chunkText :: "string \<Rightarrow> string list" where
  "chunkText text =
     (if text = [] then []
      else let word = takeWhile (\<lambda>c. \<not> js_ws c) text; rest = dropWhile (\<lambda>c. \<not> js_ws c) text
           in (word @ takeWhile js_ws rest) # chunkText (dropWhile js_ws rest))"
  by pat_completeness auto
termination
proof (relation "measure length")
  fix s :: string and word rest
  assume t: "s \<noteq> []" and rest: "rest = dropWhile (\<lambda>c. \<not> js_ws c) s"
  have "length (dropWhile js_ws rest) < length s"
  proof (cases "js_ws (hd s)")
    case True
    then have "rest = hd s # tl s" using t rest by (cases s) auto
    then show ?thesis using True length_dropWhile_le [of js_ws "tl s"] t by (cases s) auto
  next
    case False
    then have "length rest < length s" using t rest length_dropWhile_le [of "\<lambda>c. \<not> js_ws c" "tl s"] by (cases s) (auto simp: le_imp_less_Suc)
    then show ?thesis using length_dropWhile_le [of js_ws rest] by (rule le_less_trans [rotated])
  qed
  then show "(dropWhile js_ws rest, s) \<in> measure length" by simp
qed auto

declare chunkText.simps [simp del]

subsection \<open>Chunks\<close>

text \<open>
  Streaming loses nothing: the chunks of an answer put together are the answer, and no chunk is empty.
\<close>

theorem chunks_concatenate: "concat (chunkText t) = t \<and> [] \<notin> set (chunkText t)"
proof (induction t rule: chunkText.induct)
  case (1 t)
  show ?case
  proof (cases "t = []")
    case False
    let ?w = "takeWhile (\<lambda>c. \<not> js_ws c) t" and ?r = "dropWhile (\<lambda>c. \<not> js_ws c) t"
    have "?w @ takeWhile js_ws ?r \<noteq> []"
    proof (cases "js_ws (hd t)")
      case True
      then have "takeWhile js_ws ?r = hd t # takeWhile js_ws (tl t)" using False by (cases t) auto
      then show ?thesis by simp
    next
      case False
      then show ?thesis using \<open>t \<noteq> []\<close> by (cases t) auto
    qed
    moreover have "?w @ takeWhile js_ws ?r @ dropWhile js_ws ?r = t" by simp
    ultimately show ?thesis using 1 False by (simp add: chunkText.simps [of t] Let_def)
  qed (simp add: chunkText.simps)
qed

subsection \<open>The first JSON object\<close>

text \<open>A text that the scanner passes through at depth \<open>d\<close>.\<close>

definition passes :: "int \<Rightarrow> string \<Rightarrow> bool" where
  "passes d x = (\<forall>r. balanced_prefix d False False (x @ r) = map_option ((@) x) (balanced_prefix d False False r))"

lemma passesD: "passes d x \<Longrightarrow> balanced_prefix d False False (x @ r) = map_option ((@) x) (balanced_prefix d False False r)"
  by (simp add: passes_def)

lemma passes_Nil [simp]: "passes d []"
  by (simp add: passes_def map_option_case split: option.splits)

lemma passes_append: "passes d x \<Longrightarrow> passes d y \<Longrightarrow> passes d (x @ y)"
  by (simp add: passes_def map_option_case split: option.splits)

definition plain_char :: "char \<Rightarrow> bool" where
  "plain_char c = (c \<noteq> DQUOTE \<and> c \<noteq> CHR ''{'' \<and> c \<noteq> CHR ''}'')"

lemma passes_plain: "list_all plain_char x \<Longrightarrow> passes d x"
proof (induction x)
  case (Cons c x)
  have "passes d [c]" using Cons.prems by (simp add: passes_def plain_char_def map_option_case split: option.splits)
  then show ?case using passes_append [of d "[c]" x] Cons by simp
qed simp

lemma passes_join: "(\<And>x. x \<in> set xs \<Longrightarrow> passes d x) \<Longrightarrow> passes d (js_join '','' xs)"
proof (induction "'',''" xs rule: js_join.induct)
  case (3 x y zs)
  have comma: "passes d '',''" by (rule passes_plain) (simp add: plain_char_def DQUOTE_def)
  have "passes d (x @ '','' @ js_join '','' (y # zs))" by (intro passes_append comma 3) (simp_all add: 3)
  then show ?case by simp
qed simp_all

lemma hex_digit_plain:
  assumes "n < 16"
  shows "hex_digit n \<noteq> DQUOTE \<and> hex_digit n \<noteq> BSLASH"
proof -
  have "(of_char (hex_digit n) :: nat) = (if n < 10 then 48 + n else 87 + n)" using assms by (simp add: hex_digit_def)
  moreover have "(of_char DQUOTE :: nat) = 34" "(of_char BSLASH :: nat) = 92" by (simp_all add: DQUOTE_def BSLASH_def)
  ultimately show ?thesis using assms by (auto split: if_splits)
qed

lemma scan_escape: "balanced_prefix d True False (json_escape c @ r) = map_option ((@) (json_escape c)) (balanced_prefix d True False r)"
proof -
  have q: "DQUOTE \<noteq> BSLASH" "CHR ''0'' \<noteq> DQUOTE" "CHR ''0'' \<noteq> BSLASH" by (simp_all add: DQUOTE_def BSLASH_def)
  have h: "hex_digit (of_char c div 16) \<noteq> DQUOTE \<and> hex_digit (of_char c div 16) \<noteq> BSLASH"
    "hex_digit (of_char c mod 16) \<noteq> DQUOTE \<and> hex_digit (of_char c mod 16) \<noteq> BSLASH" if "(of_char c :: nat) < 32"
    using that by (auto intro!: hex_digit_plain)
  consider "c = DQUOTE \<or> c = BSLASH" | b where "json_escape c = [BSLASH, b]"
    | "(of_char c :: nat) < 32" "json_escape c = [BSLASH, CHR ''u'', CHR ''0'', CHR ''0'', hex_digit (of_char c div 16), hex_digit (of_char c mod 16)]"
    | "c \<noteq> DQUOTE" "c \<noteq> BSLASH" "json_escape c = [c]"
    by (fastforce simp: json_escape_def split: if_splits)
  then show ?thesis
  proof cases
    case 1
    then have "json_escape c = [BSLASH, c]" by (simp add: json_escape_def)
    then show ?thesis using q by (simp add: map_option_case split: option.splits)
  next
    case 2
    then show ?thesis using q by (simp add: map_option_case split: option.splits)
  next
    case 3
    then show ?thesis using q h [OF 3(1)] by (simp add: map_option_case split: option.splits)
  next
    case 4
    then show ?thesis by (simp add: map_option_case split: option.splits)
  qed
qed

lemma scan_string: "balanced_prefix d True False (concat (map json_escape s) @ r) = map_option ((@) (concat (map json_escape s))) (balanced_prefix d True False r)"
  by (induction s arbitrary: r) (simp_all add: scan_escape map_option_case split: option.splits)

lemma passes_quote: "passes d (json_quote s)"
  by (simp add: passes_def json_quote_def scan_string) (simp add: DQUOTE_def BSLASH_def map_option_case split: option.splits)

lemma plain_code: "(of_char c :: nat) \<notin> {34, 123, 125} \<Longrightarrow> plain_char c"
  by (auto simp: plain_char_def DQUOTE_def)

lemma plain_show_nat: "list_all plain_char (show_nat k)"
proof (induction k rule: show_nat.induct)
  case (1 k)
  have digit: "plain_char (char_of (48 + i))" if "i < 10" for i :: nat
  proof -
    have "(of_char (char_of (48 + i) :: char) :: nat) = 48 + i" using that by simp
    then show ?thesis using that by (intro plain_code) auto
  qed
  show ?case using 1 digit [of k] digit [of "k mod 10"] by (cases "k < 10") (simp_all add: show_nat.simps [of k])
qed

lemma passes_show_int: "passes d (show_int n)"
  by (rule passes_plain) (simp add: show_int_def plain_show_nat plain_char_def DQUOTE_def)

lemma passes_json: "0 < d \<Longrightarrow> passes d (json_text v)"
proof (induction v arbitrary: d rule: json_text.induct)
  case (6 xs)
  have "passes d (js_join '','' (map json_text xs))" by (intro passes_join) (use 6 in auto)
  moreover have "passes d ''[''" "passes d '']''" by (simp_all add: passes_plain plain_char_def DQUOTE_def)
  ultimately have "passes d (''['' @ js_join '','' (map json_text xs) @ '']'')" by (intro passes_append)
  then show ?case by simp
next
  case (7 m)
  let ?body = "js_join '','' (map (\<lambda>kv. json_quote (fst kv) @ '':'' @ json_text (snd kv)) (filter (\<lambda>kv. snd kv \<noteq> JUndef) m))"
  have "passes (d + 1) (json_quote (fst kv) @ '':'' @ json_text (snd kv))" if "kv \<in> set (filter (\<lambda>kv. snd kv \<noteq> JUndef) m)" for kv
    by (intro passes_append passes_quote 7(1) passes_plain) (use that 7(2) in \<open>auto simp: plain_char_def DQUOTE_def\<close>)
  then have "passes (d + 1) ?body" by (intro passes_join) auto
  then have "balanced_prefix d False False (CHR ''{'' # ?body @ CHR ''}'' # r)
      = map_option ((@) (CHR ''{'' # ?body @ ''}'')) (balanced_prefix d False False r)" for r
    using 7(2) by (simp add: passesD) (simp add: DQUOTE_def map_option_case split: option.splits)
  then show ?case by (simp add: passes_def)
qed (auto simp: passes_quote passes_show_int intro!: passes_plain simp: plain_char_def DQUOTE_def)

text \<open>The scanner stops exactly behind the first object, whatever follows it.\<close>

lemma balanced_object:
  "balanced_prefix 0 False False (json_text (JObj m) @ r) = Some (json_text (JObj m))"
proof -
  let ?body = "js_join '','' (map (\<lambda>kv. json_quote (fst kv) @ '':'' @ json_text (snd kv)) (filter (\<lambda>kv. snd kv \<noteq> JUndef) m))"
  have "passes 1 (json_quote k @ '':'' @ json_text v)" for k v
    by (intro passes_append passes_quote passes_json passes_plain) (simp_all add: plain_char_def DQUOTE_def)
  then have "passes 1 ?body" by (intro passes_join) auto
  from passesD [OF this, of "CHR ''}'' # r"] show ?thesis by (simp add: DQUOTE_def)
qed

lemma index_of_first: "c \<notin> set p \<Longrightarrow> index_of c (p @ c # r) = Some (length p)"
  by (induction p) auto

lemma json_object_ends: "\<exists>b. json_text (JObj m) = CHR ''{'' # b @ ''}''"
  by simp

lemma dropWhile_stops: "j \<noteq> [] \<Longrightarrow> \<not> P (hd j) \<Longrightarrow> dropWhile P (p @ j @ r) = dropWhile P p @ j @ r"
  by (induction p) (auto simp: neq_Nil_conv)

lemma trim_around:
  assumes "j \<noteq> []" "\<not> js_ws (hd j)" "\<not> js_ws (last j)"
  shows "\<exists>r'. js_trim (p @ j @ r) = dropWhile js_ws p @ j @ r'"
proof -
  have "dropWhile js_ws (rev r @ rev j @ rev (dropWhile js_ws p)) = dropWhile js_ws (rev r) @ rev j @ rev (dropWhile js_ws p)"
    using assms by (intro dropWhile_stops) (simp_all add: hd_rev)
  then have "js_trim (p @ j @ r) = dropWhile js_ws p @ j @ rev (dropWhile js_ws (rev r))"
    using assms(1,2) by (simp add: js_trim_def dropWhile_stops [where P = js_ws])
  then show ?thesis by blast
qed

text \<open>
  A model that writes prose before its JSON object and anything behind it, even further objects, is understood: the first
  object is what is parsed, as long as the answer holds no code fence and the prose no brace.
\<close>

theorem first_object_extracted:
  assumes "CHR ''{'' \<notin> set pre" "rt_parse rt (json_text (JObj m)) = Some v"
    and "split_fence (js_trim (pre @ json_text (JObj m) @ junk)) = None"
  shows "extractJsonObject rt (pre @ json_text (JObj m) @ junk) = Some v"
proof -
  let ?j = "json_text (JObj m)"
  have ends: "?j \<noteq> []" "hd ?j = CHR ''{''" "last ?j = CHR ''}''" by simp_all
  have ws: "\<not> js_ws (CHR ''{'')" "\<not> js_ws (CHR ''}'')" by (simp_all add: js_ws_def)
  obtain r' where t: "js_trim (pre @ ?j @ junk) = dropWhile js_ws pre @ ?j @ r'"
    using trim_around [of ?j pre junk] ends ws by metis
  let ?p = "dropWhile js_ws pre"
  obtain b where j: "?j = CHR ''{'' # b" using ends by (cases ?j) auto
  have "CHR ''{'' \<notin> set ?p" using assms(1) by (meson set_dropWhileD)
  then have start: "index_of (CHR ''{'') (?p @ ?j @ r') = Some (length ?p)" unfolding j append_Cons by (rule index_of_first)
  have "firstBalancedJson (?p @ ?j @ r') (length ?p) = Some ?j"
    by (simp add: firstBalancedJson_def balanced_object del: json_text.simps)
  moreover have "fence_content (?p @ ?j @ r') = None" using assms(3) by (simp add: fence_content_def t del: json_text.simps)
  ultimately show ?thesis
    using start assms(2) ends(1) by (simp add: extractJsonObject_def t Let_def del: json_text.simps)
qed

lemma first_object_extracted_witness:
  "extractJsonObject \<lparr>rt_regexp = (\<lambda>_ _. None), rt_String = json_text, rt_parse = (\<lambda>s. if s = json_text (JObj [(''n'', JStr ''}'')]) then Some JNull else None),
     rt_validObjectId = (\<lambda>_. True)\<rparr> (''ok '' @ json_text (JObj [(''n'', JStr ''}'')]) @ '' {'') = Some JNull"
proof (rule first_object_extracted)
  show "split_fence (js_trim (''ok '' @ json_text (JObj [(''n'', JStr ''}'')]) @ '' {'')) = None" by code_simp
qed simp_all

text \<open>The protocol of emulated tool calls: an answer that asks for calls is read as these calls.\<close>

definition protocol_calls :: "tool_call list \<Rightarrow> jv" where
  "protocol_calls calls = JObj [(''tool_calls'', JArr (map (\<lambda>c. JObj [(''arguments'', tc_args c), (''name'', JStr (tc_name c))]) calls))]"

lemma calls_of_protocol:
  "list_all (\<lambda>c. \<not> nullish (tc_args c)) calls
   \<Longrightarrow> calls_of (map (\<lambda>c. JObj [(''arguments'', tc_args c), (''name'', JStr (tc_name c))]) calls) = calls"
  by (induction calls) (simp_all add: calls_of_def args_or_empty_def)

text \<open>
  C33. Emulated tool calls survive the way through a text without code fence: what the protocol writes for a list of calls is read back as these
  calls, with prose in front that has no brace and anything behind. The whole text must hold no code fence, also not in the arguments of the calls,
  since a fenced part is read in place of the text; the calls have arguments, and the parser reads what was written.
\<close>

theorem tool_calls_round_trip:
  assumes "CHR ''{'' \<notin> set pre" "rt_parse rt (json_text (protocol_calls calls)) = Some (protocol_calls calls)"
    and "split_fence (js_trim (pre @ json_text (protocol_calls calls) @ junk)) = None"
    and "calls \<noteq> []" "list_all (\<lambda>c. \<not> nullish (tc_args c)) calls"
  shows "extractToolCalls rt (pre @ json_text (protocol_calls calls) @ junk) = Some calls"
proof -
  have "extractJsonObject rt (pre @ json_text (protocol_calls calls) @ junk) = Some (protocol_calls calls)"
    using assms(1-3) unfolding protocol_calls_def by (rule first_object_extracted)
  then show ?thesis
    using assms(4) calls_of_protocol [OF assms(5)] by (simp add: extractToolCalls_def) (simp add: protocol_calls_def)
qed

text \<open>
  An answer whose text holds a code fence is not understood: the fence is looked for before the object, also inside its
  strings, so a final answer with a fenced part is taken for plain text.
\<close>

theorem fence_hides_answer:
  "extractJsonObject rt (json_text (JObj [(''final'', JStr ''use ```ls -l``` here'')])) = None"
proof -
  have "fence_content (js_trim (json_text (JObj [(''final'', JStr ''use ```ls -l``` here'')]))) = Some ''ls -l''"
    "index_of (CHR ''{'') (js_trim ''ls -l'') = None" by code_simp+
  then show ?thesis by (simp add: extractJsonObject_def Let_def del: json_text.simps)
qed

subsection \<open>The context window\<close>

lemma estimateTokens_nonneg [simp]: "0 \<le> estimateTokens t"
  by (simp add: estimateTokens_def)

lemma estimateTokens_append: "estimateTokens (s @ t) \<le> estimateTokens s + estimateTokens t"
  by (simp add: estimateTokens_def)

lemma context_total_append: "context_total (xs @ ys) = context_total xs + context_total ys"
  by (simp add: context_total_def)

lemma drop_oldest_result:
  assumes "ms \<noteq> []"
  shows "drop_oldest budget ms \<noteq> []" "hd (drop_oldest budget ms) = hd ms" "last (drop_oldest budget ms) = last ms"
    "subseq (drop_oldest budget ms) ms" "context_total (drop_oldest budget ms) \<le> budget \<or> length (drop_oldest budget ms) \<le> 2"
  using assms by (induction budget ms rule: drop_oldest.induct) (auto split: if_splits intro: subseq_order.trans)

text \<open>What the last message costs after it was cut.\<close>

lemma cut_cost:
  assumes "0 < overflow"
  shows "estimateTokens (take (nat (max 0 (int (length content) - overflow * 4))) content @ truncation_mark)
    \<le> max 0 (estimateTokens content - overflow) + 10"
proof -
  have m: "estimateTokens truncation_mark = 10" by (simp add: estimateTokens_def truncation_mark_def)
  have "estimateTokens (take (nat (max 0 (int (length content) - overflow * 4))) content) \<le> max 0 (estimateTokens content - overflow)"
    using assms by (simp add: estimateTokens_def max_def) linarith
  then show ?thesis using estimateTokens_append [of "take (nat (max 0 (int (length content) - overflow * 4))) content" truncation_mark] m by simp
qed

lemma truncate_last_total:
  assumes "ms \<noteq> []"
  shows "context_total (truncate_last budget ms) \<le> max budget (context_total (butlast ms) + 4) + 10"
proof (cases "context_total ms > budget")
  case True
  have split: "context_total ms = context_total (butlast ms) + (estimateTokens (lm_content (last ms)) + 4)"
    using assms context_total_append [of "butlast ms" "[last ms]"] by (simp add: context_total_def)
  let ?o = "context_total ms - budget"
  show ?thesis
  proof (cases "lm_content (last ms) = []")
    case True
    then show ?thesis using split by (simp add: truncate_last_def estimateTokens_def)
  next
    case False
    then have "truncate_last budget ms = butlast ms
        @ [(last ms)\<lparr>lm_content := take (nat (max 0 (int (length (lm_content (last ms))) - ?o * 4))) (lm_content (last ms)) @ truncation_mark\<rparr>]"
      using True by (simp add: truncate_last_def Let_def)
    moreover have "estimateTokens (take (nat (max 0 (int (length (lm_content (last ms))) - ?o * 4))) (lm_content (last ms)) @ truncation_mark)
        \<le> max 0 (estimateTokens (lm_content (last ms)) - ?o) + 10"
      by (rule cut_cost) (use True in simp)
    ultimately show ?thesis using split by (simp add: context_total_append) (simp add: context_total_def)
  qed
next
  case False
  then show ?thesis by (simp add: truncate_last_def)
qed

lemma truncate_last_hd: "2 \<le> length ms \<Longrightarrow> hd (truncate_last budget ms) = hd ms"
  by (cases ms) (auto simp: truncate_last_def Let_def)

text \<open>
  Fitting keeps the system prompt and leaves room for the reply: whenever the system prompt itself fits into the budget, the messages
  sent, whatever the history and the request are, and the tokens reserved for the reply fit into the window of the model.
\<close>

theorem fitted_messages_leave_room:
  assumes "contextBudget configWindow c = window - reserve - 256" "2 \<le> length ms"
    and "estimateTokens (lm_content (hd ms)) + 8 \<le> contextBudget configWindow c"
  shows "hd (fitMessagesToContext (contextBudget configWindow c) ms) = hd ms
    \<and> context_total (fitMessagesToContext (contextBudget configWindow c) ms) + reserve \<le> window"
proof -
  let ?b = "contextBudget configWindow c" and ?d = "drop_oldest (contextBudget configWindow c) ms"
  have ms: "ms \<noteq> []" using assms(2) by auto
  note d = drop_oldest_result [OF ms, where budget = "?b"]
  have fit: "fitMessagesToContext ?b ms = truncate_last ?b ?d" using ms by (simp add: fitMessagesToContext_def)
  have len: "2 \<le> length ?d"
    using assms(2) by (induction "?b" ms rule: drop_oldest.induct) auto
  have "context_total (truncate_last ?b ?d) \<le> ?b + 10"
  proof (cases "context_total ?d \<le> ?b")
    case True
    then show ?thesis by (simp add: truncate_last_def)
  next
    case False
    then have "length ?d = 2" using d(5) len by simp
    then have "butlast ?d = [hd ms]" using d(2) by (cases ?d rule: list.exhaust) (auto simp: length_Suc_conv numeral_2_eq_2)
    then show ?thesis using truncate_last_total [OF d(1), of ?b] assms(3) by (simp add: context_total_def)
  qed
  then show ?thesis unfolding fit using truncate_last_hd [OF len] d(2) assms(1) by simp
qed

lemma fitted_messages_leave_room_witness:
  "let c = \<lparr>ac_id = ''c'', ac_contextWindow = Some 4096, ac_defaultMaxTokens = None\<rparr>;
       ms = [\<lparr>lm_role = System, lm_content = ''s'', lm_attachments = None\<rparr>, \<lparr>lm_role = User, lm_content = replicate 9000 CHR ''x'', lm_attachments = None\<rparr>]
   in context_total ms > 1792 \<and> context_total (fitMessagesToContext (contextBudget None c) ms) + 2048 \<le> 4096"
proof -
  let ?c = "\<lparr>ac_id = ''c'', ac_contextWindow = Some 4096, ac_defaultMaxTokens = None\<rparr>"
  let ?ms = "[\<lparr>lm_role = System, lm_content = ''s'', lm_attachments = None\<rparr>, \<lparr>lm_role = User, lm_content = replicate 9000 CHR ''x'', lm_attachments = None\<rparr>]"
  have "context_total ?ms > 1792" by (simp add: context_total_def estimateTokens_def)
  moreover have "context_total (fitMessagesToContext (contextBudget None ?c) ?ms) + 2048 \<le> 4096"
    by (rule conjunct2 [OF fitted_messages_leave_room]) (simp_all add: contextBudget_def estimateTokens_def)
  ultimately show ?thesis by simp
qed

lemma tool_calls_round_trip_witness:
  "let calls = [\<lparr>tc_name = ''find'', tc_args = JObj [(''q'', JStr ''a}'')]\<rparr>];
       rt = \<lparr>rt_regexp = (\<lambda>_ _. None), rt_String = json_text, rt_parse = (\<lambda>s. if s = json_text (protocol_calls calls) then Some (protocol_calls calls) else None),
         rt_validObjectId = (\<lambda>_. True)\<rparr>
   in extractToolCalls rt (''Sure: '' @ json_text (protocol_calls calls) @ '' TOOL_RESULTS: {}'') = Some calls"
  unfolding Let_def
proof (rule tool_calls_round_trip)
  show "split_fence (js_trim (''Sure: '' @ json_text (protocol_calls [\<lparr>tc_name = ''find'', tc_args = JObj [(''q'', JStr ''a}'')]\<rparr>]) @ '' TOOL_RESULTS: {}'')) = None"
    by code_simp
qed (simp_all add: nullish_def)

end
