(* ===== verification/AiBudget.thy ===== *)
theory AiBudget
  imports AiTools
begin

text \<open>
  Token and prompt budgets, \<^verbatim>\<open>modules/ai/services/core-ai-budget.service.ts\<close>, over the recorded runs \<open>ad_interactions\<close>. The
  starts of days and months in local time are parameters; \<open>ad_now\<close> is the clock. A limit that is no number is none.
\<close>

subsection \<open>Limits and usage\<close>

record limit_values =
  lv_maxPrompts :: "int option"
  lv_maxTokens :: "int option"

record budget_limit =
  bl_scope :: string
  bl_refId :: string
  bl_values :: limit_values
  bl_period :: "string option"

record budget_config =
  bc_period :: "string option"
  bc_user :: "limit_values option"
  bc_tenant :: "limit_values option"

text \<open>\<open>cl_day t k\<close> and \<open>cl_month t k\<close>: the start of the day or month \<open>k\<close> after the one that holds \<open>t\<close>.\<close>

record calendar =
  cl_day :: "int \<Rightarrow> int \<Rightarrow> int"
  cl_month :: "int \<Rightarrow> int \<Rightarrow> int"

record budget_env =
  be_limits :: "budget_limit list"
  be_config :: "budget_config option"
  be_calendar :: calendar

record resolved_limit =
  rl_maxPrompts :: "int option"
  rl_maxTokens :: "int option"
  rl_period :: string

definition first_some :: "'a option \<Rightarrow> 'a option \<Rightarrow> 'a option" where
  "first_some a b = (case a of Some _ \<Rightarrow> a | None \<Rightarrow> b)"

definition resolveLimit :: "budget_env \<Rightarrow> string \<Rightarrow> string \<Rightarrow> resolved_limit" where
  "resolveLimit env scope refId =
     (let override = find (\<lambda>l. bl_refId l = refId \<and> bl_scope l = scope) (be_limits env);
          defaults = (case be_config env of None \<Rightarrow> None | Some c \<Rightarrow> if scope = ''tenant'' then bc_tenant c else bc_user c);
          field = (\<lambda>sel. first_some (case override of None \<Rightarrow> None | Some l \<Rightarrow> sel (bl_values l)) (case defaults of None \<Rightarrow> None | Some v \<Rightarrow> sel v));
          ownPeriod = (case override of None \<Rightarrow> None | Some l \<Rightarrow> bl_period l);
          configPeriod = (case be_config env of None \<Rightarrow> None | Some c \<Rightarrow> bc_period c)
      in \<lparr>rl_maxPrompts = field lv_maxPrompts, rl_maxTokens = field lv_maxTokens,
          rl_period = (if js_truthy ownPeriod then the ownPeriod else if js_truthy configPeriod then the configPeriod else ''day'')\<rparr>)"

definition periodStart :: "calendar \<Rightarrow> int \<Rightarrow> string \<Rightarrow> int" where
  "periodStart cal now period = (if period = ''month'' then cl_month cal now 0 else if period = ''none'' then 0 else cl_day cal now 0)"

definition nextReset :: "calendar \<Rightarrow> int \<Rightarrow> string \<Rightarrow> int option" where
  "nextReset cal now period = (if period = ''month'' then Some (cl_month cal now 1) else if period = ''none'' then None else Some (cl_day cal now 1))"

record budget_usage =
  bu_resetAt :: "int option"
  bu_usedPrompts :: int
  bu_usedTokens :: int

text \<open>The recorded runs of a user or a tenant since the start of the period.\<close>

definition usage_rows :: "budget_env \<Rightarrow> 'r ai_db \<Rightarrow> string option \<Rightarrow> string option \<Rightarrow> string \<Rightarrow> interaction list" where
  "usage_rows env w userId tenantId period = filter (\<lambda>i. in_createdAt i \<ge> periodStart (be_calendar env) (ad_now w) period
     \<and> (\<not> js_truthy userId \<or> in_userId i = userId) \<and> (\<not> js_truthy tenantId \<or> in_tenantId i = tenantId)) (ad_interactions w)"

definition tokens_used :: "interaction list \<Rightarrow> int" where
  "tokens_used is = sum_list (map (\<lambda>i. case in_totalTokens i of None \<Rightarrow> 0 | Some t \<Rightarrow> t) is)"

definition getUsage :: "budget_env \<Rightarrow> 'r ai_db \<Rightarrow> string option \<Rightarrow> string option \<Rightarrow> string \<Rightarrow> budget_usage" where
  "getUsage env w userId tenantId period =
     \<lparr>bu_resetAt = nextReset (be_calendar env) (ad_now w) period, bu_usedPrompts = int (length (usage_rows env w userId tenantId period)),
      bu_usedTokens = tokens_used (usage_rows env w userId tenantId period)\<rparr>"

definition finite_limit :: "int option \<Rightarrow> bool" where
  "finite_limit v = (case v of None \<Rightarrow> False | Some n \<Rightarrow> n > 0)"

definition budget_exceeded :: "budget_usage \<Rightarrow> resolved_limit \<Rightarrow> bool" where
  "budget_exceeded usage limit =
     ((finite_limit (rl_maxTokens limit) \<and> bu_usedTokens usage \<ge> the (rl_maxTokens limit))
      \<or> (finite_limit (rl_maxPrompts limit) \<and> bu_usedPrompts usage \<ge> the (rl_maxPrompts limit)))"

definition scope_usage :: "budget_env \<Rightarrow> 'r ai_db \<Rightarrow> string \<Rightarrow> string \<Rightarrow> budget_usage" where
  "scope_usage env w scope refId = (let limit = resolveLimit env scope refId in
     if scope = ''user'' then getUsage env w (Some refId) None (rl_period limit) else getUsage env w None (Some refId) (rl_period limit))"

datatype budget_error = BudgetExceeded

text \<open>One pass of the loop over the scopes, then the loop over user and tenant.\<close>

definition assert_scope :: "budget_env \<Rightarrow> 'r ai_db \<Rightarrow> string \<Rightarrow> string option \<Rightarrow> budget_error + unit" where
  "assert_scope env w scope refId =
     (if \<not> js_truthy refId then Inr ()
      else (let limit = resolveLimit env scope (the refId)
            in if \<not> finite_limit (rl_maxTokens limit) \<and> \<not> finite_limit (rl_maxPrompts limit) then Inr ()
               else if budget_exceeded (scope_usage env w scope (the refId)) limit then Inl BudgetExceeded else Inr ()))"

definition assertWithinBudget :: "budget_env \<Rightarrow> 'r ai_db \<Rightarrow> string option \<Rightarrow> string option \<Rightarrow> budget_error + unit" where
  "assertWithinBudget env w userId tenantId = then_do (assert_scope env w ''user'' userId) (\<lambda>_. assert_scope env w ''tenant'' tenantId)"

subsection \<open>What the client is told\<close>

record usage_scope =
  sc_maxPrompts :: "int option"
  sc_maxTokens :: "int option"
  sc_period :: string
  sc_refId :: string
  sc_remainingPrompts :: "int option"
  sc_remainingTokens :: "int option"
  sc_resetAt :: "int option"
  sc_scope :: string
  sc_usedPrompts :: int
  sc_usedTokens :: int

definition only_finite :: "int option \<Rightarrow> int option" where
  "only_finite v = (if finite_limit v then v else None)"

definition buildScope :: "budget_env \<Rightarrow> 'r ai_db \<Rightarrow> string \<Rightarrow> string \<Rightarrow> usage_scope" where
  "buildScope env w scope refId =
     (let limit = resolveLimit env scope refId; usage = scope_usage env w scope refId
      in \<lparr>sc_maxPrompts = only_finite (rl_maxPrompts limit), sc_maxTokens = only_finite (rl_maxTokens limit), sc_period = rl_period limit,
          sc_refId = refId, sc_remainingPrompts = map_option (\<lambda>m. max 0 (m - bu_usedPrompts usage)) (only_finite (rl_maxPrompts limit)),
          sc_remainingTokens = map_option (\<lambda>m. max 0 (m - bu_usedTokens usage)) (only_finite (rl_maxTokens limit)),
          sc_resetAt = bu_resetAt usage, sc_scope = scope, sc_usedPrompts = bu_usedPrompts usage, sc_usedTokens = bu_usedTokens usage\<rparr>)"

definition getUsageInfo :: "budget_env \<Rightarrow> 'r ai_db \<Rightarrow> string option \<Rightarrow> string option \<Rightarrow> usage_scope option \<times> usage_scope option" where
  "getUsageInfo env w userId tenantId =
     (if js_truthy userId then Some (buildScope env w ''user'' (the userId)) else None,
      if js_truthy tenantId then Some (buildScope env w ''tenant'' (the tenantId)) else None)"

record budget_summary =
  sm_promptTokens :: int
  sm_usedTokens :: "int option"
  sm_remainingTokens :: "int option"
  sm_resetAt :: "int option"
  sm_maxTokens :: "int option"
  sm_scope :: "string option"

definition empty_summary :: "int \<Rightarrow> budget_summary" where
  "empty_summary promptTokens = \<lparr>sm_promptTokens = promptTokens, sm_usedTokens = None, sm_remainingTokens = None, sm_resetAt = None,
     sm_maxTokens = None, sm_scope = None\<rparr>"

definition buildSummary :: "budget_env \<Rightarrow> 'r ai_db \<Rightarrow> string option \<Rightarrow> string option \<Rightarrow> int \<Rightarrow> int option \<Rightarrow> (int option \<times> string option) option \<Rightarrow> budget_summary" where
  "buildSummary env w userId tenantId promptTokens llmContextWindow providerQuota =
     (let s0 = empty_summary promptTokens;
          llm = (\<lambda>s. if finite_limit llmContextWindow then s\<lparr>sm_maxTokens := llmContextWindow, sm_scope := Some ''llm''\<rparr> else s)
      in if \<not> js_truthy userId then llm s0
         else (let userLimit = resolveLimit env ''user'' (the userId)
               in if finite_limit (rl_maxTokens userLimit) \<or> finite_limit (rl_maxPrompts userLimit)
                  then (let usage = getUsage env w userId None (rl_period userLimit);
                            s1 = s0\<lparr>sm_usedTokens := Some (bu_usedTokens usage), sm_resetAt := bu_resetAt usage,
                                   sm_remainingTokens := map_option (\<lambda>m. max 0 (m - bu_usedTokens usage)) (only_finite (rl_maxTokens userLimit))\<rparr>
                        in if finite_limit (rl_maxTokens userLimit) then s1\<lparr>sm_maxTokens := rl_maxTokens userLimit, sm_scope := Some ''user''\<rparr> else s1)
                  else (let tenantLimit = resolveLimit env ''tenant'' (the tenantId)
                        in if js_truthy tenantId \<and> finite_limit (rl_maxTokens tenantLimit)
                           then (let usage = getUsage env w None tenantId (rl_period tenantLimit)
                                 in s0\<lparr>sm_usedTokens := Some (bu_usedTokens usage), sm_resetAt := bu_resetAt usage,
                                      sm_remainingTokens := Some (max 0 (the (rl_maxTokens tenantLimit) - bu_usedTokens usage)),
                                      sm_maxTokens := rl_maxTokens tenantLimit, sm_scope := Some ''tenant''\<rparr>)
                           else (let quotaPeriod = (case providerQuota of None \<Rightarrow> None | Some (_, p) \<Rightarrow> p);
                                     quotaTokens = (case providerQuota of None \<Rightarrow> None | Some (m, _) \<Rightarrow> m);
                                     period = (if js_truthy quotaPeriod then the quotaPeriod else rl_period userLimit);
                                     usage = getUsage env w userId None period;
                                     s1 = s0\<lparr>sm_usedTokens := Some (bu_usedTokens usage), sm_resetAt := bu_resetAt usage\<rparr>
                                 in if finite_limit quotaTokens
                                    then s1\<lparr>sm_maxTokens := quotaTokens, sm_remainingTokens := Some (max 0 (the quotaTokens - bu_usedTokens usage)),
                                           sm_scope := Some ''llm''\<rparr>
                                    else llm s1))))"

subsection \<open>Refusal and report agree\<close>

text \<open>What the client reads off the report of a scope: a limit of which nothing remains.\<close>

definition reported_exhausted :: "budget_env \<Rightarrow> 'r ai_db \<Rightarrow> string \<Rightarrow> string option \<Rightarrow> bool" where
  "reported_exhausted env w scope refId = (js_truthy refId
     \<and> (sc_remainingTokens (buildScope env w scope (the refId)) = Some 0 \<or> sc_remainingPrompts (buildScope env w scope (the refId)) = Some 0))"

lemma remaining_zero: "map_option (\<lambda>m. max 0 (m - used)) (only_finite v) = Some 0 \<longleftrightarrow> finite_limit v \<and> used \<ge> the v"
  by (cases v) (auto simp: only_finite_def finite_limit_def max_def)

lemma reported_exhausted_iff: "reported_exhausted env w scope refId
    \<longleftrightarrow> js_truthy refId \<and> budget_exceeded (scope_usage env w scope (the refId)) (resolveLimit env scope (the refId))"
  by (simp only: reported_exhausted_def buildScope_def Let_def usage_scope.simps remaining_zero budget_exceeded_def)

lemma assert_scope_report: "assert_scope env w scope refId = (if reported_exhausted env w scope refId then Inl BudgetExceeded else Inr ())"
  unfolding reported_exhausted_iff by (auto simp: assert_scope_def Let_def budget_exceeded_def)

text \<open>
  A run is refused exactly when the usage that the client can read shows nothing remaining, of its own limits or of those of its
  tenant; a limit that is missing or not positive refuses nobody.
\<close>

theorem refused_iff_nothing_remains:
  "assertWithinBudget env w userId tenantId =
     (if reported_exhausted env w ''user'' userId \<or> reported_exhausted env w ''tenant'' tenantId then Inl BudgetExceeded else Inr ())"
  by (simp add: assertWithinBudget_def assert_scope_report)

subsection \<open>How far a budget can be exceeded\<close>

definition recorded_as :: "interaction \<Rightarrow> 'r ai_db \<Rightarrow> 'r ai_db \<Rightarrow> bool" where
  "recorded_as i w w' = (ad_interactions w' = ad_interactions w @ [i] \<and> ad_now w \<le> ad_now w' \<and> in_createdAt i \<le> ad_now w')"

definition or_none :: "int option \<Rightarrow> int" where
  "or_none v = (case v of None \<Rightarrow> 0 | Some n \<Rightarrow> n)"

text \<open>
  The prompts of the user \<open>u\<close>, at most \<open>k\<close> of them in flight at once: one is admitted, or ends with its tokens recorded, at most \<open>m\<close>, or
  fails without a record. In between, time passes, policies and the rest of the state change, and the runs of others are recorded.
\<close>

inductive prompts_in_flight :: "budget_env \<Rightarrow> string \<Rightarrow> int \<Rightarrow> nat \<Rightarrow> 'r ai_db \<Rightarrow> nat \<Rightarrow> 'r ai_db \<Rightarrow> bool" for env u m k w0 where
  flight_start: "prompts_in_flight env u m k w0 0 w0"
| flight_pass: "prompts_in_flight env u m k w0 n w \<Longrightarrow> ad_interactions w' = ad_interactions w \<Longrightarrow> ad_now w \<le> ad_now w'
     \<Longrightarrow> prompts_in_flight env u m k w0 n w'"
| flight_admit: "prompts_in_flight env u m k w0 n w \<Longrightarrow> assertWithinBudget env w (Some u) t = Inr () \<Longrightarrow> n < k
     \<Longrightarrow> prompts_in_flight env u m k w0 (Suc n) w"
| flight_record: "prompts_in_flight env u m k w0 (Suc n) w \<Longrightarrow> in_userId i = Some u \<Longrightarrow> 0 \<le> or_none (in_totalTokens i)
     \<Longrightarrow> or_none (in_totalTokens i) \<le> m \<Longrightarrow> recorded_as i w w' \<Longrightarrow> prompts_in_flight env u m k w0 n w'"
| flight_fail: "prompts_in_flight env u m k w0 (Suc n) w \<Longrightarrow> prompts_in_flight env u m k w0 n w"
| flight_other: "prompts_in_flight env u m k w0 n w \<Longrightarrow> in_userId i \<noteq> Some u \<Longrightarrow> recorded_as i w w' \<Longrightarrow> prompts_in_flight env u m k w0 n w'"

definition user_tokens :: "budget_env \<Rightarrow> 'r ai_db \<Rightarrow> string \<Rightarrow> int" where
  "user_tokens env w u = tokens_used (usage_rows env w (Some u) None (rl_period (resolveLimit env ''user'' u)))"

definition calendar_law :: "calendar \<Rightarrow> bool" where
  "calendar_law cal = (\<forall>a b. a \<le> b \<longrightarrow> cl_day cal a 0 \<le> cl_day cal b 0 \<and> cl_month cal a 0 \<le> cl_month cal b 0)"

lemma tokens_used_simps [simp]: "tokens_used [] = 0" "tokens_used (i # is) = or_none (in_totalTokens i) + tokens_used is"
  "tokens_used (is @ js) = tokens_used is + tokens_used js"
  by (simp_all add: tokens_used_def or_none_def)

lemma tokens_used_filter_mono:
  "(\<And>i. P i \<Longrightarrow> Q i) \<Longrightarrow> (\<And>i. i \<in> set is \<Longrightarrow> Q i \<Longrightarrow> 0 \<le> or_none (in_totalTokens i)) \<Longrightarrow> tokens_used (filter P is) \<le> tokens_used (filter Q is)"
  by (induction "is") (auto, fastforce)

text \<open>
  C14. With at most \<open>k\<close> prompts of a user in flight at once, each of at most \<open>m\<close> recorded tokens, the recorded tokens of the period stay below
  the limit plus \<open>k\<close> times \<open>m\<close>, in whatever order the prompts are admitted and recorded, whatever others do and however the periods pass. The
  check reads only what is recorded, so the bound grows with the prompts in flight; one after the other, \<open>k = 1\<close>, the limit is exceeded by less than
  one run. The periods of the calendar must not run backwards.
\<close>

theorem budget_overshoot_bounded:
  assumes "prompts_in_flight env u m k w0 n w" "calendar_law (be_calendar env)" "u \<noteq> []"
    and limit: "rl_maxTokens (resolveLimit env ''user'' u) = Some l" "0 < l" "0 \<le> m"
    and start: "user_tokens env w0 u < l + int k * m" "\<forall>i\<in>set (ad_interactions w0). in_userId i = Some u \<longrightarrow> 0 \<le> or_none (in_totalTokens i)"
  shows "user_tokens env w u + int n * m < l + int k * m"
proof -
  let ?nonneg = "\<lambda>w. \<forall>i\<in>set (ad_interactions w). in_userId i = Some u \<longrightarrow> 0 \<le> or_none (in_totalTokens i)"
  define p where "p = rl_period (resolveLimit env ''user'' u)"
  have ps: "periodStart (be_calendar env) a p \<le> periodStart (be_calendar env) b p" if "a \<le> b" for a b
    using assms(2) that by (simp add: periodStart_def calendar_law_def)
  have u: "js_truthy (Some u)" using assms(3) by simp
  let ?Q = "\<lambda>now i. in_createdAt i \<ge> periodStart (be_calendar env) now p \<and> in_userId i = Some u"
  have T: "user_tokens env x u = tokens_used (filter (?Q (ad_now x)) (ad_interactions x))" for x :: "'a ai_db"
    using u by (simp add: user_tokens_def usage_rows_def p_def [symmetric])
  have later: "tokens_used (filter (?Q b) is) \<le> tokens_used (filter (?Q a) is)"
    if "a \<le> b" "\<forall>i\<in>set is. in_userId i = Some u \<longrightarrow> 0 \<le> or_none (in_totalTokens i)" for a b "is"
    by (rule tokens_used_filter_mono) (use ps [OF that(1)] that(2) in auto)
  have "user_tokens env w u + int n * m < l + int k * m \<and> ?nonneg w"
    using assms(1)
  proof (induction rule: prompts_in_flight.induct)
    case flight_start
    then show ?case using start by simp
  next
    case (flight_pass n w w')
    then show ?case using later [of "ad_now w" "ad_now w'" "ad_interactions w"] by (simp add: T)
  next
    case (flight_admit n w t)
    have "\<not> reported_exhausted env w ''user'' (Some u)"
      using flight_admit(2) by (simp add: refused_iff_nothing_remains split: if_splits)
    then have "user_tokens env w u < l"
      using u limit by (simp add: reported_exhausted_iff budget_exceeded_def finite_limit_def scope_usage_def getUsage_def user_tokens_def Let_def)
    moreover have "int (Suc n) * m \<le> int k * m" using flight_admit(3) limit(3) by (intro mult_right_mono) simp_all
    ultimately show ?case using flight_admit by linarith
  next
    case (flight_record n w i w')
    have r: "ad_interactions w' = ad_interactions w @ [i]" "ad_now w \<le> ad_now w'" using flight_record by (simp_all add: recorded_as_def)
    have "user_tokens env w' u \<le> user_tokens env w u + or_none (in_totalTokens i)"
      using later [OF r(2), of "ad_interactions w"] flight_record by (simp add: T r(1))
    moreover have "int (Suc n) * m = int n * m + m" by (simp add: algebra_simps)
    ultimately show ?case using flight_record r by auto
  next
    case (flight_fail n w)
    have "int (Suc n) * m = int n * m + m" by (simp add: algebra_simps)
    then show ?case using flight_fail limit(3) by auto
  next
    case (flight_other n w i w')
    then show ?case using later [of "ad_now w" "ad_now w'" "ad_interactions w"] by (auto simp: T recorded_as_def)
  qed
  then show ?thesis by blast
qed

text \<open>A limit of 100 tokens a day, days of ten units, and 60 tokens recorded: two prompts are admitted before either of them is recorded.\<close>

definition demo_budget :: budget_env where
  "demo_budget = \<lparr>be_limits = [], be_config = Some \<lparr>bc_period = None, bc_user = Some \<lparr>lv_maxPrompts = None, lv_maxTokens = Some 100\<rparr>, bc_tenant = None\<rparr>,
     be_calendar = \<lparr>cl_day = (\<lambda>t k. (t div 10 + k) * 10), cl_month = (\<lambda>t k. (t div 300 + k) * 300)\<rparr>\<rparr>"

definition demo_usage :: "nat \<Rightarrow> unit ai_db" where
  "demo_usage n = \<lparr>ad_policies = None, ad_grants = [], ad_conversations = [],
     ad_interactions = replicate n \<lparr>in_userId = Some ''u'', in_tenantId = None, in_createdAt = 3, in_totalTokens = Some 60, in_prompt = []\<rparr>, ad_now = 3, ad_rest = ()\<rparr>"

lemma budget_overshoot_bounded_witness:
  "prompts_in_flight demo_budget ''u'' 60 2 (demo_usage 1) 0 (demo_usage 3) \<and> user_tokens demo_budget (demo_usage 3) ''u'' + int 0 * 60 < 100 + int 2 * 60
   \<and> user_tokens demo_budget (demo_usage 3) ''u'' = 180 \<and> assertWithinBudget demo_budget (demo_usage 3) (Some ''u'') None = Inl BudgetExceeded"
proof -
  have limit: "rl_maxTokens (resolveLimit demo_budget ''user'' ''u'') = Some 100" by code_simp
  have ok: "assertWithinBudget demo_budget (demo_usage 1) (Some ''u'') None = Inr ()"
    "assertWithinBudget demo_budget (demo_usage 3) (Some ''u'') None = Inl BudgetExceeded"
    "user_tokens demo_budget (demo_usage 3) ''u'' = 180" by code_simp+
  let ?i = "\<lparr>in_userId = Some ''u'', in_tenantId = None, in_createdAt = 3, in_totalTokens = Some 60, in_prompt = []\<rparr>"
  have s1: "prompts_in_flight demo_budget ''u'' 60 2 (demo_usage 1) 1 (demo_usage 1)"
    using flight_admit [OF flight_start ok(1), of 2] by simp
  have s2: "prompts_in_flight demo_budget ''u'' 60 2 (demo_usage 1) 2 (demo_usage 1)"
    using flight_admit [OF s1 ok(1)] by (simp add: numeral_2_eq_2)
  have pos: "0 \<le> or_none (Some 60)" "or_none (Some 60) \<le> 60" by (simp_all add: or_none_def)
  have s3: "prompts_in_flight demo_budget ''u'' 60 2 (demo_usage 1) 1 (demo_usage 2)"
    by (rule flight_record [where w = "demo_usage 1" and i = ?i]) (use s2 pos in \<open>simp_all add: recorded_as_def demo_usage_def numeral_2_eq_2\<close>)
  have s4: "prompts_in_flight demo_budget ''u'' 60 2 (demo_usage 1) 0 (demo_usage 3)"
    by (rule flight_record [where w = "demo_usage 2" and i = ?i])
      (use s3 pos in \<open>simp_all add: recorded_as_def demo_usage_def numeral_2_eq_2 numeral_3_eq_3\<close>)
  have cal: "calendar_law (be_calendar demo_budget)" by (auto simp: calendar_law_def demo_budget_def zdiv_mono1)
  have "user_tokens demo_budget (demo_usage 3) ''u'' + int 0 * 60 < 100 + int 2 * 60"
    by (rule budget_overshoot_bounded [OF s4 cal _ limit]) (simp_all add: demo_usage_def user_tokens_def usage_rows_def or_none_def)
  then show ?thesis using s4 ok(2,3) by simp
qed

end
