(* ===== verification/AiConnections.thy ===== *)
theory AiConnections
  imports Prelude
begin

text \<open>
  Which model connection a prompt uses: \<^verbatim>\<open>modules/ai/services/core-ai-connection-resolver.service.ts\<close> over the stored connections
  (\<^verbatim>\<open>core-ai-connection.service.ts\<close>) and preferences (\<^verbatim>\<open>core-ai-connection-preference.service.ts\<close>). API keys, endpoints and capability
  probing are left out; connections stand in the order of their creation.
\<close>

subsection \<open>Data\<close>

record connection =
  cn_id :: string
  cn_enabled :: "bool option"
  cn_isDefault :: bool
  cn_enforced :: bool
  cn_tenantIds :: "string list option"
  cn_enforcedTenantIds :: "string list option"

record preference =
  pf_scope :: string
  pf_refId :: string
  pf_connectionId :: string
  pf_enforced :: bool

record resolve_ctx =
  rx_codeOverride :: "string option"
  rx_requested :: "string option"
  rx_tenantId :: "string option"
  rx_userId :: "string option"

record connection_db =
  cd_connections :: "connection list"
  cd_preferences :: "preference list"

datatype connection_error = ConnectionNotFound | ConnectionDisabled | ConnectionNotAvailable | PreferencesUnavailable

subsection \<open>Connections and preferences\<close>

definition listUsable :: "connection_db \<Rightarrow> connection list" where
  "listUsable db = filter (\<lambda>c. cn_enabled c \<noteq> Some False) (cd_connections db)"

definition connection_resolve :: "connection_db \<Rightarrow> string option \<Rightarrow> connection_error + connection" where
  "connection_resolve db connectionId =
     (let doc = (if js_truthy connectionId then find (\<lambda>c. Some (cn_id c) = connectionId) (cd_connections db)
                 else (case find (\<lambda>c. cn_enabled c \<noteq> Some False \<and> cn_isDefault c) (cd_connections db) of
                     Some c \<Rightarrow> Some c
                   | None \<Rightarrow> find (\<lambda>c. cn_enabled c \<noteq> Some False) (cd_connections db)))
      in (case doc of None \<Rightarrow> Inl ConnectionNotFound | Some c \<Rightarrow> if cn_enabled c = Some False then Inl ConnectionDisabled else Inr c))"

definition unsetOtherDefaults :: "string \<Rightarrow> connection_db \<Rightarrow> connection_db" where
  "unsetOtherDefaults i db = db\<lparr>cd_connections := map (\<lambda>c. if cn_id c \<noteq> i then c\<lparr>cn_isDefault := False\<rparr> else c) (cd_connections db)\<rparr>"

text \<open>Creating a connection with a fresh id, and changing one by \<open>f\<close>; \<open>isDefault\<close> is the one of the input, if it has one.\<close>

definition connection_create :: "connection \<Rightarrow> connection_db \<Rightarrow> connection_db" where
  "connection_create c db =
     (let db' = db\<lparr>cd_connections := cd_connections db @ [c]\<rparr> in if cn_isDefault c then unsetOtherDefaults (cn_id c) db' else db')"

definition connection_update :: "string \<Rightarrow> (connection \<Rightarrow> connection) \<Rightarrow> bool option \<Rightarrow> connection_db \<Rightarrow> connection_db" where
  "connection_update i f isDefault db =
     (let db' = db\<lparr>cd_connections := map (\<lambda>c. if cn_id c = i
            then (f c)\<lparr>cn_id := i, cn_isDefault := (case isDefault of Some b \<Rightarrow> b | None \<Rightarrow> cn_isDefault c)\<rparr> else c) (cd_connections db)\<rparr>
      in if isDefault = Some True then unsetOtherDefaults i db' else db')"

definition getPreference :: "connection_db \<Rightarrow> string \<Rightarrow> string \<Rightarrow> preference option" where
  "getPreference db scope refId = find (\<lambda>p. pf_refId p = refId \<and> pf_scope p = scope) (cd_preferences db)"

definition upsertPreference :: "string \<Rightarrow> string \<Rightarrow> string \<Rightarrow> bool \<Rightarrow> connection_db \<Rightarrow> connection_db" where
  "upsertPreference scope refId connectionId enforced db =
     (if getPreference db scope refId = None
      then db\<lparr>cd_preferences := cd_preferences db @ [\<lparr>pf_scope = scope, pf_refId = refId, pf_connectionId = connectionId, pf_enforced = enforced\<rparr>]\<rparr>
      else db\<lparr>cd_preferences := map (\<lambda>p. if pf_refId p = refId \<and> pf_scope p = scope
        then p\<lparr>pf_connectionId := connectionId, pf_enforced := enforced\<rparr> else p) (cd_preferences db)\<rparr>)"

definition deleteByConnectionId :: "string \<Rightarrow> connection_db \<Rightarrow> connection_db" where
  "deleteByConnectionId i db = db\<lparr>cd_preferences := filter (\<lambda>p. pf_connectionId p \<noteq> i) (cd_preferences db)\<rparr>"

definition connection_delete :: "string \<Rightarrow> connection_db \<Rightarrow> connection_db" where
  "connection_delete i db = deleteByConnectionId i (db\<lparr>cd_connections := filter (\<lambda>c. cn_id c \<noteq> i) (cd_connections db)\<rparr>)"

subsection \<open>The layers\<close>

definition availableConnections :: "connection list \<Rightarrow> string option \<Rightarrow> connection list" where
  "availableConnections cs tenantId = filter (\<lambda>c. case cn_tenantIds c of None \<Rightarrow> True
     | Some ts \<Rightarrow> ts = [] \<or> (js_truthy tenantId \<and> the tenantId \<in> set ts)) cs"

definition loadTenantPreference :: "connection_db \<Rightarrow> resolve_ctx \<Rightarrow> preference option" where
  "loadTenantPreference db ctx = (if \<not> js_truthy (rx_tenantId ctx) then None else getPreference db ''tenant'' (the (rx_tenantId ctx)))"

definition globalDefault :: "connection list \<Rightarrow> string option" where
  "globalDefault available = map_option cn_id (find cn_isDefault available)"

definition tenantDefault :: "connection_db \<Rightarrow> resolve_ctx \<Rightarrow> string option" where
  "tenantDefault db ctx = (case loadTenantPreference db ctx of Some p \<Rightarrow> if pf_enforced p then None else Some (pf_connectionId p) | None \<Rightarrow> None)"

definition userDefault :: "connection_db \<Rightarrow> resolve_ctx \<Rightarrow> string option" where
  "userDefault db ctx = (if \<not> js_truthy (rx_userId ctx) then None else map_option pf_connectionId (getPreference db ''user'' (the (rx_userId ctx))))"

definition tenantEnforced :: "connection_db \<Rightarrow> resolve_ctx \<Rightarrow> string option" where
  "tenantEnforced db ctx = (case loadTenantPreference db ctx of Some p \<Rightarrow> if pf_enforced p then Some (pf_connectionId p) else None | None \<Rightarrow> None)"

definition adminEnforcedGlobal :: "connection list \<Rightarrow> string option" where
  "adminEnforcedGlobal cs = map_option cn_id (find cn_enforced cs)"

definition adminEnforcedForTenant :: "connection list \<Rightarrow> resolve_ctx \<Rightarrow> string option" where
  "adminEnforcedForTenant cs ctx = (if \<not> js_truthy (rx_tenantId ctx) then None
     else map_option cn_id (find (\<lambda>c. case cn_enforcedTenantIds c of None \<Rightarrow> False | Some ts \<Rightarrow> the (rx_tenantId ctx) \<in> set ts) cs))"

text \<open>Each layer with its candidate and whether it is soft, in ascending priority.\<close>

definition resolutionLayers :: "connection_db \<Rightarrow> connection list \<Rightarrow> connection list \<Rightarrow> resolve_ctx \<Rightarrow> (string option \<times> bool) list" where
  "resolutionLayers db cs available ctx =
     [(globalDefault available, True), (tenantDefault db ctx, True), (userDefault db ctx, True), (rx_requested ctx, True),
      (tenantEnforced db ctx, False), (adminEnforcedGlobal cs, False), (adminEnforcedForTenant cs ctx, False), (rx_codeOverride ctx, False)]"

text \<open>\<open>(locked, selected)\<close> after one more layer.\<close>

definition apply_layer :: "string set \<Rightarrow> string option \<times> bool \<Rightarrow> bool \<times> string option \<Rightarrow> bool \<times> string option" where
  "apply_layer availableIds layer acc = (case layer of (candidate, soft) \<Rightarrow>
     if \<not> js_truthy candidate then acc else if soft \<and> the candidate \<notin> availableIds then acc else (\<not> soft, candidate))"

definition resolveFrom :: "connection_db \<Rightarrow> connection list \<Rightarrow> resolve_ctx \<Rightarrow> bool \<times> string option" where
  "resolveFrom db cs ctx =
     (if cs = [] then (False, None)
      else (let available = availableConnections cs (rx_tenantId ctx);
                (locked, selected) = fold (apply_layer (set (map cn_id available))) (resolutionLayers db cs available ctx) (False, None);
                stale = (js_truthy selected \<and> the selected \<notin> set (map cn_id cs));
                locked' = (locked \<and> \<not> stale);
                selected' = (if stale then None else selected)
            in (locked', if \<not> js_truthy selected' \<and> available \<noteq> [] then Some (cn_id (hd available)) else selected')))"

definition resolveConnectionId :: "connection_db \<Rightarrow> resolve_ctx \<Rightarrow> string option" where
  "resolveConnectionId db ctx = snd (resolveFrom db (listUsable db) ctx)"

definition resolveConnection :: "connection_db \<Rightarrow> resolve_ctx \<Rightarrow> connection_error + connection option" where
  "resolveConnection db ctx = (if js_truthy (resolveConnectionId db ctx)
     then then_do (connection_resolve db (resolveConnectionId db ctx)) (\<lambda>c. Inr (Some c)) else Inr None)"

record available_connection =
  av_id :: string
  av_isDefault :: bool
  av_locked :: bool
  av_selected :: bool

definition listAvailable :: "connection_db \<Rightarrow> resolve_ctx \<Rightarrow> available_connection list" where
  "listAvailable db ctx =
     (let cs = listUsable db; (locked, selected) = resolveFrom db cs ctx
      in if cs = [] then []
         else map (\<lambda>c. \<lparr>av_id = cn_id c, av_isDefault = cn_isDefault c, av_locked = locked, av_selected = (Some (cn_id c) = selected)\<rparr>)
                (availableConnections cs (rx_tenantId ctx)))"

definition setUserConnection :: "bool \<Rightarrow> string \<Rightarrow> string \<Rightarrow> string option \<Rightarrow> connection_db \<Rightarrow> connection_error + connection_db" where
  "setUserConnection preferenceService userId connectionId tenantId db =
     (if \<not> preferenceService then Inl PreferencesUnavailable
      else if \<not> list_ex (\<lambda>c. cn_id c = connectionId) (availableConnections (listUsable db) tenantId) then Inl ConnectionNotAvailable
      else Inr (upsertPreference ''user'' userId connectionId False db))"

definition setPreference :: "bool \<Rightarrow> string \<Rightarrow> string \<Rightarrow> string \<Rightarrow> bool \<Rightarrow> connection_db \<Rightarrow> connection_error + connection_db" where
  "setPreference preferenceService scope refId connectionId enforced db =
     (if \<not> preferenceService then Inl PreferencesUnavailable
      else if \<not> list_ex (\<lambda>c. cn_id c = connectionId) (listUsable db) then Inl ConnectionNotFound
      else Inr (upsertPreference scope refId connectionId enforced db))"

subsection \<open>What the resolution promises\<close>

text \<open>The mandatory layers, and what a request can ask for.\<close>

definition mandates :: "connection_db \<Rightarrow> connection list \<Rightarrow> resolve_ctx \<Rightarrow> string option list" where
  "mandates db cs ctx = [tenantEnforced db ctx, adminEnforcedGlobal cs, adminEnforcedForTenant cs ctx, rx_codeOverride ctx]"

definition wishes :: "connection_db \<Rightarrow> connection list \<Rightarrow> resolve_ctx \<Rightarrow> string option list" where
  "wishes db available ctx = [globalDefault available, tenantDefault db ctx, userDefault db ctx, rx_requested ctx]"

lemma layers_split:
  "resolutionLayers db cs available ctx = map (\<lambda>c. (c, True)) (wishes db available ctx) @ map (\<lambda>c. (c, False)) (mandates db cs ctx)"
  by (simp add: resolutionLayers_def wishes_def mandates_def)

lemma fold_soft:
  "fold (apply_layer av) (map (\<lambda>c. (c, True)) ls) acc = (l, s) \<Longrightarrow> (l, s) = acc \<or> (\<not> l \<and> js_truthy s \<and> the s \<in> av)"
proof (induction ls arbitrary: acc)
  case (Cons c ls)
  then have "(l, s) = apply_layer av (c, True) acc \<or> (\<not> l \<and> js_truthy s \<and> the s \<in> av)" by simp
  then show ?case by (cases acc) (auto simp: apply_layer_def split: if_splits)
qed simp

lemma fold_hard:
  "fold (apply_layer av) (map (\<lambda>c. (c, False)) ls) acc = (case filter js_truthy ls of [] \<Rightarrow> acc | fs \<Rightarrow> (True, last fs))"
proof (induction ls arbitrary: acc)
  case (Cons c ls)
  then show ?case by (cases "filter js_truthy ls"; cases acc) (auto simp: apply_layer_def)
qed simp

text \<open>Before the check for stale ids: the last mandate, or an available connection that someone wished, or nothing.\<close>

lemma selection_cases:
  assumes "fold (apply_layer av) (resolutionLayers db cs available ctx) (False, None) = (l, s)"
  shows "if filter js_truthy (mandates db cs ctx) \<noteq> [] then l \<and> s = last (filter js_truthy (mandates db cs ctx))
    else \<not> l \<and> (s = None \<or> js_truthy s \<and> the s \<in> av)"
proof -
  obtain l0 s0 where w: "fold (apply_layer av) (map (\<lambda>c. (c, True)) (wishes db available ctx)) (False, None) = (l0, s0)" by fastforce
  have a: "(case filter js_truthy (mandates db cs ctx) of [] \<Rightarrow> (l0, s0) | fs \<Rightarrow> (True, last fs)) = (l, s)"
    using assms by (simp add: layers_split w fold_hard)
  show ?thesis
    using a fold_soft [OF w] by (cases "filter js_truthy (mandates db cs ctx)") auto
qed

lemma last_mandate: "filter js_truthy ms \<noteq> [] \<Longrightarrow> last (filter js_truthy ms) \<in> set ms \<and> js_truthy (last (filter js_truthy ms))"
  using last_in_set [of "filter js_truthy ms"] by auto

lemma resolveFrom_eq:
  assumes "cs \<noteq> []" "fold (apply_layer (set (map cn_id (availableConnections cs (rx_tenantId ctx)))))
      (resolutionLayers db cs (availableConnections cs (rx_tenantId ctx)) ctx) (False, None) = (l, s)"
  shows "resolveFrom db cs ctx =
    (let stale = (js_truthy s \<and> the s \<notin> set (map cn_id cs)); s' = (if stale then None else s)
     in (l \<and> \<not> stale, if \<not> js_truthy s' \<and> availableConnections cs (rx_tenantId ctx) \<noteq> []
           then Some (cn_id (hd (availableConnections cs (rx_tenantId ctx)))) else s'))"
  unfolding resolveFrom_def Let_def assms(2) using assms(1) by simp

lemma resolveFrom_selected:
  assumes "cs \<noteq> []" "resolveFrom db cs ctx = (l, Some i)"
  shows "i \<in> set (map cn_id cs)"
    and "Some i \<in> set (mandates db cs ctx) \<or> i \<in> set (map cn_id (availableConnections cs (rx_tenantId ctx)))"
proof -
  define available where "available = availableConnections cs (rx_tenantId ctx)"
  obtain l0 s0 where f: "fold (apply_layer (set (map cn_id available))) (resolutionLayers db cs available ctx) (False, None) = (l0, s0)" by fastforce
  define stale where "stale = (js_truthy s0 \<and> the s0 \<notin> set (map cn_id cs))"
  have "(l0 \<and> \<not> stale, if \<not> js_truthy (if stale then None else s0) \<and> available \<noteq> [] then Some (cn_id (hd available)) else (if stale then None else s0)) = (l, Some i)"
    using assms(2) unfolding resolveFrom_eq [OF assms(1) f [unfolded available_def]] Let_def available_def [symmetric] stale_def [symmetric] .
  from conjunct2 [OF this [unfolded prod.inject]]
  have r: "Some i = (if \<not> js_truthy (if stale then None else s0) \<and> available \<noteq> [] then Some (cn_id (hd available)) else (if stale then None else s0))"
    by (rule sym)
  have av: "set available \<subseteq> set cs" by (auto simp: available_def availableConnections_def)
  have s0: "s0 = Some i \<Longrightarrow> js_truthy s0 \<and> (Some i \<in> set (mandates db cs ctx) \<or> i \<in> set (map cn_id available))"
    using selection_cases [OF f] last_mandate [of "mandates db cs ctx"] by (auto split: if_splits)
  consider "available \<noteq> []" "i = cn_id (hd available)" | "\<not> stale" "s0 = Some i" using r by (auto split: if_splits)
  then have "i \<in> set (map cn_id cs) \<and> (Some i \<in> set (mandates db cs ctx) \<or> i \<in> set (map cn_id available))"
  proof cases
    case 1
    then have "hd available \<in> set available" by simp
    then show ?thesis using av 1(2) by auto
  next
    case 2
    then show ?thesis using s0 by (auto simp: stale_def)
  qed
  then show "i \<in> set (map cn_id cs)" "Some i \<in> set (mandates db cs ctx) \<or> i \<in> set (map cn_id (availableConnections cs (rx_tenantId ctx)))"
    by (simp_all add: available_def)
qed

text \<open>
  C15. The connection of a prompt exists, is enabled, and is one the tenant may use, unless an administrator, the tenant or the code
  mandates it; what the client asks for never leads outside. The resolution itself never fails.
  Assumed: ids of connections are distinct.
\<close>

theorem resolved_connection_usable:
  assumes "distinct (map cn_id (cd_connections db))"
  shows "case resolveConnection db ctx of
      Inl e \<Rightarrow> False
    | Inr None \<Rightarrow> \<not> js_truthy (resolveConnectionId db ctx)
    | Inr (Some c) \<Rightarrow> c \<in> set (listUsable db) \<and> Some (cn_id c) = resolveConnectionId db ctx
        \<and> (Some (cn_id c) \<in> set (mandates db (listUsable db) ctx) \<or> c \<in> set (availableConnections (listUsable db) (rx_tenantId ctx)))"
proof (cases "js_truthy (resolveConnectionId db ctx)")
  case True
  then obtain i where i: "resolveConnectionId db ctx = Some i" by (cases "resolveConnectionId db ctx") auto
  then obtain l where r: "resolveFrom db (listUsable db) ctx = (l, Some i)" by (cases "resolveFrom db (listUsable db) ctx") (simp add: resolveConnectionId_def)
  have "listUsable db \<noteq> []" using r by (auto simp: resolveFrom_def)
  note sel = resolveFrom_selected [OF this r]
  obtain c where c: "c \<in> set (listUsable db)" "cn_id c = i" using sel(1) by auto
  have same: "c' = c" if "c' \<in> set (cd_connections db)" "cn_id c' = i" for c'
    using that c assms by (auto simp: listUsable_def distinct_map inj_on_def)
  have "find (\<lambda>x. Some (cn_id x) = Some i) (cd_connections db) = Some c"
  proof (cases "find (\<lambda>x. Some (cn_id x) = Some i) (cd_connections db)")
    case None
    then show ?thesis using c by (auto simp: find_None_iff listUsable_def)
  next
    case (Some c')
    then have "c' \<in> set (cd_connections db)" "cn_id c' = i" by (auto simp: find_Some_iff)
    then show ?thesis using same Some by simp
  qed
  then have "resolveConnection db ctx = Inr (Some c)"
    using True c by (simp add: resolveConnection_def connection_resolve_def i listUsable_def)
  moreover have "i \<in> set (map cn_id (availableConnections (listUsable db) (rx_tenantId ctx))) \<Longrightarrow> c \<in> set (availableConnections (listUsable db) (rx_tenantId ctx))"
    using same by (auto simp: availableConnections_def listUsable_def)
  ultimately show ?thesis using c sel(2) i by auto
next
  case False
  then show ?thesis by (simp add: resolveConnection_def)
qed

text \<open>
  A locked selection is out of the client's reach: whatever it requests and whatever the user has chosen as default, the same
  connection is used.
\<close>

theorem locked_selection_ignores_client:
  assumes "fst (resolveFrom db cs ctx)"
  shows "resolveFrom db cs (ctx\<lparr>rx_requested := r, rx_userId := u\<rparr>) = resolveFrom db cs ctx"
proof -
  let ?ctx = "ctx\<lparr>rx_requested := r, rx_userId := u\<rparr>"
  have cs: "cs \<noteq> []" using assms by (auto simp: resolveFrom_def)
  define available where "available = availableConnections cs (rx_tenantId ctx)"
  have m: "mandates db cs ?ctx = mandates db cs ctx"
    by (cases ctx) (simp add: mandates_def tenantEnforced_def loadTenantPreference_def adminEnforcedForTenant_def cong: option.case_cong)
  obtain l0 s0 where f: "fold (apply_layer (set (map cn_id available))) (resolutionLayers db cs available ctx) (False, None) = (l0, s0)" by fastforce
  obtain l1 s1 where g: "fold (apply_layer (set (map cn_id available))) (resolutionLayers db cs available ?ctx) (False, None) = (l1, s1)" by fastforce
  note ef = resolveFrom_eq [OF cs f [unfolded available_def], folded available_def]
  have eg: "resolveFrom db cs ?ctx = (let stale = (js_truthy s1 \<and> the s1 \<notin> set (map cn_id cs)); s' = (if stale then None else s1)
     in (l1 \<and> \<not> stale, if \<not> js_truthy s' \<and> available \<noteq> [] then Some (cn_id (hd available)) else s'))"
    using resolveFrom_eq [OF cs, of ?ctx db l1 s1] g by (simp add: available_def)
  have "l0" using assms unfolding ef Let_def by (metis fst_conv)
  then have "(l1, s1) = (l0, s0)" using selection_cases [OF f] selection_cases [OF g] m by (auto split: if_splits)
  then show ?thesis unfolding ef eg by simp
qed

definition one_default :: "connection_db \<Rightarrow> bool" where
  "one_default db = (distinct (map cn_id (cd_connections db)) \<and> (\<forall>c\<in>set (cd_connections db). \<forall>c'\<in>set (cd_connections db).
     cn_isDefault c \<longrightarrow> cn_isDefault c' \<longrightarrow> cn_id c = cn_id c'))"

lemma one_default_map:
  assumes "one_default db" and i: "\<And>c. cn_id (g c) = cn_id c" and d: "\<And>c. cn_isDefault (g c) \<Longrightarrow> cn_isDefault c"
  shows "one_default (db\<lparr>cd_connections := map g (cd_connections db)\<rparr>)"
proof -
  have m: "map cn_id (map g (cd_connections db)) = map cn_id (cd_connections db)" by (simp add: i)
  have same: "x \<in> set (cd_connections db) \<Longrightarrow> y \<in> set (cd_connections db) \<Longrightarrow> cn_isDefault x \<Longrightarrow> cn_isDefault y \<Longrightarrow> cn_id x = cn_id y" for x y
    using assms(1) unfolding one_default_def by blast
  show ?thesis
    unfolding one_default_def
  proof (intro conjI ballI impI)
    show "distinct (map cn_id (cd_connections (db\<lparr>cd_connections := map g (cd_connections db)\<rparr>)))"
      using assms(1) m by (simp add: one_default_def del: map_map)
    fix x y
    assume x: "x \<in> set (cd_connections (db\<lparr>cd_connections := map g (cd_connections db)\<rparr>))"
      and y: "y \<in> set (cd_connections (db\<lparr>cd_connections := map g (cd_connections db)\<rparr>))" and dx: "cn_isDefault x" and dy: "cn_isDefault y"
    obtain x' y' where x': "x' \<in> set (cd_connections db)" "x = g x'" and y': "y' \<in> set (cd_connections db)" "y = g y'" using x y by auto
    have "cn_id x' = cn_id y'" by (rule same [OF x'(1) y'(1)]) (use dx dy x' y' d in auto)
    then show "cn_id x = cn_id y" by (simp add: x' y' i)
  qed
qed

lemma one_default_unset: "distinct (map cn_id (cd_connections db)) \<Longrightarrow> one_default (unsetOtherDefaults i db)"
  by (auto simp: one_default_def unsetOtherDefaults_def comp_def if_distrib [of cn_id] cong: if_cong)

text \<open>
  There is never more than one default connection: creating, changing and deleting connections keep it so.
\<close>

theorem one_default_preserved:
  assumes "one_default db" "cn_id c \<notin> set (map cn_id (cd_connections db))"
  shows "one_default (connection_create c db) \<and> one_default (connection_update i f isDefault db) \<and> one_default (connection_delete i db)"
proof (intro conjI)
  have d: "distinct (map cn_id (cd_connections db))" using assms(1) by (simp add: one_default_def)
  show "one_default (connection_create c db)"
  proof (cases "cn_isDefault c")
    case True
    then show ?thesis using assms(2) d by (simp add: connection_create_def one_default_unset)
  next
    case False
    then have "\<forall>x\<in>set (cd_connections db @ [c]). cn_isDefault x \<longrightarrow> x \<in> set (cd_connections db)" by simp
    then have "one_default (db\<lparr>cd_connections := cd_connections db @ [c]\<rparr>)"
      using assms d unfolding one_default_def by (simp only: connection_db.select_convs connection_db.update_convs connection_db.surjective distinct_append map_append) fastforce
    then show ?thesis using False by (simp add: connection_create_def)
  qed
  show "one_default (connection_update i f isDefault db)"
  proof -
    let ?g = "\<lambda>c. if cn_id c = i then (f c)\<lparr>cn_id := i, cn_isDefault := (case isDefault of Some b \<Rightarrow> b | None \<Rightarrow> cn_isDefault c)\<rparr> else c"
    have k: "map cn_id (map ?g xs) = map cn_id xs" for xs by (induction xs) auto
    show ?thesis
    proof (cases "isDefault = Some True")
      case True
      have "one_default (unsetOtherDefaults i (db\<lparr>cd_connections := map ?g (cd_connections db)\<rparr>))"
        by (rule one_default_unset) (simp add: k d del: map_map)
      then show ?thesis unfolding connection_update_def Let_def if_P [OF True] .
    next
      case False
      have "one_default (db\<lparr>cd_connections := map ?g (cd_connections db)\<rparr>)"
        by (rule one_default_map [OF assms(1)]) (use False in \<open>auto split: if_splits option.splits\<close>)
      then show ?thesis using False by (simp add: connection_update_def)
    qed
  qed
  show "one_default (connection_delete i db)"
    using assms(1) by (auto simp: one_default_def connection_delete_def deleteByConnectionId_def distinct_map_filter)
qed

text \<open>Two connections, the second for the tenant \<open>t\<close> only and enforced by its preference.\<close>

definition demo_connections :: connection_db where
  "demo_connections =
     (let c = (\<lambda>i d ts. \<lparr>cn_id = i, cn_enabled = None, cn_isDefault = d, cn_enforced = False, cn_tenantIds = ts, cn_enforcedTenantIds = None\<rparr>)
      in \<lparr>cd_connections = [c ''a'' True None, c ''b'' False (Some [''t''])],
          cd_preferences = [\<lparr>pf_scope = ''tenant'', pf_refId = ''t'', pf_connectionId = ''b'', pf_enforced = True\<rparr>]\<rparr>)"

definition demo_selection :: "string \<Rightarrow> resolve_ctx" where
  "demo_selection t = \<lparr>rx_codeOverride = None, rx_requested = Some ''b'', rx_tenantId = Some t, rx_userId = Some ''u''\<rparr>"

lemma resolved_connection_usable_witness:
  "resolveConnectionId demo_connections (demo_selection ''x'') = Some ''a''
   \<and> (case resolveConnection demo_connections (demo_selection ''x'') of Inl e \<Rightarrow> False | Inr c \<Rightarrow> True)"
proof -
  have "resolveConnectionId demo_connections (demo_selection ''x'') = Some ''a''" by code_simp
  moreover have "distinct (map cn_id (cd_connections demo_connections))" by code_simp
  ultimately show ?thesis using resolved_connection_usable [of demo_connections "demo_selection ''x''"] by (auto split: sum.splits)
qed

lemma locked_selection_ignores_client_witness:
  "resolveFrom demo_connections (listUsable demo_connections) ((demo_selection ''t'')\<lparr>rx_requested := Some ''a'', rx_userId := None\<rparr>) = (True, Some ''b'')"
proof -
  have r: "resolveFrom demo_connections (listUsable demo_connections) (demo_selection ''t'') = (True, Some ''b'')" by code_simp
  show ?thesis using locked_selection_ignores_client [of demo_connections "listUsable demo_connections" "demo_selection ''t''"] by (simp add: r)
qed

lemma one_default_preserved_witness:
  "let c = \<lparr>cn_id = ''c'', cn_enabled = None, cn_isDefault = True, cn_enforced = False, cn_tenantIds = None, cn_enforcedTenantIds = None\<rparr>
   in one_default (connection_create c demo_connections) \<and> map cn_isDefault (cd_connections (connection_create c demo_connections)) = [False, False, True]"
proof -
  have o: "one_default demo_connections" by (simp add: one_default_def demo_connections_def Let_def)
  have "one_default (connection_create \<lparr>cn_id = ''c'', cn_enabled = None, cn_isDefault = True, cn_enforced = False, cn_tenantIds = None, cn_enforcedTenantIds = None\<rparr> demo_connections)"
    by (rule conjunct1 [OF one_default_preserved [OF o]]) (simp add: demo_connections_def Let_def)
  then show ?thesis by (simp add: Let_def) (simp add: connection_create_def unsetOtherDefaults_def demo_connections_def Let_def)
qed

end
