(* ===== verification/AiPrompt.thy ===== *)
theory AiPrompt
  imports AiAgent AiBudget AiConnections RateStore
begin

text \<open>
  A prompt from the request to the response, \<^verbatim>\<open>prompt\<close> and \<^verbatim>\<open>prepareRun\<close> of \<^verbatim>\<open>modules/ai/services/core-ai.service.ts\<close>: connection, rate limit,
  budget, named mode, role filter, history, run, and the token summary. The rate limit counts in memory. What probing a connection finds out and the
  resolution of placeholders in the prompt are parameters.
\<close>

subsection \<open>Configuration and state\<close>

record ai_mode =
  am_name :: string
  am_enabled :: "bool option"
  am_roles :: "string list option"
  am_allowedTools :: "string list option"

record rate_limit_config =
  rc_enabled :: "bool option"
  rc_max :: "int option"
  rc_windowSeconds :: "int option"

record 'r prompt_env =
  pe_ai :: "'r ai_env"
  pe_registry :: "'r tool_registry"
  pe_connections :: connection_db
  pe_details :: "connection \<Rightarrow> 'r ai_db \<Rightarrow> (ai_connection \<times> bool) \<times> 'r ai_db"
  pe_rateLimit :: "rate_limit_config option"
  pe_budget :: "budget_env option"
  pe_modes :: "ai_mode list option"
  pe_defaultMode :: "string option"
  pe_placeholders :: "string \<Rightarrow> user option \<Rightarrow> string"

record prompt_request =
  pq_user :: "user option"
  pq_tenantId :: "string option"
  pq_language :: "string option"
  pq_codeOverride :: "string option"

datatype prompt_error = NoConnection connection_error | RateLimited | OverBudget | RunFailed string

subsection \<open>Preparing the run\<close>

definition user_id_of :: "user option \<Rightarrow> string option" where
  "user_id_of usr = map_option u_id usr"

definition checkRateLimit :: "rate_limit_config option \<Rightarrow> string option \<Rightarrow> int \<Rightarrow> mem_store \<Rightarrow> (prompt_error + unit) \<times> mem_store" where
  "checkRateLimit cfg userId now rates = (case cfg of
       None \<Rightarrow> (Inr (), rates)
     | Some c \<Rightarrow>
         if rc_enabled c = Some False then (Inr (), rates)
         else (let (hit, rates') = mem_hit (if js_truthy userId then the userId else ''anonymous'')
                     (case rc_windowSeconds c of Some s \<Rightarrow> s | None \<Rightarrow> 60) now rates
               in (if int (hit_count hit) > (case rc_max c of Some m \<Rightarrow> m | None \<Rightarrow> 20) then Inl RateLimited else Inr (), rates')))"

definition getByName :: "ai_mode list \<Rightarrow> string \<Rightarrow> ai_mode option" where
  "getByName modes n = (if n = [] then None else find (\<lambda>m. am_enabled m \<noteq> Some False \<and> am_name m = n) modes)"

text \<open>The mode of the request, if it exists and is open to the user.\<close>

definition active_mode :: "'r prompt_env \<Rightarrow> user option \<Rightarrow> prompt_input \<Rightarrow> ai_mode option" where
  "active_mode pe usr input = (case pe_modes pe of
       None \<Rightarrow> None
     | Some modes \<Rightarrow>
         if \<not> js_truthy (pi_agentMode input) then None
         else (case getByName modes (the (pi_agentMode input)) of
             None \<Rightarrow> None
           | Some m \<Rightarrow>
               let roles = (case am_roles m of None \<Rightarrow> [] | Some rs \<Rightarrow> rs);
                   held = (case usr of None \<Rightarrow> [] | Some u \<Rightarrow> (case u_roles u of None \<Rightarrow> [] | Some rs \<Rightarrow> rs))
               in if roles = [] \<or> list_ex (\<lambda>r. r \<in> set held) roles then Some m else None))"

definition offered_tools :: "'r prompt_env \<Rightarrow> user option \<Rightarrow> prompt_input \<Rightarrow> 'r ai_tool list" where
  "offered_tools pe usr input =
     (let tools = tools_forUser (pe_registry pe) usr
      in case active_mode pe usr input of
           None \<Rightarrow> tools
         | Some m \<Rightarrow> (case am_allowedTools m of
               None \<Rightarrow> tools
             | Some allow \<Rightarrow> if allow = [] then tools
                 else filter (\<lambda>t. tl_name t \<in> set allow \<or> tl_name t \<in> {''ask_user_question'', ''search_tools''}) tools))"

definition loadConversationHistory :: "'r ai_env \<Rightarrow> 'r ai_db \<Rightarrow> string option \<Rightarrow> user option \<Rightarrow> chat_turn list" where
  "loadConversationHistory env w conversationId usr =
     (if \<not> js_truthy conversationId \<or> conversationId = Some ''null'' \<or> conversationId = Some ''undefined'' \<or> \<not> en_conversationService env then []
      else loadRecentMessages (en_rt env) w (the conversationId) usr 20)"

definition prepareRun :: "'r prompt_env \<Rightarrow> prompt_input \<Rightarrow> prompt_request \<Rightarrow> 'r ai_db \<Rightarrow> mem_store
    \<Rightarrow> (prompt_error + 'r ai_run option) \<times> 'r ai_db \<times> mem_store" where
  "prepareRun pe input req w rates =
     (let usr = pq_user req
      in case resolveConnection (pe_connections pe) \<lparr>rx_codeOverride = pq_codeOverride req, rx_requested = pi_connectionId input,
             rx_tenantId = pq_tenantId req, rx_userId = user_id_of usr\<rparr> of
           Inl e \<Rightarrow> (Inl (NoConnection e), w, rates)
         | Inr None \<Rightarrow> (Inr None, w, rates)
         | Inr (Some c) \<Rightarrow>
             (let ((details, native), w1) = pe_details pe c w;
                  (rate, rates') = checkRateLimit (pe_rateLimit pe) (user_id_of usr) (ad_now w1) rates
              in case rate of
                   Inl e \<Rightarrow> (Inl e, w1, rates')
                 | Inr _ \<Rightarrow>
                     if (case pe_budget pe of None \<Rightarrow> False | Some b \<Rightarrow> assertWithinBudget b w1 (user_id_of usr) (pq_tenantId req) \<noteq> Inr ())
                     then (Inl OverBudget, w1, rates')
                     else (Inr (Some \<lparr>ru_connection = details, ru_user = usr,
                             ru_history = loadConversationHistory (pe_ai pe) w1 (pi_conversationId input) usr, ru_nativeTools = native,
                             ru_language = pq_language req, ru_tenantId = pq_tenantId req, ru_tools = offered_tools pe usr input\<rparr>), w1, rates')))"

subsection \<open>The prompt\<close>

definition unavailableResponse :: "'r ai_env \<Rightarrow> prompt_input \<Rightarrow> string option \<Rightarrow> ai_response" where
  "unavailableResponse env input language = (empty_response input)\<lparr>rs_denied := True, rs_text := en_translate env AiUnavailable language\<rparr>"

definition ai_prompt :: "'r prompt_env \<Rightarrow> prompt_input \<Rightarrow> prompt_request \<Rightarrow> 'r ai_db \<Rightarrow> mem_store
    \<Rightarrow> (prompt_error + ai_response) \<times> 'r execution list \<times> 'r ai_db \<times> mem_store" where
  "ai_prompt pe input req w rates =
     (let resolved = input\<lparr>pi_prompt := pe_placeholders pe (pi_prompt input) (pq_user req)\<rparr>
      in case prepareRun pe resolved req w rates of
           (Inl e, w1, rates') \<Rightarrow> (Inl e, [], w1, rates')
         | (Inr None, w1, rates') \<Rightarrow> (Inr (unavailableResponse (pe_ai pe) resolved (pq_language req)), [], w1, rates')
         | (Inr (Some run), w1, rates') \<Rightarrow>
             (case run_prompt (pe_defaultMode pe) (pe_ai pe) run resolved w1 of
                (Inl e, log, w2) \<Rightarrow> (Inl (RunFailed e), log, w2, rates')
              | (Inr response, log, w2) \<Rightarrow> (Inr response, log, w2, rates')))"

text \<open>\<open>attachBudgetSummary\<close>: the window with its use, and the summary; \<open>quota\<close> is the one of the connection, tokens and period.\<close>

definition attachBudgetSummary :: "'r prompt_env \<Rightarrow> 'r ai_run \<Rightarrow> int option \<times> string option \<Rightarrow> ai_response \<Rightarrow> 'r ai_db
    \<Rightarrow> (int \<times> int) option \<times> budget_summary option" where
  "attachBudgetSummary pe run quota response w =
     (let llmWindow = (case ac_contextWindow (ru_connection run) of Some n \<Rightarrow> n
              | None \<Rightarrow> (case en_contextWindow (pe_ai pe) of Some n \<Rightarrow> n | None \<Rightarrow> 8192));
          total = us_total (rs_usage response);
          window = (if llmWindow > 0 \<and> total \<noteq> 0 then Some (llmWindow, min llmWindow total) else None)
      in (window, if pe_budget pe = None \<or> rs_denied response
            then (if llmWindow > 0 \<and> total \<noteq> 0 then Some ((empty_summary total)\<lparr>sm_maxTokens := Some llmWindow, sm_scope := Some ''llm''\<rparr>) else None)
            else Some (buildSummary (the (pe_budget pe)) w (user_id_of (ru_user run)) (ru_tenantId run) total (Some llmWindow)
              (if finite_limit (fst quota) then Some quota else None))))"

subsection \<open>Admission\<close>

text \<open>The checks a request has passed before the model is asked.\<close>

definition within_limits :: "'r prompt_env \<Rightarrow> prompt_request \<Rightarrow> 'r ai_db \<Rightarrow> mem_store \<Rightarrow> bool" where
  "within_limits pe req w1 rates =
     (is_ok (fst (checkRateLimit (pe_rateLimit pe) (user_id_of (pq_user req)) (ad_now w1) rates))
      \<and> (case pe_budget pe of None \<Rightarrow> True | Some b \<Rightarrow> assertWithinBudget b w1 (user_id_of (pq_user req)) (pq_tenantId req) = Inr ()))"

definition mode_admits :: "'r prompt_env \<Rightarrow> user option \<Rightarrow> prompt_input \<Rightarrow> string \<Rightarrow> bool" where
  "mode_admits pe usr input n = (case active_mode pe usr input of None \<Rightarrow> True
     | Some m \<Rightarrow> (case am_allowedTools m of None \<Rightarrow> True
         | Some allow \<Rightarrow> allow = [] \<or> n \<in> set allow \<or> n \<in> {''ask_user_question'', ''search_tools''}))"

lemma offered_tools_admitted: "t \<in> set (offered_tools pe usr input) \<Longrightarrow> userCanAccess t usr \<and> mode_admits pe usr input (tl_name t)"
  by (auto simp: offered_tools_def mode_admits_def Let_def forUser_accessible split: option.splits if_splits)

lemma prepareRun_Some:
  "prepareRun pe input req w rates = (Inr (Some run), w1, rates') \<Longrightarrow>
     within_limits pe req w1 rates \<and> ru_tools run = offered_tools pe (pq_user req) input \<and> ru_user run = pq_user req"
  by (auto simp: prepareRun_def within_limits_def Let_def split: sum.splits option.splits prod.splits if_splits)

text \<open>The gate of the mode in which the request runs.\<close>

definition run_gate :: "'r prompt_env \<Rightarrow> 'r ai_run \<Rightarrow> prompt_input \<Rightarrow> 'r execution \<Rightarrow> bool" where
  "run_gate pe run input e = (if prompt_mode (pe_defaultMode pe) input = ''plan'' then plan_gate_passed (pe_ai pe) run input e
     else gate_passed (pe_ai pe) run input e)"

lemma run_prompt_log: "run_prompt (pe_defaultMode pe) (pe_ai pe) run input w = (r, log, w') \<Longrightarrow> e \<in> set log \<Longrightarrow> run_gate pe run input e"
  using plan_executions_passed [of e "pe_ai pe" run input w] runAuto_log [of e "pe_ai pe" run input w]
  by (simp add: run_prompt_def run_gate_def split: if_splits)

lemma run_gate_confirmed:
  "run_gate pe run input e \<Longrightarrow> \<exists>t. find_tool (ru_tools run) (tc_name (ex_call e)) = Some t \<and> (pi_confirm input \<or> \<not> tl_destructive t)"
proof -
  assume g: "run_gate pe run input e"
  have d: "tl_destructive t \<Longrightarrow> confirmationRequiredFor (pe_ai pe) t input" for t by (simp add: confirmationRequiredFor_def)
  show ?thesis
  proof (cases "prompt_mode (pe_defaultMode pe) input = ''plan''")
    case True
    then show ?thesis using g d unfolding run_gate_def plan_gate_passed_def step_admitted_def by auto
  next
    case False
    then show ?thesis using g d unfolding run_gate_def gate_passed_def by auto
  qed
qed

text \<open>
  C7. No tool runs for a prompt unless the request was within its rate limit and its budget. What runs is a tool that the roles of the user
  admit and the named mode allows, and the call has passed the whole gate of the mode of the request. In plan mode the tool has
  authorized the arguments, and the user has confirmed the plan or the tool needs no confirmation. In every other mode no policy denies the
  arguments; and the user has confirmed, or the tool needs no confirmation and no policy asks for one, or a consent for the tool that is not
  destructive is remembered. A destructive tool only runs with the confirmation of the user.
\<close>

theorem prompt_runs_admitted_tools_only:
  fixes pe :: "'r prompt_env"
  defines "resolved \<equiv> \<lambda>input req. input\<lparr>pi_prompt := pe_placeholders pe (pi_prompt input) (pq_user req)\<rparr>"
  shows "list_all (\<lambda>e. \<exists>run w1 t. prepareRun pe (resolved input req) req w rates = (Inr (Some run), w1, snd (snd (snd (ai_prompt pe input req w rates))))
      \<and> within_limits pe req w1 rates \<and> find_tool (ru_tools run) (tc_name (ex_call e)) = Some t
      \<and> userCanAccess t (pq_user req) \<and> mode_admits pe (pq_user req) input (tl_name t) \<and> (if tl_destructive t then pi_confirm input else True)
      \<and> (if prompt_mode (pe_defaultMode pe) input = ''plan'' then plan_gate_passed (pe_ai pe) run (resolved input req) e
         else gate_passed (pe_ai pe) run (resolved input req) e))
    (fst (snd (ai_prompt pe input req w rates)))"
  unfolding list_all_iff
proof
  fix e assume e: "e \<in> set (fst (snd (ai_prompt pe input req w rates)))"
  define inp where "inp = resolved input req"
  have inp: "pi_confirm inp = pi_confirm input" "pi_mode inp = pi_mode input"
    "inp = input\<lparr>pi_prompt := pe_placeholders pe (pi_prompt input) (pq_user req)\<rparr>" by (simp_all add: inp_def resolved_def)
  obtain pr w1 rates' where p: "prepareRun pe inp req w rates = (pr, w1, rates')" by (metis prod_cases3)
  obtain run where run: "pr = Inr (Some run)"
    using e p by (auto simp: ai_prompt_def inp(3) [symmetric] split: sum.splits option.splits)
  obtain r log w2 where rp: "run_prompt (pe_defaultMode pe) (pe_ai pe) run inp w1 = (r, log, w2)" by (metis prod_cases3)
  have log: "e \<in> set log" and rates: "snd (snd (snd (ai_prompt pe input req w rates))) = rates'"
    using e p run rp by (auto simp: ai_prompt_def inp(3) [symmetric] split: sum.splits)
  have prep: "within_limits pe req w1 rates" "ru_tools run = offered_tools pe (pq_user req) inp"
    using prepareRun_Some [OF p [unfolded run]] by simp_all
  have g: "run_gate pe run inp e" by (rule run_prompt_log [OF rp log])
  obtain t where t: "find_tool (ru_tools run) (tc_name (ex_call e)) = Some t" and c: "pi_confirm inp \<or> \<not> tl_destructive t"
    using run_gate_confirmed [OF g] by blast
  have "mode_admits pe usr inp n = mode_admits pe usr input n" for usr n
    by (cases input) (simp only: mode_admits_def active_mode_def inp(3) prompt_input.select_convs prompt_input.update_convs)
  then have a: "userCanAccess t (pq_user req) \<and> mode_admits pe (pq_user req) input (tl_name t)"
    using offered_tools_admitted [of t pe "pq_user req" inp] find_tool_Some [OF t] prep(2) by auto
  have m: "prompt_mode (pe_defaultMode pe) inp = prompt_mode (pe_defaultMode pe) input" by (simp add: prompt_mode_def inp(2))
  show "\<exists>run w1 t. prepareRun pe (resolved input req) req w rates = (Inr (Some run), w1, snd (snd (snd (ai_prompt pe input req w rates))))
      \<and> within_limits pe req w1 rates \<and> find_tool (ru_tools run) (tc_name (ex_call e)) = Some t
      \<and> userCanAccess t (pq_user req) \<and> mode_admits pe (pq_user req) input (tl_name t) \<and> (if tl_destructive t then pi_confirm input else True)
      \<and> (if prompt_mode (pe_defaultMode pe) input = ''plan'' then plan_gate_passed (pe_ai pe) run (resolved input req) e
         else gate_passed (pe_ai pe) run (resolved input req) e)"
    unfolding inp_def [symmetric] rates
    by (rule exI [of _ run], rule exI [of _ w1], rule exI [of _ t])
      (use p run prep t a c inp(1) g m in \<open>auto simp: run_gate_def\<close>)
qed

end
