(* ===== verification/FilterQuery.thy ===== *)
theory FilterQuery
  imports RequestContext
begin

text \<open>
  The filters of clients and the queries made of them, \<^verbatim>\<open>common/helpers/filter.helper.ts\<close>, with the page of a result
  (\<^verbatim>\<open>common/models/pagination-info.model.ts\<close>) and the renaming of \<^verbatim>\<open>contentType\<close> for GridFS (\<^verbatim>\<open>common/helpers/gridfs.helper.ts\<close>).

  A query is a value \<open>qv\<close>: JSON values from the client, ObjectIds by their hexadecimal string, patterns, and the objects and arrays the code
  builds around them. ObjectIds and regular expressions are made by libraries, so what their constructors accept is a parameter.
  What MongoDB answers is a parameter with the documented laws of its operators.
\<close>

subsection \<open>Filters\<close>

datatype comparison_operator = EQ | GT | GTE | IN | LT | LTE | NE | NIN | REGEX

datatype combine_operator = AND | NOR | OR

record single_filter =
  sf_convertToObjectId :: bool
  sf_field :: string
  sf_isReference :: bool
  sf_not :: bool
  sf_operator :: "comparison_operator option"
  sf_options :: "string option"
  sf_value :: jv

text \<open>A filter with or without a combined filter; \<open>None\<close> stands for a missing property.\<close>

datatype filter_input =
    Combined "combine_operator option" "filter_input list option" "single_filter option"
  | Single "single_filter option"

datatype qv = QJson jv | QOid string | QRegex string | QArr "qv list" | QObj "(string \<times> qv) list"

datatype filter_error = FilterTypeError | FilterBsonError | FilterSyntaxError

text \<open>
  \<^verbatim>\<open>new ObjectId(getStringId(v))\<close> and \<^verbatim>\<open>new RegExp(v)\<close> by the hexadecimal string and the source they make, and \<^verbatim>\<open>ObjectId.isValid\<close>.
\<close>

record filter_rt =
  fr_objectId :: "jv \<Rightarrow> string option"
  fr_regExp :: "qv \<Rightarrow> string option"
  fr_isValid :: "string \<Rightarrow> bool"

definition filterObjectIds :: "filter_rt \<Rightarrow> jv \<Rightarrow> filter_error + qv" where
  "filterObjectIds rt v =
     (let make = (\<lambda>x. case fr_objectId rt x of None \<Rightarrow> Inl FilterBsonError | Some hex \<Rightarrow> Inr (QOid hex))
      in case v of JArr xs \<Rightarrow> then_do (each make xs) (\<lambda>qs. Inr (QArr qs)) | _ \<Rightarrow> make v)"

definition checkStringIds :: "filter_rt \<Rightarrow> jv \<Rightarrow> bool" where
  "checkStringIds rt v =
     (let ok = (\<lambda>x. case x of JStr s \<Rightarrow> length s = 24 \<and> fr_isValid rt s | _ \<Rightarrow> False)
      in case v of JArr xs \<Rightarrow> list_all ok xs | _ \<Rightarrow> ok v)"

subsection \<open>generateFilterQuery\<close>

definition negated :: "bool \<Rightarrow> qv \<Rightarrow> qv" where
  "negated n q = (if n then QObj [(''$not'', q)] else q)"

definition comparison_query :: "filter_rt \<Rightarrow> single_filter \<Rightarrow> qv \<Rightarrow> filter_error + qv option" where
  "comparison_query rt sf value =
     (let n = sf_not sf in case sf_operator sf of
        None \<Rightarrow> Inr None
      | Some EQ \<Rightarrow> Inr (Some (if n then QObj [(''$ne'', value)] else value))
      | Some GT \<Rightarrow> Inr (Some (negated n (QObj [(''$gt'', value)])))
      | Some GTE \<Rightarrow> Inr (Some (negated n (QObj [(''$gte'', value)])))
      | Some IN \<Rightarrow> Inr (Some (if n then QObj [(''$nin'', value)] else QObj [(''$in'', value)]))
      | Some LT \<Rightarrow> Inr (Some (negated n (QObj [(''$lt'', value)])))
      | Some LTE \<Rightarrow> Inr (Some (negated n (QObj [(''$lte'', value)])))
      | Some NE \<Rightarrow> Inr (Some (if n then value else QObj [(''$ne'', value)]))
      | Some NIN \<Rightarrow> Inr (Some (if n then QObj [(''$in'', value)] else QObj [(''$nin'', value)]))
      | Some REGEX \<Rightarrow> (case fr_regExp rt value of
          None \<Rightarrow> Inl FilterSyntaxError
        | Some re \<Rightarrow> Inr (Some (negated n (QObj [(''$options'', QJson (JStr (case sf_options sf of None \<Rightarrow> [] | Some os \<Rightarrow> os))), (''$regex'', QRegex re)])))))"

definition field_query :: "filter_rt \<Rightarrow> single_filter \<Rightarrow> string \<Rightarrow> qv \<Rightarrow> filter_error + qv" where
  "field_query rt sf field value =
     then_do (comparison_query rt sf value) (\<lambda>q. Inr (QObj (case q of None \<Rightarrow> [] | Some c \<Rightarrow> [(field, c)])))"

definition single_query :: "filter_rt \<Rightarrow> bool \<Rightarrow> single_filter \<Rightarrow> filter_error + qv" where
  "single_query rt auto sf =
     (if sf_convertToObjectId sf \<or> sf_isReference sf
      then then_do (filterObjectIds rt (sf_value sf)) (field_query rt sf (sf_field sf))
      else if auto \<and> checkStringIds rt (sf_value sf)
      then (if sf_field sf = ''id''
            then then_do (filterObjectIds rt (sf_value sf)) (field_query rt sf ''_id'')
            else then_do (filterObjectIds rt (sf_value sf)) (\<lambda>ids.
                 then_do (field_query rt sf (sf_field sf) (QJson (sf_value sf))) (\<lambda>q1.
                 then_do (field_query rt sf (sf_field sf) ids) (\<lambda>q2. Inr (QObj [(''$or'', QArr [q1, q2])])))))
      else field_query rt sf (sf_field sf) (QJson (sf_value sf)))"

definition combine_key :: "combine_operator \<Rightarrow> string" where
  "combine_key op = (case op of AND \<Rightarrow> ''$and'' | NOR \<Rightarrow> ''$nor'' | OR \<Rightarrow> ''$or'')"

fun generateFilterQuery :: "filter_rt \<Rightarrow> bool \<Rightarrow> filter_input \<Rightarrow> filter_error + qv" where
  "generateFilterQuery rt auto (Combined (Some op) fs single) = (case fs of
       None \<Rightarrow> Inl FilterTypeError
     | Some items \<Rightarrow> then_do (each (generateFilterQuery rt auto) items) (\<lambda>qs. Inr (QObj [(combine_key op, QArr qs)])))"
| "generateFilterQuery rt auto (Combined None fs single) = (case single of None \<Rightarrow> Inr (QObj []) | Some sf \<Rightarrow> single_query rt auto sf)"
| "generateFilterQuery rt auto (Single single) = (case single of None \<Rightarrow> Inr (QObj []) | Some sf \<Rightarrow> single_query rt auto sf)"

subsection \<open>Find options\<close>

record sort_item =
  so_field :: string
  so_descending :: bool

record filter_args =
  fa_filter :: "filter_input option"
  fa_limit :: "int option"
  fa_offset :: "int option"
  fa_skip :: "int option"
  fa_sort :: "sort_item list option"
  fa_take :: "int option"

record find_options =
  fo_limit :: "int option"
  fo_skip :: "int option"
  fo_sort :: "(string, int) jsmap option"

definition number_or :: "int option \<Rightarrow> int option \<Rightarrow> int option" where
  "number_or a b = (case a of Some n \<Rightarrow> if n \<noteq> 0 then a else b | None \<Rightarrow> b)"

definition positive :: "int option \<Rightarrow> bool" where
  "positive a = (case a of None \<Rightarrow> False | Some n \<Rightarrow> n > 0)"

definition no_number :: "int option \<Rightarrow> bool" where
  "no_number a = (case a of None \<Rightarrow> True | Some n \<Rightarrow> n = 0)"

definition generateFindOptions :: "int option \<Rightarrow> filter_args option \<Rightarrow> find_options" where
  "generateFindOptions maxLimit filterArgs = (case filterArgs of
       None \<Rightarrow> \<lparr>fo_limit = None, fo_skip = None, fo_sort = None\<rparr>
     | Some a \<Rightarrow>
         (let asked = number_or (fa_limit a) (fa_take a)
          in \<lparr>fo_limit = (if \<not> no_number maxLimit \<and> (no_number asked \<or> the asked > the maxLimit) then maxLimit else asked),
              fo_skip = (if positive (fa_skip a) \<or> positive (fa_offset a) then number_or (fa_skip a) (fa_offset a) else None),
              fo_sort = map_option (foldl (\<lambda>m i. AList.update (so_field i) (if so_descending i then - 1 else 1) m) []) (fa_sort a)\<rparr>))"

definition convertFilterArgsToQuery :: "filter_rt \<Rightarrow> bool \<Rightarrow> int option \<Rightarrow> filter_args option \<Rightarrow> filter_error + qv option \<times> find_options" where
  "convertFilterArgsToQuery rt auto maxLimit filterArgs =
     then_do (case filterArgs of None \<Rightarrow> Inr None
              | Some a \<Rightarrow> (case fa_filter a of None \<Rightarrow> Inr None | Some f \<Rightarrow> then_do (generateFilterQuery rt auto f) (\<lambda>q. Inr (Some q))))
       (\<lambda>q. Inr (q, generateFindOptions maxLimit filterArgs))"

text \<open>The options a caller of \<open>filterMerge\<close> adds win over those of the filter.\<close>

definition filterMerge :: "filter_rt \<Rightarrow> bool \<Rightarrow> int option \<Rightarrow> string \<Rightarrow> (find_options \<Rightarrow> find_options) \<Rightarrow> filter_args option \<Rightarrow> qv option
    \<Rightarrow> filter_error + qv option \<times> find_options" where
  "filterMerge rt auto maxLimit operator queryOptions filterArgs filterQuery =
     then_do (convertFilterArgsToQuery rt auto maxLimit filterArgs) (\<lambda>(q, fo).
       Inr (case q of None \<Rightarrow> filterQuery
            | Some c \<Rightarrow> Some (QObj [(operator, QArr [c, case filterQuery of None \<Rightarrow> QObj [] | Some g \<Rightarrow> g])]), queryOptions fo))"

subsection \<open>findFilter\<close>

definition qtruthy :: "qv \<Rightarrow> bool" where
  "qtruthy q = (case q of QJson v \<Rightarrow> jtruthy v | _ \<Rightarrow> True)"

definition qfields :: "qv \<Rightarrow> (string \<times> qv) list" where
  "qfields q = (case q of QObj m \<Rightarrow> m | QJson (JObj m) \<Rightarrow> map (\<lambda>(k, v). (k, QJson v)) m | _ \<Rightarrow> [])"

text \<open>\<open>config.id\<close> and \<open>config.ids\<close> come as the ObjectIds made of them; \<open>None\<close> for a falsy one.\<close>

definition findFilter :: "string \<Rightarrow> (string, qv) jsmap option \<Rightarrow> qv option \<Rightarrow> qv option \<Rightarrow> qv list option \<Rightarrow> (string, qv) jsmap" where
  "findFilter type filterOptions objectId objectIds conditions =
     (let base = (case filterOptions of
            None \<Rightarrow> [(type, QArr [])]
          | Some m \<Rightarrow> (case map_of m type of Some (QArr qs) \<Rightarrow> m | _ \<Rightarrow> [(type, QArr [QObj m])]));
          listed = (case map_of base type of Some (QArr qs) \<Rightarrow> qs | _ \<Rightarrow> []);
          items = filter qtruthy (listed @ (case objectId of None \<Rightarrow> [] | Some i \<Rightarrow> [QObj [(''_id'', i)]])
            @ (case objectIds of None \<Rightarrow> [] | Some is \<Rightarrow> [QObj [(''_id'', QObj [(''$in'', is)])]])
            @ (case conditions of None \<Rightarrow> [] | Some cs \<Rightarrow> cs))
      in case items of
           [] \<Rightarrow> []
         | [q] \<Rightarrow> foldl (\<lambda>m (k, v). if v = QJson JUndef then m else AList.update k v m) (AList.delete type base) (qfields q)
         | _ \<Rightarrow> AList.update type (QArr items) base)"

subsection \<open>The page of a result\<close>

record pagination_info =
  pg_totalCount :: int
  pg_pageCount :: int
  pg_currentPage :: int
  pg_perPage :: int
  pg_hasNextPage :: bool
  pg_hasPreviousPage :: bool

definition either :: "int option \<Rightarrow> int option \<Rightarrow> int" where
  "either a b = (case a of Some n \<Rightarrow> n | None \<Rightarrow> (case b of Some n \<Rightarrow> n | None \<Rightarrow> 0))"

definition pagination_create :: "int option \<Rightarrow> int option \<Rightarrow> int option \<Rightarrow> int option \<Rightarrow> int \<Rightarrow> pagination_info" where
  "pagination_create limit offset skip taken totalCount =
     (let skipped = either skip offset; perPage = either taken limit
      in if perPage = 0
         then \<lparr>pg_totalCount = totalCount, pg_pageCount = (if totalCount > 0 then 1 else 0), pg_currentPage = (if totalCount > 0 then 1 else 0),
               pg_perPage = 0, pg_hasNextPage = False, pg_hasPreviousPage = False\<rparr>
         else (let pageCount = ceil_div totalCount perPage; currentPage = (if totalCount = 0 then 0 else skipped div perPage + 1)
               in \<lparr>pg_totalCount = totalCount, pg_pageCount = pageCount, pg_currentPage = currentPage, pg_perPage = perPage,
                   pg_hasNextPage = currentPage < pageCount, pg_hasPreviousPage = currentPage > 1\<rparr>))"

subsection \<open>GridFS\<close>

definition content_key :: "string \<Rightarrow> string" where
  "content_key k = (if k = ''contentType'' then ''metadata.contentType'' else k)"

definition nesting_key :: "string \<Rightarrow> bool" where
  "nesting_key k = (k = ''$and'' \<or> k = ''$nor'' \<or> k = ''$or'')"

text \<open>Renamed keys that fall together keep the place of the first and the value of the last.\<close>

definition reassign :: "(string \<times> 'a) list \<Rightarrow> (string, 'a) jsmap" where
  "reassign kvs = foldl (\<lambda>m (k, v). AList.update k v m) [] kvs"

fun mapContentTypeJson :: "jv \<Rightarrow> jv" where
  "mapContentTypeJson (JArr xs) = JArr (map mapContentTypeJson xs)"
| "mapContentTypeJson (JObj m) = JObj (reassign (map (\<lambda>(k, v). (content_key k, if nesting_key k then mapContentTypeJson v else v)) m))"
| "mapContentTypeJson v = v"

fun mapContentTypeKeys :: "qv \<Rightarrow> qv" where
  "mapContentTypeKeys (QArr qs) = QArr (map mapContentTypeKeys qs)"
| "mapContentTypeKeys (QObj m) = QObj (reassign (map (\<lambda>(k, q). (content_key k, if nesting_key k then mapContentTypeKeys q else q)) m))"
| "mapContentTypeKeys (QJson v) = QJson (mapContentTypeJson v)"
| "mapContentTypeKeys q = q"

subsection \<open>What a query matches\<close>

lemma size_qv_entry: "(k, QArr qs) \<in> set m \<Longrightarrow> q \<in> set qs \<Longrightarrow> size q < size (QObj m)"
proof -
  assume m: "(k, QArr qs) \<in> set m" and q: "q \<in> set qs"
  have "size q < size (QArr qs)" using q size_list_estimation' [of q qs "size q" size] by simp
  also have "size (QArr qs) < size (QObj m)"
    using size_list_estimation' [OF m, of "size (QArr qs)" "size_prod (\<lambda>_. 0) size"] by simp
  finally show ?thesis .
qed

text \<open>
  \<open>leaf d f q\<close>: the field \<open>f\<close> of the document \<open>d\<close> meets the condition \<open>q\<close>. The logical operators combine.
\<close>

function qmatches :: "('d \<Rightarrow> string \<Rightarrow> qv \<Rightarrow> bool) \<Rightarrow> qv \<Rightarrow> 'd \<Rightarrow> bool" where
  "qmatches leaf (QObj m) d = list_all (\<lambda>(k, v). case v of
       QArr qs \<Rightarrow>
         if k = ''$and'' then list_all (\<lambda>q. qmatches leaf q d) qs
         else if k = ''$nor'' then \<not> list_ex (\<lambda>q. qmatches leaf q d) qs
         else if k = ''$or'' then list_ex (\<lambda>q. qmatches leaf q d) qs
         else leaf d k v
     | _ \<Rightarrow> leaf d k v) m"
| "qmatches leaf (QJson v) d = False"
| "qmatches leaf (QOid v) d = False"
| "qmatches leaf (QRegex v) d = False"
| "qmatches leaf (QArr v) d = False"
  by pat_completeness auto
termination
  by (relation "measure (\<lambda>(leaf, q, d). size q)") (auto simp del: qv.size dest: size_qv_entry)

definition plain_condition :: "qv \<Rightarrow> bool" where
  "plain_condition q = (case q of
       QJson (JObj m) \<Rightarrow> list_all (\<lambda>(k, v). \<not> js_starts_with k ''$'') m
     | QObj m \<Rightarrow> False | QRegex r \<Rightarrow> False | _ \<Rightarrow> True)"

text \<open>The manual of MongoDB: \<open>$ne\<close> and \<open>$nin\<close> negate equality and \<open>$in\<close>, \<open>$not\<close> negates a condition.\<close>

definition negation_laws :: "('d \<Rightarrow> string \<Rightarrow> qv \<Rightarrow> bool) \<Rightarrow> bool" where
  "negation_laws leaf \<longleftrightarrow>
     (\<forall>d f v. plain_condition v \<longrightarrow> leaf d f (QObj [(''$ne'', v)]) = (\<not> leaf d f v))
     \<and> (\<forall>d f v. leaf d f (QObj [(''$nin'', v)]) = (\<not> leaf d f (QObj [(''$in'', v)])))
     \<and> (\<forall>d f q. leaf d f (QObj [(''$not'', q)]) = (\<not> leaf d f q))"

subsection \<open>What a filter means\<close>

definition negative_operator :: "comparison_operator \<Rightarrow> bool" where
  "negative_operator op = (op = NE \<or> op = NIN)"

text \<open>The comparison without its negations, of a field with a value.\<close>

definition compares :: "('d \<Rightarrow> string \<Rightarrow> qv \<Rightarrow> bool) \<Rightarrow> filter_rt \<Rightarrow> string option \<Rightarrow> comparison_operator \<Rightarrow> string \<times> qv \<Rightarrow> 'd \<Rightarrow> bool" where
  "compares leaf rt regexOptions op c d = (case c of (f, v) \<Rightarrow> (case op of
       EQ \<Rightarrow> leaf d f v | NE \<Rightarrow> leaf d f v
     | GT \<Rightarrow> leaf d f (QObj [(''$gt'', v)]) | GTE \<Rightarrow> leaf d f (QObj [(''$gte'', v)])
     | IN \<Rightarrow> leaf d f (QObj [(''$in'', v)]) | NIN \<Rightarrow> leaf d f (QObj [(''$in'', v)])
     | LT \<Rightarrow> leaf d f (QObj [(''$lt'', v)]) | LTE \<Rightarrow> leaf d f (QObj [(''$lte'', v)])
     | REGEX \<Rightarrow> (case fr_regExp rt v of None \<Rightarrow> False
         | Some re \<Rightarrow> leaf d f (QObj [(''$options'', QJson (JStr (case regexOptions of None \<Rightarrow> [] | Some os \<Rightarrow> os))), (''$regex'', QRegex re)]))))"

text \<open>What a filter compares: its field with the value given, the ids it stands for, or both.\<close>

definition filter_targets :: "filter_rt \<Rightarrow> bool \<Rightarrow> single_filter \<Rightarrow> (string \<times> qv) list" where
  "filter_targets rt auto sf =
     (let f = sf_field sf; ids = (case filterObjectIds rt (sf_value sf) of Inl e \<Rightarrow> [] | Inr q \<Rightarrow> [q])
      in if sf_convertToObjectId sf \<or> sf_isReference sf then map (Pair f) ids
         else if auto \<and> checkStringIds rt (sf_value sf) then (if f = ''id'' then map (Pair ''_id'') ids else map (Pair f) (QJson (sf_value sf) # ids))
         else [(f, QJson (sf_value sf))])"

definition single_holds :: "('d \<Rightarrow> string \<Rightarrow> qv \<Rightarrow> bool) \<Rightarrow> filter_rt \<Rightarrow> bool \<Rightarrow> single_filter \<Rightarrow> 'd \<Rightarrow> bool" where
  "single_holds leaf rt auto sf d = (case sf_operator sf of
       None \<Rightarrow> True
     | Some op \<Rightarrow> (sf_not sf \<noteq> negative_operator op) \<noteq> list_ex (\<lambda>c. compares leaf rt (sf_options sf) op c d) (filter_targets rt auto sf))"

fun filter_holds :: "('d \<Rightarrow> string \<Rightarrow> qv \<Rightarrow> bool) \<Rightarrow> filter_rt \<Rightarrow> bool \<Rightarrow> filter_input \<Rightarrow> 'd \<Rightarrow> bool" where
  "filter_holds leaf rt auto (Combined (Some op) fs single) d =
     (let items = (case fs of None \<Rightarrow> [] | Some xs \<Rightarrow> xs) in case op of
        AND \<Rightarrow> list_all (\<lambda>f. filter_holds leaf rt auto f d) items
      | NOR \<Rightarrow> \<not> list_ex (\<lambda>f. filter_holds leaf rt auto f d) items
      | OR \<Rightarrow> list_ex (\<lambda>f. filter_holds leaf rt auto f d) items)"
| "filter_holds leaf rt auto (Combined None fs single) d = (case single of None \<Rightarrow> True | Some sf \<Rightarrow> single_holds leaf rt auto sf d)"
| "filter_holds leaf rt auto (Single single) d = (case single of None \<Rightarrow> True | Some sf \<Rightarrow> single_holds leaf rt auto sf d)"

subsection \<open>The query means the filter\<close>

text \<open>
  A filter without operators in the places of a field name or of a value to be equal to. Where a value is expanded to an id, it is not
  negated: \<open>negated_id_filter_matches_all\<close> shows why.
\<close>

definition plain_for :: "comparison_operator \<Rightarrow> qv \<Rightarrow> bool" where
  "plain_for op v = (if op = EQ \<or> op = NE then plain_condition v else True)"

definition plain_single :: "filter_rt \<Rightarrow> bool \<Rightarrow> single_filter \<Rightarrow> bool" where
  "plain_single rt auto sf = (\<not> js_starts_with (sf_field sf) ''$'' \<and> (case sf_operator sf of
       None \<Rightarrow> True
     | Some op \<Rightarrow> list_all (\<lambda>(f, v). plain_for op v) (filter_targets rt auto sf)
         \<and> (if sf_not sf \<noteq> negative_operator op then length (filter_targets rt auto sf) = 1 else True)))"

fun plain_filter :: "filter_rt \<Rightarrow> bool \<Rightarrow> filter_input \<Rightarrow> bool" where
  "plain_filter rt auto (Combined (Some op) fs single) = (case fs of None \<Rightarrow> True | Some xs \<Rightarrow> list_all (plain_filter rt auto) xs)"
| "plain_filter rt auto (Combined None fs single) = (case single of None \<Rightarrow> True | Some sf \<Rightarrow> plain_single rt auto sf)"
| "plain_filter rt auto (Single single) = (case single of None \<Rightarrow> True | Some sf \<Rightarrow> plain_single rt auto sf)"

lemma qmatches_leaf:
  "\<not> js_starts_with k ''$'' \<Longrightarrow> qmatches leaf (QObj [(k, v)]) d = leaf d k v"
  by (cases v) (auto simp: js_starts_with_def)

lemma field_query_holds:
  assumes q: "field_query rt sf f v = Inr q" and laws: "negation_laws leaf" and f: "\<not> js_starts_with f ''$''"
    and op: "sf_operator sf = Some op" and plain: "plain_for op v"
  shows "qmatches leaf q d = ((sf_not sf \<noteq> negative_operator op) \<noteq> compares leaf rt (sf_options sf) op (f, v) d)"
proof -
  have nots: "leaf d f (QObj [(''$not'', c)]) = (\<not> leaf d f c)" "leaf d f (QObj [(''$nin'', v)]) = (\<not> leaf d f (QObj [(''$in'', v)]))" for c
    using laws by (auto simp: negation_laws_def)
  have ne: "op = EQ \<or> op = NE \<Longrightarrow> leaf d f (QObj [(''$ne'', v)]) = (\<not> leaf d f v)"
    using laws plain by (auto simp: negation_laws_def plain_for_def)
  show ?thesis
    using q op ne by (cases op; cases "sf_not sf")
      (auto simp: field_query_def comparison_query_def compares_def negated_def negative_operator_def Let_def nots qmatches_leaf [OF f]
        simp del: qmatches.simps split: option.splits)
qed

lemma id_field_plain: "\<not> js_starts_with ''_id'' ''$''"
  by (simp add: js_starts_with_def)

lemma single_query_holds:
  assumes q: "single_query rt auto sf = Inr q" and laws: "negation_laws leaf" and plain: "plain_single rt auto sf"
  shows "qmatches leaf q d = single_holds leaf rt auto sf d"
proof (cases "sf_operator sf")
  case None
  then have none: "field_query rt sf f v = Inr (QObj [])" for f v by (simp add: field_query_def comparison_query_def)
  show ?thesis using q None by (auto simp: single_query_def single_holds_def none then_do_Inr split: if_splits)
next
  case (Some op)
  note fq = field_query_holds [OF _ laws _ Some]
  have f: "\<not> js_starts_with (sf_field sf) ''$''" using plain by (simp add: plain_single_def)
  have targets: "list_all (\<lambda>(f, v). plain_for op v) (filter_targets rt auto sf)"
    using plain Some by (simp add: plain_single_def)
  have one: "sf_not sf \<noteq> negative_operator op \<Longrightarrow> length (filter_targets rt auto sf) = 1"
    using plain Some by (auto simp: plain_single_def split: if_splits)
  consider (ids) "sf_convertToObjectId sf \<or> sf_isReference sf"
    | (id) "\<not> (sf_convertToObjectId sf \<or> sf_isReference sf)" "auto \<and> checkStringIds rt (sf_value sf)" "sf_field sf = ''id''"
    | (both) "\<not> (sf_convertToObjectId sf \<or> sf_isReference sf)" "auto \<and> checkStringIds rt (sf_value sf)" "sf_field sf \<noteq> ''id''"
    | (given) "\<not> (sf_convertToObjectId sf \<or> sf_isReference sf)" "\<not> (auto \<and> checkStringIds rt (sf_value sf))"
    by blast
  then show ?thesis
  proof cases
    case ids
    obtain v where v: "filterObjectIds rt (sf_value sf) = Inr v" and fv: "field_query rt sf (sf_field sf) v = Inr q"
      using q ids by (auto simp: single_query_def then_do_Inr)
    have t: "filter_targets rt auto sf = [(sf_field sf, v)]" using ids v by (simp add: filter_targets_def)
    show ?thesis using fq [OF fv f] targets by (simp add: single_holds_def Some t)
  next
    case id
    obtain v where v: "filterObjectIds rt (sf_value sf) = Inr v" and fv: "field_query rt sf ''_id'' v = Inr q"
      using q id by (auto simp: single_query_def then_do_Inr)
    have t: "filter_targets rt auto sf = [(''_id'', v)]" using id v by (simp add: filter_targets_def)
    show ?thesis using fq [OF fv id_field_plain] targets by (simp add: single_holds_def Some t)
  next
    case both
    obtain v q1 q2 where v: "filterObjectIds rt (sf_value sf) = Inr v" and f1: "field_query rt sf (sf_field sf) (QJson (sf_value sf)) = Inr q1"
        and f2: "field_query rt sf (sf_field sf) v = Inr q2" and qq: "q = QObj [(''$or'', QArr [q1, q2])]"
      using q both by (auto simp: single_query_def then_do_Inr)
    have t: "filter_targets rt auto sf = [(sf_field sf, QJson (sf_value sf)), (sf_field sf, v)]" using both v by (simp add: filter_targets_def Let_def)
    have "sf_not sf = negative_operator op" using one t by auto
    then show ?thesis using fq [OF f1 f] fq [OF f2 f] targets by (simp add: single_holds_def Some t qq)
  next
    case given
    have fv: "field_query rt sf (sf_field sf) (QJson (sf_value sf)) = Inr q" using q given by (auto simp: single_query_def)
    have t: "filter_targets rt auto sf = [(sf_field sf, QJson (sf_value sf))]" using given by (auto simp: filter_targets_def Let_def)
    show ?thesis using fq [OF fv f] targets by (simp add: single_holds_def Some t)
  qed
qed

text \<open>
  C24. The query made of a plain filter matches exactly the documents that fulfil the filter: its comparisons of the field with the value, or
  with the ids the value stands for, under the negations and combinations of the filter. Plain is a filter whose field names do not start with a dollar
  sign, whose compared values are no operators, and none of whose negated comparisons is expanded to the value and its id; nothing is claimed of others. The database
  is any matcher for which \<open>$ne\<close>, \<open>$nin\<close> and \<open>$not\<close> are the negations.
\<close>

theorem filter_query_means_filter:
  assumes "generateFilterQuery rt auto f = Inr q" and "negation_laws leaf" and "plain_filter rt auto f"
  shows "qmatches leaf q d = filter_holds leaf rt auto f d"
  using assms
proof (induction rt auto f arbitrary: q rule: generateFilterQuery.induct)
  case (1 rt auto op fs single)
  show ?case
  proof (cases fs)
    case None
    then show ?thesis using 1(2) by simp
  next
    case (Some items)
    obtain qs where qs: "each (generateFilterQuery rt auto) items = Inr qs" and q: "q = QObj [(combine_key op, QArr qs)]"
      using 1(2) Some by (auto simp: then_do_Inr)
    have "list_all2 (\<lambda>f q. qmatches leaf q d = filter_holds leaf rt auto f d) items qs"
      using qs 1(1) [OF Some _ _ 1(3)] 1(4) Some unfolding each_Inr list_all2_conv_all_nth by (auto simp: list_all_length)
    then have "list_all (\<lambda>q. qmatches leaf q d) qs = list_all (\<lambda>f. filter_holds leaf rt auto f d) items"
        "list_ex (\<lambda>q. qmatches leaf q d) qs = list_ex (\<lambda>f. filter_holds leaf rt auto f d) items"
      by (induction rule: list_all2_induct) auto
    then show ?thesis using Some q by (cases op) (simp_all add: combine_key_def)
  qed
qed (auto split: option.splits dest: single_query_holds)

text \<open>
  A negated comparison with a value that looks like an id excludes no document: the expansion asks for documents whose field differs
  from the string or differs from the id, and no single value equals both.
\<close>

theorem negated_id_filter_matches_all:
  assumes "generateFilterQuery rt True (Single (Some sf)) = Inr q" and "negation_laws leaf"
    and "sf_operator sf = Some NE" and "\<not> sf_not sf" and "\<not> (sf_convertToObjectId sf \<or> sf_isReference sf)"
    and "checkStringIds rt (JStr s)" and "sf_value sf = JStr s" and "sf_field sf \<noteq> ''id''" and "\<not> js_starts_with (sf_field sf) ''$''"
    and "filterObjectIds rt (JStr s) = Inr i" and "\<not> (leaf d (sf_field sf) (QJson (JStr s)) \<and> leaf d (sf_field sf) i)"
  shows "qmatches leaf q d"
proof -
  have i: "plain_condition i" using assms(10) by (auto simp: filterObjectIds_def plain_condition_def then_do_Inr split: option.splits jv.splits)
  have q: "q = QObj [(''$or'', QArr [QObj [(sf_field sf, QObj [(''$ne'', QJson (JStr s))])], QObj [(sf_field sf, QObj [(''$ne'', i)])]])]"
    using assms(1,3-8,10) by (simp add: single_query_def field_query_def comparison_query_def)
  have ne: "leaf d (sf_field sf) (QObj [(''$ne'', QJson (JStr s))]) \<or> leaf d (sf_field sf) (QObj [(''$ne'', i)])"
    using assms(2,11) i by (auto simp: negation_laws_def plain_condition_def)
  have "qmatches leaf (QObj [(sf_field sf, c)]) d = leaf d (sf_field sf) c" for c using qmatches_leaf [OF assms(9)] .
  then show ?thesis using ne unfolding q by (simp del: qmatches.simps(1) add: qmatches.simps(1) [of leaf "[(''$or'', x)]" for x])
qed

text \<open>
  A filter of a client can be any query: its field name and its value go into the query as they are, operators included. A name like
  \<open>$where\<close> with a program, or a secret field with a pattern, reaches the database.
\<close>

theorem filter_injects_operators:
  "generateFilterQuery rt auto (Single (Some \<lparr>sf_convertToObjectId = False, sf_field = f, sf_isReference = False, sf_not = False,
       sf_operator = Some EQ, sf_options = None, sf_value = JObj m\<rparr>)) = Inr (QObj [(f, QJson (JObj m))])
   \<and> generateFilterQuery rt auto (Single (Some \<lparr>sf_convertToObjectId = False, sf_field = ''$where'', sf_isReference = False, sf_not = False,
       sf_operator = Some EQ, sf_options = None, sf_value = JStr ''while(1);''\<rparr>)) = Inr (QObj [(''$where'', QJson (JStr ''while(1);''))])"
  by (simp add: single_query_def checkStringIds_def field_query_def comparison_query_def)

subsection \<open>Pages\<close>

text \<open>
  With a positive maximum, a request that asks for no negative number of results gets a positive limit that is at most the maximum.
\<close>

theorem page_limit_bounded:
  assumes "0 < m" and "0 \<le> either (fa_limit a) None" and "0 \<le> either (fa_take a) None"
  shows "\<exists>l. fo_limit (generateFindOptions (Some m) (Some a)) = Some l \<and> 0 < l \<and> l \<le> m"
proof -
  define asked where "asked = number_or (fa_limit a) (fa_take a)"
  have "no_number asked \<or> (\<exists>n. asked = Some n \<and> 0 < n)"
    using assms by (auto simp: asked_def number_or_def no_number_def either_def split: option.splits)
  then show ?thesis
    using assms(1) by (auto simp: generateFindOptions_def asked_def [symmetric] no_number_def Let_def split: option.splits)
qed

lemma page_limit_bounded_witness:
  "\<exists>l. fo_limit (generateFindOptions (Some 100) (Some \<lparr>fa_filter = None, fa_limit = None, fa_offset = None, fa_skip = None,
       fa_sort = None, fa_take = Some 500\<rparr>)) = Some l \<and> 0 < l \<and> l \<le> 100"
  by (rule page_limit_bounded) (simp_all add: either_def)

text \<open>
  A negative number passes the maximum: the database takes it for a limit of that size in a single batch.
\<close>

theorem negative_limit_evades_maximum:
  "fo_limit (generateFindOptions (Some 100) (Some \<lparr>fa_filter = None, fa_limit = Some (- 1000000), fa_offset = None, fa_skip = None,
     fa_sort = None, fa_take = None\<rparr>)) = Some (- 1000000)"
  by code_simp

text \<open>
  Page \<open>k\<close> of a result in pages of \<open>n\<close> has the number \<open>k + 1\<close>; a next page is announced exactly when documents are left behind
  it, a previous one exactly when documents were skipped.
\<close>

theorem pages_follow_skip:
  assumes "0 < n" and "0 \<le> k" and "0 < count"
  shows "let p = pagination_create (Some n) None (Some (k * n)) None count in
      pg_currentPage p = k + 1 \<and> pg_hasNextPage p = (k * n + n < count) \<and> pg_hasPreviousPage p = (0 < k)
      \<and> pg_pageCount p * n < count + n \<and> count \<le> pg_pageCount p * n"
proof -
  have "(k + 1 < ceil_div count n) = (k * n + n < count)"
  proof
    assume "k + 1 < ceil_div count n"
    then have "(k + 1) * n \<le> (ceil_div count n - 1) * n" using assms(1) by (intro mult_right_mono) auto
    then show "k * n + n < count" using ceil_div_bounds [OF assms(1), of count] by (simp add: algebra_simps)
  next
    assume "k * n + n < count"
    then have "(k + 1) * n < ceil_div count n * n" using ceil_div_bounds [OF assms(1), of count] by (simp add: algebra_simps)
    then show "k + 1 < ceil_div count n" using assms(1) by (simp add: mult_less_cancel_right)
  qed
  moreover have "ceil_div count n * n < count + n" using ceil_div_bounds [OF assms(1), of count] by (simp add: algebra_simps)
  ultimately show ?thesis
    using assms ceil_div_bounds [OF assms(1), of count] by (simp add: pagination_create_def either_def)
qed

lemma pages_follow_skip_witness:
  "let p = pagination_create (Some 10) None (Some (2 * 10)) None 25 in
      pg_currentPage p = 2 + 1 \<and> pg_hasNextPage p = (2 * 10 + 10 < (25 :: int)) \<and> pg_hasPreviousPage p = (0 < (2 :: int))
      \<and> pg_pageCount p * 10 < 25 + 10 \<and> 25 \<le> pg_pageCount p * 10"
  by (rule pages_follow_skip) simp_all

subsection \<open>Combining conditions\<close>

text \<open>A condition as the callers of \<open>findFilter\<close> write it: an object without undefined values.\<close>

definition is_condition :: "qv \<Rightarrow> bool" where
  "is_condition q = (case q of QObj m \<Rightarrow> jsmap_ok m \<and> list_all (\<lambda>(k, v). v \<noteq> QJson JUndef) m | _ \<Rightarrow> False)"

lemma assign_fields:
  "list_all (\<lambda>(k, v). v \<noteq> QJson JUndef) m \<Longrightarrow> distinct (map fst (acc @ m)) \<Longrightarrow>
     foldl (\<lambda>m (k, v). if v = QJson JUndef then m else AList.update k v m) acc m = acc @ m"
proof (induction m arbitrary: acc)
  case (Cons kv m)
  obtain k v where kv: "kv = (k, v)" by (cases kv)
  have "AList.update k v acc = acc @ [(k, v)]" using Cons(3) kv by (induction acc) auto
  then show ?case using Cons kv by simp
qed simp

text \<open>The conditions that a call of \<open>findFilter\<close> combines.\<close>

definition find_items :: "qv option \<Rightarrow> qv option \<Rightarrow> qv list option \<Rightarrow> qv list" where
  "find_items objectId objectIds conditions =
     (case objectId of None \<Rightarrow> [] | Some i \<Rightarrow> [QObj [(''_id'', i)]]) @ (case objectIds of None \<Rightarrow> [] | Some is \<Rightarrow> [QObj [(''_id'', QObj [(''$in'', is)])]])
     @ (case conditions of None \<Rightarrow> [] | Some cs \<Rightarrow> cs)"

text \<open>
  Combined with \<open>$and\<close>, a document matches the filter exactly when it matches every condition, however many there are.
\<close>

theorem find_filter_is_conjunction:
  assumes "list_all is_condition (find_items objectId objectIds conditions)"
  shows "qmatches leaf (QObj (findFilter ''$and'' None objectId objectIds conditions)) d =
     list_all (\<lambda>q. qmatches leaf q d) (find_items objectId objectIds conditions)"
proof -
  define items where "items = find_items objectId objectIds conditions"
  have truthy: "filter qtruthy items = items"
    using assms unfolding items_def [symmetric] by (induction items) (auto simp: is_condition_def qtruthy_def split: qv.splits)
  have f: "findFilter ''$and'' None objectId objectIds conditions = (case items of [] \<Rightarrow> []
      | [q] \<Rightarrow> foldl (\<lambda>m (k, v). if v = QJson JUndef then m else AList.update k v m) [] (qfields q)
      | _ \<Rightarrow> [(''$and'', QArr items)])"
    using truthy by (simp add: findFilter_def items_def find_items_def Let_def split: list.splits)
  show ?thesis
  proof (cases items)
    case Nil
    then show ?thesis by (simp add: f items_def [symmetric])
  next
    case (Cons q qs)
    show ?thesis
    proof (cases qs)
      case Nil
      obtain m where m: "q = QObj m" "jsmap_ok m" "list_all (\<lambda>(k, v). v \<noteq> QJson JUndef) m"
        using assms Cons Nil unfolding items_def [symmetric] by (auto simp: is_condition_def split: qv.splits)
      have "foldl (\<lambda>m (k, v). if v = QJson JUndef then m else AList.update k v m) [] m = m"
        using assign_fields [of m "[]"] m by (simp add: jsmap_ok_def)
      then show ?thesis using Cons Nil m by (simp add: f items_def [symmetric] qfields_def del: qmatches.simps)
    next
      case (Cons q' qs')
      with \<open>items = q # qs\<close> show ?thesis by (simp add: f items_def [symmetric])
    qed
  qed
qed

lemma find_filter_is_conjunction_witness:
  "qmatches (\<lambda>d f v. map_of d f = Some v)
     (QObj (findFilter ''$and'' None (Some (QOid ''a1'')) None (Some [QObj [(''name'', QJson (JStr ''x''))]]))) [(''_id'', QOid ''a1''), (''name'', QJson (JStr ''x''))] =
   list_all (\<lambda>q. qmatches (\<lambda>d f v. map_of d f = Some v) q [(''_id'', QOid ''a1''), (''name'', QJson (JStr ''x''))])
     (find_items (Some (QOid ''a1'')) None (Some [QObj [(''name'', QJson (JStr ''x''))]]))"
  by (rule find_filter_is_conjunction) (simp add: find_items_def is_condition_def jsmap_ok_def)

text \<open>
  A single condition under \<open>$nor\<close> loses its negation, no condition under \<open>$or\<close> matches everything, and the only condition of
  an \<open>$and\<close> replaces a condition on the same field beside it.
\<close>

theorem find_filter_drops_conditions:
  "findFilter ''$nor'' None None None (Some [QObj [(f, QOid i)]]) = [(f, QOid i)]
   \<and> findFilter ''$or'' None None None (Some []) = []
   \<and> findFilter ''$and'' (Some [(''owner'', QOid i), (''$and'', QArr [QObj [(''owner'', QOid j)]])]) None None None = [(''owner'', QOid j)]"
  by (simp add: findFilter_def qtruthy_def qfields_def)

subsection \<open>Filters over GridFS\<close>

lemma map_no_keys: "mapContentTypeKeys (QObj []) = QObj []"
  by (simp add: reassign_def)

lemma map_single: "mapContentTypeKeys (QObj [(k, v)]) = QObj [(content_key k, if nesting_key k then mapContentTypeKeys v else v)]"
  by (simp add: reassign_def)

lemma content_key_plain: "\<not> js_starts_with k ''$'' \<Longrightarrow> \<not> js_starts_with (content_key k) ''$''"
  by (simp add: content_key_def js_starts_with_def)

lemma field_query_ported:
  assumes "field_query rt sf f v = Inr q" and "\<not> js_starts_with f ''$''"
  shows "qmatches leaf (mapContentTypeKeys q) d = qmatches (\<lambda>d k. leaf d (content_key k)) q d"
proof -
  have n: "\<not> nesting_key f" using assms(2) by (auto simp: nesting_key_def js_starts_with_def)
  obtain c where c: "q = QObj (case c of None \<Rightarrow> [] | Some c \<Rightarrow> [(f, c)])" using assms(1) by (auto simp: field_query_def then_do_Inr)
  show ?thesis
  proof (cases c)
    case None
    then show ?thesis using c by (simp add: reassign_def)
  next
    case (Some x)
    then show ?thesis
      using n c by (simp del: qmatches.simps mapContentTypeKeys.simps
        add: map_single qmatches_leaf [OF assms(2)] qmatches_leaf [OF content_key_plain [OF assms(2)]])
  qed
qed

lemma or_ported:
  "(\<And>q. q \<in> set qs \<Longrightarrow> qmatches leaf (mapContentTypeKeys q) d = qmatches (\<lambda>d k. leaf d (content_key k)) q d) \<Longrightarrow>
   qmatches leaf (mapContentTypeKeys (QObj [(combine_key op, QArr qs)])) d = qmatches (\<lambda>d k. leaf d (content_key k)) (QObj [(combine_key op, QArr qs)]) d"
  by (cases op) (auto simp: combine_key_def map_single nesting_key_def content_key_def list_all_iff list_ex_iff simp del: mapContentTypeKeys.simps(2))

lemma single_query_ported:
  assumes "single_query rt auto sf = Inr q" and "\<not> js_starts_with (sf_field sf) ''$''"
  shows "qmatches leaf (mapContentTypeKeys q) d = qmatches (\<lambda>d k. leaf d (content_key k)) q d"
proof (cases "\<exists>f v. field_query rt sf f v = Inr q \<and> \<not> js_starts_with f ''$''")
  case True
  then obtain f v where "field_query rt sf f v = Inr q" "\<not> js_starts_with f ''$''" by blast
  then show ?thesis by (rule field_query_ported)
next
  case False
  then obtain q1 q2 v where parts: "field_query rt sf (sf_field sf) (QJson (sf_value sf)) = Inr q1" "field_query rt sf (sf_field sf) v = Inr q2"
      and q: "q = QObj [(combine_key OR, QArr [q1, q2])]"
    using assms id_field_plain by (auto simp: single_query_def combine_key_def then_do_Inr split: if_splits)
  show ?thesis unfolding q
    by (rule or_ported) (auto simp: field_query_ported [OF parts(1) assms(2)] field_query_ported [OF parts(2) assms(2)])
qed

text \<open>
  The query of a filter, with its keys renamed for GridFS, matches a stored file exactly when the query itself would match it
  with the content type at the top level.
\<close>

theorem content_type_query_ported:
  assumes "generateFilterQuery rt auto f = Inr q" and "plain_filter rt auto f"
  shows "qmatches leaf (mapContentTypeKeys q) d = qmatches (\<lambda>d k. leaf d (content_key k)) q d"
  using assms
proof (induction rt auto f arbitrary: q rule: generateFilterQuery.induct)
  case (1 rt auto op fs single)
  show ?case
  proof (cases fs)
    case None
    then show ?thesis using 1(2) by simp
  next
    case (Some items)
    obtain qs where qs: "each (generateFilterQuery rt auto) items = Inr qs" and q: "q = QObj [(combine_key op, QArr qs)]"
      using 1(2) Some by (auto simp: then_do_Inr)
    have all: "list_all2 (\<lambda>f q. qmatches leaf (mapContentTypeKeys q) d = qmatches (\<lambda>d k. leaf d (content_key k)) q d) items qs"
      unfolding list_all2_conv_all_nth
    proof (intro conjI allI impI)
      show len: "length items = length qs" using qs by (simp add: each_Inr list_all2_lengthD)
      fix i assume i: "i < length items"
      have "generateFilterQuery rt auto (items ! i) = Inr (qs ! i)" using list_all2_nthD [OF qs [unfolded each_Inr] i] .
      then show "qmatches leaf (mapContentTypeKeys (qs ! i)) d = qmatches (\<lambda>d k. leaf d (content_key k)) (qs ! i) d"
        using 1(1) [OF Some nth_mem [OF i]] 1(3) Some i by (simp add: list_all_length)
    qed
    show ?thesis unfolding q
      by (rule or_ported) (use all in \<open>auto simp: list_all2_conv_all_nth in_set_conv_nth\<close>)
  qed
qed (auto simp: plain_single_def map_no_keys simp del: mapContentTypeKeys.simps split: option.splits dest: single_query_ported)

subsection \<open>Witnesses\<close>

text \<open>Documents by their fields, and a matcher for them that knows equality and the negations.\<close>

function sample_match :: "(string \<times> qv) list \<Rightarrow> string \<Rightarrow> qv \<Rightarrow> bool" where
  "sample_match d f (QObj m) = (case m of
       [(k, v)] \<Rightarrow>
         if k = ''$not'' then \<not> sample_match d f v
         else if k = ''$ne'' then map_of d f \<noteq> Some v
         else (k = ''$nin'') \<noteq> (case v of QArr vs \<Rightarrow> map_of d f \<in> Some ` set vs | _ \<Rightarrow> False)
     | _ \<Rightarrow> False)"
| "sample_match d f (QJson v) = (map_of d f = Some (QJson v))"
| "sample_match d f (QOid v) = (map_of d f = Some (QOid v))"
| "sample_match d f (QRegex v) = (map_of d f = Some (QRegex v))"
| "sample_match d f (QArr v) = (map_of d f = Some (QArr v))"
  by pat_completeness auto
termination by (relation "measure (\<lambda>(d, f, q). size q)") auto

lemma sample_match_laws: "negation_laws sample_match"
  by (auto simp: negation_laws_def plain_condition_def split: qv.splits)

definition sample_rt :: filter_rt where
  "sample_rt = \<lparr>fr_objectId = (\<lambda>v. case v of JStr s \<Rightarrow> Some s | _ \<Rightarrow> None), fr_regExp = (\<lambda>v. None), fr_isValid = (\<lambda>s. True)\<rparr>"

definition sample_id :: string where "sample_id = ''0123456789abcdef01234567''"

definition sample_single :: "string \<Rightarrow> comparison_operator \<Rightarrow> bool \<Rightarrow> jv \<Rightarrow> single_filter" where
  "sample_single f op n v = \<lparr>sf_convertToObjectId = False, sf_field = f, sf_isReference = False, sf_not = n, sf_operator = Some op,
     sf_options = None, sf_value = v\<rparr>"

definition sample_combined :: filter_input where
  "sample_combined = Combined (Some NOR) (Some [Single (Some (sample_single ''contentType'' EQ False (JStr ''text''))),
     Combined (Some AND) (Some [Single (Some (sample_single ''owner'' EQ False (JStr sample_id))), Single (Some (sample_single ''n'' NE True (JNum 1)))]) None]) None"

definition sample_combined_query :: qv where
  "sample_combined_query = QObj [(''$nor'', QArr [QObj [(''contentType'', QJson (JStr ''text''))],
     QObj [(''$and'', QArr [QObj [(''$or'', QArr [QObj [(''owner'', QJson (JStr sample_id))], QObj [(''owner'', QOid sample_id)]])],
       QObj [(''n'', QJson (JNum 1))]])]])]"

lemma sample_combined_result: "generateFilterQuery sample_rt True sample_combined = Inr sample_combined_query"
  by code_simp

lemma sample_combined_plain: "plain_filter sample_rt True sample_combined"
  by code_simp

lemma filter_query_means_filter_witness:
  "qmatches sample_match sample_combined_query [(''owner'', QOid sample_id), (''n'', QJson (JNum 2))] =
   filter_holds sample_match sample_rt True sample_combined [(''owner'', QOid sample_id), (''n'', QJson (JNum 2))]"
  by (rule filter_query_means_filter [OF sample_combined_result sample_match_laws sample_combined_plain])

lemma negated_id_filter_matches_all_witness:
  "qmatches sample_match (QObj [(''$or'', QArr [QObj [(''owner'', QObj [(''$ne'', QJson (JStr sample_id))])],
       QObj [(''owner'', QObj [(''$ne'', QOid sample_id)])]])]) [(''owner'', QOid sample_id)]"
  by (rule negated_id_filter_matches_all [where sf = "sample_single ''owner'' NE False (JStr sample_id)" and rt = sample_rt and s = sample_id
        and i = "QOid sample_id", OF _ sample_match_laws])
    (simp_all add: sample_single_def sample_rt_def sample_id_def single_query_def checkStringIds_def filterObjectIds_def field_query_def
      comparison_query_def js_starts_with_def)

lemma content_type_query_ported_witness:
  "qmatches sample_match (mapContentTypeKeys sample_combined_query) [(''metadata.contentType'', QJson (JStr ''text''))] =
   qmatches (\<lambda>d k. sample_match d (content_key k)) sample_combined_query [(''metadata.contentType'', QJson (JStr ''text''))]"
  by (rule content_type_query_ported [OF sample_combined_result sample_combined_plain])

end
