(* ===== verification/Inputs.thy ===== *)
theory Inputs
  imports RequestContext
begin

text \<open>
  What the generic services do to the data that comes in and goes out:
  \<^item> \<^verbatim>\<open>merge\<close> of \<^verbatim>\<open>common/helpers/config.helper.ts\<close> and \<^verbatim>\<open>mergePlain\<close> of \<^verbatim>\<open>common/helpers/input.helper.ts\<close>;
  \<^item> \<^verbatim>\<open>check\<close> of \<^verbatim>\<open>input.helper.ts\<close>;
  \<^item> \<^verbatim>\<open>prepareInput\<close>, \<^verbatim>\<open>prepareOutput\<close> and \<^verbatim>\<open>applyTranslationsRecursively\<close> of \<^verbatim>\<open>common/helpers/service.helper.ts\<close>;
  \<^item> \<^verbatim>\<open>updateLanguage\<close> of \<^verbatim>\<open>common/decorators/translatable.decorator.ts\<close>.

  Data are trees \<open>jv\<close>, ids their strings: nothing is shared, so the sets of visited objects never apply. Mapping to a class,
  validation and hashing belong to libraries and to the classes of an application, and \<^verbatim>\<open>checkRestricted\<close> works on a heap
  (\<open>Restricted\<close>): they are arguments.
\<close>

subsection \<open>Merging\<close>

text \<open>
  lodash's \<^verbatim>\<open>mergeWith\<close> with the customizer that replaces arrays. A key whose source value is undefined stays as it is. An object
  merged into an array would set properties of the array; here the array stays.
\<close>

fun merge_into :: "jv \<Rightarrow> jv \<Rightarrow> jv" and merge_fields :: "(string, jv) jsmap \<Rightarrow> (string \<times> jv) list \<Rightarrow> (string, jv) jsmap" where
  "merge_into old (JObj src) = (case old of
       JArr xs \<Rightarrow> JArr xs
     | JObj m \<Rightarrow> JObj (merge_fields m src)
     | _ \<Rightarrow> JObj (merge_fields [] src))"
| "merge_into old (JArr xs) = JArr xs"
| "merge_into old JUndef = old"
| "merge_into old v = v"
| "merge_fields m [] = m"
| "merge_fields m ((k, v) # src) =
     merge_fields (if v = JUndef \<and> map_of m k \<noteq> None then m
       else AList.update k (merge_into (case map_of m k of Some x \<Rightarrow> x | None \<Rightarrow> JUndef) v) m) src"

definition js_merge :: "jv \<Rightarrow> jv list \<Rightarrow> jv" where
  "js_merge obj sources = foldl (\<lambda>o' s. case s of JObj m \<Rightarrow> (case o' of JObj d \<Rightarrow> JObj (merge_fields d m) | _ \<Rightarrow> o') | _ \<Rightarrow> o') obj sources"

definition drop_undef :: "(string, jv) jsmap \<Rightarrow> (string, jv) jsmap" where
  "drop_undef m = filter (\<lambda>(k, v). v \<noteq> JUndef) m"

definition mergePlain :: "jv \<Rightarrow> jv list \<Rightarrow> jv" where
  "mergePlain tgt args = js_merge tgt (map (\<lambda>a. case a of JObj m \<Rightarrow> JObj (drop_undef m) | _ \<Rightarrow> a) args)"

text \<open>\<^verbatim>\<open>Object.assign\<close> of plain objects, without their undefined values.\<close>

definition assignPlain :: "jv \<Rightarrow> jv list \<Rightarrow> jv" where
  "assignPlain tgt args = foldl (\<lambda>o' a. jspread o' (JObj (drop_undef (jfields a)))) tgt args"

lemma merge_fields_ok: "jsmap_ok m \<Longrightarrow> jsmap_ok (merge_fields m src)"
  by (induction src arbitrary: m) (auto simp: jsmap_ok_update)

lemma merge_fields_notin: "k \<notin> fst ` set src \<Longrightarrow> map_of (merge_fields m src) k = map_of m k"
  by (induction src arbitrary: m) (auto simp: map_of_update_eq)

lemma merge_fields_get:
  "jsmap_ok src \<Longrightarrow> map_of src k = Some v \<Longrightarrow> v \<noteq> JUndef \<Longrightarrow>
     map_of (merge_fields m src) k = Some (merge_into (case map_of m k of Some x \<Rightarrow> x | None \<Rightarrow> JUndef) v)"
proof (induction src arbitrary: m)
  case (Cons kv src)
  obtain k' v' where kv: "kv = (k', v')" by (cases kv)
  show ?case
  proof (cases "k' = k")
    case True
    then have "k \<notin> fst ` set src" "v' = v" using Cons kv by (auto simp: jsmap_ok_def)
    then show ?thesis using Cons kv True by (simp add: merge_fields_notin map_of_update_eq)
  next
    case False
    then show ?thesis using Cons kv by (simp add: jsmap_ok_def map_of_update_eq)
  qed
qed simp

lemma jsmap_ok_drop_undef: "jsmap_ok m \<Longrightarrow> jsmap_ok (drop_undef m)"
  using jsmap_ok_filter [of m "\<lambda>k v. v \<noteq> JUndef"] by (simp add: drop_undef_def jsmap_filter_def)

lemma map_of_drop_undef: "jsmap_ok m \<Longrightarrow> map_of (drop_undef m) k = (case map_of m k of Some JUndef \<Rightarrow> None | r \<Rightarrow> r)"
  using map_of_jsmap_filter [of m "\<lambda>k v. v \<noteq> JUndef" k]
  by (simp add: drop_undef_def jsmap_filter_def split: option.splits jv.splits)

text \<open>Merging one plain object: a key it defines is merged, any other stays.\<close>

lemma mergePlain_one:
  assumes "jsmap_ok i"
  shows "jget (mergePlain (JObj m) [JObj i]) k =
     (if jget (JObj i) k = JUndef then jget (JObj m) k else merge_into (jget (JObj m) k) (jget (JObj i) k))"
proof (cases "map_of (drop_undef i) k")
  case None
  then have "jget (JObj i) k = JUndef" using map_of_drop_undef [OF assms, of k] by (auto split: option.splits jv.splits)
  moreover have "map_of (merge_fields m (drop_undef i)) k = map_of m k"
    using None merge_fields_notin [of k "drop_undef i" m] by (simp add: map_of_eq_None_iff)
  ultimately show ?thesis by (simp add: mergePlain_def js_merge_def)
next
  case (Some v)
  then have v: "map_of i k = Some v" "v \<noteq> JUndef" using map_of_drop_undef [OF assms, of k] by (auto split: option.splits jv.splits)
  have "map_of (merge_fields m (drop_undef i)) k = Some (merge_into (case map_of m k of Some x \<Rightarrow> x | None \<Rightarrow> JUndef) v)"
    by (rule merge_fields_get [OF jsmap_ok_drop_undef [OF assms] Some v(2)])
  then show ?thesis using v by (simp add: mergePlain_def js_merge_def)
qed

lemma fold_update_ok: "jsmap_ok acc \<Longrightarrow> jsmap_ok (foldl (\<lambda>m kv. AList.update (fst kv) (snd kv) m) acc es)"
  by (induction es arbitrary: acc) (simp_all add: jsmap_ok_update)

lemma fold_update_get:
  "jsmap_ok es \<Longrightarrow> map_of (foldl (\<lambda>m kv. AList.update (fst kv) (snd kv) m) acc es) k = (case map_of es k of Some v \<Rightarrow> Some v | None \<Rightarrow> map_of acc k)"
proof (induction es arbitrary: acc k)
  case (Cons e es)
  obtain k' v where e: "e = (k', v)" by (cases e)
  then have n: "map_of es k' = None" "jsmap_ok es" using Cons(2) by (simp_all add: jsmap_ok_def map_of_eq_None_iff)
  show ?case by (cases "k = k'") (simp_all add: e n Cons(1) map_of_update_eq split: option.split)
qed simp

lemma jget_jfields: "jget w k = (case map_of (jfields w) k of Some x \<Rightarrow> x | None \<Rightarrow> JUndef)"
  by (cases w) (simp_all add: jget_def jfields_def)

subsection \<open>Rights\<close>

datatype service_error =
    NotFound string
  | AccessForbidden
  | AccessUnauthorized
  | ValidationFailed
  | ServiceTypeError
  | ServiceError string

text \<open>\<^verbatim>\<open>hasRole\<close> of \<^verbatim>\<open>modules/user/core-user.model.ts\<close>.\<close>

definition hasRole :: "user \<Rightarrow> string list \<Rightarrow> bool" where
  "hasRole u roles = (case u_roles u of None \<Rightarrow> False | Some held \<Rightarrow>
     if held = [] then False else roles = [] \<or> list_ex (\<lambda>r. r \<in> set roles) held)"

definition access_denied :: "user option \<Rightarrow> service_error" where
  "access_denied usr = (case usr of None \<Rightarrow> AccessUnauthorized | Some _ \<Rightarrow> AccessForbidden)"

text \<open>The string \<^verbatim>\<open>getStringIds\<close> finds in a tree, \<open>None\<close> for a falsy result.\<close>

lemma size_field: "map_of m k = Some v \<Longrightarrow> size v < size (JObj m)"
  using size_list_estimation' [OF map_of_SomeD, of m k v "size v" "size_prod (\<lambda>_. 0) size"] by simp

lemma size_jget: "jtruthy (jget (JObj m) k) \<Longrightarrow> size (jget (JObj m) k) < size (JObj m)"
  using size_field by (auto simp del: jv.size split: option.splits)

function string_id :: "jv \<Rightarrow> string option" where
  "string_id (JObj m) =
     (if jtruthy (jget (JObj m) ''id'') then string_id (jget (JObj m) ''id'')
      else if jtruthy (jget (JObj m) ''_id'') then string_id (jget (JObj m) ''_id'')
      else Some ''[object Object]'')"
| "string_id (JStr s) = (if s = [] then None else Some s)"
| "string_id (JNum n) = (if n = 0 then None else Some (show_int n))"
| "string_id (JBool b) = (if b then Some ''true'' else None)"
| "string_id (JArr xs) = None"
| "string_id JNull = None"
| "string_id JUndef = None"
  by pat_completeness auto
termination
  by (relation "measure size") (simp_all only: in_measure wf_measure size_jget)

text \<open>\<^verbatim>\<open>equalIds(v, user)\<close>; arrays of ids are never equal.\<close>

definition is_users :: "jv \<Rightarrow> user option \<Rightarrow> bool" where
  "is_users v usr = (case (string_id v, usr) of (Some i, Some u) \<Rightarrow> i = u_id u | _ \<Rightarrow> False)"

record check_opts =
  co_allowCreatorOfParent :: bool
  co_dbObject :: jv
  co_isCreatorOfParent :: bool
  co_metatype :: "string option"
  co_input :: bool
  co_roles :: "string list"
  co_throwError :: bool

definition is_object_value :: "jv \<Rightarrow> bool" where
  "is_object_value v = (case v of JObj _ \<Rightarrow> True | JArr _ \<Rightarrow> True | _ \<Rightarrow> False)"

text \<open>\<^verbatim>\<open>'createdBy' in config.dbObject\<close> throws when the object is a string or a number.\<close>

definition created_by_user :: "check_opts \<Rightarrow> user option \<Rightarrow> service_error + bool" where
  "created_by_user opts usr =
     (let db = co_dbObject opts in
      if \<not> jtruthy db then Inr False
      else if \<not> is_object_value db then Inl ServiceTypeError
      else (case db of
          JObj m \<Rightarrow> if map_of m ''createdBy'' \<noteq> None then Inr (is_users (jget db ''createdBy'') usr)
                    else Inr (co_allowCreatorOfParent opts \<and> co_isCreatorOfParent opts)
        | _ \<Rightarrow> Inr (co_allowCreatorOfParent opts \<and> co_isCreatorOfParent opts)))"

definition user_verified :: "user option \<Rightarrow> bool" where
  "user_verified usr = (case usr of None \<Rightarrow> False | Some u \<Rightarrow> u_verified u \<or> u_verifiedAt u \<or> u_emailVerified u)"

text \<open>The conditions in the order in which they are asked.\<close>

definition role_check :: "check_opts \<Rightarrow> user option \<Rightarrow> service_error + unit" where
  "role_check opts usr =
     (let roles = co_roles opts in
      if roles = [] \<or> \<not> co_throwError opts then Inr ()
      else if S_NO_ONE \<in> set roles then Inl AccessForbidden
      else if S_EVERYONE \<in> set roles then Inr ()
      else if S_USER \<in> set roles \<and> (case usr of None \<Rightarrow> False | Some u \<Rightarrow> u_id u \<noteq> []) then Inr ()
      else if (case usr of None \<Rightarrow> False | Some u \<Rightarrow> hasRole u roles) then Inr ()
      else if S_SELF \<in> set roles \<and> is_users (co_dbObject opts) usr then Inr ()
      else then_do (if S_CREATOR \<in> set roles then created_by_user opts usr else Inr False) (\<lambda>creator.
        if creator \<or> (S_VERIFIED \<in> set roles \<and> user_verified usr) then Inr () else Inl (access_denied usr)))"

text \<open>The class of an application: mapping a value to it, the verdict of its validators, and \<open>checkRestricted\<close>.\<close>

record check_env =
  ce_basic :: "string \<Rightarrow> bool"
  ce_map :: "string \<Rightarrow> jv \<Rightarrow> jv"
  ce_valid :: "jv \<Rightarrow> bool"
  ce_restricted :: "check_opts \<Rightarrow> user option \<Rightarrow> jv \<Rightarrow> service_error + jv"

fun check_tree :: "check_env \<Rightarrow> user option \<Rightarrow> check_opts \<Rightarrow> jv \<Rightarrow> service_error + jv" where
  "check_tree E usr opts (JArr xs) = then_do (role_check opts usr) (\<lambda>_.
     then_do (each (check_tree E usr (opts\<lparr>co_roles := []\<rparr>)) xs) (\<lambda>ys. Inr (JArr ys)))"
| "check_tree E usr opts (JObj m) = then_do (role_check opts usr) (\<lambda>_.
     (case co_metatype opts of
        Some c \<Rightarrow> if ce_basic E c then Inr (JObj m)
          else (let v = ce_map E c (JObj m) in
            if \<not> ce_valid E v \<and> co_throwError opts then Inl ValidationFailed else ce_restricted E (opts\<lparr>co_roles := []\<rparr>) usr v)
      | None \<Rightarrow> if \<not> ce_valid E (JObj m) \<and> co_throwError opts then Inl ValidationFailed else ce_restricted E (opts\<lparr>co_roles := []\<rparr>) usr (JObj m)))"
| "check_tree E usr opts v = then_do (role_check opts usr) (\<lambda>_. Inr v)"

subsection \<open>Preparing input\<close>

record prepare_input_options =
  io_checkRoles :: "bool option"
  io_create :: "bool option"
  io_removeUndefined :: "bool option"
  io_sha256 :: "bool option"
  io_targetModel :: "string option"

definition no_input_options :: prepare_input_options where
  "no_input_options = \<lparr>io_checkRoles = None, io_create = None, io_removeUndefined = None, io_sha256 = None, io_targetModel = None\<rparr>"

text \<open>\<open>in_hash\<close> is bcrypt with its salt, \<open>in_sha256\<close> throws for some values, \<open>in_text\<close> is \<^verbatim>\<open>toString\<close>, \<open>in_configSha256\<close> the global setting, \<open>in_isClass\<close> tells whether a value is already an instance.\<close>

record input_env =
  in_hash :: "string \<Rightarrow> string"
  in_sha256 :: "jv \<Rightarrow> string option"
  in_text :: "jv \<Rightarrow> string"
  in_configSha256 :: bool
  in_isClass :: "string \<Rightarrow> jv \<Rightarrow> bool"
  in_map :: "string \<Rightarrow> jv \<Rightarrow> jv"

definition is_hex :: "char \<Rightarrow> bool" where
  "is_hex c = (let n = (of_char c :: nat) in (48 \<le> n \<and> n \<le> 57) \<or> (65 \<le> n \<and> n \<le> 70) \<or> (97 \<le> n \<and> n \<le> 102))"

definition looks_hashed :: "string \<Rightarrow> bool" where
  "looks_hashed s = (length s = 64 \<and> list_all is_hex s)"

text \<open>The elements of the input that the user holds too, each once.\<close>

definition shared_roles :: "jv list \<Rightarrow> string list \<Rightarrow> jv list" where
  "shared_roles xs held = foldl (\<lambda>acc x. if x \<in> set acc then acc else case x of JStr r \<Rightarrow> if r \<in> set held then acc @ [x] else acc | _ \<Rightarrow> acc) [] xs"

definition check_input_roles :: "user option \<Rightarrow> jv \<Rightarrow> service_error + jv" where
  "check_input_roles usr input =
     (if \<not> jtruthy (jget input ''roles'') \<or> (case usr of None \<Rightarrow> False | Some u \<Rightarrow> hasRole u [ADMIN]) then Inr input
      else (case (case usr of None \<Rightarrow> None | Some u \<Rightarrow> u_roles u) of
          None \<Rightarrow> Inl (access_denied usr)
        | Some held \<Rightarrow> (case jget input ''roles'' of
              JArr xs \<Rightarrow> if length (shared_roles xs held) \<noteq> length xs then Inl (access_denied usr)
                         else Inr (jset input ''roles'' (JArr (shared_roles xs held)))
            | JObj r \<Rightarrow> if jget (JObj r) ''length'' = JNum 0 then Inr (jset input ''roles'' (JArr [])) else Inl (access_denied usr)
            | _ \<Rightarrow> Inl (access_denied usr))))"

definition hash_password :: "input_env \<Rightarrow> bool \<Rightarrow> jv \<Rightarrow> service_error + jv" where
  "hash_password E sha input =
     (let p = jget input ''password'' in
      if \<not> jtruthy p then Inr input
      else then_do (if sha \<and> \<not> looks_hashed (case p of JStr t \<Rightarrow> t | _ \<Rightarrow> in_text E p)
                    then (case in_sha256 E p of Some h \<Rightarrow> Inr (JStr h) | None \<Rightarrow> Inl (ServiceError ''input is invalid type'')) else Inr p)
        (\<lambda>q. case q of
            JStr t \<Rightarrow> Inr (jset input ''password'' (JStr (in_hash E t)))
          | _ \<Rightarrow> Inl (ServiceError ''data must be a string or Buffer and salt must either be a salt string or a number of rounds'')))"

fun prepareInput :: "input_env \<Rightarrow> user option \<Rightarrow> prepare_input_options \<Rightarrow> jv \<Rightarrow> service_error + jv" where
  "prepareInput E usr opts (JArr xs) = then_do (each (prepareInput E usr opts) xs)
     (\<lambda>ys. Inr (JArr (if io_removeUndefined opts = Some False then ys else filter (\<lambda>y. y \<noteq> JUndef) ys)))"
| "prepareInput E usr opts (JObj m) =
     (let v = (case io_targetModel opts of None \<Rightarrow> JObj m | Some c \<Rightarrow> if in_isClass E c (JObj m) then JObj m else in_map E c (JObj m));
          clean = JObj (drop_undef (jfields v))
      in then_do (if io_checkRoles opts = Some True then check_input_roles usr clean else Inr clean)
           (hash_password E (case io_sha256 opts of Some b \<Rightarrow> b | None \<Rightarrow> in_configSha256 E)))"
| "prepareInput E usr opts v = Inr v"

subsection \<open>Translations\<close>

definition entries_of :: "jv \<Rightarrow> (string \<times> jv) list" where
  "entries_of v = (case v of JObj m \<Rightarrow> m | JArr xs \<Rightarrow> zip (map show_nat [0..<length xs]) xs | _ \<Rightarrow> [])"

definition nullish_value :: "jv \<Rightarrow> bool" where
  "nullish_value v = (v = JNull \<or> v = JUndef)"

text \<open>The object with the values of its translation into a language.\<close>

definition translation_entries :: "string \<Rightarrow> (string, jv) jsmap \<Rightarrow> (string \<times> jv) list" where
  "translation_entries language m = entries_of (jget (jget (JObj m) ''_translations'') language)"

definition overlay :: "string \<Rightarrow> (string, jv) jsmap \<Rightarrow> (string, jv) jsmap" where
  "overlay language m = foldl (\<lambda>m (k, v). if nullish_value v then m else AList.update k v m) m (translation_entries language m)"

lemma size_entry: "(k, v) \<in> set m \<Longrightarrow> size v < size (JObj m)"
  using size_list_estimation' [of "(k, v)" m "size v" "size_prod (\<lambda>_. 0) size"] by simp

lemma size_elem: "v \<in> set xs \<Longrightarrow> size v < size (JArr xs)"
  using size_list_estimation' [of v xs "size v" size] by simp

lemma size_entries_of: "(k, v) \<in> set (entries_of w) \<Longrightarrow> size v < size w"
  by (auto simp: entries_of_def size_entry size_elem simp del: jv.size split: jv.splits dest: set_zip_rightD)

lemma size_jget_le: "size (jget w k) \<le> size w"
proof (cases "jget w k = JUndef")
  case False
  then obtain m where "w = JObj m" "map_of m k = Some (jget w k)" by (auto simp: jget_def split: jv.splits option.splits)
  then show ?thesis using size_field by (metis less_imp_le)
qed simp

lemma update_entries: "(k, v) \<in> set (AList.update k' v' m) \<Longrightarrow> (k, v) \<in> set m \<or> v = v'"
  by (induction m) (auto split: if_splits)

lemma overlay_entries: "(k, v) \<in> set (overlay language m) \<Longrightarrow> (k, v) \<in> set m \<or> v \<in> snd ` set (translation_entries language m)"
proof -
  have "(k, v) \<in> set (foldl (\<lambda>m (k, v). if nullish_value v then m else AList.update k v m) acc es) \<Longrightarrow> (k, v) \<in> set acc \<or> v \<in> snd ` set es" for acc es
    by (induction es arbitrary: acc) (force dest: update_entries split: if_splits)+
  then show "(k, v) \<in> set (overlay language m) \<Longrightarrow> ?thesis" unfolding overlay_def by blast
qed

lemma size_translation_entry: "v \<in> snd ` set (translation_entries language m) \<Longrightarrow> size v < size (JObj m)"
proof -
  assume "v \<in> snd ` set (translation_entries language m)"
  then obtain k where "(k, v) \<in> set (entries_of (jget (jget (JObj m) ''_translations'') language))" by (auto simp: translation_entries_def)
  then have "size v < size (jget (jget (JObj m) ''_translations'') language)" by (rule size_entries_of)
  also have "\<dots> \<le> size (JObj m)" using size_jget_le order_trans by blast
  finally show ?thesis .
qed

lemma size_overlay: "(k, v) \<in> set (overlay language m) \<Longrightarrow> size v < size (JObj m)"
  using overlay_entries size_entry size_translation_entry by blast

function applyTranslations :: "string \<Rightarrow> jv \<Rightarrow> jv" where
  "applyTranslations language (JObj m) = JObj (map (\<lambda>(k, v). (k, applyTranslations language v)) (overlay language m))"
| "applyTranslations language (JArr xs) = JArr (map (applyTranslations language) xs)"
| "applyTranslations language JUndef = JUndef"
| "applyTranslations language JNull = JNull"
| "applyTranslations language (JBool b) = JBool b"
| "applyTranslations language (JNum n) = JNum n"
| "applyTranslations language (JStr t) = JStr t"
  by pat_completeness auto
termination
proof (relation "measure (\<lambda>(language, v). size v)", goal_cases)
  case (2 language m x k v)
  then have "(k, v) \<in> set (overlay language m)" by simp
  then show ?case unfolding in_measure prod.case by (rule size_overlay)
next
  case (3 language xs x)
  then show ?case unfolding in_measure prod.case by (rule size_elem)
qed (rule wf_measure)

text \<open>\<open>===\<close> between two trees.\<close>

definition js_same :: "jv \<Rightarrow> jv \<Rightarrow> bool" where
  "js_same v w = (\<not> is_object_value v \<and> v = w)"

definition update_field :: "string \<Rightarrow> jv \<Rightarrow> string \<Rightarrow> jv \<times> (string, jv) jsmap \<Rightarrow> jv \<times> (string, jv) jsmap" where
  "update_field language old k acc = (case acc of (input, changed) \<Rightarrow>
     (let translated = jget (jget (jget old ''_translations'') language) k;
          compareValue = (if language \<noteq> ''de'' \<and> translated \<noteq> JUndef then translated else jget old k);
          reset = (if language \<noteq> ''de'' then jset input k (jget old k) else input)
      in if jget input k = JUndef then (input, changed)
         else if js_same (jget input k) compareValue then (reset, changed)
         else (reset, AList.update k (jget input k) changed)))"

definition updateLanguage :: "string \<Rightarrow> jv \<Rightarrow> jv \<Rightarrow> string list \<Rightarrow> jv" where
  "updateLanguage language input old translatable =
     (let (input', changed) = fold (update_field language old) translatable (input, []);
          translations = (if nullish_value (jget input' ''_translations'') then JObj [] else jget input' ''_translations'')
      in jset input' ''_translations'' (jset translations language (jspread (jget translations language) (JObj changed))))"

definition applyTranslationInput :: "string option \<Rightarrow> string list \<Rightarrow> jv \<Rightarrow> jv \<Rightarrow> jv" where
  "applyTranslationInput language translatable input old =
     (if \<not> js_truthy language \<or> translatable = [] then input else updateLanguage (the language) input old translatable)"

subsection \<open>Preparing output\<close>

definition SECRET_FIELD_NAMES :: "string list" where
  "SECRET_FIELD_NAMES = [''password'', ''verificationToken'', ''passwordResetToken'']"

text \<open>The walk of \<^verbatim>\<open>prepareOutput\<close> over a tree, whose ids are strings already.\<close>

fun strip_secrets :: "jv \<Rightarrow> jv" where
  "strip_secrets (JObj m) = JObj (map (\<lambda>(k, v). (k, if k \<in> set SECRET_FIELD_NAMES then JUndef else strip_secrets v)) m)"
| "strip_secrets (JArr xs) = JArr (map strip_secrets xs)"
| "strip_secrets v = v"

record prepare_output_options =
  oo_language :: "string option"
  oo_removeSecrets :: "bool option"
  oo_removeUndefined :: "bool option"
  oo_targetModel :: "string option"

record output_env =
  ou_isClass :: "string \<Rightarrow> jv \<Rightarrow> bool"
  ou_map :: "string \<Rightarrow> jv \<Rightarrow> jv"

definition map_to_class :: "output_env \<Rightarrow> string option \<Rightarrow> jv \<Rightarrow> jv" where
  "map_to_class E targetModel v = (case targetModel of None \<Rightarrow> v | Some c \<Rightarrow> if ou_isClass E c v then v else ou_map E c v)"

definition has_own :: "jv \<Rightarrow> string \<Rightarrow> bool" where
  "has_own v k = (case v of JObj m \<Rightarrow> map_of m k \<noteq> None | _ \<Rightarrow> False)"

definition prepare_object :: "output_env \<Rightarrow> prepare_output_options \<Rightarrow> jv \<Rightarrow> jv" where
  "prepare_object E opts v =
     (let mapped = map_to_class E (oo_targetModel opts) v;
          kept = (case mapped of JObj m \<Rightarrow> if oo_removeUndefined opts = Some True then JObj (drop_undef m) else mapped | _ \<Rightarrow> mapped);
          stripped = (if oo_removeSecrets opts \<noteq> Some False then strip_secrets kept else kept)
      in if oo_targetModel opts \<noteq> None \<and> js_truthy (oo_language opts) \<and> has_own stripped ''_translations''
         then applyTranslations (the (oo_language opts)) stripped else stripped)"

fun prepareOutput :: "output_env \<Rightarrow> prepare_output_options \<Rightarrow> jv \<Rightarrow> jv" where
  "prepareOutput E opts (JArr xs) = (let ys = map (prepareOutput E opts) xs in
     JArr (if oo_removeUndefined opts = Some True then filter (\<lambda>y. y \<noteq> JUndef) ys else ys))"
| "prepareOutput E opts (JObj m) = prepare_object E opts (JObj m)"
| "prepareOutput E opts v = v"

subsection \<open>No secret leaves\<close>

definition clean_entry :: "(jv \<Rightarrow> bool) \<Rightarrow> string \<times> jv \<Rightarrow> bool" where
  "clean_entry P e = ((if fst e \<in> set SECRET_FIELD_NAMES then snd e = JUndef else True) \<and> P (snd e))"

lemma clean_entry_cong [fundef_cong]: "e = e' \<Longrightarrow> (\<And>v. v = snd e' \<Longrightarrow> P v = Q v) \<Longrightarrow> clean_entry P e = clean_entry Q e'"
  by (simp add: clean_entry_def)

fun secret_free :: "jv \<Rightarrow> bool" where
  "secret_free (JObj m) = list_all (clean_entry secret_free) m"
| "secret_free (JArr xs) = list_all secret_free xs"
| "secret_free v = True"

lemma strip_secrets_free: "secret_free (strip_secrets v)"
  by (induction v rule: strip_secrets.induct) (auto simp: list_all_iff clean_entry_def)

lemma show_nat_all_digits: "list_all is_digit (show_nat n)"
proof (induction n rule: show_nat.induct)
  case (1 n)
  have d: "n < 10 \<Longrightarrow> is_digit (char_of (48 + n))" for n :: nat by (simp add: is_digit_def of_char_of take_bit_eq_mod)
  have "n mod 10 < (10 :: nat)" by simp
  then show ?case using 1 d [of "n mod 10"] d [of n] by (subst show_nat.simps) simp
qed

lemma show_nat_no_secret: "show_nat n \<notin> set SECRET_FIELD_NAMES"
proof
  assume "show_nat n \<in> set SECRET_FIELD_NAMES"
  then have "\<not> list_all is_digit (show_nat n)" by (auto simp: SECRET_FIELD_NAMES_def is_digit_def)
  then show False using show_nat_all_digits by blast
qed

lemma secret_free_jget: "secret_free v \<Longrightarrow> secret_free (jget v k)"
  by (cases v) (auto simp: jget_def list_all_iff clean_entry_def split: option.splits dest!: map_of_SomeD)

lemma index_entry: "(k, w) \<in> set (zip (map show_nat [0..<n]) xs) \<Longrightarrow> k \<notin> set SECRET_FIELD_NAMES \<and> w \<in> set xs"
proof
  assume e: "(k, w) \<in> set (zip (map show_nat [0..<n]) xs)"
  then show "w \<in> set xs" by (rule set_zip_rightD)
  have "k \<in> set (map show_nat [0..<n])" using e by (rule set_zip_leftD)
  then obtain i where "k = show_nat i" by auto
  then show "k \<notin> set SECRET_FIELD_NAMES" by (simp only: show_nat_no_secret not_False_eq_True)
qed

lemma secret_free_entries: "secret_free v \<Longrightarrow> list_all (clean_entry secret_free) (entries_of v)"
proof (cases v)
  case (JArr xs)
  assume v: "secret_free v"
  have "clean_entry secret_free (k, w)" if "(k, w) \<in> set (zip (map show_nat [0..<length xs]) xs)" for k w
    using index_entry [OF that] v JArr by (simp add: clean_entry_def list_all_iff)
  then have "Ball (set (zip (map show_nat [0..<length xs]) xs)) (clean_entry secret_free)" by fast
  then show ?thesis unfolding JArr list_all_iff entries_of_def jv.case .
qed (simp_all add: entries_of_def)

lemma update_list_all: "list_all P m \<Longrightarrow> P (k, v) \<Longrightarrow> list_all P (AList.update k v m)"
proof (induction m)
  case (Cons e m)
  then show ?case by (cases e) auto
qed simp

lemma overlay_clean: "secret_free (JObj m) \<Longrightarrow> list_all (clean_entry secret_free) (overlay language m)"
proof -
  assume m: "secret_free (JObj m)"
  have e: "list_all (clean_entry secret_free) (translation_entries language m)"
    unfolding translation_entries_def by (intro secret_free_entries secret_free_jget m)
  have "list_all (clean_entry secret_free) acc \<Longrightarrow> list_all (clean_entry secret_free) es \<Longrightarrow>
      list_all (clean_entry secret_free) (foldl (\<lambda>m (k, v). if nullish_value v then m else AList.update k v m) acc es)" for acc es
  proof (induction es arbitrary: acc)
    case (Cons e es)
    obtain k v where "e = (k, v)" by (cases e)
    then show ?case using Cons by (simp add: update_list_all)
  qed simp
  then show ?thesis using m e by (simp add: overlay_def)
qed

lemma applyTranslations_undef: "applyTranslations language v = JUndef \<longleftrightarrow> v = JUndef"
  by (cases v) simp_all

lemma applyTranslations_free: "secret_free v \<Longrightarrow> secret_free (applyTranslations language v)"
proof (induction language v rule: applyTranslations.induct)
  case (1 language m)
  then show ?case using overlay_clean [OF 1(2), of language]
    by (force simp: list_all_iff clean_entry_def applyTranslations_undef)
qed (auto simp: list_all_iff)

lemma prepareOutput_free: "oo_removeSecrets opts \<noteq> Some False \<Longrightarrow> secret_free (prepareOutput E opts v)"
proof -
  assume on: "oo_removeSecrets opts \<noteq> Some False"
  then have "secret_free (prepare_object E opts w)" for w
    by (auto simp: prepare_object_def Let_def strip_secrets_free applyTranslations_free)
  then show ?thesis
    by (induction E opts v rule: prepareOutput.induct) (auto simp: Let_def list_all_iff)
qed

text \<open>
  Unless the removal is switched off, what \<open>prepareOutput\<close> returns holds no password and no verification or reset token, at any depth
  of objects and arrays, in any translation, whatever the mapping to a class makes of the data.
\<close>

theorem output_holds_no_secret:
  "if oo_removeSecrets opts = Some False then True else secret_free (prepareOutput E opts v)"
  using prepareOutput_free by simp

subsection \<open>Roles and passwords of an input\<close>

definition is_admin_user :: "user option \<Rightarrow> bool" where
  "is_admin_user usr = (case usr of None \<Rightarrow> False | Some u \<Rightarrow> hasRole u [ADMIN])"

definition held_roles :: "user option \<Rightarrow> string list" where
  "held_roles usr = (case usr of None \<Rightarrow> [] | Some u \<Rightarrow> (case u_roles u of None \<Rightarrow> [] | Some rs \<Rightarrow> rs))"

definition grants_only :: "user option \<Rightarrow> jv \<Rightarrow> bool" where
  "grants_only usr v = (\<not> jtruthy (jget v ''roles'') \<or> is_admin_user usr
     \<or> (case jget v ''roles'' of JArr xs \<Rightarrow> list_all (\<lambda>x. case x of JStr r \<Rightarrow> r \<in> set (held_roles usr) | _ \<Rightarrow> False) xs | _ \<Rightarrow> False))"

definition password_hashed :: "input_env \<Rightarrow> jv \<Rightarrow> bool" where
  "password_hashed E v = (\<not> jtruthy (jget v ''password'') \<or> (\<exists>p. jget v ''password'' = JStr (in_hash E p)))"

text \<open>A value that is an object, or all objects among the elements of an array; what is nested under fields is not looked at.\<close>

fun all_objects :: "(jv \<Rightarrow> bool) \<Rightarrow> jv \<Rightarrow> bool" where
  "all_objects P (JArr xs) = list_all (all_objects P) xs"
| "all_objects P (JObj m) = P (JObj m)"
| "all_objects P v = True"

lemma shared_roles_held: "list_all (\<lambda>x. case x of JStr r \<Rightarrow> r \<in> set held | _ \<Rightarrow> False) (shared_roles xs held)"
proof -
  have "list_all (\<lambda>x. case x of JStr r \<Rightarrow> r \<in> set held | _ \<Rightarrow> False) acc \<Longrightarrow>
      list_all (\<lambda>x. case x of JStr r \<Rightarrow> r \<in> set held | _ \<Rightarrow> False)
        (foldl (\<lambda>acc x. if x \<in> set acc then acc else case x of JStr r \<Rightarrow> if r \<in> set held then acc @ [x] else acc | _ \<Rightarrow> acc) acc xs)" for acc
    by (induction xs arbitrary: acc) (simp_all split: jv.split)
  then show ?thesis by (simp add: shared_roles_def)
qed

lemma jset_obj: "\<exists>m'. jset (JObj m) k v = JObj m'"
  by (simp add: jset_def)

lemma check_input_roles_ok:
  "check_input_roles usr (JObj m) = Inr w \<Longrightarrow> (\<exists>m'. w = JObj m') \<and> grants_only usr w"
  using shared_roles_held [of "held_roles usr"]
  by (auto simp: check_input_roles_def grants_only_def is_admin_user_def held_roles_def jget_jset_obj jset_obj
      simp del: jget_simps split: if_splits option.splits jv.splits)

lemma hash_password_ok:
  assumes "hash_password E sha (JObj m) = Inr w"
  shows "(\<exists>m'. w = JObj m') \<and> password_hashed E w \<and> jget w ''roles'' = jget (JObj m) ''roles''"
proof (cases "jtruthy (jget (JObj m) ''password'')")
  case True
  then obtain q where "(case q of JStr t \<Rightarrow> Inr (jset (JObj m) ''password'' (JStr (in_hash E t)))
      | _ \<Rightarrow> Inl (ServiceError ''data must be a string or Buffer and salt must either be a salt string or a number of rounds'')) = Inr w"
    using assms unfolding hash_password_def Let_def by (simp only: not_True_eq_False if_False then_do_Inr) blast
  then obtain t where "w = jset (JObj m) ''password'' (JStr (in_hash E t))" by (cases q) auto
  then show ?thesis using jset_obj [of m "''password''"] by (auto simp: password_hashed_def simp del: jget_simps)
next
  case False
  then have "w = JObj m" using assms by (simp add: hash_password_def del: jget_simps)
  then show ?thesis using False by (simp add: password_hashed_def del: jget_simps)
qed

text \<open>
  C21. A prepared input that is an object, and every object in a prepared array, also an array in arrays: when the check of roles is on, the roles it
  grants are roles that the user holds, unless the user is an administrator; and its password, if it has one, is a hash. Objects nested under the
  fields of these are passed through as they are and are not covered.
\<close>

theorem prepared_input_grants_held_roles:
  assumes "prepareInput E usr opts v = Inr w"
  shows "all_objects (\<lambda>ob. (if io_checkRoles opts = Some True then grants_only usr ob else True) \<and> password_hashed E ob) w"
  using assms
proof (induction E usr opts v arbitrary: w rule: prepareInput.induct)
  case (1 E usr opts xs)
  obtain ys where ys: "each (prepareInput E usr opts) xs = Inr ys"
      and w: "w = JArr (if io_removeUndefined opts = Some False then ys else filter (\<lambda>y. y \<noteq> JUndef) ys)"
    using 1(2) by (auto simp: then_do_Inr)
  have each: "list_all2 (\<lambda>x y. prepareInput E usr opts x = Inr y) xs ys" using ys unfolding each_Inr .
  have "\<exists>x \<in> set xs. prepareInput E usr opts x = Inr y" if "y \<in> set ys" for y
    using that list_all2_lengthD [OF each] list_all2_nthD2 [OF each] by (metis in_set_conv_nth)
  then have "list_all (all_objects (\<lambda>ob. (if io_checkRoles opts = Some True then grants_only usr ob else True) \<and> password_hashed E ob)) ys"
    using 1(1) unfolding list_all_iff by blast
  then show ?case using w by (auto simp: list_all_iff)
next
  case (2 E usr opts m)
  obtain m1 where "then_do (if io_checkRoles opts = Some True then check_input_roles usr (JObj m1) else Inr (JObj m1))
      (hash_password E (case io_sha256 opts of Some b \<Rightarrow> b | None \<Rightarrow> in_configSha256 E)) = Inr w"
    using 2 by (auto simp: Let_def)
  then obtain v where v: "(if io_checkRoles opts = Some True then check_input_roles usr (JObj m1) else Inr (JObj m1)) = Inr v"
      and h: "hash_password E (case io_sha256 opts of Some b \<Rightarrow> b | None \<Rightarrow> in_configSha256 E) v = Inr w"
    by (auto simp: then_do_Inr)
  have v': "(\<exists>m'. v = JObj m') \<and> (if io_checkRoles opts = Some True then grants_only usr v else True)"
    using v check_input_roles_ok by (auto split: if_splits)
  then obtain m2 where m2: "v = JObj m2" by blast
  have "(\<exists>m'. w = JObj m') \<and> password_hashed E w \<and> jget w ''roles'' = jget v ''roles''"
    using hash_password_ok h m2 by blast
  then show ?case using v' by (auto simp: grants_only_def)
qed auto

end
