(* ===== verification/Translations.thy ===== *)
theory Translations
  imports Inputs
begin

text \<open>
  What a translation stored by \<open>updateLanguage\<close> (\<^verbatim>\<open>common/decorators/translatable.decorator.ts\<close>) reads like afterwards.
\<close>

subsection \<open>Translations round trip\<close>

text \<open>A value under which \<open>mergePlain\<close> can nest another object.\<close>

definition nestable :: "jv \<Rightarrow> bool" where
  "nestable v = (case v of JObj m \<Rightarrow> jsmap_ok m | JArr _ \<Rightarrow> False | _ \<Rightarrow> True)"

definition compared_value :: "string \<Rightarrow> jv \<Rightarrow> string \<Rightarrow> jv" where
  "compared_value language old k = (let translated = jget (jget (jget old ''_translations'') language) k
     in if language \<noteq> ''de'' \<and> translated \<noteq> JUndef then translated else jget old k)"

lemma update_field_other:
  "k' \<noteq> k \<Longrightarrow> update_field language old k (JObj i, ch) = (i', ch') \<Longrightarrow>
     jget i' k' = jget (JObj i) k' \<and> map_of ch' k' = map_of ch k'"
  by (auto simp: update_field_def Let_def map_of_update_eq simp del: jget_simps split: if_splits)

lemma update_field_form:
  assumes "jsmap_ok i" "jsmap_ok ch" "update_field language old k (JObj i, ch) = (i', ch')"
  shows "\<exists>m. i' = JObj m \<and> jsmap_ok m \<and> jsmap_ok ch'"
  using assms by (auto simp: update_field_def Let_def jset_def jsmap_ok_update simp del: jget_simps split: if_splits)

lemma update_field_same:
  assumes "language \<noteq> ''de''" "jget (JObj i) k = JStr s" "update_field language old k (JObj i, ch) = (i', ch')"
  shows "jget i' k = jget old k \<and> map_of ch' k = (if JStr s = compared_value language old k then map_of ch k else Some (JStr s))"
  using assms by (auto simp: update_field_def compared_value_def js_same_def is_object_value_def Let_def map_of_update_eq simp del: jget_simps split: if_splits)

lemma update_fields_form:
  "jsmap_ok i \<Longrightarrow> jsmap_ok ch \<Longrightarrow> \<exists>m ch'. fold (update_field language old) ks (JObj i, ch) = (JObj m, ch') \<and> jsmap_ok m \<and> jsmap_ok ch'"
proof (induction ks arbitrary: i ch)
  case (Cons k ks)
  obtain i1 ch1 where "update_field language old k (JObj i, ch) = (i1, ch1)" by fastforce
  then show ?case using Cons update_field_form [of i ch language old k i1 ch1] by auto
qed simp

lemma update_fields_other:
  "k' \<notin> set ks \<Longrightarrow> jsmap_ok i \<Longrightarrow> jsmap_ok ch \<Longrightarrow> fold (update_field language old) ks (JObj i, ch) = (i', ch') \<Longrightarrow>
     jget i' k' = jget (JObj i) k' \<and> map_of ch' k' = map_of ch k'"
proof (induction ks arbitrary: i ch)
  case (Cons k ks)
  obtain i1 ch1 where u: "update_field language old k (JObj i, ch) = (i1, ch1)" by fastforce
  obtain m where m: "i1 = JObj m" "jsmap_ok m" "jsmap_ok ch1" using update_field_form [OF Cons(3,4) u] by blast
  have "jget i1 k' = jget (JObj i) k' \<and> map_of ch1 k' = map_of ch k'" using update_field_other [OF _ u] Cons(2) by auto
  then show ?case using Cons(1) [of m ch1] Cons(2,5) u m by auto
qed auto

lemma update_fields_same:
  assumes "language \<noteq> ''de''" "distinct ks" "k \<in> set ks" "jsmap_ok i" "jsmap_ok ch" "jget (JObj i) k = JStr s" "map_of ch k = None"
    "fold (update_field language old) ks (JObj i, ch) = (i', ch')"
  shows "jget i' k = jget old k \<and> map_of ch' k = (if JStr s = compared_value language old k then None else Some (JStr s))"
  using assms(2-)
proof (induction ks arbitrary: i ch)
  case (Cons k1 ks)
  obtain i1 ch1 where u: "update_field language old k1 (JObj i, ch) = (i1, ch1)" by fastforce
  obtain m where m: "i1 = JObj m" "jsmap_ok m" "jsmap_ok ch1" using update_field_form [OF Cons(4,5) u] by blast
  have f: "fold (update_field language old) ks (JObj m, ch1) = (i', ch')" using Cons(8) u m by simp
  show ?case
  proof (cases "k1 = k")
    case True
    then have n: "k \<notin> set ks" using Cons(2) by simp
    show ?thesis using update_fields_other [OF n m(2,3) f] update_field_same [OF assms(1) Cons(6) u [unfolded True]] Cons(7) m(1) by simp
  next
    case False
    then have "jget i1 k = jget (JObj i) k \<and> map_of ch1 k = map_of ch k" by (intro update_field_other [OF _ u]) simp
    then have "jget (JObj m) k = JStr s" "map_of ch1 k = None" using Cons(6,7) m(1) by (simp_all del: jget_simps)
    moreover have "distinct ks" "k \<in> set ks" using Cons(2,3) False by simp_all
    ultimately show ?thesis using Cons(1) [OF _ _ m(2,3) _ _ f] by simp
  qed
qed simp

text \<open>Reading in a language: a value of the translation, unless it is nullish, else the value of the object.\<close>

definition overlaid :: "string \<Rightarrow> (string, jv) jsmap \<Rightarrow> string \<Rightarrow> jv" where
  "overlaid language m k = (let v = jget (jget (jget (JObj m) ''_translations'') language) k
     in if nullish_value v then jget (JObj m) k else v)"

lemma overlay_get:
  assumes "jget (jget (JObj m) ''_translations'') language = JObj t" "jsmap_ok t"
  shows "jget (JObj (overlay language m)) k = overlaid language m k"
proof -
  have "map_of (foldl (\<lambda>m (k, v). if nullish_value v then m else AList.update k v m) acc t) k =
      (case map_of t k of Some v \<Rightarrow> if nullish_value v then map_of acc k else Some v | None \<Rightarrow> map_of acc k)" for acc k
    using assms(2)
  proof (induction t arbitrary: acc k)
    case (Cons e t)
    obtain k' v where e: "e = (k', v)" by (cases e)
    then have n: "map_of t k' = None" "jsmap_ok t" using Cons(2) by (simp_all add: jsmap_ok_def map_of_eq_None_iff)
    show ?case by (cases "k = k'") (simp_all add: e n Cons(1) map_of_update_eq split: option.split)
  qed simp
  then show ?thesis
    using assms(1) by (simp add: overlay_def overlaid_def translation_entries_def entries_of_def nullish_value_def split: option.split)
qed

lemma applyTranslations_get: "jget (applyTranslations language (JObj m)) k = applyTranslations language (jget (JObj (overlay language m)) k)"
proof -
  have "map_of (map (\<lambda>(k, v). (k, f v)) xs) k = map_option f (map_of xs k)" for f :: "jv \<Rightarrow> jv" and xs
    by (induction xs) auto
  then show ?thesis by (simp split: option.split)
qed

text \<open>The document after an update of translatable fields in a language.\<close>

definition updated_in :: "string \<Rightarrow> string list \<Rightarrow> jv \<Rightarrow> jv \<Rightarrow> jv" where
  "updated_in language ts old input = mergePlain old [applyTranslationInput (Some language) ts input old]"

lemma merge_scalar: "\<not> is_object_value v \<Longrightarrow> v \<noteq> JUndef \<Longrightarrow> merge_into w v = v"
  by (cases v) (simp_all add: is_object_value_def)

lemma merge_object: "nestable w \<Longrightarrow> merge_into w (JObj src) = JObj (merge_fields (jfields w) src)"
  by (cases w) (simp_all add: nestable_def jfields_def)

lemma nestable_jfields: "nestable w \<Longrightarrow> jsmap_ok (jfields w)"
  by (cases w) (simp_all add: nestable_def jfields_def jsmap_ok_def)

lemma jget_obj_update: "jget (JObj (AList.update k x m)) k' = (if k' = k then x else jget (JObj m) k')"
  by (simp add: map_of_update_eq)

text \<open>What \<open>updateLanguage\<close> makes of the input of an object without translations in it.\<close>

lemma updateLanguage_result:
  assumes i: "jsmap_ok i" and ts: "distinct ts" "''_translations'' \<notin> set ts" and new: "jget (JObj i) ''_translations'' = JUndef"
    and l: "language \<noteq> ''de''" and k: "k \<in> set ts" "jget (JObj i) k = JStr s"
  obtains r ch where "updateLanguage language (JObj i) old ts = JObj r" "jsmap_ok r" "jsmap_ok ch"
    "jget (JObj r) ''_translations'' = JObj [(language, JObj ch)]" "jget (JObj r) k = jget old k"
    "map_of ch k = (if JStr s = compared_value language old k then None else Some (JStr s))"
proof -
  obtain m ch where f: "fold (update_field language old) ts (JObj i, []) = (JObj m, ch)" and ok: "jsmap_ok m" "jsmap_ok ch"
    using update_fields_form [OF i, of "[]" language old ts] by auto
  have k': "jget (JObj m) k = jget old k \<and> map_of ch k = (if JStr s = compared_value language old k then None else Some (JStr s))"
    using update_fields_same [OF l ts(1) k(1) i _ k(2) _ f] by simp
  have t: "jget (JObj m) ''_translations'' = JUndef"
    using update_fields_other [OF ts(2) i _ f] new by simp
  define c where "c = foldl (\<lambda>m kv. AList.update (fst kv) (snd kv) m) [] ch"
  have c: "jsmap_ok c" "map_of c k = map_of ch k"
    unfolding c_def using fold_update_ok [of "[]" ch] fold_update_get [OF ok(2), of "[]" k] by (simp_all split: option.splits)
  have e: "jget (JObj []) language = JUndef" by simp
  have "updateLanguage language (JObj i) old ts = jset (JObj m) ''_translations'' (JObj [(language, JObj c)])"
    using f t by (simp add: e updateLanguage_def Let_def nullish_value_def jset_def jspread_def jfields_def c_def del: jget_simps)
  moreover have "k \<noteq> ''_translations''" using k ts by auto
  ultimately show thesis
    using that [of "AList.update ''_translations'' (JObj [(language, JObj c)]) m" c] ok c k'
    by (simp add: jset_def jget_obj_update jsmap_ok_update del: jget_simps)
qed

text \<open>
  C23. A text given for a translatable property in a language other than the base language is what a later reading in that language shows,
  whether it was changed or not, and the property itself keeps its value.
  Assumed: no key occurs twice, the value in the base language is no object, stored translations are objects or missing, and the input brings
  no translations of its own.
\<close>

theorem translated_field_reads_back:
  assumes "jsmap_ok m" and i: "jsmap_ok i" and ts: "distinct ts" "''_translations'' \<notin> set ts"
    and new: "jget (JObj i) ''_translations'' = JUndef" and l: "language \<noteq> ''de''" and "language \<noteq> []"
    and k: "k \<in> set ts" "jget (JObj i) k = JStr s" and base: "\<not> is_object_value (jget (JObj m) k)"
    and n: "nestable (jget (JObj m) ''_translations'')" "nestable (jget (jget (JObj m) ''_translations'') language)"
  shows "jget (applyTranslations language (updated_in language ts (JObj m) (JObj i))) k = JStr s
    \<and> jget (updated_in language ts (JObj m) (JObj i)) k = jget (JObj m) k"
proof -
  let ?tr = "''_translations''" and ?old = "jget (JObj m) ''_translations''"
  obtain r ch where r: "updateLanguage language (JObj i) (JObj m) ts = JObj r" "jsmap_ok r" and ch: "jsmap_ok ch"
    and r_tr: "jget (JObj r) ?tr = JObj [(language, JObj ch)]" and r_k: "jget (JObj r) k = jget (JObj m) k"
    and ch_k: "map_of ch k = (if JStr s = compared_value language (JObj m) k then None else Some (JStr s))"
    by (rule updateLanguage_result [OF i ts new l k, of "JObj m"])
  define d where "d = merge_fields m (drop_undef r)"
  have u: "updated_in language ts (JObj m) (JObj i) = mergePlain (JObj m) [JObj r]"
    using r k assms by (auto simp: updated_in_def applyTranslationInput_def js_truthy_def)
  have d: "mergePlain (JObj m) [JObj r] = JObj d" by (simp add: mergePlain_def js_merge_def d_def)
  note get = mergePlain_one [OF r(2), of m, unfolded d]
  have d_k: "jget (JObj d) k = jget (JObj m) k"
    using get [of k] r_k merge_scalar [OF base] by (simp del: jget_simps)
  have d_tr: "jget (JObj d) ?tr = JObj (merge_fields (jfields ?old) [(language, JObj ch)])"
    using get [of ?tr] r_tr merge_object [OF n(1)] by (simp del: jget_simps)
  define t where "t = merge_fields (jfields (jget ?old language)) ch"
  have lang: "jget (jget (JObj d) ?tr) language = JObj t"
    using merge_object [OF n(2), of ch] unfolding d_tr t_def by (simp add: map_of_update_eq flip: jget_jfields)
  have t_ok: "jsmap_ok t" unfolding t_def by (rule merge_fields_ok [OF nestable_jfields [OF n(2)]])
  have t_k: "jget (JObj t) k = (if JStr s = compared_value language (JObj m) k then jget (jget ?old language) k else JStr s)"
  proof (cases "map_of ch k")
    case None
    then have "map_of t k = map_of (jfields (jget ?old language)) k" unfolding t_def
      by (intro merge_fields_notin) (simp add: map_of_eq_None_iff)
    then have "jget (JObj t) k = jget (jget ?old language) k" unfolding jget_jfields [of _ k] by (simp add: jfields_def)
    then show ?thesis using None ch_k by (simp del: jget_simps split: if_splits)
  next
    case (Some v)
    then have v: "v = JStr s" "JStr s \<noteq> compared_value language (JObj m) k" using ch_k by (simp_all split: if_splits)
    have "map_of t k = Some (JStr s)" unfolding t_def using merge_fields_get [OF ch Some, of "jfields (jget ?old language)"] v by simp
    then show ?thesis using v by simp
  qed
  have read: "overlaid language d k = (if nullish_value (jget (JObj t) k) then jget (JObj m) k else jget (JObj t) k)"
    by (simp add: overlaid_def lang d_k del: jget_simps)
  have "overlaid language d k = JStr s"
  proof (cases "JStr s = compared_value language (JObj m) k")
    case True
    then have "JStr s = (if jget (jget ?old language) k \<noteq> JUndef then jget (jget ?old language) k else jget (JObj m) k)"
      by (simp add: compared_value_def l del: jget_simps)
    then show ?thesis using read t_k True by (cases "jget (jget ?old language) k") (simp_all add: nullish_value_def del: jget_simps)
  next
    case False
    then show ?thesis using read t_k by (simp add: nullish_value_def)
  qed
  then show ?thesis
    using d_k overlay_get [OF lang t_ok, of k] unfolding u d applyTranslations_get by (simp del: jget_simps)
qed

text \<open>
  A text given in the base language is stored as a translation too; a later update without a language changes the property only, and
  a reading in the base language shows the old text.
\<close>

theorem german_translation_shadows_base:
  "\<exists>doc. let stored = mergePlain (updated_in ''de'' [''title''] doc (JObj [(''title'', JStr ''old'')])) [JObj [(''title'', JStr ''new'')]]
    in jget stored ''title'' = JStr ''new'' \<and> jget (applyTranslations ''de'' stored) ''title'' = JStr ''old''"
  by (rule exI [of _ "JObj []"]) code_simp

text \<open>
  A translation overrides any property when it is read, also those that are not translatable.
\<close>

theorem translation_overrides_any_property:
  "jget (applyTranslations ''en'' (JObj [(''createdBy'', JStr ''u1''), (''_translations'', JObj [(''en'', JObj [(''createdBy'', JStr ''u2'')])])])) ''createdBy'' = JStr ''u2''"
  by code_simp

definition sample_article :: "(string, jv) jsmap" where
  "sample_article = [(''title'', JStr ''Hallo''), (''_translations'', JObj [(''en'', JObj [(''title'', JStr ''Hi'')])])]"

theorem translated_field_reads_back_witness:
  "jget (applyTranslations ''en'' (updated_in ''en'' [''title''] (JObj sample_article) (JObj [(''title'', JStr ''Hello'')]))) ''title'' = JStr ''Hello''
    \<and> jget (updated_in ''en'' [''title''] (JObj sample_article) (JObj [(''title'', JStr ''Hello'')])) ''title'' = jget (JObj sample_article) ''title''"
  by (rule translated_field_reads_back) (code_simp+)

subsection \<open>A prepared input\<close>

definition sample_input_env :: input_env where
  "sample_input_env = \<lparr>in_hash = (\<lambda>p. ''$2'' @ p), in_sha256 = (\<lambda>v. None), in_text = (\<lambda>v. []), in_configSha256 = False,
     in_isClass = (\<lambda>c v. True), in_map = (\<lambda>c v. v)\<rparr>"

definition sample_editor :: user where
  "sample_editor = \<lparr>u_id = ''u1'', u_roles = Some [''editor''], u_verified = False, u_verifiedAt = False, u_emailVerified = False\<rparr>"

theorem prepared_input_grants_held_roles_witness:
  "all_objects (\<lambda>ob. (if io_checkRoles (no_input_options\<lparr>io_checkRoles := Some True\<rparr>) = Some True then grants_only (Some sample_editor) ob else True)
      \<and> password_hashed sample_input_env ob)
     (JObj [(''roles'', JArr [JStr ''editor'']), (''password'', JStr ''$2pw'')])"
  by (rule prepared_input_grants_held_roles [of sample_input_env "Some sample_editor" _ "JObj [(''roles'', JArr [JStr ''editor'']), (''password'', JStr ''pw'')]"])
    code_simp

end
