(* ===== verification/Process.thy ===== *)
theory Process
  imports Inputs
begin

text \<open>
  \<^verbatim>\<open>process\<close> and \<^verbatim>\<open>processResult\<close> of \<^verbatim>\<open>common/services/module.service.ts\<close>: what a generic service does before and after the function of a
  call, and \<^verbatim>\<open>prepareServiceOptions\<close>, \<^verbatim>\<open>prepareServiceOptionsForCreate\<close>.

  A call gets the options by reference and writes into the nested ones; \<open>options_after\<close> is what is left of them. The state \<open>'w\<close> is the
  database, a function of a call may change it. The output path is a single property.
\<close>

subsection \<open>Options\<close>

record module_output =
  mo_options :: prepare_output_options
  mo_noTarget :: bool

record field_selection_options =
  pf_ignoreSelections :: "bool option"
  pf_model :: "string option"

text \<open>
  \<open>None\<close> is a missing property; for the nested options, \<open>Some None\<close> is null. \<open>mo_noTarget\<close>: the property \<^verbatim>\<open>targetModel\<close> is there, but undefined.
\<close>

record service_options =
  so_checkRights :: "bool option"
  so_create :: bool
  so_currentUser :: "user option"
  so_fieldSelection :: "string option"
  so_force :: bool
  so_inputType :: "string option"
  so_language :: "string option"
  so_outputType :: "string option"
  so_populate :: "string option"
  so_prepareInput :: "prepare_input_options option option"
  so_prepareOutput :: "module_output option option"
  so_processFieldSelection :: "field_selection_options option option"
  so_raw :: bool
  so_roles :: "string list"
  so_select :: "string option"
  so_setCreateOrUpdateUserId :: bool

definition no_output_options :: module_output where
  "no_output_options = \<lparr>mo_options = \<lparr>oo_language = None, oo_removeSecrets = None, oo_removeUndefined = None, oo_targetModel = None\<rparr>, mo_noTarget = False\<rparr>"

definition no_selection_options :: field_selection_options where
  "no_selection_options = \<lparr>pf_ignoreSelections = None, pf_model = None\<rparr>"

definition no_service_options :: service_options where
  "no_service_options = \<lparr>so_checkRights = None, so_create = False, so_currentUser = None, so_fieldSelection = None, so_force = False,
     so_inputType = None, so_language = None, so_outputType = None, so_populate = None, so_prepareInput = None, so_prepareOutput = None,
     so_processFieldSelection = None, so_raw = False, so_roles = [], so_select = None, so_setCreateOrUpdateUserId = False\<rparr>"

definition prepareServiceOptionsForCreate :: "service_options option \<Rightarrow> service_options" where
  "prepareServiceOptionsForCreate opts =
     (let so = (case opts of None \<Rightarrow> no_service_options | Some s \<Rightarrow> s);
          pri = (case so_prepareInput so of Some (Some p) \<Rightarrow> p | _ \<Rightarrow> no_input_options)
      in so\<lparr>so_prepareInput := Some (Some (if io_create pri = None then pri\<lparr>io_create := Some True\<rparr> else pri))\<rparr>)"

text \<open>The options that a resolver adds; the selection of a sub field is left out, it concerns the selector of a library.\<close>

definition prepareServiceOptions :: "service_options option \<Rightarrow> string option \<Rightarrow> string option \<Rightarrow> prepare_input_options option option
    \<Rightarrow> module_output option option \<Rightarrow> service_options" where
  "prepareServiceOptions opts inputType outputType prepInput prepOutput =
     (let so = (case opts of None \<Rightarrow> no_service_options | Some s \<Rightarrow> s)
      in so\<lparr>so_inputType := (case so_inputType so of None \<Rightarrow> inputType | t \<Rightarrow> t),
            so_outputType := (case so_outputType so of None \<Rightarrow> outputType | t \<Rightarrow> t),
            so_prepareInput := (case so_prepareInput so of Some (Some p) \<Rightarrow> Some (Some p) | p \<Rightarrow> if prepInput \<noteq> None then prepInput else p),
            so_prepareOutput := (case so_prepareOutput so of Some (Some p) \<Rightarrow> Some (Some p) | p \<Rightarrow> if prepOutput \<noteq> None then prepOutput else p)\<rparr>)"

subsection \<open>The configuration of a call\<close>

record service_call =
  sc_dbObject :: jv
  sc_input :: jv
  sc_outputPath :: "string option"
  sc_options :: "service_options option"

record service_config =
  cf_checkRights :: bool
  cf_dbObject :: jv
  cf_input :: jv
  cf_fieldSelection :: "string option"
  cf_prepareInput :: "prepare_input_options option"
  cf_prepareOutput :: "module_output option"
  cf_processFieldSelection :: "field_selection_options option"
  cf_options :: service_options

definition options_of :: "service_call \<Rightarrow> service_options" where
  "options_of c = (case sc_options c of None \<Rightarrow> no_service_options | Some so \<Rightarrow> so)"

definition set_remove_secrets :: "bool \<Rightarrow> module_output \<Rightarrow> module_output" where
  "set_remove_secrets b p = p\<lparr>mo_options := (mo_options p)\<lparr>oo_removeSecrets := Some b\<rparr>\<rparr>"

definition configured_input :: "service_options \<Rightarrow> prepare_input_options option" where
  "configured_input so =
     (let p = (if so_raw so then None else case so_prepareInput so of None \<Rightarrow> Some no_input_options | Some q \<Rightarrow> q)
      in if so_force so then map_option (\<lambda>p. p\<lparr>io_checkRoles := Some False\<rparr>) p else p)"

definition configured_output :: "service_options \<Rightarrow> module_output option" where
  "configured_output so =
     (let p = (if so_raw so then None else case so_prepareOutput so of None \<Rightarrow> Some no_output_options | Some q \<Rightarrow> q)
      in if so_force so then map_option (set_remove_secrets False) p else p)"

text \<open>\<open>ignoreSelections\<close> is the setting \<^verbatim>\<open>ignoreSelectionsForPopulate\<close>.\<close>

definition configured_selection :: "bool \<Rightarrow> service_options \<Rightarrow> service_error + field_selection_options option" where
  "configured_selection ignoreSelections so =
     (let p = (case so_processFieldSelection so of None \<Rightarrow> Some no_selection_options | Some q \<Rightarrow> q)
      in if ignoreSelections \<and> p = None then Inl ServiceTypeError
         else Inr (map_option (\<lambda>p.
           (let i = (if ignoreSelections \<and> pf_ignoreSelections p = None then Some True else pf_ignoreSelections p)
            in p\<lparr>pf_ignoreSelections := (if so_populate so \<noteq> None \<and> i = Some True then Some False else i)\<rparr>)) p))"

definition configure :: "bool \<Rightarrow> service_call \<Rightarrow> service_error + service_config" where
  "configure ignoreSelections c =
     (let so = options_of c in
      then_do (configured_selection ignoreSelections so) (\<lambda>pfs.
        Inr \<lparr>cf_checkRights = (if so_force so then False else case so_checkRights so of None \<Rightarrow> True | Some b \<Rightarrow> b),
             cf_dbObject = sc_dbObject c, cf_input = sc_input c,
             cf_fieldSelection = (if so_populate so \<noteq> None then so_populate so else so_fieldSelection so),
             cf_prepareInput = configured_input so, cf_prepareOutput = configured_output so,
             cf_processFieldSelection = pfs, cf_options = so\<rparr>))"

subsection \<open>The methods a service can override\<close>

text \<open>\<open>prepareOutput\<close> gets the configuration of the call or, for a part of the result, the options of the output alone.\<close>

datatype output_call = Whole service_config | Part module_output

record 'w service =
  sv_checkRights :: "jv \<Rightarrow> user option \<Rightarrow> check_opts \<Rightarrow> service_error + jv"
  sv_prepareInput :: "jv \<Rightarrow> service_config \<Rightarrow> service_error + jv"
  sv_prepareOutput :: "jv \<Rightarrow> output_call \<Rightarrow> service_error + jv"
  sv_processFieldSelection :: "'w \<Rightarrow> jv \<Rightarrow> string \<Rightarrow> field_selection_options \<Rightarrow> service_error + jv"
  sv_findById :: "'w \<Rightarrow> string \<Rightarrow> jv option"
  sv_ignoreSelections :: bool

definition check_opts_of :: "jv \<Rightarrow> string option \<Rightarrow> bool \<Rightarrow> string list \<Rightarrow> bool \<Rightarrow> check_opts" where
  "check_opts_of db metatype input roles throw = \<lparr>co_allowCreatorOfParent = True, co_dbObject = db, co_isCreatorOfParent = False,
     co_metatype = metatype, co_input = input, co_roles = roles, co_throwError = throw\<rparr>"

definition base_checkRights :: "check_env \<Rightarrow> jv \<Rightarrow> user option \<Rightarrow> check_opts \<Rightarrow> service_error + jv" where
  "base_checkRights E input usr opts = check_tree E usr opts input"

definition base_prepareInput :: "input_env \<Rightarrow> jv \<Rightarrow> service_config \<Rightarrow> service_error + jv" where
  "base_prepareInput E input c = prepareInput E (so_currentUser (cf_options c))
     (case cf_prepareInput c of None \<Rightarrow> no_input_options | Some p \<Rightarrow> p) input"

definition base_prepareOutput :: "output_env \<Rightarrow> string option \<Rightarrow> jv \<Rightarrow> output_call \<Rightarrow> service_error + jv" where
  "base_prepareOutput E mainModel v call =
     (let (language, p) = (case call of
            Whole c \<Rightarrow> (so_language (cf_options c), case cf_prepareOutput c of None \<Rightarrow> no_output_options | Some p \<Rightarrow> p)
          | Part p \<Rightarrow> (oo_language (mo_options p), no_output_options));
          q = mo_options p
      in Inr (prepareOutput E
           (q\<lparr>oo_language := (case oo_language q of None \<Rightarrow> language | l \<Rightarrow> l),
              oo_targetModel := (if mo_noTarget p then None else case oo_targetModel q of None \<Rightarrow> mainModel | t \<Rightarrow> t)\<rparr>) v))"

subsection \<open>Before the function\<close>

definition default_target :: "string option \<Rightarrow> prepare_input_options \<Rightarrow> prepare_input_options" where
  "default_target t p = (if io_targetModel p = None \<and> t \<noteq> None then p\<lparr>io_targetModel := t\<rparr> else p)"

definition prepare_stage :: "'w service \<Rightarrow> service_config \<Rightarrow> service_error + service_config" where
  "prepare_stage S c = (case cf_prepareInput c of
       None \<Rightarrow> Inr c
     | Some p \<Rightarrow>
         (let c' = c\<lparr>cf_prepareInput := Some (default_target (so_inputType (cf_options c)) p)\<rparr>
          in then_do (sv_prepareInput S (cf_input c) c') (\<lambda>i. Inr (c'\<lparr>cf_input := i\<rparr>))))"

definition load_stage :: "'w service \<Rightarrow> 'w \<Rightarrow> service_config \<Rightarrow> service_config" where
  "load_stage S w c = (case cf_dbObject c of
       JStr i \<Rightarrow> if i \<noteq> [] \<and> cf_checkRights c
                then (case sv_findById S w i of Some doc \<Rightarrow> c\<lparr>cf_dbObject := doc\<rparr> | None \<Rightarrow> c) else c
     | _ \<Rightarrow> c)"

definition rights_stage :: "'w service \<Rightarrow> service_config \<Rightarrow> service_error + service_config" where
  "rights_stage S c =
     (let so = cf_options c in
      if \<not> cf_checkRights c then Inr c
      else if jtruthy (cf_input c)
      then then_do (sv_checkRights S (cf_input c) (so_currentUser so) (check_opts_of (cf_dbObject c) (so_inputType so) True (so_roles so) True))
             (\<lambda>i. Inr (c\<lparr>cf_input := i\<rparr>))
      else then_do (sv_checkRights S JUndef (so_currentUser so) (check_opts_of (cf_dbObject c) None False (so_roles so) True))
             (\<lambda>_. Inr c))"

definition user_stage :: "service_config \<Rightarrow> service_error + service_config" where
  "user_stage c =
     (let so = cf_options c in
      case so_currentUser so of
        None \<Rightarrow> Inr c
      | Some u \<Rightarrow>
          if \<not> jtruthy (cf_input c) \<or> \<not> so_setCreateOrUpdateUserId so then Inr c
          else if \<not> is_object_value (cf_input c) then Inl ServiceTypeError
          else (let i = (if so_create so then jset (cf_input c) ''createdBy'' (JStr (u_id u)) else cf_input c)
                in Inr (c\<lparr>cf_input := jset i ''updatedBy'' (JStr (u_id u))\<rparr>)))"

definition input_stages :: "'w service \<Rightarrow> 'w \<Rightarrow> service_config \<Rightarrow> service_error + service_config" where
  "input_stages S w c = then_do (prepare_stage S c) (\<lambda>c. then_do (rights_stage S (load_stage S w c)) user_stage)"

subsection \<open>After the function\<close>

definition on_results :: "(jv \<Rightarrow> service_error + jv) \<Rightarrow> jv \<Rightarrow> service_error + jv" where
  "on_results f r = (case r of JArr xs \<Rightarrow> then_do (each f xs) (\<lambda>ys. Inr (JArr ys)) | _ \<Rightarrow> f r)"

definition at_path :: "string option \<Rightarrow> (jv \<Rightarrow> service_error + jv) \<Rightarrow> jv \<Rightarrow> service_error + jv" where
  "at_path path f v = (case path of None \<Rightarrow> f v | Some k \<Rightarrow> then_do (f (jget v k)) (\<lambda>x. Inr (jset v k x)))"

definition populate_stage :: "'w service \<Rightarrow> bool \<Rightarrow> 'w \<Rightarrow> service_config \<Rightarrow> string option \<Rightarrow> jv \<Rightarrow> service_error + jv" where
  "populate_stage S nested w c path r = (case (cf_processFieldSelection c, cf_fieldSelection c) of
       (Some p, Some selection) \<Rightarrow>
         if nested \<and> so_populate (cf_options c) = None then Inr r
         else on_results (at_path path (\<lambda>v. sv_processFieldSelection S w v selection p)) r
     | _ \<Rightarrow> Inr r)"

definition output_options :: "bool \<Rightarrow> service_config \<Rightarrow> module_output option" where
  "output_options nested c = map_option (\<lambda>p.
     (let so = cf_options c;
          p = (if oo_targetModel (mo_options p) = None \<and> so_outputType so \<noteq> None
               then \<lparr>mo_options = (mo_options p)\<lparr>oo_targetModel := so_outputType so\<rparr>, mo_noTarget = False\<rparr> else p)
      in if nested \<and> so_populate so = None then \<lparr>mo_options = (mo_options p)\<lparr>oo_targetModel := None\<rparr>, mo_noTarget = True\<rparr> else p))
     (cf_prepareOutput c)"

definition prepare_result :: "'w service \<Rightarrow> bool \<Rightarrow> service_config \<Rightarrow> string option \<Rightarrow> jv \<Rightarrow> service_error + jv" where
  "prepare_result S nested c path r = (case output_options nested c of
       None \<Rightarrow> Inr r
     | Some p \<Rightarrow> (case path of
           Some k \<Rightarrow> on_results (at_path path (\<lambda>v. sv_prepareOutput S v (Part p))) r
         | None \<Rightarrow> sv_prepareOutput S r (Whole (c\<lparr>cf_prepareOutput := Some p\<rparr>))))"

definition output_rights :: "'w service \<Rightarrow> bool \<Rightarrow> service_config \<Rightarrow> jv \<Rightarrow> service_error + jv" where
  "output_rights S nested c r =
     (let so = cf_options c in
      if nested \<or> \<not> cf_checkRights c then Inr r
      else then_do (sv_checkRights S JUndef (so_currentUser so) (check_opts_of (cf_dbObject c) None False (so_roles so) True)) (\<lambda>v.
        if jtruthy v then sv_checkRights S r (so_currentUser so) (check_opts_of (cf_dbObject c) (so_outputType so) False (so_roles so) False)
        else Inr r))"

definition output_stages :: "'w service \<Rightarrow> bool \<Rightarrow> 'w \<Rightarrow> service_config \<Rightarrow> string option \<Rightarrow> jv \<Rightarrow> service_error + jv" where
  "output_stages S nested w c path r =
     then_do (populate_stage S nested w c path r) (\<lambda>r. then_do (prepare_result S nested c path r) (output_rights S nested c))"

subsection \<open>process\<close>

text \<open>A function returns its result and the object of the call, which it may have written to.\<close>

type_synonym 'w service_function = "service_config \<Rightarrow> req_context option \<Rightarrow> 'w \<Rightarrow> (service_error + jv \<times> jv) \<times> 'w"

definition function_context :: "service_config \<Rightarrow> req_context option \<Rightarrow> req_context option" where
  "function_context c cx = runWithIncrementedProcessDepth (if so_force (cf_options c) then runWithBypassRoleGuard cx else cx)"

definition process :: "'w service \<Rightarrow> req_context option \<Rightarrow> 'w service_function \<Rightarrow> service_call \<Rightarrow> 'w \<Rightarrow> (service_error + jv) \<times> 'w" where
  "process S cx func call w =
     (case then_do (configure (sv_ignoreSelections S) call) (input_stages S w) of
        Inl e \<Rightarrow> (Inl e, w)
      | Inr c \<Rightarrow> (case func c (function_context c cx) w of
            (Inl e, w') \<Rightarrow> (Inl e, w')
          | (Inr (r, object), w') \<Rightarrow> (output_stages S (getProcessDepth cx > 0) w' (c\<lparr>cf_dbObject := object\<rparr>) (sc_outputPath call) r, w')))"

text \<open>The options of the caller after a call that went through: the nested objects it gave were written to.\<close>

definition options_after :: "bool \<Rightarrow> bool \<Rightarrow> service_options \<Rightarrow> service_options" where
  "options_after ignoreSelections nested so =
     (case configure ignoreSelections \<lparr>sc_dbObject = JUndef, sc_input = JUndef, sc_outputPath = None, sc_options = Some so\<rparr> of
        Inl _ \<Rightarrow> so
      | Inr c \<Rightarrow> so\<lparr>
          so_prepareInput := (if so_raw so then so_prepareInput so else case so_prepareInput so of
              Some (Some _) \<Rightarrow> Some (map_option (default_target (so_inputType so)) (cf_prepareInput c)) | p \<Rightarrow> p),
          so_prepareOutput := (if so_raw so then so_prepareOutput so else case so_prepareOutput so of
              Some (Some _) \<Rightarrow> Some (output_options nested c) | p \<Rightarrow> p),
          so_processFieldSelection := (case so_processFieldSelection so of
              Some (Some _) \<Rightarrow> Some (cf_processFieldSelection c) | p \<Rightarrow> p)\<rparr>)"

text \<open>\<^verbatim>\<open>processResult\<close>: no rights are asked.\<close>

definition processResult :: "'w service \<Rightarrow> 'w \<Rightarrow> service_options \<Rightarrow> jv \<Rightarrow> service_error + jv" where
  "processResult S w so r =
     (if \<not> jtruthy r then Inr r
      else then_do (case so_fieldSelection so of
            None \<Rightarrow> Inr r
          | Some selection \<Rightarrow> on_results (\<lambda>v. sv_processFieldSelection S w v selection
              (case so_processFieldSelection so of Some (Some p) \<Rightarrow> p | _ \<Rightarrow> no_selection_options)) r)
        (\<lambda>r. sv_prepareOutput S r (Whole \<lparr>cf_checkRights = False, cf_dbObject = JUndef, cf_input = JUndef, cf_fieldSelection = so_fieldSelection so,
            cf_prepareInput = None, cf_prepareOutput = (case so_prepareOutput so of Some p \<Rightarrow> p | None \<Rightarrow> None),
            cf_processFieldSelection = None, cf_options = so\<rparr>)))"

subsection \<open>What a call guarantees\<close>

text \<open>The roles are asked of the user and the object in the database, never of the input.\<close>

definition loaded_object :: "'w service \<Rightarrow> 'w \<Rightarrow> jv \<Rightarrow> jv" where
  "loaded_object S w v = (case v of JStr i \<Rightarrow> if i = [] then v else (case sv_findById S w i of Some doc \<Rightarrow> doc | None \<Rightarrow> v) | _ \<Rightarrow> v)"

definition call_verdict :: "'w service \<Rightarrow> 'w \<Rightarrow> service_call \<Rightarrow> service_error + unit" where
  "call_verdict S w call = role_check (check_opts_of (loaded_object S w (sc_dbObject call)) None False (so_roles (options_of call)) True)
     (so_currentUser (options_of call))"

lemma role_check_of: "role_check (check_opts_of db t b roles throw) usr = role_check (check_opts_of db None False roles throw) usr"
  by (simp only: role_check_def check_opts_of_def created_by_user_def Let_def check_opts.select_convs)

lemma check_tree_denied: "role_check opts usr = Inl e \<Longrightarrow> check_tree E usr opts v = Inl e"
  by (cases v) simp_all

lemma check_tree_undefined: "check_tree E usr opts JUndef = then_do (role_check opts usr) (\<lambda>_. Inr JUndef)"
  by simp

lemma configure_Inr:
  assumes "configure b call = Inr c"
  shows "cf_options c = options_of call \<and> cf_dbObject c = sc_dbObject call
    \<and> cf_checkRights c = (if so_force (options_of call) then False else case so_checkRights (options_of call) of None \<Rightarrow> True | Some b \<Rightarrow> b)
    \<and> cf_prepareOutput c = configured_output (options_of call) \<and> cf_prepareInput c = configured_input (options_of call)
    \<and> cf_fieldSelection c = (if so_populate (options_of call) \<noteq> None then so_populate (options_of call) else so_fieldSelection (options_of call))"
  using assms by (auto simp: configure_def Let_def then_do_Inr)

lemma prepare_stage_keeps:
  "prepare_stage S c = Inr c' \<Longrightarrow> cf_options c' = cf_options c \<and> cf_dbObject c' = cf_dbObject c \<and> cf_checkRights c' = cf_checkRights c
    \<and> cf_prepareOutput c' = cf_prepareOutput c \<and> cf_fieldSelection c' = cf_fieldSelection c"
  by (auto simp: prepare_stage_def Let_def then_do_Inr split: option.splits)

lemma load_stage_keeps:
  "cf_options (load_stage S w c) = cf_options c \<and> cf_checkRights (load_stage S w c) = cf_checkRights c
    \<and> cf_prepareOutput (load_stage S w c) = cf_prepareOutput c \<and> cf_fieldSelection (load_stage S w c) = cf_fieldSelection c \<and> cf_input (load_stage S w c) = cf_input c"
  by (simp add: load_stage_def split: jv.split option.split)

lemma load_stage_object: "cf_checkRights c \<Longrightarrow> cf_dbObject (load_stage S w c) = loaded_object S w (cf_dbObject c)"
  by (simp add: load_stage_def loaded_object_def split: jv.split option.split)

lemma rights_stage_keeps:
  "rights_stage S c = Inr c' \<Longrightarrow> cf_options c' = cf_options c \<and> cf_checkRights c' = cf_checkRights c \<and> cf_prepareOutput c' = cf_prepareOutput c
    \<and> cf_fieldSelection c' = cf_fieldSelection c"
  by (auto simp: rights_stage_def Let_def then_do_Inr split: if_splits)

lemma user_stage_keeps:
  "user_stage c = Inr c' \<Longrightarrow> cf_options c' = cf_options c \<and> cf_checkRights c' = cf_checkRights c \<and> cf_prepareOutput c' = cf_prepareOutput c
    \<and> cf_fieldSelection c' = cf_fieldSelection c"
  by (auto simp: user_stage_def Let_def split: option.splits if_splits)

lemma input_stages_keep:
  assumes "input_stages S w c = Inr c'"
  shows "cf_options c' = cf_options c \<and> cf_checkRights c' = cf_checkRights c \<and> cf_prepareOutput c' = cf_prepareOutput c
    \<and> cf_fieldSelection c' = cf_fieldSelection c"
proof -
  obtain c1 c2 where c: "prepare_stage S c = Inr c1" "rights_stage S (load_stage S w c1) = Inr c2" "user_stage c2 = Inr c'"
    using assms by (auto simp: input_stages_def then_do_Inr)
  show ?thesis
    using prepare_stage_keeps [OF c(1)] load_stage_keeps [of S w c1] rights_stage_keeps [OF c(2)] user_stage_keeps [OF c(3)] by simp
qed

lemma rights_stage_denied:
  assumes "role_check (check_opts_of (cf_dbObject c) None False (so_roles (cf_options c)) True) (so_currentUser (cf_options c)) = Inl e" "cf_checkRights c"
  shows "rights_stage (S\<lparr>sv_checkRights := base_checkRights E\<rparr>) c = Inl e"
  using assms check_tree_denied role_check_of [of "cf_dbObject c" "so_inputType (cf_options c)" True "so_roles (cf_options c)"]
  by (simp add: rights_stage_def Let_def base_checkRights_def)

text \<open>
  C17. A call whose roles are denied to its user ends with an error before its function runs: the state is untouched, whatever the function
  and the input are.
  Assumed: the call is not forced and does not switch the check of rights off.
\<close>

theorem denied_call_runs_nothing:
  assumes "call_verdict (S\<lparr>sv_checkRights := base_checkRights E\<rparr>) w call = Inl e"
    and "\<not> so_force (options_of call)" and "so_checkRights (options_of call) \<noteq> Some False"
  shows "\<exists>e'. process (S\<lparr>sv_checkRights := base_checkRights E\<rparr>) cx func call w = (Inl e', w)"
proof -
  let ?S = "S\<lparr>sv_checkRights := base_checkRights E\<rparr>"
  have "\<exists>e'. then_do (configure (sv_ignoreSelections ?S) call) (input_stages ?S w) = Inl e'"
  proof (cases "configure (sv_ignoreSelections ?S) call")
    case (Inr c)
    note c = configure_Inr [OF Inr]
    have cfg: "configure (sv_ignoreSelections S) call = Inr c" using Inr by simp
    show ?thesis
    proof (cases "prepare_stage ?S c")
      case (Inr c1)
      note c1 = prepare_stage_keeps [OF Inr] load_stage_keeps [of ?S w c1]
      have on: "cf_checkRights c1" using c c1 assms(2,3) by (auto split: option.split)
      have "rights_stage ?S (load_stage ?S w c1) = Inl e"
        using assms(1) c c1 on load_stage_object [OF on, of ?S w] by (intro rights_stage_denied) (simp_all add: call_verdict_def)
      then show ?thesis using Inr cfg by (simp add: input_stages_def)
    qed (simp add: cfg input_stages_def)
  qed simp
  then show ?thesis by (auto simp: process_def)
qed

lemma output_rights_base:
  assumes "sv_checkRights S = base_checkRights E"
  shows "output_rights S nested c r =
     (if nested \<or> \<not> cf_checkRights c then Inr r
      else then_do (role_check (check_opts_of (cf_dbObject c) None False (so_roles (cf_options c)) True) (so_currentUser (cf_options c))) (\<lambda>_. Inr r))"
  by (cases "role_check (check_opts_of (cf_dbObject c) None False (so_roles (cf_options c)) True) (so_currentUser (cf_options c))")
    (simp_all add: output_rights_def Let_def base_checkRights_def assms)

text \<open>
  The rights to the result are never asked: the value of the check that should lead to it is the missing input it was given. Only the
  roles are asked again, after the function has run.
\<close>

theorem output_rights_never_checked:
  "output_rights (S\<lparr>sv_checkRights := base_checkRights E\<rparr>) nested c r =
     (if nested \<or> \<not> cf_checkRights c then Inr r
      else then_do (role_check (check_opts_of (cf_dbObject c) None False (so_roles (cf_options c)) True) (so_currentUser (cf_options c))) (\<lambda>_. Inr r))"
  by (rule output_rights_base) simp

text \<open>
  Of a result with an output path, the options of the caller do not arrive: secrets are removed even from a forced call, and the target
  model and the language of the call are lost.
\<close>

theorem output_path_loses_options:
  "base_prepareOutput E mainModel v (Part p) = Inr (prepareOutput E
     \<lparr>oo_language = oo_language (mo_options p), oo_removeSecrets = None, oo_removeUndefined = None, oo_targetModel = mainModel\<rparr> v)"
  by (simp add: base_prepareOutput_def no_output_options_def split: option.split)

subsection \<open>Secrets\<close>

text \<open>The caller asks for the secrets: by force, raw, or the options of the output.\<close>

definition asks_secrets :: "service_options \<Rightarrow> bool" where
  "asks_secrets so = (so_force so \<or> so_raw so \<or> (case so_prepareOutput so of
       None \<Rightarrow> False | Some None \<Rightarrow> True | Some (Some p) \<Rightarrow> oo_removeSecrets (mo_options p) = Some False))"

lemma configured_removes_secrets:
  "\<not> asks_secrets so \<Longrightarrow> \<exists>p. configured_output so = Some p \<and> oo_removeSecrets (mo_options p) \<noteq> Some False"
  by (auto simp: asks_secrets_def configured_output_def Let_def no_output_options_def split: option.splits)

lemma output_options_keep_secrets:
  "cf_prepareOutput c = Some p \<Longrightarrow> \<exists>q. output_options nested c = Some q \<and> oo_removeSecrets (mo_options q) = oo_removeSecrets (mo_options p)"
  by (auto simp: output_options_def Let_def)

lemma base_prepareOutput_free:
  assumes "cf_prepareOutput c = Some p" "oo_removeSecrets (mo_options p) \<noteq> Some False" "base_prepareOutput E m v (Whole c) = Inr r"
  shows "secret_free r"
proof -
  obtain o' where "r = prepareOutput E o' v" "oo_removeSecrets o' = oo_removeSecrets (mo_options p)"
    using assms(1,3) by (auto simp: base_prepareOutput_def Let_def)
  then show ?thesis using prepareOutput_free assms(2) by simp
qed

lemma process_Inr:
  assumes "process S cx func call w = (Inr r, w')"
  obtains c0 c r0 d where "configure (sv_ignoreSelections S) call = Inr c0" "input_stages S w c0 = Inr c"
    "func c (function_context c cx) w = (Inr (r0, d), w')"
    "output_stages S (getProcessDepth cx > 0) w' (c\<lparr>cf_dbObject := d\<rparr>) (sc_outputPath call) r0 = Inr r"
  using assms by (auto simp: process_def then_do_Inr split: sum.splits prod.splits)

text \<open>
  C18. What a call without an output path returns holds no value under \<open>password\<close>, \<open>verificationToken\<close> or \<open>passwordResetToken\<close> at any depth,
  unless the caller asked for them by force, raw or the options of the output: whatever the function finds, what the populations add and what mapping and
  translations do, nested or not. These are the fields that the code removes; \<open>refreshTokens\<close> and \<open>tempTokens\<close> it keeps on purpose.
\<close>

theorem process_returns_no_secret:
  assumes "process (S\<lparr>sv_checkRights := base_checkRights E, sv_prepareOutput := base_prepareOutput F m\<rparr>) cx func call w = (Inr r, w')"
    and "\<not> asks_secrets (options_of call)" and "sc_outputPath call = None"
  shows "secret_free r"
proof -
  let ?S = "S\<lparr>sv_checkRights := base_checkRights E, sv_prepareOutput := base_prepareOutput F m\<rparr>"
  obtain c0 c r0 d where c0: "configure (sv_ignoreSelections ?S) call = Inr c0" and c: "input_stages ?S w c0 = Inr c"
    and out: "output_stages ?S (getProcessDepth cx > 0) w' (c\<lparr>cf_dbObject := d\<rparr>) (sc_outputPath call) r0 = Inr r"
    by (rule process_Inr [OF assms(1)])
  define b where "b = c\<lparr>cf_dbObject := d\<rparr>"
  obtain p where p: "cf_prepareOutput b = Some p" "oo_removeSecrets (mo_options p) \<noteq> Some False"
    using configure_Inr [OF c0] input_stages_keep [OF c] configured_removes_secrets [OF assms(2)] by (auto simp: b_def)
  obtain q where q: "output_options (getProcessDepth cx > 0) b = Some q" "oo_removeSecrets (mo_options q) \<noteq> Some False"
    using output_options_keep_secrets [OF p(1)] p(2) by metis
  obtain r1 r2 where r: "prepare_result ?S (getProcessDepth cx > 0) b None r1 = Inr r2"
      "output_rights ?S (getProcessDepth cx > 0) b r2 = Inr r"
    using out assms(3) by (auto simp: output_stages_def then_do_Inr b_def)
  have "base_prepareOutput F m r1 (Whole (b\<lparr>cf_prepareOutput := Some q\<rparr>)) = Inr r2"
    using r(1) q(1) by (simp add: prepare_result_def)
  then have "secret_free r2" using base_prepareOutput_free [of "b\<lparr>cf_prepareOutput := Some q\<rparr>" q] q(2) by simp
  moreover have "r = r2"
    using r(2) output_rights_base [of ?S E] by (auto simp: then_do_Inr split: if_splits)
  ultimately show ?thesis by simp
qed

text \<open>
  A forced call asks no rights at all: the method that checks them makes no difference.
\<close>

theorem forced_call_asks_no_rights:
  assumes "so_force (options_of call)"
  shows "process (S\<lparr>sv_checkRights := f\<rparr>) cx func call w = process S cx func call w"
proof -
  have other: "sv_prepareInput (S\<lparr>sv_checkRights := f\<rparr>) = sv_prepareInput S" "sv_findById (S\<lparr>sv_checkRights := f\<rparr>) = sv_findById S"
    "sv_prepareOutput (S\<lparr>sv_checkRights := f\<rparr>) = sv_prepareOutput S"
    "sv_processFieldSelection (S\<lparr>sv_checkRights := f\<rparr>) = sv_processFieldSelection S" by simp_all
  have keep: "prepare_stage (S\<lparr>sv_checkRights := f\<rparr>) = prepare_stage S" "load_stage (S\<lparr>sv_checkRights := f\<rparr>) = load_stage S"
    "populate_stage (S\<lparr>sv_checkRights := f\<rparr>) = populate_stage S" "prepare_result (S\<lparr>sv_checkRights := f\<rparr>) = prepare_result S"
    by (intro ext, simp only: prepare_stage_def load_stage_def populate_stage_def prepare_result_def other)+
  have i: "input_stages (S\<lparr>sv_checkRights := f\<rparr>) w c = input_stages S w c" if "\<not> cf_checkRights c" for c
  proof (cases "prepare_stage S c")
    case (Inr c1)
    then have "\<not> cf_checkRights (load_stage S w c1)" using prepare_stage_keeps load_stage_keeps that by metis
    then show ?thesis using Inr by (simp add: input_stages_def keep rights_stage_def)
  qed (simp add: input_stages_def keep)
  have o': "output_stages (S\<lparr>sv_checkRights := f\<rparr>) n v c = output_stages S n v c" if "\<not> cf_checkRights c" for n v c
  proof -
    have "output_rights (S\<lparr>sv_checkRights := f\<rparr>) n c = output_rights S n c" using that by (intro ext) (simp add: output_rights_def)
    then show ?thesis by (intro ext) (simp only: output_stages_def keep)
  qed
  show ?thesis
  proof (cases "configure (sv_ignoreSelections S) call")
    case (Inr c)
    then have off: "\<not> cf_checkRights c" using configure_Inr [OF Inr] assms by simp
    show ?thesis
    proof (cases "input_stages S w c")
      case (Inr c1)
      then have "\<not> cf_checkRights (c1\<lparr>cf_dbObject := d\<rparr>)" for d using input_stages_keep [OF Inr] off by simp
      then show ?thesis using Inr \<open>configure _ _ = Inr c\<close> by (simp add: process_def i [OF off] o' split: prod.split sum.split)
    qed (simp add: process_def i [OF off] Inr)
  qed (simp add: process_def)
qed

end
