(* ===== verification/Crud.thy ===== *)
theory Crud
  imports Process FilterQuery
begin

text \<open>
  \<^verbatim>\<open>CrudService\<close> of \<^verbatim>\<open>common/services/crud.service.ts\<close> over a collection of documents.

  A document is an object under its id. The queries of MongoDB are a parameter; an update sets the fields of an object, and fields that
  the schema does not know are dropped, as Mongoose does. Operators (names with \<open>$\<close>) are no fields of a schema. Hooks of plugins, casts
  and collations are not part of this model.
\<close>

subsection \<open>The collection\<close>

record doc_store =
  ds_docs :: "(string, jv) jsmap"
  ds_created :: nat

datatype facet_stage = Skip int | Limit int | Sample int

datatype pipeline_stage = Match qv | Sort "(string, int) jsmap" | Facet "facet_stage list"

record query_options = find_options +
  qo_offset :: "int option"
  qo_take :: "int option"

text \<open>
  \<open>cr_find\<close> and \<open>cr_pipeline\<close> answer a query and the stages of \<open>findAndCount\<close> (items and total), \<open>cr_aggregate\<close> any other pipeline;
  \<open>cr_filterArgs\<close> recognises an instance of \<^verbatim>\<open>FilterArgs\<close>, \<open>cr_rawFilter\<close> reads the properties of a plain filter.
\<close>

record crud =
  cr_service :: "doc_store service"
  cr_name :: string
  cr_newId :: "doc_store \<Rightarrow> string"
  cr_schema :: "string \<Rightarrow> bool"
  cr_select :: "string \<Rightarrow> jv \<Rightarrow> jv"
  cr_find :: "qv option \<Rightarrow> query_options option \<Rightarrow> jv list \<Rightarrow> service_error + jv list"
  cr_pipeline :: "pipeline_stage list \<Rightarrow> jv list \<Rightarrow> service_error + jv list \<times> int option"
  cr_aggregate :: "jv list \<Rightarrow> jv list \<Rightarrow> service_error + jv"
  cr_filterArgs :: "jv \<Rightarrow> filter_args option"
  cr_rawFilter :: "jv \<Rightarrow> qv option \<times> query_options option"
  cr_filterRt :: filter_rt
  cr_autoObjectIds :: bool
  cr_maxLimit :: "int option"

definition selected :: "crud \<Rightarrow> service_options \<Rightarrow> jv \<Rightarrow> jv" where
  "selected C so d = (case so_select so of None \<Rightarrow> d | Some s \<Rightarrow> cr_select C s d)"

definition documents :: "doc_store \<Rightarrow> jv list" where
  "documents w = map snd (ds_docs w)"

definition so_given :: "service_options option \<Rightarrow> service_options" where
  "so_given so = (case so of None \<Rightarrow> no_service_options | Some s \<Rightarrow> s)"

definition not_found :: "crud \<Rightarrow> string \<Rightarrow> service_error" where
  "not_found C docId = NotFound (''No '' @ cr_name C @ '' found with ID: '' @ docId)"

definition user_id_value :: "service_options \<Rightarrow> jv" where
  "user_id_value so = (case so_currentUser so of None \<Rightarrow> JUndef | Some u \<Rightarrow> JStr (u_id u))"

definition call_of :: "jv \<Rightarrow> jv \<Rightarrow> string option \<Rightarrow> service_options option \<Rightarrow> service_call" where
  "call_of dbObject input path so = \<lparr>sc_dbObject = dbObject, sc_input = input, sc_outputPath = path, sc_options = so\<rparr>"

definition schema_fields :: "crud \<Rightarrow> jv \<Rightarrow> (string, jv) jsmap" where
  "schema_fields C v = filter (\<lambda>(k, x). cr_schema C k \<and> x \<noteq> JUndef) (jfields v)"

subsection \<open>Create and read\<close>

text \<open>\<^verbatim>\<open>new Model(...).save()\<close>: an id of the input is taken.\<close>

definition save_new :: "crud \<Rightarrow> jv \<Rightarrow> doc_store \<Rightarrow> (service_error + jv) \<times> doc_store" where
  "save_new C v w =
     (let i = (case jget v ''_id'' of JStr s \<Rightarrow> if s = [] then cr_newId C w else s | _ \<Rightarrow> cr_newId C w);
          doc = JObj (AList.update ''_id'' (JStr i) (schema_fields C v))
      in if map_of (ds_docs w) i \<noteq> None then (Inl (ServiceError ''E11000 duplicate key error''), w)
         else (Inr doc, w\<lparr>ds_docs := ds_docs w @ [(i, doc)], ds_created := ds_created w + 1\<rparr>))"

definition with_object :: "service_config \<Rightarrow> (service_error + jv) \<times> doc_store \<Rightarrow> (service_error + jv \<times> jv) \<times> doc_store" where
  "with_object cf r = (case r of (Inl e, w) \<Rightarrow> (Inl e, w) | (Inr v, w) \<Rightarrow> (Inr (v, cf_dbObject cf), w))"

definition crud_create :: "crud \<Rightarrow> req_context option \<Rightarrow> jv \<Rightarrow> service_options option \<Rightarrow> doc_store \<Rightarrow> (service_error + jv) \<times> doc_store" where
  "crud_create C cx input opts =
     (let so = prepareServiceOptionsForCreate opts in
      process (cr_service C) cx (\<lambda>cf _ w. with_object cf (save_new C
          (jspread (cf_input cf) (JObj [(''createdBy'', user_id_value so), (''updatedBy'', user_id_value so)])) w))
        (call_of JUndef input None (Some so)))"

definition crud_get :: "crud \<Rightarrow> req_context option \<Rightarrow> string \<Rightarrow> service_options option \<Rightarrow> doc_store \<Rightarrow> (service_error + jv) \<times> doc_store" where
  "crud_get C cx docId opts w = (case map_of (ds_docs w) docId of
       None \<Rightarrow> (Inl (not_found C docId), w)
     | Some d \<Rightarrow>
         (let doc = selected C (so_given opts) d in
          process (cr_service C) cx (\<lambda>cf _ w. (Inr (doc, cf_dbObject cf), w)) (call_of doc JUndef None opts) w))"

text \<open>The filter of a call: that of an instance of \<^verbatim>\<open>FilterArgs\<close> or the properties of a plain one.\<close>

definition filter_of_input :: "crud \<Rightarrow> jv \<Rightarrow> service_error + qv option \<times> query_options option" where
  "filter_of_input C input = (case cr_filterArgs C input of
       None \<Rightarrow> Inr (cr_rawFilter C input)
     | Some a \<Rightarrow> (case convertFilterArgsToQuery (cr_filterRt C) (cr_autoObjectIds C) (cr_maxLimit C) (Some a) of
           Inl _ \<Rightarrow> Inl ServiceTypeError
         | Inr (q, fo) \<Rightarrow> Inr (q, Some (find_options.extend fo \<lparr>qo_offset = None, qo_take = None\<rparr>))))"

definition plain_filter_options :: "crud \<Rightarrow> jv \<Rightarrow> service_options option \<Rightarrow> service_options option" where
  "plain_filter_options C filterInput opts =
     (if cr_filterArgs C filterInput = None \<and> so_inputType (so_given opts) = Some ''FilterArgs''
      then Some ((so_given opts)\<lparr>so_prepareInput := (case so_prepareInput (so_given opts) of None \<Rightarrow> Some None | p \<Rightarrow> p), so_inputType := None\<rparr>)
      else opts)"

definition samples_of :: "jv \<Rightarrow> int" where
  "samples_of filterInput = (case jget filterInput ''samples'' of JNum n \<Rightarrow> n | _ \<Rightarrow> 0)"

definition page_stages :: "query_options option \<Rightarrow> jv \<Rightarrow> pipeline_stage list" where
  "page_stages qo filterInput =
     (case qo of None \<Rightarrow> [] | Some o' \<Rightarrow> (case fo_sort o' of None \<Rightarrow> [] | Some s \<Rightarrow> [Sort s]))
     @ [Facet ((case qo of None \<Rightarrow> [] | Some o' \<Rightarrow>
           (case number_or (fo_skip o') (qo_offset o') of Some n \<Rightarrow> if n = 0 then [] else [Skip n] | None \<Rightarrow> [])
         @ (case number_or (fo_limit o') (qo_take o') of Some n \<Rightarrow> if n = 0 then [] else [Limit n] | None \<Rightarrow> []))
       @ (if samples_of filterInput = 0 then [] else [Sample (samples_of filterInput)]))]"

definition page_info :: "query_options option \<Rightarrow> int \<Rightarrow> pagination_info" where
  "page_info qo totalCount = (case qo of
       None \<Rightarrow> pagination_create None None None None totalCount
     | Some o' \<Rightarrow> pagination_create (fo_limit o') (qo_offset o') (fo_skip o') (qo_take o') totalCount)"

definition pagination_value :: "pagination_info \<Rightarrow> jv" where
  "pagination_value p = JObj [(''currentPage'', JNum (pg_currentPage p)), (''hasNextPage'', JBool (pg_hasNextPage p)),
     (''hasPreviousPage'', JBool (pg_hasPreviousPage p)), (''pageCount'', JNum (pg_pageCount p)), (''perPage'', JNum (pg_perPage p)),
     (''totalCount'', JNum (pg_totalCount p))]"

definition page_value :: "jv list \<Rightarrow> query_options option \<Rightarrow> int \<Rightarrow> jv" where
  "page_value items qo totalCount = JObj [(''items'', JArr items), (''totalCount'', JNum totalCount),
     (''pagination'', pagination_value (page_info qo totalCount))]"

definition findAndCount :: "crud \<Rightarrow> req_context option \<Rightarrow> jv \<Rightarrow> service_options option \<Rightarrow> doc_store \<Rightarrow> (service_error + jv) \<times> doc_store" where
  "findAndCount C cx filterInput opts0 =
     (let opts = plain_filter_options C filterInput opts0 in
      process (cr_service C) cx (\<lambda>cf _ w. with_object cf
          (then_do (filter_of_input C (cf_input cf)) (\<lambda>(q, qo).
             then_do (cr_pipeline C ((case q of None \<Rightarrow> [] | Some c \<Rightarrow> [Match c]) @ page_stages qo filterInput) (documents w))
               (\<lambda>(items, count). Inr (page_value items qo (case count of Some n \<Rightarrow> n | None \<Rightarrow> 0)))), w))
        (call_of JUndef filterInput (Some ''items'') opts))"

definition crud_find :: "crud \<Rightarrow> req_context option \<Rightarrow> jv \<Rightarrow> service_options option \<Rightarrow> doc_store \<Rightarrow> (service_error + jv) \<times> doc_store" where
  "crud_find C cx filterInput opts0 =
     (let opts = plain_filter_options C filterInput opts0 in
      process (cr_service C) cx (\<lambda>cf cx' w.
          if samples_of filterInput \<noteq> 0
          then (case findAndCount C cx' filterInput opts w of
                  (Inl e, w') \<Rightarrow> (Inl e, w') | (Inr page, w') \<Rightarrow> (Inr (jget page ''items'', cf_dbObject cf), w'))
          else with_object cf (then_do (filter_of_input C (cf_input cf)) (\<lambda>(q, qo).
                 then_do (cr_find C q qo (documents w)) (\<lambda>ds. Inr (JArr (map (selected C (so_given opts)) ds)))), w))
        (call_of JUndef filterInput None opts))"

definition findOne :: "crud \<Rightarrow> req_context option \<Rightarrow> jv \<Rightarrow> service_options option \<Rightarrow> doc_store \<Rightarrow> (service_error + jv) \<times> doc_store" where
  "findOne C cx filterInput opts0 =
     (let opts = plain_filter_options C filterInput opts0 in
      process (cr_service C) cx (\<lambda>cf _ w. with_object cf
          (then_do (filter_of_input C (cf_input cf)) (\<lambda>(q, qo).
             then_do (cr_find C q (map_option (\<lambda>o'. o'\<lparr>fo_limit := Some 1\<rparr>) qo) (documents w))
               (\<lambda>ds. Inr (case ds of [] \<Rightarrow> JNull | d # _ \<Rightarrow> selected C (so_given opts) d))), w))
        (call_of JUndef filterInput None opts))"

definition crud_read :: "crud \<Rightarrow> req_context option \<Rightarrow> jv \<Rightarrow> service_options option \<Rightarrow> doc_store \<Rightarrow> (service_error + jv) \<times> doc_store" where
  "crud_read C cx input opts = (case input of JStr docId \<Rightarrow> crud_get C cx docId opts | _ \<Rightarrow> crud_find C cx input opts)"

definition crud_aggregate :: "crud \<Rightarrow> req_context option \<Rightarrow> jv list \<Rightarrow> service_options option \<Rightarrow> doc_store \<Rightarrow> (service_error + jv) \<times> doc_store" where
  "crud_aggregate C cx pipeline opts = process (cr_service C) cx
     (\<lambda>cf _ w. with_object cf (cr_aggregate C pipeline (documents w), w)) (call_of JUndef JUndef None opts)"

definition processQueryOrDocument :: "crud \<Rightarrow> req_context option \<Rightarrow> (service_options \<Rightarrow> doc_store \<Rightarrow> service_error + jv) \<Rightarrow> service_options option
    \<Rightarrow> doc_store \<Rightarrow> (service_error + jv) \<times> doc_store" where
  "processQueryOrDocument C cx query opts = process (cr_service C) cx
     (\<lambda>cf _ w. with_object cf (query (so_given opts) w, w)) (call_of JUndef JUndef None opts)"

subsection \<open>Update and delete\<close>

text \<open>
  \<^verbatim>\<open>findByIdAndUpdate\<close> with an object: each of its fields is set; \<open>null\<close> when the document is gone. The object is taken to have no update
  operators and no dotted paths: the database would execute them, here they are dropped as fields that the schema does not know.
\<close>

definition set_document :: "crud \<Rightarrow> string \<Rightarrow> jv \<Rightarrow> doc_store \<Rightarrow> jv \<times> doc_store" where
  "set_document C docId v w = (case map_of (ds_docs w) docId of
       None \<Rightarrow> (JNull, w)
     | Some d \<Rightarrow> (let d' = jspread d (JObj (schema_fields C v)) in (d', w\<lparr>ds_docs := AList.update docId d' (ds_docs w)\<rparr>)))"

text \<open>The part of \<^verbatim>\<open>update\<close> after the document was read; merging writes into the object that was read.\<close>

definition write_update :: "crud \<Rightarrow> string \<Rightarrow> jv \<Rightarrow> service_options \<Rightarrow> jv \<Rightarrow> doc_store \<Rightarrow> (service_error + jv \<times> jv) \<times> doc_store" where
  "write_update C docId dbObject so input w =
     (let merged = mergePlain dbObject [input, JObj [(''updatedBy'', user_id_value so)]];
          (d, w') = set_document C docId merged w
      in (Inr (if d = JNull then d else selected C so d, merged), w'))"

definition update_from :: "crud \<Rightarrow> req_context option \<Rightarrow> string \<Rightarrow> jv \<Rightarrow> jv \<Rightarrow> service_options option \<Rightarrow> doc_store \<Rightarrow> (service_error + jv) \<times> doc_store" where
  "update_from C cx docId dbObject input opts =
     process (cr_service C) cx (\<lambda>cf _ w. write_update C docId dbObject (so_given opts) (cf_input cf) w) (call_of dbObject input None opts)"

definition crud_update :: "crud \<Rightarrow> req_context option \<Rightarrow> string \<Rightarrow> jv \<Rightarrow> service_options option \<Rightarrow> doc_store \<Rightarrow> (service_error + jv) \<times> doc_store" where
  "crud_update C cx docId input opts w = (case map_of (ds_docs w) docId of
       None \<Rightarrow> (Inl (not_found C docId), w)
     | Some d \<Rightarrow> update_from C cx docId d input opts w)"

definition crud_delete :: "crud \<Rightarrow> req_context option \<Rightarrow> string \<Rightarrow> service_options option \<Rightarrow> doc_store \<Rightarrow> (service_error + jv) \<times> doc_store" where
  "crud_delete C cx docId opts w = (case map_of (ds_docs w) docId of
       None \<Rightarrow> (Inl (not_found C docId), w)
     | Some d \<Rightarrow>
         (let doc = selected C (so_given opts) d in
          process (cr_service C) cx (\<lambda>cf _ w. (Inr (doc, cf_dbObject cf), w\<lparr>ds_docs := AList.delete docId (ds_docs w)\<rparr>))
            (call_of doc JUndef None opts) w))"

text \<open>
  All updates are started and run to their end; the first error is the answer. They are taken one after the other here, their documents differ.
  The nested options, which \<open>find\<close> may have written to, are used as they were given.
\<close>

fun update_each :: "crud \<Rightarrow> req_context option \<Rightarrow> jv \<Rightarrow> service_options option \<Rightarrow> jv list \<Rightarrow> doc_store \<Rightarrow> (service_error + jv list) \<times> doc_store" where
  "update_each C cx update opts [] w = (Inr [], w)"
| "update_each C cx update opts (d # ds) w =
     (let (r, w1) = (case string_id d of None \<Rightarrow> (Inl (not_found C []), w) | Some i \<Rightarrow> crud_update C cx i update opts w);
          (rs, w2) = update_each C cx update opts ds w1
      in (then_do r (\<lambda>v. then_do rs (\<lambda>vs. Inr (v # vs))), w2))"

definition findAndUpdate :: "crud \<Rightarrow> req_context option \<Rightarrow> jv \<Rightarrow> jv \<Rightarrow> service_options option \<Rightarrow> doc_store \<Rightarrow> (service_error + jv list) \<times> doc_store" where
  "findAndUpdate C cx filterInput update opts w = (case crud_find C cx filterInput opts w of
       (Inl e, w') \<Rightarrow> (Inl e, w')
     | (Inr (JArr ds), w') \<Rightarrow> update_each C cx update opts ds w'
     | (Inr _, w') \<Rightarrow> (Inr [], w'))"

subsection \<open>Forced and raw calls\<close>

definition force_options :: "service_options option \<Rightarrow> service_options option" where
  "force_options opts = Some ((so_given opts)\<lparr>so_force := True\<rparr>)"

definition raw_options :: "service_options option \<Rightarrow> service_options option" where
  "raw_options opts = force_options (Some ((so_given opts)\<lparr>so_raw := True\<rparr>))"

definition createForce where "createForce C cx input opts = crud_create C cx input (force_options opts)"
definition createRaw where "createRaw C cx input opts = crud_create C cx input (raw_options opts)"
definition getForce where "getForce C cx docId opts = crud_get C cx docId (force_options opts)"
definition getRaw where "getRaw C cx docId opts = crud_get C cx docId (raw_options opts)"
definition findForce where "findForce C cx filterInput opts = crud_find C cx filterInput (force_options opts)"
definition findRaw where "findRaw C cx filterInput opts = crud_find C cx filterInput (raw_options opts)"
definition findAndCountForce where "findAndCountForce C cx filterInput opts = findAndCount C cx filterInput (force_options opts)"
definition findAndCountRaw where "findAndCountRaw C cx filterInput opts = findAndCount C cx filterInput (raw_options opts)"
definition findAndUpdateForce where "findAndUpdateForce C cx filterInput update opts = findAndUpdate C cx filterInput update (force_options opts)"
definition findAndUpdateRaw where "findAndUpdateRaw C cx filterInput update opts = findAndUpdate C cx filterInput update (raw_options opts)"
definition findOneForce where "findOneForce C cx filterInput opts = findOne C cx filterInput (force_options opts)"
definition findOneRaw where "findOneRaw C cx filterInput opts = findOne C cx filterInput (raw_options opts)"
definition readForce where "readForce C cx input opts = (case input of JStr docId \<Rightarrow> getForce C cx docId opts | _ \<Rightarrow> findForce C cx input opts)"
definition readRaw where "readRaw C cx input opts = (case input of JStr docId \<Rightarrow> getRaw C cx docId opts | _ \<Rightarrow> findRaw C cx input opts)"
definition updateForce where "updateForce C cx docId input opts = crud_update C cx docId input (force_options opts)"
definition updateRaw where "updateRaw C cx docId input opts = crud_update C cx docId input (raw_options opts)"
definition deleteForce where "deleteForce C cx docId opts = crud_delete C cx docId (force_options opts)"
definition deleteRaw where "deleteRaw C cx docId opts = crud_delete C cx docId (raw_options opts)"
definition aggregateForce where "aggregateForce C cx pipeline opts = crud_aggregate C cx pipeline (force_options opts)"
definition aggregateRaw where "aggregateRaw C cx pipeline opts = crud_aggregate C cx pipeline (raw_options opts)"

subsection \<open>Array fields\<close>

record push_options =
  pu_slice :: "int option"
  pu_position :: "int option"
  pu_sort :: "(string, int) jsmap option"

definition valid_array_field :: "string \<Rightarrow> bool" where
  "valid_array_field field = (\<not> js_starts_with field ''$'' \<and> CHR 0x00 \<notin> set field)"

definition insert_at :: "int \<Rightarrow> 'a list \<Rightarrow> 'a list \<Rightarrow> 'a list" where
  "insert_at p items xs =
     (let n = (if p < 0 then nat (max 0 (int (length xs) + p)) else min (nat p) (length xs))
      in List.take n xs @ items @ drop n xs)"

definition slice_to :: "int \<Rightarrow> 'a list \<Rightarrow> 'a list" where
  "slice_to n xs = (if n < 0 then drop (length xs - nat (- n)) xs else List.take (nat n) xs)"

text \<open>\<open>$push\<close> with \<open>$each\<close> of MongoDB: the items go to their position, then the array is sorted and cut.\<close>

definition pushed :: "((string, int) jsmap \<Rightarrow> jv list \<Rightarrow> jv list) \<Rightarrow> push_options \<Rightarrow> jv list \<Rightarrow> jv list \<Rightarrow> jv list" where
  "pushed sort_by po items xs =
     (let ys = (case pu_position po of None \<Rightarrow> xs @ items | Some p \<Rightarrow> insert_at p items xs);
          zs = (case pu_sort po of None \<Rightarrow> ys | Some s \<Rightarrow> sort_by s ys)
      in case pu_slice po of None \<Rightarrow> zs | Some n \<Rightarrow> slice_to n zs)"

definition update_array :: "crud \<Rightarrow> string \<Rightarrow> string \<Rightarrow> (jv list \<Rightarrow> jv list) \<Rightarrow> bool \<Rightarrow> doc_store \<Rightarrow> (service_error + unit) \<times> doc_store" where
  "update_array C docId field f creates w = (case map_of (ds_docs w) docId of
       None \<Rightarrow> (Inr (), w)
     | Some d \<Rightarrow>
         if \<not> cr_schema C field then (Inr (), w)
         else (case jget d field of
             JArr xs \<Rightarrow> (Inr (), w\<lparr>ds_docs := AList.update docId (jset d field (JArr (f xs))) (ds_docs w)\<rparr>)
           | JUndef \<Rightarrow> if creates then (Inr (), w\<lparr>ds_docs := AList.update docId (jset d field (JArr (f []))) (ds_docs w)\<rparr>) else (Inr (), w)
           | _ \<Rightarrow> (Inl (ServiceError ''Cannot apply to a value of non-array type''), w)))"

definition pushToArray :: "crud \<Rightarrow> ((string, int) jsmap \<Rightarrow> jv list \<Rightarrow> jv list) \<Rightarrow> jv \<Rightarrow> string \<Rightarrow> jv \<Rightarrow> push_options \<Rightarrow> doc_store
    \<Rightarrow> (service_error + unit) \<times> doc_store" where
  "pushToArray C sort_by docId field items po w =
     (if \<not> valid_array_field field then (Inl (ServiceError (''pushToArray: invalid field name '' @ field)), w)
      else (let itemsArray = (case items of JArr xs \<Rightarrow> xs | _ \<Rightarrow> [items]) in
        if itemsArray = [] then (Inr (), w)
        else (case string_id docId of None \<Rightarrow> (Inr (), w) | Some i \<Rightarrow> update_array C i field (pushed sort_by po itemsArray) True w)))"

text \<open>\<open>removes\<close> tells which elements \<open>$pull\<close> matches with its condition.\<close>

definition pullFromArray :: "crud \<Rightarrow> (jv \<Rightarrow> jv \<Rightarrow> bool) \<Rightarrow> jv \<Rightarrow> string \<Rightarrow> jv \<Rightarrow> doc_store \<Rightarrow> (service_error + unit) \<times> doc_store" where
  "pullFromArray C removes docId field condition w =
     (if \<not> valid_array_field field then (Inl (ServiceError (''pullFromArray: invalid field name '' @ field)), w)
      else (case string_id docId of None \<Rightarrow> (Inr (), w)
            | Some i \<Rightarrow> update_array C i field (filter (\<lambda>x. \<not> removes condition x)) False w))"

definition validateNativeAccessReason :: "string option \<Rightarrow> string \<Rightarrow> service_error + unit" where
  "validateNativeAccessReason reason method = (case reason of
       None \<Rightarrow> Inl (ServiceError (method @ '' requires a meaningful reason (min 20 chars)''))
     | Some r \<Rightarrow> if length (js_trim r) < 20 then Inl (ServiceError (method @ '' requires a meaningful reason (min 20 chars)'')) else Inr ())"

subsection \<open>What the operations do to the collection\<close>

lemma with_object_Inr: "with_object cf r = (Inr (v, ob), w') \<longleftrightarrow> r = (Inr v, w') \<and> ob = cf_dbObject cf"
  by (cases r; cases "fst r") (auto simp: with_object_def split: sum.split)

lemma so_given_call: "options_of (call_of d i p opts) = so_given opts"
  by (simp add: options_of_def call_of_def so_given_def)

lemma save_new_Inr:
  assumes "save_new C v w = (Inr doc, w')"
  obtains i where "map_of (ds_docs w) i = None" "ds_docs w' = ds_docs w @ [(i, doc)]"
    "doc = JObj (AList.update ''_id'' (JStr i) (schema_fields C v))"
  using assms by (auto simp: save_new_def Let_def split: if_splits)

lemma map_of_filter: "map_of (filter (\<lambda>(k, x). P k \<and> x \<noteq> JUndef) m) k = (if P k then map_of (filter (\<lambda>(k, x). x \<noteq> JUndef) m) k else None)"
  by (induction m) auto

lemma map_of_schema_fields:
  "jsmap_ok (jfields v) \<Longrightarrow> map_of (schema_fields C v) k = (if cr_schema C k \<and> jget v k \<noteq> JUndef then Some (jget v k) else None)"
  using map_of_drop_undef [of "jfields v" k] map_of_filter [of "cr_schema C" "jfields v" k]
  by (auto simp: schema_fields_def drop_undef_def jget_def jfields_def split: jv.splits option.splits)

lemma filter_get: "map_of m k = Some x \<Longrightarrow> P k x \<Longrightarrow> map_of (filter (\<lambda>(k, x). P k x) m) k = Some x"
  by (induction m) (auto split: if_splits)

lemma schema_fields_get: "map_of (jfields v) k = Some x \<Longrightarrow> cr_schema C k \<Longrightarrow> x \<noteq> JUndef \<Longrightarrow> map_of (schema_fields C v) k = Some x"
  unfolding schema_fields_def by (rule filter_get) simp_all

text \<open>
  C20. A document created through a service belongs to the user of the call, whatever the input claims, under an id that no document had; the
  others stay as they are.
  Assumed: the schema has both fields, and the call has a user.
\<close>

theorem created_document_belongs_to_user:
  assumes "crud_create C cx input opts w = (Inr r, w')" and "so_currentUser (so_given opts) = Some u"
    and "cr_schema C ''createdBy''" "cr_schema C ''updatedBy''"
  shows "\<exists>i doc. map_of (ds_docs w) i = None \<and> ds_docs w' = ds_docs w @ [(i, doc)]
    \<and> jget doc ''_id'' = JStr i \<and> jget doc ''createdBy'' = JStr (u_id u) \<and> jget doc ''updatedBy'' = JStr (u_id u)"
proof -
  let ?so = "prepareServiceOptionsForCreate opts"
  have u: "user_id_value ?so = JStr (u_id u)"
    using assms(2) by (simp add: user_id_value_def prepareServiceOptionsForCreate_def so_given_def Let_def)
  obtain c doc d where "with_object c (save_new C (jspread (cf_input c) (JObj [(''createdBy'', JStr (u_id u)), (''updatedBy'', JStr (u_id u))])) w) = (Inr (doc, d), w')"
    by (rule process_Inr [OF assms(1) [unfolded crud_create_def Let_def u]])
  then have "save_new C (jspread (cf_input c) (JObj [(''createdBy'', JStr (u_id u)), (''updatedBy'', JStr (u_id u))])) w = (Inr doc, w')"
    by (simp only: with_object_Inr)
  then obtain i where i: "map_of (ds_docs w) i = None" "ds_docs w' = ds_docs w @ [(i, doc)]"
    and doc: "doc = JObj (AList.update ''_id'' (JStr i) (schema_fields C
      (jspread (cf_input c) (JObj [(''createdBy'', JStr (u_id u)), (''updatedBy'', JStr (u_id u))]))))"
    by (rule save_new_Inr)
  have get: "map_of (schema_fields C (jspread (cf_input c) (JObj [(''createdBy'', x), (''updatedBy'', x)]))) k = Some x"
    if "k = ''createdBy'' \<or> k = ''updatedBy''" "x \<noteq> JUndef" for k x
    using that assms(3,4) by (intro schema_fields_get) (auto simp: jspread_def jfields_def map_of_update_eq)
  show ?thesis using i get [of "''createdBy''" "JStr (u_id u)"] get [of "''updatedBy''" "JStr (u_id u)"] doc
    by (auto simp: map_of_update_eq)
qed

subsection \<open>Updates\<close>

text \<open>The methods of a service return objects whose names are distinct, as objects are.\<close>

definition proper :: "jv \<Rightarrow> bool" where
  "proper v = jsmap_ok (jfields v)"

definition returns_proper :: "'w service \<Rightarrow> bool" where
  "returns_proper S = (\<forall>v i. proper v \<longrightarrow>
     (\<forall>c. sv_prepareInput S v c = Inr i \<longrightarrow> proper i) \<and> (\<forall>u opts. sv_checkRights S v u opts = Inr i \<longrightarrow> proper i))"

lemma proper_jset: "proper v \<Longrightarrow> proper (jset v k x)"
  by (cases v) (simp_all add: proper_def jfields_def jset_def jsmap_ok_update)

lemma returns_properD:
  "returns_proper S \<Longrightarrow> proper v \<Longrightarrow> sv_prepareInput S v c = Inr i \<Longrightarrow> proper i"
  "returns_proper S \<Longrightarrow> proper v \<Longrightarrow> sv_checkRights S v u opts = Inr i \<Longrightarrow> proper i"
  unfolding returns_proper_def by blast+

lemma prepare_stage_proper:
  assumes "returns_proper S" "proper (cf_input c)" "prepare_stage S c = Inr c'"
  shows "proper (cf_input c')"
proof (cases "cf_prepareInput c")
  case None
  then show ?thesis using assms by (simp add: prepare_stage_def)
next
  case (Some p)
  then obtain i c1 where "sv_prepareInput S (cf_input c) c1 = Inr i" "cf_input c' = i"
    using assms(3) by (auto simp: prepare_stage_def Let_def then_do_Inr)
  then show ?thesis using returns_properD(1) [OF assms(1,2)] by simp
qed

lemma rights_stage_proper:
  assumes "returns_proper S" "proper (cf_input c)" "rights_stage S c = Inr c'"
  shows "proper (cf_input c')"
proof (cases "cf_checkRights c \<and> jtruthy (cf_input c)")
  case True
  then obtain i u opts where "sv_checkRights S (cf_input c) u opts = Inr i" "cf_input c' = i"
    using assms(3) by (auto simp: rights_stage_def Let_def then_do_Inr)
  then show ?thesis using returns_properD(2) [OF assms(1,2)] by simp
next
  case False
  then have "cf_input c' = cf_input c" using assms(3) by (auto simp: rights_stage_def Let_def then_do_Inr split: if_splits)
  then show ?thesis using assms(2) by simp
qed

lemma user_stage_proper: "proper (cf_input c) \<Longrightarrow> user_stage c = Inr c' \<Longrightarrow> proper (cf_input c')"
  by (auto simp: user_stage_def Let_def proper_jset split: option.splits if_splits)

lemma input_stages_proper:
  assumes "returns_proper S" "proper (cf_input c)" "input_stages S w c = Inr c'"
  shows "proper (cf_input c')"
proof -
  obtain c1 c2 where c: "prepare_stage S c = Inr c1" "rights_stage S (load_stage S w c1) = Inr c2" "user_stage c2 = Inr c'"
    using assms(3) by (auto simp: input_stages_def then_do_Inr)
  have "proper (cf_input (load_stage S w c1))"
    using prepare_stage_proper [OF assms(1,2) c(1)] load_stage_keeps [of S w c1] by simp
  then show ?thesis using rights_stage_proper [OF assms(1) _ c(2)] user_stage_proper [OF _ c(3)] by blast
qed

lemma mergePlain_two: "mergePlain v [a, b] = mergePlain (mergePlain v [a]) [b]"
  by (simp add: mergePlain_def js_merge_def)

lemma mergePlain_obj: "\<exists>m'. mergePlain (JObj m) [a] = JObj m'"
  by (cases a) (simp_all add: mergePlain_def js_merge_def)

lemma mergePlain_other: "\<not> (\<exists>i. a = JObj i) \<Longrightarrow> mergePlain v [a] = v"
  by (cases a) (simp_all add: mergePlain_def js_merge_def)

lemma mergePlain_get:
  assumes "proper a"
  shows "jget (mergePlain (JObj m) [a]) k = (if jget a k = JUndef then jget (JObj m) k else merge_into (jget (JObj m) k) (jget a k))"
proof (cases "\<exists>i. a = JObj i")
  case True
  then obtain i where "a = JObj i" by blast
  then show ?thesis using assms mergePlain_one [of i m k] by (simp add: proper_def jfields_def)
next
  case False
  then have "jget a k = JUndef" by (cases a) (simp_all add: jget_def)
  then show ?thesis using mergePlain_other [OF False] by simp
qed

lemma merge_into_defined: "v \<noteq> JUndef \<Longrightarrow> merge_into w v \<noteq> JUndef"
  by (cases v) (auto split: jv.split)

text \<open>The fields of a document after an update with an input.\<close>

definition updated_field :: "crud \<Rightarrow> jv \<Rightarrow> jv \<Rightarrow> jv \<Rightarrow> string \<Rightarrow> jv" where
  "updated_field C usr old i k =
     (if \<not> cr_schema C k then jget old k
      else if k = ''updatedBy'' \<and> usr \<noteq> JUndef then usr
      else if jget i k = JUndef then jget old k else merge_into (jget old k) (jget i k))"

lemma merge_update_get:
  assumes "proper i" "usr = JUndef \<or> (\<exists>t. usr = JStr t)"
  shows "jget (mergePlain (JObj m) [i, JObj [(''updatedBy'', usr)]]) k =
     (if k = ''updatedBy'' \<and> usr \<noteq> JUndef then usr else if jget i k = JUndef then jget (JObj m) k else merge_into (jget (JObj m) k) (jget i k))"
proof -
  obtain m' where m': "mergePlain (JObj m) [i] = JObj m'" using mergePlain_obj by blast
  have "proper (JObj [(''updatedBy'', usr)])" by (simp add: proper_def jfields_def jsmap_ok_def)
  then show ?thesis
    using mergePlain_get [OF assms(1), of m k] assms(2) unfolding mergePlain_two m'
    by (subst mergePlain_get) (auto simp del: jget_simps(5) simp add: jget_def)
qed

lemma mergePlain_proper: "proper (JObj m) \<Longrightarrow> proper (mergePlain (JObj m) [a])"
  by (cases a) (simp_all add: mergePlain_def js_merge_def proper_def jfields_def merge_fields_ok)

lemma set_document_get:
  assumes "map_of (ds_docs w) docId = Some (JObj m)" "proper v" "set_document C docId v w = (d, w')"
  shows "\<exists>m'. d = JObj m' \<and> ds_docs w' = AList.update docId d (ds_docs w)
    \<and> (\<forall>k. jget d k = (if cr_schema C k \<and> jget v k \<noteq> JUndef then jget v k else jget (JObj m) k))"
proof -
  have d: "d = jspread (JObj m) (JObj (schema_fields C v))" "ds_docs w' = AList.update docId d (ds_docs w)"
    using assms(1,3) by (auto simp: set_document_def Let_def)
  have ok: "jsmap_ok (schema_fields C v)"
    using jsmap_ok_filter [of "jfields v" "\<lambda>k x. cr_schema C k \<and> x \<noteq> JUndef"] assms(2)
    by (simp add: proper_def schema_fields_def jsmap_filter_def)
  have "jget d k = (if cr_schema C k \<and> jget v k \<noteq> JUndef then jget v k else jget (JObj m) k)" for k
  proof -
    have "map_of (jfields d) k = (case map_of (schema_fields C v) k of Some x \<Rightarrow> Some x | None \<Rightarrow> map_of m k)"
      using fold_update_get [OF ok, of m k] by (simp add: d jspread_def jfields_def)
    then show ?thesis
      using map_of_schema_fields [of v C k] assms(2) unfolding jget_jfields [of d k] proper_def by simp
  qed
  then show ?thesis using d by (auto simp: jspread_def)
qed

text \<open>
  C19. An update through a service changes its document and no other, and of that the fields the prepared input gives, merged into the old
  ones, and the user of the change; fields the schema does not know stay.
  Assumed: no key occurs twice in the document, in the input and in what preparation and check return; the input holds no operators of the
  database.
\<close>

theorem update_sets_given_fields:
  assumes "crud_update C cx docId input opts w = (Inr r, w')"
    and doc: "map_of (ds_docs w) docId = Some (JObj m)" "proper (JObj m)" and "returns_proper (cr_service C)" "proper input"
  shows "\<exists>c0 c d. configure (sv_ignoreSelections (cr_service C)) (call_of (JObj m) input None opts) = Inr c0
    \<and> input_stages (cr_service C) w c0 = Inr c \<and> ds_docs w' = AList.update docId d (ds_docs w)
    \<and> (\<forall>k. jget d k = updated_field C (user_id_value (so_given opts)) (JObj m) (cf_input c) k)"
proof -
  let ?u = "user_id_value (so_given opts)"
  obtain c0 c r0 ob where c0: "configure (sv_ignoreSelections (cr_service C)) (call_of (JObj m) input None opts) = Inr c0"
    and c: "input_stages (cr_service C) w c0 = Inr c"
    and f: "write_update C docId (JObj m) (so_given opts) (cf_input c) w = (Inr (r0, ob), w')"
    by (rule process_Inr [OF assms(1) [unfolded crud_update_def doc(1) option.case update_from_def]]) (rule that)
  obtain d where d: "set_document C docId (mergePlain (JObj m) [cf_input c, JObj [(''updatedBy'', ?u)]]) w = (d, w')"
    using f by (auto simp: write_update_def Let_def split: prod.splits)
  have "cf_input c0 = input" using c0 by (auto simp: configure_def call_of_def Let_def then_do_Inr)
  then have i: "proper (cf_input c)" using input_stages_proper [OF assms(4) _ c] assms(5) by simp
  have u: "?u = JUndef \<or> (\<exists>t. ?u = JStr t)" by (simp add: user_id_value_def split: option.split)
  obtain m1 where m1: "mergePlain (JObj m) [cf_input c] = JObj m1" using mergePlain_obj by blast
  have "proper (mergePlain (JObj m) [cf_input c, JObj [(''updatedBy'', ?u)]])"
    using mergePlain_proper [OF doc(2), of "cf_input c"] mergePlain_proper [of m1] unfolding mergePlain_two m1 by blast
  from set_document_get [OF doc(1) this d] have s: "ds_docs w' = AList.update docId d (ds_docs w)"
    "jget d k = updated_field C ?u (JObj m) (cf_input c) k" for k
    using merge_update_get [OF i u, of m k] by (auto simp: updated_field_def merge_into_defined simp del: jget_simps)
  then show ?thesis using c0 c by blast
qed

subsection \<open>Raw calls and a collection\<close>

definition raw_call :: "service_options option \<Rightarrow> bool" where
  "raw_call opts = (so_force (so_given opts) \<and> so_raw (so_given opts) \<and> so_fieldSelection (so_given opts) = None \<and> so_populate (so_given opts) = None)"

lemma raw_output:
  assumes "raw_call opts" "cf_prepareOutput c = None" "\<not> cf_checkRights c" "cf_fieldSelection c = None"
  shows "output_stages S nested w c path r = Inr r"
  using assms by (simp add: output_stages_def populate_stage_def prepare_result_def output_options_def output_rights_def split: option.split)

lemma raw_configured:
  assumes "raw_call opts" "configure b (call_of d i path opts) = Inr c"
  shows "cf_options c = so_given opts \<and> \<not> cf_checkRights c \<and> cf_prepareInput c = None \<and> cf_prepareOutput c = None \<and> cf_fieldSelection c = None"
  using configure_Inr [OF assms(2)] assms(1)
  by (simp add: so_given_call raw_call_def configured_output_def configured_input_def)

lemma raw_call_result:
  assumes "process S cx func (call_of d i None opts) w = (Inr r, w')" "raw_call opts"
  obtains c ob where "func c (function_context c cx) w = (Inr (r, ob), w')"
proof -
  obtain c0 c r0 ob where c0: "configure (sv_ignoreSelections S) (call_of d i None opts) = Inr c0" and c: "input_stages S w c0 = Inr c"
    and f: "func c (function_context c cx) w = (Inr (r0, ob), w')"
    and out: "output_stages S (getProcessDepth cx > 0) w' (c\<lparr>cf_dbObject := ob\<rparr>) (sc_outputPath (call_of d i None opts)) r0 = Inr r"
    by (rule process_Inr [OF assms(1)])
  have "cf_prepareOutput (c\<lparr>cf_dbObject := ob\<rparr>) = None" "\<not> cf_checkRights (c\<lparr>cf_dbObject := ob\<rparr>)" "cf_fieldSelection (c\<lparr>cf_dbObject := ob\<rparr>) = None"
    using raw_configured [OF assms(2) c0] input_stages_keep [OF c] by simp_all
  then have "r0 = r" using out by (simp add: raw_output [OF assms(2)])
  then show thesis using f by (intro that) simp
qed

lemma getRaw_result:
  assumes "map_of (ds_docs w) docId = Some d"
  shows "getRaw C cx docId None w = (Inr d, w)"
proof -
  let ?o = "raw_options None"
  have o': "raw_call ?o" "so_select (so_given ?o) = None" "so_processFieldSelection (so_given ?o) = None"
    by (simp_all add: raw_call_def raw_options_def force_options_def so_given_def no_service_options_def)
  obtain c where c: "configure (sv_ignoreSelections (cr_service C)) (call_of d JUndef None ?o) = Inr c"
    using o' by (simp add: configure_def configured_selection_def so_given_call Let_def)
  note k = raw_configured [OF o'(1) c]
  have i: "cf_input c = JUndef" using c by (auto simp: configure_def call_of_def Let_def then_do_Inr)
  have l: "load_stage (cr_service C) w c = c" using k by (simp add: load_stage_def split: jv.split)
  have "input_stages (cr_service C) w c = Inr c"
    using k i l by (simp add: input_stages_def prepare_stage_def rights_stage_def user_stage_def Let_def split: option.split)
  then show ?thesis
    using assms c o'(2) raw_output [OF o'(1), of "c\<lparr>cf_dbObject := cf_dbObject c\<rparr>"] k
    by (simp add: getRaw_def crud_get_def selected_def Let_def process_def call_of_def)
qed

text \<open>
  C22. A document created by a raw call is what a raw reading of its id returns.
  Neither call selects fields or populates.
\<close>

theorem created_document_reads_back:
  assumes "createRaw C cx input opts w = (Inr doc, w')" and "so_fieldSelection (so_given opts) = None" and "so_populate (so_given opts) = None"
  shows "\<exists>i. jget doc ''_id'' = JStr i \<and> map_of (ds_docs w) i = None \<and> getRaw C cx' i None w' = (Inr doc, w')"
proof -
  define so where "so = prepareServiceOptionsForCreate (raw_options opts)"
  have raw: "raw_call (Some so)"
    using assms(2,3) by (simp add: so_def raw_call_def prepareServiceOptionsForCreate_def raw_options_def force_options_def so_given_def Let_def)
  obtain c ob where f: "with_object c (save_new C (jspread (cf_input c) (JObj [(''createdBy'', user_id_value so), (''updatedBy'', user_id_value so)])) w) = (Inr (doc, ob), w')"
    by (rule raw_call_result [OF assms(1) [unfolded createRaw_def crud_create_def Let_def, folded so_def] raw])
  then have "save_new C (jspread (cf_input c) (JObj [(''createdBy'', user_id_value so), (''updatedBy'', user_id_value so)])) w = (Inr doc, w')"
    by (simp only: with_object_Inr)
  then obtain i where i: "map_of (ds_docs w) i = None" "ds_docs w' = ds_docs w @ [(i, doc)]" "jget doc ''_id'' = JStr i"
    by (rule save_new_Inr) (auto simp: map_of_update_eq)
  then have "map_of (ds_docs w') i = Some doc" by (simp add: map_add_def)
  then show ?thesis using i getRaw_result by blast
qed

subsection \<open>Where the services fall short\<close>

definition sample_check :: check_env where
  "sample_check = \<lparr>ce_basic = (\<lambda>c. False), ce_map = (\<lambda>c v. v), ce_valid = (\<lambda>v. True), ce_restricted = (\<lambda>o' u v. Inr v)\<rparr>"

definition sample_preparation :: input_env where
  "sample_preparation = \<lparr>in_hash = (\<lambda>p. p), in_sha256 = (\<lambda>v. None), in_text = (\<lambda>v. []), in_configSha256 = False,
     in_isClass = (\<lambda>c v. True), in_map = (\<lambda>c v. v)\<rparr>"

definition sample_mapping :: output_env where
  "sample_mapping = \<lparr>ou_isClass = (\<lambda>c v. True), ou_map = (\<lambda>c v. v)\<rparr>"

definition sample_service :: "doc_store service" where
  "sample_service = \<lparr>sv_checkRights = base_checkRights sample_check, sv_prepareInput = base_prepareInput sample_preparation,
     sv_prepareOutput = base_prepareOutput sample_mapping (Some ''Article''), sv_processFieldSelection = (\<lambda>w v s p. Inr v),
     sv_findById = (\<lambda>w i. map_of (ds_docs w) i), sv_ignoreSelections = True\<rparr>"

definition sample_crud :: crud where
  "sample_crud = \<lparr>cr_service = sample_service, cr_name = ''Article'', cr_newId = (\<lambda>w. show_nat (ds_created w)), cr_schema = (\<lambda>k. k \<noteq> ''unknown''),
     cr_select = (\<lambda>s v. v), cr_find = (\<lambda>q qo ds. Inr ds), cr_pipeline = (\<lambda>st ds. Inr (ds, Some (int (length ds)))), cr_aggregate = (\<lambda>p ds. Inr (JArr ds)),
     cr_filterArgs = (\<lambda>v. None), cr_rawFilter = (\<lambda>v. (None, None)), cr_filterRt = \<lparr>fr_objectId = (\<lambda>v. None), fr_regExp = (\<lambda>q. None), fr_isValid = (\<lambda>t. False)\<rparr>,
     cr_autoObjectIds = False, cr_maxLimit = None\<rparr>"

definition sample_author :: user where
  "sample_author = \<lparr>u_id = ''u1'', u_roles = Some [''author''], u_verified = True, u_verifiedAt = False, u_emailVerified = False\<rparr>"

definition sample_document :: jv where
  "sample_document = JObj [(''_id'', JStr ''a''), (''createdBy'', JStr ''u1''), (''title'', JStr ''old''), (''text'', JStr ''old'')]"

definition sample_store :: doc_store where
  "sample_store = \<lparr>ds_docs = [(''a'', sample_document)], ds_created = 1\<rparr>"

definition author_options :: "string list \<Rightarrow> service_options option" where
  "author_options roles = Some (no_service_options\<lparr>so_currentUser := Some sample_author, so_roles := roles\<rparr>)"

definition stored_field :: "doc_store \<Rightarrow> string \<Rightarrow> string \<Rightarrow> jv" where
  "stored_field w docId k = (case map_of (ds_docs w) docId of None \<Rightarrow> JUndef | Some d \<Rightarrow> jget d k)"

text \<open>
  Two updates of one document that read it before either writes: the later write takes back what the earlier one changed, though their
  inputs have no field in common.
\<close>

theorem concurrent_updates_lose_fields:
  "\<exists>C w d. map_of (ds_docs w) ''a'' = Some d
    \<and> (let w1 = snd (update_from C None ''a'' d (JObj [(''title'', JStr ''new'')]) (author_options []) w);
            w2 = snd (update_from C None ''a'' d (JObj [(''text'', JStr ''new'')]) (author_options []) w1)
        in stored_field w1 ''a'' ''title'' = JStr ''new'' \<and> stored_field w2 ''a'' ''title'' = JStr ''old'' \<and> stored_field w2 ''a'' ''text'' = JStr ''new'')"
  by (rule exI [of _ sample_crud], rule exI [of _ sample_store], rule exI [of _ sample_document]) code_simp

text \<open>
  An update that hands a document over to another user is written and then answered with an error: the roles are asked again, of the object
  that the update has merged its input into.
\<close>

theorem handed_over_update_fails_after_write:
  "\<exists>C w. case crud_update C None ''a'' (JObj [(''createdBy'', JStr ''u2'')]) (author_options [S_CREATOR]) w of
     (r, w') \<Rightarrow> r = Inl AccessForbidden \<and> stored_field w ''a'' ''createdBy'' = JStr ''u1'' \<and> stored_field w' ''a'' ''createdBy'' = JStr ''u2''"
  by (rule exI [of _ sample_crud], rule exI [of _ sample_store]) code_simp

text \<open>
  Updating every document of a filter is no unit: a document that is gone when its turn comes makes the answer an error, but the others
  have been changed.
\<close>

theorem find_and_update_changes_in_part:
  "\<exists>C w. case findAndUpdate C None (JObj []) (JObj [(''title'', JStr ''new'')]) (author_options []) w of
     (r, w') \<Rightarrow> r = Inl (not_found C ''gone'') \<and> stored_field w' ''a'' ''title'' = JStr ''new''"
  by (rule exI [of _ "sample_crud\<lparr>cr_find := (\<lambda>q qo ds. Inr (JObj [(''_id'', JStr ''gone'')] # ds))\<rparr>"], rule exI [of _ sample_store]) code_simp

subsection \<open>Arrays\<close>

lemma slice_to_bounded: "length (slice_to n xs) \<le> nat \<bar>n\<bar>"
  by (simp add: slice_to_def, arith)

lemma pushed_bounded: "pu_slice po = Some n \<Longrightarrow> length (pushed sort_by po items xs) \<le> nat \<bar>n\<bar>"
  by (simp add: pushed_def Let_def slice_to_bounded)

text \<open>
  Appending with a slice keeps an array within its size, however long it was, and without a position or an order a negative slice keeps
  the latest items. No other field and no other document changes.
\<close>

theorem push_keeps_latest:
  assumes "pushToArray C sort_by docId field (JArr items) po w = (Inr (), w')" and "items \<noteq> []" and "cr_schema C field"
    and "string_id docId = Some i" and "map_of (ds_docs w) i = Some (JObj m)" and "jget (JObj m) field = JArr xs" and "pu_slice po = Some n"
  shows "\<exists>d ys. ds_docs w' = AList.update i d (ds_docs w) \<and> jget d field = JArr ys \<and> length ys \<le> nat \<bar>n\<bar>
    \<and> (\<forall>k. jget d k = (if k = field then JArr ys else jget (JObj m) k))
    \<and> (if pu_position po = None \<and> pu_sort po = None \<and> n < 0 then ys = drop (length (xs @ items) - nat (- n)) (xs @ items) else True)"
proof -
  let ?ys = "pushed sort_by po items xs"
  have "w' = w\<lparr>ds_docs := AList.update i (jset (JObj m) field (JArr ?ys)) (ds_docs w)\<rparr>"
    using assms by (auto simp: pushToArray_def update_array_def Let_def simp del: jget_simps split: if_splits)
  moreover have "if pu_position po = None \<and> pu_sort po = None \<and> n < 0 then ?ys = drop (length (xs @ items) - nat (- n)) (xs @ items) else True"
    using assms(7) by (simp add: pushed_def slice_to_def Let_def)
  ultimately show ?thesis using pushed_bounded [OF assms(7)] by (intro exI conjI) (auto simp del: jget_simps)
qed

subsection \<open>Witnesses\<close>

definition forged_input :: jv where
  "forged_input = JObj [(''createdBy'', JStr ''u2''), (''title'', JStr ''t'')]"

abbreviation sample_create :: "(service_error + jv) \<times> doc_store" where
  "sample_create \<equiv> crud_create sample_crud None forged_input (author_options [''author'']) sample_store"

theorem created_document_belongs_to_user_witness:
  "\<exists>i doc. map_of (ds_docs sample_store) i = None \<and> ds_docs (snd sample_create) = ds_docs sample_store @ [(i, doc)]
    \<and> jget doc ''_id'' = JStr i \<and> jget doc ''createdBy'' = JStr (u_id sample_author) \<and> jget doc ''updatedBy'' = JStr (u_id sample_author)"
  by (rule created_document_belongs_to_user [of sample_crud None forged_input "author_options [''author'']" sample_store "projr (fst sample_create)"]) code_simp+

abbreviation sample_raw_create :: "(service_error + jv) \<times> doc_store" where
  "sample_raw_create \<equiv> createRaw sample_crud None forged_input (author_options []) sample_store"

theorem created_document_reads_back_witness:
  "\<exists>i. jget (projr (fst sample_raw_create)) ''_id'' = JStr i \<and> map_of (ds_docs sample_store) i = None
    \<and> getRaw sample_crud None i None (snd sample_raw_create) = (Inr (projr (fst sample_raw_create)), snd sample_raw_create)"
  by (rule created_document_reads_back [of sample_crud None forged_input "author_options []" sample_store]) code_simp+

lemma sample_returns_proper: "returns_proper (cr_service (sample_crud\<lparr>cr_service := sample_service\<lparr>sv_checkRights := (\<lambda>v u o'. Inr v), sv_prepareInput := (\<lambda>v c. Inr v)\<rparr>\<rparr>))"
  by (simp add: returns_proper_def)

abbreviation sample_plain :: crud where
  "sample_plain \<equiv> sample_crud\<lparr>cr_service := sample_service\<lparr>sv_checkRights := (\<lambda>v u o'. Inr v), sv_prepareInput := (\<lambda>v c. Inr v)\<rparr>\<rparr>"

abbreviation sample_update :: "(service_error + jv) \<times> doc_store" where
  "sample_update \<equiv> crud_update sample_plain None ''a'' (JObj [(''title'', JStr ''new'')]) (author_options []) sample_store"

theorem update_sets_given_fields_witness:
  "\<exists>c0 c d. configure (sv_ignoreSelections (cr_service sample_plain)) (call_of (JObj (jfields sample_document)) (JObj [(''title'', JStr ''new'')]) None (author_options [])) = Inr c0
    \<and> input_stages (cr_service sample_plain) sample_store c0 = Inr c \<and> ds_docs (snd sample_update) = AList.update ''a'' d (ds_docs sample_store)
    \<and> (\<forall>k. jget d k = updated_field sample_plain (user_id_value (so_given (author_options []))) (JObj (jfields sample_document)) (cf_input c) k)"
proof (rule update_sets_given_fields)
  show "crud_update sample_plain None ''a'' (JObj [(''title'', JStr ''new'')]) (author_options []) sample_store = (Inr (projr (fst sample_update)), snd sample_update)"
    by code_simp
  show "map_of (ds_docs sample_store) ''a'' = Some (JObj (jfields sample_document))" by code_simp
  show "proper (JObj (jfields sample_document))" by (simp add: proper_def sample_document_def jfields_def jsmap_ok_def)
  show "returns_proper (cr_service sample_plain)" by (rule sample_returns_proper)
  show "proper (JObj [(''title'', JStr ''new'')])" by (simp add: proper_def jfields_def jsmap_ok_def)
qed

definition sample_call :: "string list \<Rightarrow> bool \<Rightarrow> service_call" where
  "sample_call roles force = call_of (JStr ''a'') JUndef None (Some (no_service_options\<lparr>so_currentUser := Some sample_author, so_roles := roles, so_force := force\<rparr>))"

theorem denied_call_runs_nothing_witness:
  "\<exists>e'. process (sample_service\<lparr>sv_checkRights := base_checkRights sample_check\<rparr>) None (\<lambda>cf cx w. (Inr (JNull, JNull), w\<lparr>ds_docs := []\<rparr>))
     (sample_call [''publisher''] False) sample_store = (Inl e', sample_store)"
  by (rule denied_call_runs_nothing [where e = AccessForbidden]) code_simp+

theorem process_returns_no_secret_witness:
  "secret_free (JObj [(''title'', JStr ''t''), (''password'', JUndef)])"
  by (rule process_returns_no_secret [where S = sample_service and E = sample_check and F = sample_mapping and m = "Some ''Article''" and cx = None
        and func = "\<lambda>cf cx w. (Inr (JObj [(''title'', JStr ''t''), (''password'', JStr ''pw'')], JNull), w)"
        and call = "sample_call [''author''] False" and w = sample_store and w' = sample_store])
    code_simp+

theorem forced_call_asks_no_rights_witness:
  "process (sample_service\<lparr>sv_checkRights := (\<lambda>v u o'. Inl AccessForbidden)\<rparr>) None (\<lambda>cf cx w. (Inr (JNull, JNull), w)) (sample_call [S_NO_ONE] True) sample_store
    = process sample_service None (\<lambda>cf cx w. (Inr (JNull, JNull), w)) (sample_call [S_NO_ONE] True) sample_store"
  by (rule forced_call_asks_no_rights) code_simp

definition sample_log :: doc_store where
  "sample_log = \<lparr>ds_docs = [(''l'', JObj [(''logs'', JArr [JStr ''a'', JStr ''b''])])], ds_created = 1\<rparr>"

abbreviation sample_push :: "(service_error + unit) \<times> doc_store" where
  "sample_push \<equiv> pushToArray sample_crud (\<lambda>s xs. xs) (JStr ''l'') ''logs'' (JArr [JStr ''c'']) \<lparr>pu_slice = Some (- 2), pu_position = None, pu_sort = None\<rparr> sample_log"

theorem push_keeps_latest_witness:
  "\<exists>d ys. ds_docs (snd sample_push) = AList.update ''l'' d (ds_docs sample_log) \<and> jget d ''logs'' = JArr ys \<and> length ys \<le> nat \<bar>- 2 :: int\<bar>
    \<and> (\<forall>k. jget d k = (if k = ''logs'' then JArr ys else jget (JObj [(''logs'', JArr [JStr ''a'', JStr ''b''])]) k))
    \<and> (if pu_position \<lparr>pu_slice = Some (- 2), pu_position = None, pu_sort = None\<rparr> = None \<and> pu_sort \<lparr>pu_slice = Some (- 2), pu_position = None, pu_sort = None\<rparr> = None \<and> (- 2 :: int) < 0
       then ys = drop (length ([JStr ''a'', JStr ''b''] @ [JStr ''c'']) - nat (- (- 2))) ([JStr ''a'', JStr ''b''] @ [JStr ''c'']) else True)"
  by (rule push_keeps_latest [of sample_crud "\<lambda>s xs. xs" "JStr ''l''"]) (code_simp+)

end
