(* ===== verification/ValidationPipe.thy ===== *)
theory ValidationPipe
  imports RequestContext
begin

text \<open>
  \<^verbatim>\<open>MapAndValidatePipe\<close> of \<^verbatim>\<open>common/pipes/map-and-validate.pipe.ts\<close>: the whitelist of fields and the validation along the classes of an
  input, and \<^verbatim>\<open>getUnifiedFieldKeys\<close> of \<^verbatim>\<open>common/decorators/unified-field.decorator.ts\<close>.

  A class is the chain of its levels, the class itself first. The checks of class-validator are a parameter. Making an instance of a plain
  object keeps its fields, as without transformations of the application it does; messages are left out, an error keeps the names of the
  violated constraints.
\<close>

subsection \<open>Classes\<close>

datatype check_kind =
    ArrayMaxSize int | ArrayMinSize int | IsArray | IsBoolean | IsDate | IsDateString jv | IsDefined | IsEmail jv | IsEnum "jv list" | IsInt | IsNotEmpty
  | IsNumber jv | IsString | IsUrl jv | Max int | MaxLength int | Min int | MinLength int

text \<open>
  The metadata of a property. \<open>CustomRule\<close>: name, each, and the verdict for a value, \<open>None\<close> when the validator throws or is missing.
  \<open>ConditionRule\<close>: the condition of \<^verbatim>\<open>ValidateIf\<close> on the object and the value, a condition that throws is false.
\<close>

datatype field_rule =
    CheckRule check_kind bool
  | CustomRule string bool "jv \<Rightarrow> bool option"
  | NestedRule
  | OptionalRule
  | ConditionRule "(string, jv) jsmap \<Rightarrow> jv \<Rightarrow> bool"
  | OtherRule

record class_level =
  cl_name :: string
  cl_included :: "string list"
  cl_excluded :: "string list"
  cl_forced :: "string list"
  cl_rules :: "(string \<times> field_rule) list"
  cl_dates :: "string list"

type_synonym class_chain = "class_level list"

text \<open>\<open>vp_nested\<close> is the registry of nested types, \<open>vp_toDate\<close> a valid date of a string.\<close>

record validation_env =
  vp_nested :: "string \<Rightarrow> class_chain option"
  vp_check :: "check_kind \<Rightarrow> jv \<Rightarrow> bool"
  vp_toDate :: "string \<Rightarrow> jv option"

subsection \<open>The whitelist\<close>

record key_sets =
  ks_included :: "string list"
  ks_excludes :: "string list"
  ks_includes :: "string list"
  ks_resolved :: "string list"

definition include_key :: "string \<Rightarrow> key_sets \<Rightarrow> key_sets" where
  "include_key k s = (if k \<in> set (ks_resolved s) then s else s\<lparr>ks_includes := k # ks_includes s, ks_resolved := k # ks_resolved s\<rparr>)"

definition exclude_key :: "string \<Rightarrow> key_sets \<Rightarrow> key_sets" where
  "exclude_key k s = (if k \<in> set (ks_resolved s) then s else s\<lparr>ks_excludes := k # ks_excludes s, ks_resolved := k # ks_resolved s\<rparr>)"

definition level_keys :: "class_level \<Rightarrow> key_sets \<Rightarrow> key_sets" where
  "level_keys l s = (let s = fold exclude_key (cl_excluded l) (fold include_key (cl_forced l) s)
     in s\<lparr>ks_included := cl_included l @ ks_included s\<rparr>)"

definition getUnifiedFieldKeys :: "class_chain \<Rightarrow> string list" where
  "getUnifiedFieldKeys cls =
     (let s = fold level_keys cls \<lparr>ks_included = [], ks_excludes = [], ks_includes = [], ks_resolved = []\<rparr>
      in ks_includes s @ filter (\<lambda>k. k \<notin> set (ks_excludes s)) (ks_included s))"

text \<open>The rules of the whitelist: the first level with an explicit setting decides, otherwise a field of any level is allowed.\<close>

fun explicit_setting :: "class_chain \<Rightarrow> string \<Rightarrow> bool option" where
  "explicit_setting [] k = None"
| "explicit_setting (l # ls) k = (if k \<in> set (cl_forced l) then Some True else if k \<in> set (cl_excluded l) then Some False else explicit_setting ls k)"

definition settings_disjoint :: "key_sets \<Rightarrow> bool" where
  "settings_disjoint s = (set (ks_resolved s) = set (ks_includes s) \<union> set (ks_excludes s) \<and> set (ks_includes s) \<inter> set (ks_excludes s) = {})"

lemma settings_disjoint_included: "settings_disjoint (s\<lparr>ks_included := x\<rparr>) = settings_disjoint s"
  by (simp add: settings_disjoint_def)

lemma fold_include: "settings_disjoint s \<Longrightarrow> settings_disjoint (fold include_key ks s) \<and>
    set (ks_includes (fold include_key ks s)) = set (ks_includes s) \<union> (set ks - set (ks_excludes s)) \<and>
    set (ks_excludes (fold include_key ks s)) = set (ks_excludes s) \<and> ks_included (fold include_key ks s) = ks_included s"
  by (induction ks arbitrary: s) (auto simp: include_key_def settings_disjoint_def)

lemma fold_exclude: "settings_disjoint s \<Longrightarrow> settings_disjoint (fold exclude_key ks s) \<and>
    set (ks_excludes (fold exclude_key ks s)) = set (ks_excludes s) \<union> (set ks - set (ks_includes s)) \<and>
    set (ks_includes (fold exclude_key ks s)) = set (ks_includes s) \<and> ks_included (fold exclude_key ks s) = ks_included s"
  by (induction ks arbitrary: s) (auto simp: exclude_key_def settings_disjoint_def)

lemma level_sets:
  assumes "settings_disjoint s"
  shows "settings_disjoint (level_keys l s)"
    "set (ks_includes (level_keys l s)) = set (ks_includes s) \<union> (set (cl_forced l) - set (ks_excludes s))"
    "set (ks_excludes (level_keys l s)) = set (ks_excludes s) \<union> (set (cl_excluded l) - set (ks_includes s) - set (cl_forced l))"
    "set (ks_included (level_keys l s)) = set (cl_included l) \<union> set (ks_included s)"
proof -
  note i = fold_include [OF assms, of "cl_forced l"]
  note e = fold_exclude [OF conjunct1 [OF i], of "cl_excluded l"]
  show "settings_disjoint (level_keys l s)"
    "set (ks_includes (level_keys l s)) = set (ks_includes s) \<union> (set (cl_forced l) - set (ks_excludes s))"
    "set (ks_included (level_keys l s)) = set (cl_included l) \<union> set (ks_included s)"
    using i e by (simp_all add: level_keys_def settings_disjoint_included)
  show "set (ks_excludes (level_keys l s)) = set (ks_excludes s) \<union> (set (cl_excluded l) - set (ks_includes s) - set (cl_forced l))"
    using i e assms by (auto simp: level_keys_def settings_disjoint_def)
qed

lemma levels_sets:
  assumes "settings_disjoint s"
  shows "k \<in> set (ks_includes (fold level_keys cls s)) \<longleftrightarrow> k \<in> set (ks_includes s) \<or> k \<notin> set (ks_excludes s) \<and> explicit_setting cls k = Some True"
    "k \<in> set (ks_excludes (fold level_keys cls s)) \<longleftrightarrow> k \<in> set (ks_excludes s) \<or> k \<notin> set (ks_includes s) \<and> explicit_setting cls k = Some False"
    "k \<in> set (ks_included (fold level_keys cls s)) \<longleftrightarrow> k \<in> set (ks_included s) \<or> list_ex (\<lambda>l. k \<in> set (cl_included l)) cls"
  using assms by (induction cls arbitrary: s) (auto simp: level_sets)

lemma unified_field_rules:
  "k \<in> set (getUnifiedFieldKeys cls) \<longleftrightarrow>
     (case explicit_setting cls k of Some allowed \<Rightarrow> allowed | None \<Rightarrow> list_ex (\<lambda>l. k \<in> set (cl_included l)) cls)"
  using levels_sets [of "\<lparr>ks_included = [], ks_excludes = [], ks_includes = [], ks_resolved = []\<rparr>" k cls]
  by (auto simp: getUnifiedFieldKeys_def Let_def settings_disjoint_def split: option.splits)

fun nested_class :: "validation_env \<Rightarrow> class_chain \<Rightarrow> string \<Rightarrow> class_chain option" where
  "nested_class E [] k = None"
| "nested_class E (l # ls) k = (case vp_nested E (cl_name l @ ''.'' @ k) of Some t \<Rightarrow> Some t | None \<Rightarrow> nested_class E ls k)"

text \<open>
  \<^verbatim>\<open>processNonWhitelistedFields\<close>, once for each mode: what remains and which paths are forbidden. A class without any such field is
  passed over.
\<close>

definition strip_entries :: "validation_env \<Rightarrow> class_chain \<Rightarrow> (string \<times> jv \<times> (class_chain \<Rightarrow> jv)) list \<Rightarrow> (string \<times> jv) list" where
  "strip_entries E cls es = map (\<lambda>(k, v, f). (k, case nested_class E cls k of Some t \<Rightarrow> f t | None \<Rightarrow> v))
     (filter (\<lambda>(k, v, f). k \<in> set (getUnifiedFieldKeys cls)) es)"

lemma size_item: "(k, v) \<in> set m \<Longrightarrow> size v < size (JObj m)" "(k, JArr xs) \<in> set m \<Longrightarrow> x \<in> set xs \<Longrightarrow> size x < size (JObj m)"
proof -
  show v: "size v < size (JObj m)" if "(k, v) \<in> set m" for k v
    using size_list_estimation' [OF that, of "size v" "size_prod (\<lambda>_. 0) size"] by simp
  assume "(k, JArr xs) \<in> set m" "x \<in> set xs"
  then have "size x < size (JArr xs)" using size_list_estimation' [of x xs "size x" size] by simp
  then show "size x < size (JObj m)" using v [OF \<open>(k, JArr xs) \<in> set m\<close>] by simp
qed

function strip_fields :: "validation_env \<Rightarrow> jv \<Rightarrow> class_chain \<Rightarrow> jv" where
  "strip_fields E (JObj m) = (\<lambda>cls. if getUnifiedFieldKeys cls = [] then JObj m
     else JObj (strip_entries E cls (map (\<lambda>(k, v). (k, v, case v of
         JArr xs \<Rightarrow> (\<lambda>t. JArr (map (\<lambda>x. strip_fields E x t) xs)) | _ \<Rightarrow> strip_fields E v)) m)))"
| "strip_fields E (JArr xs) = (\<lambda>cls. JArr xs)"
| "strip_fields E JUndef = (\<lambda>cls. JUndef)"
| "strip_fields E JNull = (\<lambda>cls. JNull)"
| "strip_fields E (JBool b) = (\<lambda>cls. JBool b)"
| "strip_fields E (JNum n) = (\<lambda>cls. JNum n)"
| "strip_fields E (JStr t) = (\<lambda>cls. JStr t)"
  by pat_completeness auto
termination
  by (relation "measure (\<lambda>(E, v). size v)") (simp_all only: in_measure wf_measure prod.case, (metis size_item)+)

text \<open>The forbidden paths; a path is the list of its steps, an index in brackets.\<close>

definition forbidden_entries :: "validation_env \<Rightarrow> class_chain \<Rightarrow> string \<Rightarrow> (string \<times> (class_chain \<Rightarrow> string \<Rightarrow> string list)) list \<Rightarrow> string list" where
  "forbidden_entries E cls path es = concat (map (\<lambda>(k, f).
     let fullPath = (if path = [] then k else path @ ''.'' @ k)
     in if k \<notin> set (getUnifiedFieldKeys cls) then [fullPath]
        else (case nested_class E cls k of Some t \<Rightarrow> f t fullPath | None \<Rightarrow> [])) es)"

function forbidden_fields :: "validation_env \<Rightarrow> jv \<Rightarrow> class_chain \<Rightarrow> string \<Rightarrow> string list" where
  "forbidden_fields E (JObj m) = (\<lambda>cls path. if getUnifiedFieldKeys cls = [] then []
     else forbidden_entries E cls path (map (\<lambda>(k, v). (k, case v of
         JArr xs \<Rightarrow> (\<lambda>t p. concat (map (\<lambda>(i, f). f t (p @ ''['' @ show_nat i @ '']'')) (zip [0..<length xs] (map (forbidden_fields E) xs))))
       | _ \<Rightarrow> forbidden_fields E v)) m))"
| "forbidden_fields E (JArr xs) = (\<lambda>cls path. [])"
| "forbidden_fields E JUndef = (\<lambda>cls path. [])"
| "forbidden_fields E JNull = (\<lambda>cls path. [])"
| "forbidden_fields E (JBool b) = (\<lambda>cls path. [])"
| "forbidden_fields E (JNum n) = (\<lambda>cls path. [])"
| "forbidden_fields E (JStr t) = (\<lambda>cls path. [])"
  by pat_completeness auto
termination
  by (relation "measure (\<lambda>(E, v). size v)") (simp_all only: in_measure wf_measure prod.case, (metis size_item)+)

subsection \<open>Validation along the chain\<close>

datatype field_error = FieldError (fe_property: string) (fe_constraints: "string list") (fe_children: "field_error list")

definition constraint_name :: "check_kind \<Rightarrow> string" where
  "constraint_name c = (case c of
       ArrayMaxSize n \<Rightarrow> ''arrayMaxSize'' | ArrayMinSize n \<Rightarrow> ''arrayMinSize'' | IsArray \<Rightarrow> ''isArray'' | IsBoolean \<Rightarrow> ''isBoolean''
     | IsDate \<Rightarrow> ''isDate'' | IsDateString c \<Rightarrow> ''isDateString'' | IsDefined \<Rightarrow> ''isDefined'' | IsEmail c \<Rightarrow> ''isEmail'' | IsEnum vs \<Rightarrow> ''isEnum''
     | IsInt \<Rightarrow> ''isInt'' | IsNotEmpty \<Rightarrow> ''isNotEmpty'' | IsNumber c \<Rightarrow> ''isNumber'' | IsString \<Rightarrow> ''isString'' | IsUrl c \<Rightarrow> ''isUrl''
     | Max n \<Rightarrow> ''max'' | MaxLength n \<Rightarrow> ''maxLength'' | Min n \<Rightarrow> ''min'' | MinLength n \<Rightarrow> ''minLength'')"

text \<open>The checks of the whole value, even when they are declared for each element.\<close>

definition checks_whole :: "check_kind \<Rightarrow> bool" where
  "checks_whole c = (case c of ArrayMaxSize n \<Rightarrow> True | ArrayMinSize n \<Rightarrow> True | IsArray \<Rightarrow> True | IsDefined \<Rightarrow> True | _ \<Rightarrow> False)"

definition rule_violated :: "validation_env \<Rightarrow> jv \<Rightarrow> field_rule \<Rightarrow> string option" where
  "rule_violated E v r = (case r of
       CheckRule c forEach \<Rightarrow>
         (let ok = (case v of JArr xs \<Rightarrow> if forEach \<and> \<not> checks_whole c then list_all (vp_check E c) xs else vp_check E c v | _ \<Rightarrow> vp_check E c v)
          in if ok then None else Some (constraint_name c))
     | CustomRule name forEach valid \<Rightarrow>
         (let verdict = (case v of
                JArr xs \<Rightarrow> if forEach then (if list_ex (\<lambda>x. valid x = None) xs then None else Some (list_all (\<lambda>x. valid x = Some True) xs)) else valid v
              | _ \<Rightarrow> valid v)
          in if verdict = Some False then Some (if name = [] then ''customValidation'' else name) else None)
     | _ \<Rightarrow> None)"

definition group_rules :: "(string \<times> field_rule) list \<Rightarrow> (string, field_rule list) jsmap" where
  "group_rules rules = foldl (\<lambda>g (k, r). AList.update k ((case map_of g k of Some rs \<Rightarrow> rs | None \<Rightarrow> []) @ [r]) g) [] rules"

definition is_optional :: "field_rule list \<Rightarrow> bool" where
  "is_optional rs = (list_ex (\<lambda>r. case r of OptionalRule \<Rightarrow> True | _ \<Rightarrow> False) rs
     \<and> \<not> list_ex (\<lambda>r. case r of CheckRule IsDefined forEach \<Rightarrow> True | _ \<Rightarrow> False) rs)"

definition condition_of :: "field_rule list \<Rightarrow> ((string, jv) jsmap \<Rightarrow> jv \<Rightarrow> bool) option" where
  "condition_of rs = (case find (\<lambda>r. case r of ConditionRule c \<Rightarrow> True | _ \<Rightarrow> False) rs of Some (ConditionRule c) \<Rightarrow> Some c | _ \<Rightarrow> None)"

text \<open>An entry of an object: its key, its value, and the errors of its value against a nested type.\<close>

type_synonym checked_entry = "string \<times> jv \<times> (class_chain \<Rightarrow> field_error list)"

definition entry_value :: "validation_env \<Rightarrow> class_level \<Rightarrow> string \<Rightarrow> jv \<Rightarrow> jv" where
  "entry_value E l k v = (case v of
       JStr t \<Rightarrow> if k \<in> set (cl_dates l) then (case vp_toDate E t of Some d \<Rightarrow> d | None \<Rightarrow> v) else v | _ \<Rightarrow> v)"

definition field_value :: "validation_env \<Rightarrow> class_level \<Rightarrow> checked_entry list \<Rightarrow> string \<Rightarrow> jv" where
  "field_value E l es k = (case map_of es k of Some (v, f) \<Rightarrow> entry_value E l k v | None \<Rightarrow> JUndef)"

definition nested_errors :: "validation_env \<Rightarrow> class_level \<Rightarrow> checked_entry list \<Rightarrow> string \<Rightarrow> field_rule list \<Rightarrow> field_error list" where
  "nested_errors E l es k rs =
     (if \<not> list_ex (\<lambda>r. case r of NestedRule \<Rightarrow> True | _ \<Rightarrow> False) rs then []
      else (case (map_of es k, vp_nested E (cl_name l @ ''.'' @ k)) of (Some (v, f), Some t) \<Rightarrow> f t | _ \<Rightarrow> []))"

text \<open>A property of a level: skipped when a child has validated it, when its condition fails, or when it is optional and missing.\<close>

definition check_property :: "validation_env \<Rightarrow> class_level \<Rightarrow> checked_entry list \<Rightarrow> string \<times> field_rule list
    \<Rightarrow> string list \<times> field_error list \<Rightarrow> string list \<times> field_error list" where
  "check_property E l es p acc = (case (p, acc) of ((k, rs), (validated, errors)) \<Rightarrow>
     (let v = field_value E l es k;
          instance = map (\<lambda>(k, v, f). (k, entry_value E l k v)) es
      in if k \<in> set validated then acc
         else if (case condition_of rs of Some c \<Rightarrow> \<not> c instance v | None \<Rightarrow> False) then acc
         else if is_optional rs \<and> (v = JUndef \<or> v = JNull) then acc
         else (let cs = rev (remdups (rev (List.map_filter (rule_violated E v) rs))); children = nested_errors E l es k rs
               in (k # validated, if cs = [] \<and> children = [] then errors else errors @ [FieldError k cs children]))))"

definition check_level :: "validation_env \<Rightarrow> checked_entry list \<Rightarrow> class_level \<Rightarrow> string list \<times> field_error list \<Rightarrow> string list \<times> field_error list" where
  "check_level E es l = fold (check_property E l es) (group_rules (cl_rules l))"

definition check_class :: "validation_env \<Rightarrow> class_chain \<Rightarrow> checked_entry list \<Rightarrow> field_error list" where
  "check_class E cls es = snd (fold (check_level E es) cls ([], []))"

definition at_index :: "nat \<Rightarrow> field_error \<Rightarrow> field_error" where
  "at_index i e = FieldError (show_nat i @ ''.'' @ fe_property e) (fe_constraints e) (fe_children e)"

text \<open>\<^verbatim>\<open>validateWithInheritance\<close> of a plain value. An array is no instance of a class with rules: it has no errors, wherever it stands.\<close>

function validate_plain :: "validation_env \<Rightarrow> jv \<Rightarrow> class_chain \<Rightarrow> field_error list" where
  "validate_plain E (JObj m) = (\<lambda>cls. check_class E cls (map (\<lambda>(k, v). (k, v, case v of
       JArr xs \<Rightarrow> (\<lambda>t. concat (map (\<lambda>(i, f). map (at_index i) (f t)) (zip [0..<length xs] (map (validate_plain E) xs))))
     | _ \<Rightarrow> validate_plain E v)) m))"
| "validate_plain E (JArr xs) = (\<lambda>cls. [])"
| "validate_plain E JUndef = (\<lambda>cls. [])"
| "validate_plain E JNull = (\<lambda>cls. [])"
| "validate_plain E (JBool b) = (\<lambda>cls. [])"
| "validate_plain E (JNum n) = (\<lambda>cls. [])"
| "validate_plain E (JStr t) = (\<lambda>cls. [])"
  by pat_completeness auto
termination
  by (relation "measure (\<lambda>(E, v). size v)") (simp_all only: in_measure wf_measure prod.case, (metis size_item)+)

subsection \<open>The pipe\<close>

datatype whitelist_mode = Strip | RefuseForbidden | Off

datatype pipe_error = ForbiddenProperties "string list" | InvalidProperties "(string \<times> string list) list"

text \<open>Errors with children answer for their children only.\<close>

fun process_errors :: "string \<Rightarrow> field_error list \<Rightarrow> (string \<times> string list) list" and process_error :: "string \<Rightarrow> field_error \<Rightarrow> (string \<times> string list) list" where
  "process_errors parent [] = []"
| "process_errors parent (e # es) = process_error parent e @ process_errors parent es"
| "process_error parent (FieldError p cs children) =
     (let key = (if parent = [] then p else parent @ ''.'' @ p)
      in if children = [] then [(key, cs)] else process_errors key children)"

text \<open>The keys of an array are its indices, none of them a field.\<close>

definition strip_top :: "validation_env \<Rightarrow> jv \<Rightarrow> class_chain \<Rightarrow> jv" where
  "strip_top E v cls = (case v of
       JArr xs \<Rightarrow> if getUnifiedFieldKeys cls = [] then v else JArr (map (\<lambda>x. JUndef) xs)
     | _ \<Rightarrow> strip_fields E v cls)"

definition forbidden_top :: "validation_env \<Rightarrow> jv \<Rightarrow> class_chain \<Rightarrow> string list" where
  "forbidden_top E v cls = (case v of
       JArr xs \<Rightarrow> if getUnifiedFieldKeys cls = [] then [] else map show_nat [0..<length xs]
     | _ \<Rightarrow> forbidden_fields E v cls [])"

record pipe_argument =
  pa_custom :: bool
  pa_basic :: bool
  pa_metatype :: "class_chain option"
  pa_instance :: bool

definition has_keys :: "jv \<Rightarrow> bool" where
  "has_keys v = (case v of JObj m \<Rightarrow> m \<noteq> [] | JArr xs \<Rightarrow> xs \<noteq> [] | _ \<Rightarrow> False)"

definition refuse_invalid :: "field_error list \<Rightarrow> jv \<Rightarrow> pipe_error + jv" where
  "refuse_invalid errors v = (if errors = [] then Inr v else Inl (InvalidProperties (process_errors [] errors)))"

text \<open>\<open>pa_instance\<close>: the value is an instance of the class already; then there is no original value.\<close>

definition pipe_transform :: "validation_env \<Rightarrow> whitelist_mode \<Rightarrow> pipe_argument \<Rightarrow> jv \<Rightarrow> pipe_error + jv" where
  "pipe_transform E mode a v =
     (if pa_custom a then Inr v
      else (case pa_metatype a of
          None \<Rightarrow> Inr v
        | Some cls \<Rightarrow>
            if pa_basic a \<or> \<not> (case v of JObj m \<Rightarrow> True | JArr xs \<Rightarrow> True | _ \<Rightarrow> False) then Inr v
            else if pa_instance a then refuse_invalid (check_class E cls []) v
            else if mode = RefuseForbidden \<and> has_keys v \<and> forbidden_top E v cls \<noteq> [] then Inl (ForbiddenProperties (forbidden_top E v cls))
            else (let v = (if mode = Strip \<and> has_keys v then strip_top E v cls else v)
                  in refuse_invalid (validate_plain E v cls) v)))"

subsection \<open>Both modes of the whitelist\<close>

definition is_array :: "jv \<Rightarrow> bool" where
  "is_array v = (case v of JArr xs \<Rightarrow> True | _ \<Rightarrow> False)"

text \<open>The entries of an object as the walks see them.\<close>

definition stripped_entry :: "validation_env \<Rightarrow> jv \<Rightarrow> class_chain \<Rightarrow> jv" where
  "stripped_entry E v t = (case v of JArr xs \<Rightarrow> JArr (map (\<lambda>x. strip_fields E x t) xs) | _ \<Rightarrow> strip_fields E v t)"

definition forbidden_entry :: "validation_env \<Rightarrow> jv \<Rightarrow> class_chain \<Rightarrow> string \<Rightarrow> string list" where
  "forbidden_entry E v t p = (case v of
       JArr xs \<Rightarrow> concat (map (\<lambda>(i, f). f t (p @ ''['' @ show_nat i @ '']'')) (zip [0..<length xs] (map (forbidden_fields E) xs)))
     | _ \<Rightarrow> forbidden_fields E v t p)"

lemma strip_object: "strip_fields E (JObj m) cls = (if getUnifiedFieldKeys cls = [] then JObj m
     else JObj (strip_entries E cls (map (\<lambda>(k, v). (k, v, stripped_entry E v)) m)))"
proof -
  have "(case v of JArr xs \<Rightarrow> (\<lambda>t. JArr (map (\<lambda>x. strip_fields E x t) xs)) | _ \<Rightarrow> strip_fields E v) = stripped_entry E v" for v
    by (rule ext, cases v) (simp_all add: stripped_entry_def)
  then show ?thesis by simp
qed

lemma forbidden_object: "forbidden_fields E (JObj m) cls p = (if getUnifiedFieldKeys cls = [] then []
     else forbidden_entries E cls p (map (\<lambda>(k, v). (k, forbidden_entry E v)) m))"
proof -
  have "(case v of
         JArr xs \<Rightarrow> (\<lambda>t p. concat (map (\<lambda>(i, f). f t (p @ ''['' @ show_nat i @ '']'')) (zip [0..<length xs] (map (forbidden_fields E) xs))))
       | _ \<Rightarrow> forbidden_fields E v) = forbidden_entry E v" for v
    by (intro ext, cases v) (simp_all add: forbidden_entry_def)
  then show ?thesis by simp
qed

lemma is_array_strip: "is_array (strip_fields E v t) = is_array v"
  by (cases v) (simp_all add: is_array_def)

lemma concat_indexed_empty: "(\<And>i x. x \<in> set xs \<Longrightarrow> f i x = []) \<Longrightarrow> concat (map (\<lambda>(i, x). f i x) (zip is xs)) = []"
  by (auto dest: set_zip_rightD)

lemma concat_indexed_each:
  assumes "concat (map (\<lambda>(i, x). f i x) (zip [0..<length xs] xs)) = []" "x \<in> set xs"
  shows "\<exists>i. f i x = []"
proof -
  obtain i where "i < length xs" "xs ! i = x" using assms(2) by (metis in_set_conv_nth)
  then have "(i, x) \<in> set (zip [0..<length xs] xs)" by (simp add: in_set_zip exI [of _ i])
  then have "f i x = []" using assms(1) by auto
  then show ?thesis by blast
qed

lemma zip_map_fun: "map (\<lambda>(i, f). g i f) (zip is (map h xs)) = map (\<lambda>(i, x). g i (h x)) (zip is xs)"
  by (simp add: zip_map2 case_prod_beta comp_def)

lemma forbidden_entry_other: "\<not> is_array v \<Longrightarrow> forbidden_entry E v t p = forbidden_fields E v t p"
  by (cases v) (simp_all add: forbidden_entry_def is_array_def)

lemma stripped_entry_other: "\<not> is_array v \<Longrightarrow> stripped_entry E v t = strip_fields E v t"
  by (cases v) (simp_all add: stripped_entry_def is_array_def)

lemma strip_clean: "forbidden_fields E (strip_fields E v cls) cls p = []"
proof (induction "size v" arbitrary: v cls p rule: less_induct)
  case less
  show ?case
  proof (cases v)
    case (JObj m)
    have entry: "forbidden_entry E (stripped_entry E w t) t q = []" if "(k, w) \<in> set m" for k w t q
    proof (cases w)
      case (JArr xs)
      have "forbidden_fields E (strip_fields E x t) t q' = []" if "x \<in> set xs" for x q'
        using less size_item(2) \<open>(k, w) \<in> set m\<close> JArr JObj that by blast
      then show ?thesis
        unfolding JArr forbidden_entry_def stripped_entry_def jv.case zip_map_fun length_map
        by (intro concat_indexed_empty) auto
    next
      case (JObj m')
      then have "\<not> is_array w" by (simp add: is_array_def)
      then show ?thesis using less [of w t q] size_item(1) [OF that] \<open>v = JObj m\<close>
        by (simp add: stripped_entry_other forbidden_entry_other is_array_strip del: strip_fields.simps forbidden_fields.simps)
    qed (simp_all add: forbidden_entry_def stripped_entry_def)
    show ?thesis
      using entry unfolding JObj strip_object
      by (auto simp: forbidden_object forbidden_entries_def strip_entries_def Let_def simp del: forbidden_fields.simps split: option.splits)
  qed simp_all
qed

lemma strip_unchanged: "forbidden_fields E v cls p = [] \<Longrightarrow> strip_fields E v cls = v"
proof (induction "size v" arbitrary: v cls p rule: less_induct)
  case less
  show ?case
  proof (cases v)
    case (JObj m)
    have entry: "stripped_entry E w t = w" if "(k, w) \<in> set m" "forbidden_entry E w t q = []" for k w t q
    proof (cases w)
      case (JArr xs)
      have "strip_fields E x t = x" if x: "x \<in> set xs" for x
      proof -
        have "concat (map (\<lambda>(i, x). forbidden_fields E x t (q @ ''['' @ show_nat i @ '']'')) (zip [0..<length xs] xs)) = []"
          using \<open>forbidden_entry E w t q = []\<close> unfolding JArr forbidden_entry_def jv.case zip_map_fun .
        then obtain i where "forbidden_fields E x t (q @ ''['' @ show_nat i @ '']'') = []"
          using concat_indexed_each [OF _ x] by blast
        then show ?thesis using less(1) size_item(2) \<open>(k, w) \<in> set m\<close> JArr JObj x by blast
      qed
      then show ?thesis unfolding JArr stripped_entry_def jv.case by (simp add: map_idI)
    next
      case (JObj m')
      then have "\<not> is_array w" by (simp add: is_array_def)
      then show ?thesis using less(1) [of w t q] size_item(1) [OF that(1)] that(2) \<open>v = JObj m\<close>
        by (simp add: stripped_entry_other forbidden_entry_other del: strip_fields.simps forbidden_fields.simps)
    qed (simp_all add: stripped_entry_def)
    have "strip_entries E cls (map (\<lambda>(k, v). (k, v, stripped_entry E v)) m) = m" if "getUnifiedFieldKeys cls \<noteq> []"
    proof -
      have "k \<in> set (getUnifiedFieldKeys cls) \<and> (case nested_class E cls k of Some t \<Rightarrow> stripped_entry E w t | None \<Rightarrow> w) = w"
        if "(k, w) \<in> set m" for k w
        using less(2) that entry [OF that] \<open>getUnifiedFieldKeys cls \<noteq> []\<close> unfolding JObj forbidden_object
        by (fastforce simp: forbidden_entries_def Let_def split: if_splits option.splits)
      then show ?thesis
        unfolding strip_entries_def by (induction m) (auto split: option.splits)
    qed
    then show ?thesis unfolding JObj strip_object by simp
  qed simp_all
qed

lemma has_keys_obj: "strip_top E (JObj m) cls = strip_fields E (JObj m) cls" "forbidden_top E (JObj m) cls = forbidden_fields E (JObj m) cls []"
  by (simp_all add: strip_top_def forbidden_top_def del: strip_fields.simps forbidden_fields.simps)

lemma no_keys: "forbidden_fields E (JObj []) cls p = []" "strip_fields E (JObj []) cls = JObj []"
  by (simp_all add: forbidden_entries_def strip_entries_def)

text \<open>An object is accepted in the stripping mode only clean, and only when the remaining object has no error.\<close>

lemma stripped_input_accepted:
  assumes "pipe_transform E Strip a (JObj m) = Inr w" "\<not> pa_custom a" "pa_metatype a = Some cls" "\<not> pa_basic a" "\<not> pa_instance a"
  shows "w = strip_fields E (JObj m) cls" "forbidden_fields E w cls p = []" "validate_plain E w cls = []"
proof -
  show w: "w = strip_fields E (JObj m) cls"
    using assms by (cases "m = []") (auto simp: pipe_transform_def has_keys_obj has_keys_def no_keys refuse_invalid_def Let_def
      simp del: strip_fields.simps forbidden_fields.simps validate_plain.simps split: if_splits)
  show "forbidden_fields E w cls p = []" unfolding w by (rule strip_clean)
  show "validate_plain E w cls = []"
    using assms by (cases "m = []") (auto simp: pipe_transform_def has_keys_obj has_keys_def no_keys refuse_invalid_def Let_def
      simp del: strip_fields.simps forbidden_fields.simps validate_plain.simps split: if_splits)
qed

text \<open>A property that a child has checked is not checked by its parents; one that the child only skipped is.\<close>

lemma checked_by_child: "k \<in> set validated \<Longrightarrow> check_property E l es (k, rs) (validated, errors) = (validated, errors)"
  by (simp add: check_property_def Let_def)

definition only_defined :: validation_env where
  "only_defined = \<lparr>vp_nested = (\<lambda>k. None), vp_check = (\<lambda>c v. v \<noteq> JUndef \<and> v \<noteq> JNull), vp_toDate = (\<lambda>t. None)\<rparr>"

definition plain_level :: "string \<Rightarrow> (string \<times> field_rule) list \<Rightarrow> class_level" where
  "plain_level name rules = \<lparr>cl_name = name, cl_included = [], cl_excluded = [], cl_forced = [], cl_rules = rules, cl_dates = []\<rparr>"

lemma optional_override_ignored:
  "validate_plain only_defined (JObj []) [plain_level ''Child'' [(''name'', OptionalRule)]] = []"
  "validate_plain only_defined (JObj []) [plain_level ''Child'' [(''name'', OptionalRule)], plain_level ''Parent'' [(''name'', CheckRule IsDefined False)]]
     = [FieldError ''name'' [''isDefined''] []]"
  by (simp_all add: only_defined_def plain_level_def check_class_def check_level_def group_rules_def check_property_def field_value_def is_optional_def
    condition_of_def nested_errors_def rule_violated_def constraint_name_def List.map_filter_def Let_def)

lemma instance_is_not_read:
  "pipe_transform only_defined Off \<lparr>pa_custom = False, pa_basic = False,
       pa_metatype = Some [plain_level ''Input'' [(''name'', CheckRule IsDefined False)]], pa_instance = i\<rparr> (JObj [(''name'', JStr ''x'')])
     = (if i then Inl (InvalidProperties [(''name'', [''isDefined''])]) else Inr (JObj [(''name'', JStr ''x'')]))"
  by (simp add: pipe_transform_def refuse_invalid_def only_defined_def plain_level_def check_class_def check_level_def group_rules_def check_property_def field_value_def is_optional_def
    condition_of_def nested_errors_def rule_violated_def constraint_name_def entry_value_def List.map_filter_def Let_def)

text \<open>
  C40. The two modes of the whitelist agree: an object passes when forbidden fields are refused exactly when it passes unchanged when they are
  removed, at every depth of its typed fields.
\<close>

theorem whitelist_modes_agree:
  "pipe_transform E RefuseForbidden a (JObj m) = Inr w \<longleftrightarrow> pipe_transform E Strip a (JObj m) = Inr w \<and> w = JObj m"
proof -
  have iff: "forbidden_fields E (JObj m) cls [] = [] \<longleftrightarrow> strip_fields E (JObj m) cls = JObj m" for cls
    using strip_unchanged [of E "JObj m" cls "[]"] strip_clean [of E "JObj m" cls "[]"] by metis
  show ?thesis
    by (cases "m = []")
      (auto simp: pipe_transform_def has_keys_obj has_keys_def iff refuse_invalid_def Let_def
        simp del: strip_fields.simps forbidden_fields.simps validate_plain.simps split: option.splits if_splits)
qed

end
