(* ===== verification/IamSync.thy ===== *)
theory IamSync
  imports AuthGuards Crud
begin

text \<open>
  \<^verbatim>\<open>CoreBetterAuthUserMapper\<close> of \<^verbatim>\<open>modules/better-auth/core-better-auth-user.mapper.ts\<close>, beside the session mapper of \<open>AuthGuards\<close>: passwords,
  e-mail addresses and deletions carried between the legacy sign-in and Better-Auth, and the status of the migration.

  The state is the collections of users, accounts and sessions, and the cache of the mapper. Every call of the database may fail:
  \<open>ad_faults\<close> tells which of the calls to come do. A failed call changes nothing, what earlier calls wrote stays. Fields of users that are
  asked for hold no arrays; the native driver stores \<^verbatim>\<open>undefined\<close> as null.
\<close>

subsection \<open>The collections\<close>

record iam_account =
  ac_key :: nat
  ac_userId :: string
  ac_accountId :: string
  ac_textId :: string
  ac_providerId :: string
  ac_password :: string
  ac_updatedAt :: int

record iam_session =
  se_userId :: string
  se_token :: string

record auth_db =
  ad_users :: doc_store
  ad_accounts :: "iam_account list"
  ad_sessions :: "iam_session list"
  ad_nextKey :: nat
  ad_cache :: user_cache
  ad_faults :: "bool list"

text \<open>
  bcrypt, SHA-256, scrypt, NFKC and random bytes are parameters: \<open>ie_bcrypt\<close> hashes with the salt of the call, \<open>ie_salt\<close>, \<open>ie_userBytes\<close>
  and \<open>ie_accountBytes\<close> are the random values of the call.
\<close>

record iam_env =
  ie_connected :: bool
  ie_now :: int
  ie_bcrypt :: "string \<Rightarrow> string"
  ie_compare :: "string \<Rightarrow> string \<Rightarrow> bool"
  ie_sha256 :: "string \<Rightarrow> string"
  ie_normalize :: "string \<Rightarrow> string"
  ie_scrypt :: "string \<Rightarrow> string \<Rightarrow> string"
  ie_salt :: string
  ie_userBytes :: "nat list"
  ie_accountBytes :: "nat list"
  ie_validId :: "string \<Rightarrow> bool"
  ie_newId :: "doc_store \<Rightarrow> string"

text \<open>An action ends with a value, or with \<open>None\<close> when a call throws; \<open>attempt\<close> is try and catch with a value instead.\<close>

type_synonym 'a db_action = "auth_db \<Rightarrow> 'a option \<times> auth_db"

definition next_call :: "auth_db \<Rightarrow> auth_db" where
  "next_call db = db\<lparr>ad_faults := tl (ad_faults db)\<rparr>"

definition fails_now :: "auth_db \<Rightarrow> bool" where
  "fails_now db = (ad_faults db \<noteq> [] \<and> hd (ad_faults db))"

definition db_call :: "(auth_db \<Rightarrow> 'a \<times> auth_db) \<Rightarrow> 'a db_action" where
  "db_call f db = (if fails_now db then (None, next_call db) else (case f (next_call db) of (x, db') \<Rightarrow> (Some x, db')))"

definition db_then :: "'a db_action \<Rightarrow> ('a \<Rightarrow> 'b db_action) \<Rightarrow> 'b db_action" where
  "db_then m k db = (case m db of (None, db') \<Rightarrow> (None, db') | (Some x, db') \<Rightarrow> k x db')"

definition db_return :: "'a \<Rightarrow> 'a db_action" where
  "db_return x db = (Some x, db)"

definition db_throw :: "'a db_action" where
  "db_throw db = (None, db)"

definition attempt :: "'a \<Rightarrow> 'a db_action \<Rightarrow> auth_db \<Rightarrow> 'a \<times> auth_db" where
  "attempt d m db = (case m db of (None, db') \<Rightarrow> (d, db') | (Some x, db') \<Rightarrow> (x, db'))"

subsection \<open>Queries\<close>

type_synonym user_pattern = "string \<times> jv \<Rightarrow> bool"

definition has_text :: "string \<Rightarrow> string \<Rightarrow> user_pattern" where
  "has_text k t e = (if k = ''_id'' then fst e = t else jget (snd e) k = JStr t)"

definition has_email_or_iamId :: "string \<Rightarrow> string \<Rightarrow> user_pattern" where
  "has_email_or_iamId email iamId d = (has_text ''email'' email d \<or> has_text ''iamId'' iamId d)"

definition has_iamId_or_id :: "string \<Rightarrow> user_pattern" where
  "has_iamId_or_id userId d = (has_text ''iamId'' userId d \<or> has_text ''id'' userId d)"

definition user_entry :: "user_pattern \<Rightarrow> auth_db \<Rightarrow> (string \<times> jv) option" where
  "user_entry P db = find P (ds_docs (ad_users db))"

definition find_user :: "user_pattern \<Rightarrow> (string \<times> jv) option db_action" where
  "find_user P = db_call (\<lambda>db. (user_entry P db, db))"

definition stored :: "jv \<Rightarrow> jv" where
  "stored v = (if v = JUndef then JNull else v)"

definition set_fields :: "(string, jv) jsmap \<Rightarrow> jv \<Rightarrow> jv" where
  "set_fields s d = foldl (\<lambda>d (k, v). jset d k (stored v)) d s"

definition put_user :: "string \<Rightarrow> jv \<Rightarrow> auth_db \<Rightarrow> auth_db" where
  "put_user i d db = db\<lparr>ad_users := (ad_users db)\<lparr>ds_docs := AList.update i d (ds_docs (ad_users db))\<rparr>\<rparr>"

text \<open>The document before and after an update of the first match.\<close>

definition update_entry :: "user_pattern \<Rightarrow> (string, jv) jsmap \<Rightarrow> (jv \<times> jv) option db_action" where
  "update_entry P s = db_call (\<lambda>db. case user_entry P db of
       None \<Rightarrow> (None, db)
     | Some (i, d) \<Rightarrow> (Some (d, set_fields s d), put_user i (set_fields s d) db))"

definition remove_user :: "user_pattern \<Rightarrow> bool db_action" where
  "remove_user P = db_call (\<lambda>db. case user_entry P db of
       None \<Rightarrow> (False, db)
     | Some (i, d) \<Rightarrow> (True, db\<lparr>ad_users := (ad_users db)\<lparr>ds_docs := AList.delete i (ds_docs (ad_users db))\<rparr>\<rparr>))"

definition is_credential :: "string \<Rightarrow> iam_account \<Rightarrow> bool" where
  "is_credential userId a = (ac_providerId a = ''credential'' \<and> ac_userId a = userId)"

definition find_account :: "string \<Rightarrow> iam_account option db_action" where
  "find_account userId = db_call (\<lambda>db. (find (is_credential userId) (ad_accounts db), db))"

definition remove_accounts :: "string \<Rightarrow> nat db_action" where
  "remove_accounts userId = db_call (\<lambda>db. (length (filter (\<lambda>a. ac_userId a = userId) (ad_accounts db)),
     db\<lparr>ad_accounts := filter (\<lambda>a. ac_userId a \<noteq> userId) (ad_accounts db)\<rparr>))"

definition remove_sessions :: "string \<Rightarrow> nat db_action" where
  "remove_sessions userId = db_call (\<lambda>db. (length (filter (\<lambda>s. se_userId s = userId) (ad_sessions db)),
     db\<lparr>ad_sessions := filter (\<lambda>s. se_userId s \<noteq> userId) (ad_sessions db)\<rparr>))"

subsection \<open>Passwords\<close>

definition hex_char :: "char \<Rightarrow> bool" where
  "hex_char c = (c \<in> set ''0123456789abcdefABCDEF'')"

definition is_sha256 :: "string \<Rightarrow> bool" where
  "is_sha256 p = (length p = 64 \<and> list_all hex_char p)"

definition normalizePasswordForIam :: "iam_env \<Rightarrow> string \<Rightarrow> string" where
  "normalizePasswordForIam E p = (if is_sha256 p then p else ie_sha256 E p)"

definition hashPasswordForBetterAuth :: "iam_env \<Rightarrow> string \<Rightarrow> string" where
  "hashPasswordForBetterAuth E p = ie_salt E @ '':'' @ ie_scrypt E (ie_normalize E (normalizePasswordForIam E p)) (ie_salt E)"

definition generateId :: "nat list \<Rightarrow> string" where
  "generateId bytes =
     (let chars = ''ABCDEFGHIJKLMNOPQRSTUVWXYZabcdefghijklmnopqrstuvwxyz0123456789''
      in map (\<lambda>i. chars ! ((bytes ! i) mod length chars)) [0..<21])"

definition given :: "string option \<Rightarrow> bool" where
  "given p = (p \<noteq> None \<and> p \<noteq> Some [])"

definition syncPasswordToLegacy :: "iam_env \<Rightarrow> string \<Rightarrow> string \<Rightarrow> string option \<Rightarrow> auth_db \<Rightarrow> bool \<times> auth_db" where
  "syncPasswordToLegacy E iamUserId userEmail plainPassword db =
     (if \<not> ie_connected E \<or> \<not> given plainPassword then (False, db)
      else attempt False
        (db_then (update_entry (has_email_or_iamId userEmail iamUserId)
            [(''password'', JStr (ie_bcrypt E (normalizePasswordForIam E (the plainPassword)))), (''updatedAt'', JNum (ie_now E))])
          (\<lambda>r. db_return (case r of None \<Rightarrow> False | Some (d, d') \<Rightarrow> d' \<noteq> d))) db)"

definition with_password :: "iam_env \<Rightarrow> string \<Rightarrow> nat \<Rightarrow> iam_account \<Rightarrow> iam_account" where
  "with_password E hash key a = (if ac_key a = key then a\<lparr>ac_password := hash, ac_updatedAt := ie_now E\<rparr> else a)"

definition set_account_password :: "iam_env \<Rightarrow> string \<Rightarrow> nat \<Rightarrow> unit db_action" where
  "set_account_password E hash key = db_call (\<lambda>db. ((), db\<lparr>ad_accounts := map (with_password E hash key) (ad_accounts db)\<rparr>))"

definition syncPasswordChangeToIam :: "iam_env \<Rightarrow> string \<Rightarrow> string \<Rightarrow> auth_db \<Rightarrow> bool \<times> auth_db" where
  "syncPasswordChangeToIam E userEmail plainPassword db =
     (if \<not> ie_connected E \<or> plainPassword = [] then (False, db)
      else attempt False
        (db_then (find_user (has_text ''email'' userEmail)) (\<lambda>r. case r of
            None \<Rightarrow> db_return False
          | Some (userId, d) \<Rightarrow> db_then (find_account userId) (\<lambda>existing. case existing of
                None \<Rightarrow> db_return False
              | Some a \<Rightarrow> db_then (set_account_password E (hashPasswordForBetterAuth E plainPassword) (ac_key a)) (\<lambda>_. db_return True)))) db)"

text \<open>The account of a migrated user, and the fields that make a legacy user known to Better-Auth.\<close>

definition new_account :: "iam_env \<Rightarrow> string \<Rightarrow> string \<Rightarrow> nat \<Rightarrow> iam_account" where
  "new_account E userId hash key = \<lparr>ac_key = key, ac_userId = userId, ac_accountId = userId, ac_textId = generateId (ie_accountBytes E),
     ac_providerId = ''credential'', ac_password = hash, ac_updatedAt = ie_now E\<rparr>"

definition insert_account :: "iam_env \<Rightarrow> string \<Rightarrow> string \<Rightarrow> unit db_action" where
  "insert_account E userId hash = db_call (\<lambda>db. ((), db\<lparr>ad_accounts := ad_accounts db @ [new_account E userId hash (ad_nextKey db)],
     ad_nextKey := Suc (ad_nextKey db)\<rparr>))"

definition full_name :: "jv \<Rightarrow> jv" where
  "full_name d = (let names = List.map_filter (\<lambda>k. case jget d k of JStr (c # cs) \<Rightarrow> Some (c # cs) | _ \<Rightarrow> None) [''firstName'', ''lastName'']
     in if names = [] then JUndef else JStr (js_join '' '' names))"

definition iam_fields :: "iam_env \<Rightarrow> jv \<Rightarrow> (string, jv) jsmap" where
  "iam_fields E d = [(''emailVerified'', JBool (jget d ''verified'' = JBool True)), (''iamId'', JStr (generateId (ie_userBytes E))),
     (''id'', JStr (generateId (ie_userBytes E))), (''name'', full_name d), (''updatedAt'', JNum (ie_now E))]"

definition legacy_password_ok :: "iam_env \<Rightarrow> string \<Rightarrow> jv \<Rightarrow> bool" where
  "legacy_password_ok E p d = (case jget d ''password'' of
       JStr hash \<Rightarrow> ie_compare E p hash \<or> ie_compare E (ie_sha256 E p) hash | _ \<Rightarrow> False)"

text \<open>The writes of a migration, after the account was looked up and the password checked.\<close>

definition migrate_finish :: "iam_env \<Rightarrow> string \<Rightarrow> jv \<Rightarrow> string \<Rightarrow> bool db_action" where
  "migrate_finish E userId d p =
     db_then (if jtruthy (jget d ''iamId'') then db_return None else update_entry (has_text ''_id'' userId) (iam_fields E d)) (\<lambda>_.
       db_then (insert_account E userId (hashPasswordForBetterAuth E p)) (\<lambda>_. db_return True))"

definition migrateAccountToIam :: "iam_env \<Rightarrow> string \<Rightarrow> string option \<Rightarrow> auth_db \<Rightarrow> bool \<times> auth_db" where
  "migrateAccountToIam E userEmail plainPassword db =
     (if \<not> ie_connected E then (False, db)
      else attempt False
        (db_then (find_user (has_text ''email'' userEmail)) (\<lambda>r. case r of
            None \<Rightarrow> db_return False
          | Some (userId, d) \<Rightarrow>
              if \<not> jtruthy (jget d ''password'') then db_return False
              else db_then (find_account userId) (\<lambda>existing.
                if existing \<noteq> None then db_return True
                else if \<not> given plainPassword then db_return False
                else if \<not> legacy_password_ok E (the plainPassword) d then db_return False
                else migrate_finish E userId d (the plainPassword)))) db)"

subsection \<open>Linking a user\<close>

record link_user =
  lk_email :: "string option"
  lk_id :: string
  lk_name :: "string option"
  lk_emailVerified :: "bool option"

definition put_all :: "(string, jv) jsmap \<Rightarrow> (string, jv) jsmap \<Rightarrow> (string, jv) jsmap" where
  "put_all s m = foldl (\<lambda>m (k, v). AList.update k v m) m s"

definition accepted_terms :: "int \<Rightarrow> (string, jv) jsmap \<Rightarrow> (string, jv) jsmap" where
  "accepted_terms now m =
     (if map_of m ''termsAndPrivacyAccepted'' = Some (JBool True)
      then AList.delete ''termsAndPrivacyAccepted'' (AList.update ''termsAndPrivacyAcceptedAt'' (JNum now) m)
      else AList.delete ''termsAndPrivacyAccepted'' m)"

definition name_fields :: "string option \<Rightarrow> (string, jv) jsmap" where
  "name_fields name = (case name of
       None \<Rightarrow> []
     | Some n \<Rightarrow> if n = [] then []
         else (let ws = js_split CHR '' '' n
               in (''firstName'', JStr (hd ws)) # (if length ws = 1 then [] else [(''lastName'', JStr (js_join '' '' (tl ws)))])))"

definition link_fields :: "iam_env \<Rightarrow> link_user \<Rightarrow> string \<Rightarrow> (string, jv) jsmap \<Rightarrow> (string, jv) jsmap" where
  "link_fields E u email additional = put_all (accepted_terms (ie_now E) additional)
     ([(''email'', JStr email)] @ name_fields (lk_name u) @ (case lk_emailVerified u of None \<Rightarrow> [] | Some b \<Rightarrow> [(''verified'', JBool b)])
      @ [(''iamId'', JStr (lk_id u)), (''updatedAt'', JNum (ie_now E))])"

text \<open>\<^verbatim>\<open>findOneAndUpdate\<close> with upsert: the document after it. Fields in \<^verbatim>\<open>$set\<close> and \<^verbatim>\<open>$setOnInsert\<close> at once are an error.\<close>

definition upsert_user :: "iam_env \<Rightarrow> user_pattern \<Rightarrow> (string, jv) jsmap \<Rightarrow> (string, jv) jsmap \<Rightarrow> jv db_action" where
  "upsert_user E P s onInsert =
     (if list_ex (\<lambda>(k, v). map_of s k \<noteq> None) onInsert then db_throw
      else db_call (\<lambda>db. case user_entry P db of
          Some (i, d) \<Rightarrow> (set_fields s d, put_user i (set_fields s d) db)
        | None \<Rightarrow> (let i = ie_newId E (ad_users db); d = set_fields (s @ onInsert) (JObj [(''_id'', JStr i)]) in (d, put_user i d db))))"

definition linkOrCreateUser :: "iam_env \<Rightarrow> link_user \<Rightarrow> (string, jv) jsmap \<Rightarrow> auth_db \<Rightarrow> jv option \<times> auth_db" where
  "linkOrCreateUser E u additional db =
     (if \<not> given (lk_email u) \<or> \<not> ie_connected E then (None, db)
      else (let email = the (lk_email u); P = has_email_or_iamId email (lk_id u)
        in attempt None
          (db_then (find_user P) (\<lambda>existing.
             db_then (upsert_user E P (link_fields E u email additional)
                 (if existing = None then [(''createdAt'', JNum (ie_now E)), (''roles'', JArr [])] else []))
               (\<lambda>d. db_return (Some d)))) db))"

subsection \<open>E-mail addresses\<close>

definition syncEmailChangeFromLegacy :: "iam_env \<Rightarrow> string \<Rightarrow> string \<Rightarrow> auth_db \<Rightarrow> bool \<times> auth_db" where
  "syncEmailChangeFromLegacy E oldEmail newEmail db =
     (if \<not> ie_connected E then (False, db)
      else attempt False
        (db_then (find_user (\<lambda>e. has_text ''email'' newEmail e \<or> has_text ''email'' oldEmail e)) (\<lambda>r. case r of
            None \<Rightarrow> db_return False
          | Some (userId, d) \<Rightarrow> db_then (remove_sessions userId) (\<lambda>_. db_return True))) db)"

definition syncEmailChangeFromIam :: "iam_env \<Rightarrow> string \<Rightarrow> string \<Rightarrow> auth_db \<Rightarrow> bool \<times> auth_db" where
  "syncEmailChangeFromIam E userId newEmail db =
     (if \<not> ie_connected E then (False, db)
      else attempt False
        (db_then (update_entry (has_iamId_or_id userId)
            [(''email'', JStr newEmail), (''refreshTokens'', JObj []), (''updatedAt'', JNum (ie_now E))])
          (\<lambda>r. db_return (r \<noteq> None))) db)"

subsection \<open>Deletion\<close>

record deletion =
  dl_accounts :: nat
  dl_sessions :: nat
  dl_success :: bool
  dl_user :: bool

definition nothing_deleted :: deletion where
  "nothing_deleted = \<lparr>dl_accounts = 0, dl_sessions = 0, dl_success = False, dl_user = False\<rparr>"

text \<open>The first query that finds a user.\<close>

fun find_by_any :: "user_pattern list \<Rightarrow> (string \<times> jv) option db_action" where
  "find_by_any [] = db_return None"
| "find_by_any (P # Ps) = db_then (find_user P) (\<lambda>r. if r = None then find_by_any Ps else db_return r)"

definition identified_by :: "iam_env \<Rightarrow> string \<Rightarrow> user_pattern list" where
  "identified_by E identifier = [has_text ''email'' identifier, has_text ''iamId'' identifier]
     @ (if ie_validId E identifier then [has_text ''_id'' identifier] else [])"

definition delete_found :: "(string \<times> jv) option \<Rightarrow> deletion db_action" where
  "delete_found r = (case r of
       None \<Rightarrow> db_return nothing_deleted
     | Some (userId, d) \<Rightarrow>
         db_then (remove_sessions userId) (\<lambda>sessions. db_then (remove_accounts userId) (\<lambda>accounts.
           db_then (remove_user (has_text ''_id'' userId)) (\<lambda>deleted.
             db_return \<lparr>dl_accounts = accounts, dl_sessions = sessions, dl_success = deleted, dl_user = deleted\<rparr>))))"

definition deleteUserFromBothSystems :: "iam_env \<Rightarrow> string \<Rightarrow> auth_db \<Rightarrow> deletion \<times> auth_db" where
  "deleteUserFromBothSystems E identifier db =
     (if \<not> ie_connected E then (nothing_deleted, db)
      else attempt nothing_deleted (db_then (find_by_any (identified_by E identifier)) delete_found) db)"

text \<open>\<open>isText\<close>: the id is given as a string, which must be one of an \<^verbatim>\<open>ObjectId\<close>.\<close>

definition cleanupIamDataForDeletedUser :: "iam_env \<Rightarrow> bool \<Rightarrow> string \<Rightarrow> auth_db \<Rightarrow> deletion \<times> auth_db" where
  "cleanupIamDataForDeletedUser E isText userId db =
     (if \<not> ie_connected E then (nothing_deleted, db)
      else attempt nothing_deleted
        (if isText \<and> \<not> ie_validId E userId then db_throw
         else db_then (remove_sessions userId) (\<lambda>sessions. db_then (remove_accounts userId) (\<lambda>accounts.
           db_return \<lparr>dl_accounts = accounts, dl_sessions = sessions, dl_success = True, dl_user = False\<rparr>))) db)"

definition cleanupLegacyDataForDeletedIamUser :: "iam_env \<Rightarrow> string \<Rightarrow> auth_db \<Rightarrow> bool \<times> auth_db" where
  "cleanupLegacyDataForDeletedIamUser E iamUserId db =
     (if \<not> ie_connected E then (False, db) else attempt False (remove_user (has_iamId_or_id iamUserId)) db)"

subsection \<open>The status of the migration\<close>

text \<open>The percentage is in hundredths, rounded half up.\<close>

record iam_migration_status =
  ms_canDisableLegacyAuth :: bool
  ms_fullyMigratedUsers :: nat
  ms_migrationPercentage :: nat
  ms_pendingMigrationUsers :: int
  ms_pendingUserEmails :: "jv list"
  ms_totalUsers :: nat
  ms_usersWithIamAccount :: nat
  ms_usersWithIamId :: nat

definition no_status :: iam_migration_status where
  "no_status = \<lparr>ms_canDisableLegacyAuth = False, ms_fullyMigratedUsers = 0, ms_migrationPercentage = 0, ms_pendingMigrationUsers = 0,
     ms_pendingUserEmails = [], ms_totalUsers = 0, ms_usersWithIamAccount = 0, ms_usersWithIamId = 0\<rparr>"

definition has_iamId :: "string \<times> jv \<Rightarrow> bool" where
  "has_iamId e = (jget (snd e) ''iamId'' \<noteq> JUndef \<and> jget (snd e) ''iamId'' \<noteq> JNull)"

definition has_credential :: "auth_db \<Rightarrow> string \<times> jv \<Rightarrow> bool" where
  "has_credential db e = list_ex (is_credential (fst e)) (ad_accounts db)"

definition count_users :: "(auth_db \<Rightarrow> user_pattern) \<Rightarrow> nat db_action" where
  "count_users P = db_call (\<lambda>db. (length (filter (P db) (ds_docs (ad_users db))), db))"

definition emails_of :: "(auth_db \<Rightarrow> user_pattern) \<Rightarrow> nat \<Rightarrow> jv list db_action" where
  "emails_of P limit = db_call (\<lambda>db. (map (\<lambda>e. jget (snd e) ''email'') (List.take limit (filter (P db) (ds_docs (ad_users db)))), db))"

definition credential_users :: "nat db_action" where
  "credential_users = db_call (\<lambda>db. (length (remdups (map ac_userId (filter (\<lambda>a. ac_providerId a = ''credential'') (ad_accounts db)))), db))"

definition percentage :: "nat \<Rightarrow> nat \<Rightarrow> nat" where
  "percentage part whole = (if whole = 0 then 0 else (20000 * part + whole) div (2 * whole))"

definition getMigrationStatus :: "iam_env \<Rightarrow> auth_db \<Rightarrow> iam_migration_status \<times> auth_db" where
  "getMigrationStatus E db =
     (if \<not> ie_connected E then (no_status, db)
      else attempt no_status
        (db_then (count_users (\<lambda>db e. True)) (\<lambda>totalUsers.
         db_then (count_users (\<lambda>db. has_iamId)) (\<lambda>usersWithIamId.
         db_then credential_users (\<lambda>usersWithIamAccount.
         db_then (count_users (\<lambda>db e. has_iamId e \<and> has_credential db e)) (\<lambda>fullyMigratedUsers.
         db_then (emails_of (\<lambda>db e. \<not> has_iamId e) 100) (\<lambda>without.
         db_then (if length without < 100 then emails_of (\<lambda>db e. has_iamId e \<and> \<not> has_credential db e) (100 - length without) else db_return []) (\<lambda>others.
         db_return \<lparr>ms_canDisableLegacyAuth = (totalUsers > 0 \<and> fullyMigratedUsers = totalUsers), ms_fullyMigratedUsers = fullyMigratedUsers,
           ms_migrationPercentage = percentage fullyMigratedUsers totalUsers, ms_pendingMigrationUsers = int totalUsers - int fullyMigratedUsers,
           ms_pendingUserEmails = filter jtruthy (without @ others), ms_totalUsers = totalUsers,
           ms_usersWithIamAccount = usersWithIamAccount, ms_usersWithIamId = usersWithIamId\<rparr>))))))) db)"

subsection \<open>Actions that keep a property\<close>

definition keeps :: "(auth_db \<Rightarrow> bool) \<Rightarrow> 'a db_action \<Rightarrow> bool" where
  "keeps I m = (\<forall>db. I db \<longrightarrow> I (snd (m db)))"

definition ignores_faults :: "(auth_db \<Rightarrow> bool) \<Rightarrow> bool" where
  "ignores_faults I = (\<forall>db bs. I (db\<lparr>ad_faults := bs\<rparr>) = I db)"

lemma keeps_return: "keeps I (db_return x)" "keeps I db_throw"
  by (simp_all add: keeps_def db_return_def db_throw_def)

lemma keeps_then: "keeps I m \<Longrightarrow> (\<And>x. keeps I (k x)) \<Longrightarrow> keeps I (db_then m k)"
  by (simp add: keeps_def db_then_def case_prod_beta split: option.split)

lemma keeps_call: "ignores_faults I \<Longrightarrow> (\<And>db. I db \<Longrightarrow> I (snd (f db))) \<Longrightarrow> keeps I (db_call f)"
  by (simp add: keeps_def db_call_def next_call_def ignores_faults_def case_prod_beta)

lemma keeps_attempt: "keeps I m \<Longrightarrow> I db \<Longrightarrow> I (snd (attempt d m db))"
  by (cases "m db"; cases "fst (m db)") (auto simp: keeps_def attempt_def)

lemmas keeps_rules = keeps_return keeps_then keeps_call

subsection \<open>One password for a user\<close>

definition one_credential :: "auth_db \<Rightarrow> bool" where
  "one_credential db = (distinct (map ac_userId (filter (\<lambda>a. ac_providerId a = ''credential'') (ad_accounts db)))
     \<and> distinct (map ac_key (ad_accounts db)) \<and> list_all (\<lambda>a. ac_key a < ad_nextKey db) (ad_accounts db))"

lemma one_credential_ignores: "ignores_faults one_credential"
  by (simp add: ignores_faults_def one_credential_def)

lemma one_credential_accounts:
  "ad_accounts db' = ad_accounts db \<Longrightarrow> ad_nextKey db' = ad_nextKey db \<Longrightarrow> one_credential db' = one_credential db"
  by (simp add: one_credential_def)

lemma distinct_map_sublist: "distinct (map f (filter P xs)) \<Longrightarrow> distinct (map f (filter P (filter Q xs)))"
  by (induction xs) auto

lemma one_credential_filter: "one_credential db \<Longrightarrow> one_credential (db\<lparr>ad_accounts := filter Q (ad_accounts db)\<rparr>)"
  using distinct_map_sublist [of ac_userId "\<lambda>a. ac_providerId a = ''credential''" "ad_accounts db" Q]
  by (simp add: one_credential_def distinct_map_filter list_all_iff del: filter_filter)

lemma with_password_keeps:
  "ac_key (with_password E hash key a) = ac_key a" "ac_userId (with_password E hash key a) = ac_userId a"
  "ac_providerId (with_password E hash key a) = ac_providerId a"
  by (simp_all add: with_password_def)

lemma map_with_password:
  "map ac_key (map (with_password E hash key) as) = map ac_key as"
  "map ac_userId (filter (\<lambda>a. ac_providerId a = ''credential'') (map (with_password E hash key) as)) = map ac_userId (filter (\<lambda>a. ac_providerId a = ''credential'') as)"
  by (induction as) (simp_all add: with_password_keeps)

lemma one_credential_password: "one_credential db \<Longrightarrow> one_credential (db\<lparr>ad_accounts := map (with_password E hash key) (ad_accounts db)\<rparr>)"
  unfolding one_credential_def by (simp add: map_with_password with_password_keeps list.pred_map comp_def del: map_map filter_map)

lemma next_call_fields [simp]:
  "ad_users (next_call db) = ad_users db" "ad_accounts (next_call db) = ad_accounts db" "ad_sessions (next_call db) = ad_sessions db"
  "ad_nextKey (next_call db) = ad_nextKey db" "user_entry P (next_call db) = user_entry P db"
  by (simp_all add: next_call_def user_entry_def)

lemma put_user_fields [simp]:
  "ad_accounts (put_user i d db) = ad_accounts db" "ad_sessions (put_user i d db) = ad_sessions db" "ad_nextKey (put_user i d db) = ad_nextKey db"
  by (simp_all add: put_user_def)

definition same_accounts :: "auth_db \<Rightarrow> auth_db \<Rightarrow> bool" where
  "same_accounts db db' = (ad_accounts db' = ad_accounts db \<and> ad_nextKey db' = ad_nextKey db)"

lemma same_accounts_call: "(\<And>db. same_accounts db (snd (f db))) \<Longrightarrow> same_accounts db (snd (db_call f db))"
  by (simp add: db_call_def case_prod_beta same_accounts_def)

lemma same_accounts_user:
  "same_accounts db (snd (find_user P db))" "same_accounts db (snd (update_entry P s db))" "same_accounts db (snd (find_account i db))"
  "same_accounts db (snd (remove_user P db))" "same_accounts db (snd (remove_sessions i db))" "same_accounts db (snd (upsert_user E P s t db))"
  unfolding find_user_def update_entry_def find_account_def remove_user_def remove_sessions_def upsert_user_def
       apply (rule same_accounts_call, simp add: same_accounts_def split: option.split)+
  apply (simp add: db_throw_def)
  apply (intro conjI impI)
   apply (simp add: same_accounts_def)
  apply (rule same_accounts_call, simp add: same_accounts_def Let_def split: option.split)
  done

lemma same_accounts_one: "same_accounts db db' \<Longrightarrow> one_credential db' = one_credential db"
  by (rule one_credential_accounts) (simp_all add: same_accounts_def)

lemma finish_accounts:
  "same_accounts db (snd (migrate_finish E i d p db)) \<or>
   (ad_accounts (snd (migrate_finish E i d p db)) = ad_accounts db @ [new_account E i (hashPasswordForBetterAuth E p) (ad_nextKey db)]
    \<and> ad_nextKey (snd (migrate_finish E i d p db)) = Suc (ad_nextKey db))"
proof -
  let ?m = "if jtruthy (jget d ''iamId'') then db_return None else update_entry (has_text ''_id'' i) (iam_fields E d)"
  obtain r db1 where db1: "?m db = (r, db1)" by fastforce
  have "same_accounts db (snd (?m db))" using same_accounts_user(2) by (simp add: db_return_def same_accounts_def)
  then have same: "same_accounts db db1" using db1 by simp
  have ins: "insert_account E i (hashPasswordForBetterAuth E p) db1 = (None, next_call db1) \<or> insert_account E i (hashPasswordForBetterAuth E p) db1 =
      (Some (), (next_call db1)\<lparr>ad_accounts := ad_accounts db1 @ [new_account E i (hashPasswordForBetterAuth E p) (ad_nextKey db1)], ad_nextKey := Suc (ad_nextKey db1)\<rparr>)"
    by (simp add: insert_account_def db_call_def)
  show ?thesis
  proof (cases r)
    case None
    then show ?thesis using db1 same by (simp add: migrate_finish_def db_then_def)
  next
    case (Some x)
    then show ?thesis using db1 same ins by (auto simp: migrate_finish_def db_then_def db_return_def same_accounts_def)
  qed
qed

lemma call_result: "db_call f db = (r, db') \<Longrightarrow> r = None \<and> db' = next_call db \<or> r = Some (fst (f (next_call db))) \<and> db' = snd (f (next_call db))"
  by (auto simp: db_call_def case_prod_beta split: if_splits)

text \<open>
  A migration adds at most one account, only for the user with the e-mail address, only when there is none yet and the presented password
  opens the legacy sign-in, and with the hash of that password; whichever calls of the database fail.
\<close>

definition migrates :: "iam_env \<Rightarrow> string \<Rightarrow> string option \<Rightarrow> auth_db \<Rightarrow> auth_db \<Rightarrow> bool" where
  "migrates E email pw db db' = (\<exists>i d p. user_entry (has_text ''email'' email) db = Some (i, d) \<and> find (is_credential i) (ad_accounts db) = None
     \<and> pw = Some p \<and> legacy_password_ok E p d
     \<and> ad_accounts db' = ad_accounts db @ [new_account E i (hashPasswordForBetterAuth E p) (ad_nextKey db)] \<and> ad_nextKey db' = Suc (ad_nextKey db))"

lemma migration_adds:
  "same_accounts db (snd (migrateAccountToIam E email pw db)) \<or> migrates E email pw db (snd (migrateAccountToIam E email pw db))"
proof (cases "ie_connected E")
  case True
  obtain r db1 where db1: "find_user (has_text ''email'' email) db = (r, db1)" by fastforce
  note same1 = same_accounts_user(1) [of db "has_text ''email'' email", unfolded db1 snd_conv]
  have r: "r = None \<or> r = Some (user_entry (has_text ''email'' email) db)" "user_entry P db1 = user_entry P db" for P
    using call_result [OF db1 [unfolded find_user_def]] by auto
  show ?thesis
  proof (cases "\<exists>i d. r = Some (Some (i, d)) \<and> jtruthy (jget d ''password'')")
    case False
    then show ?thesis using True db1 same1
      by (auto simp: migrateAccountToIam_def attempt_def db_then_def db_return_def split: option.splits)
  next
    case found: True
    then obtain i d where i: "r = Some (Some (i, d))" "jtruthy (jget d ''password'')" by blast
    obtain r2 db2 where db2: "find_account i db1 = (r2, db2)" by fastforce
    have same2: "same_accounts db db2" using same1 same_accounts_user(3) [of db1 i] db2 by (simp add: same_accounts_def)
    have r2: "r2 = None \<or> r2 = Some (find (is_credential i) (ad_accounts db))"
      using call_result [OF db2 [unfolded find_account_def]] same1 by (auto simp: same_accounts_def)
    have u: "user_entry (has_text ''email'' email) db = Some (i, d)" using r(1) i(1) by auto
    show ?thesis
    proof (cases "r2 = Some None \<and> given pw \<and> legacy_password_ok E (the pw) d")
      case False
      then have "snd (migrateAccountToIam E email pw db) = db2"
        using True db1 db2 i by (auto simp: migrateAccountToIam_def attempt_def db_then_def db_return_def split: option.splits)
      then show ?thesis using same2 by simp
    next
      case run: True
      then obtain p where p: "pw = Some p" "legacy_password_ok E p d" "find (is_credential i) (ad_accounts db) = None"
        using r2 by (auto simp: given_def)
      have "snd (migrateAccountToIam E email pw db) = snd (migrate_finish E i d p db2)"
        using True db1 db2 i run p(1) by (auto simp: migrateAccountToIam_def attempt_def db_then_def db_return_def split: option.splits prod.splits)
      then show ?thesis using finish_accounts [of db2 E i d p] same2 u p by (auto simp: same_accounts_def migrates_def)
    qed
  qed
qed (simp add: migrateAccountToIam_def same_accounts_def)

lemma migrates_one:
  assumes "migrates E email pw db db'" "one_credential db"
  shows "one_credential db'"
proof -
  obtain i h where i: "find (is_credential i) (ad_accounts db) = None" "ad_accounts db' = ad_accounts db @ [new_account E i h (ad_nextKey db)]"
    "ad_nextKey db' = Suc (ad_nextKey db)" using assms(1) by (auto simp: migrates_def)
  have "i \<notin> set (map ac_userId (filter (\<lambda>a. ac_providerId a = ''credential'') (ad_accounts db)))"
    using i(1) by (auto simp: find_None_iff is_credential_def)
  then show ?thesis
    using assms(2) i by (auto simp: one_credential_def new_account_def list_all_iff intro: less_SucI)
qed

text \<open>The calls of the mapper, and faults to come.\<close>

inductive iam_step :: "auth_db \<Rightarrow> auth_db \<Rightarrow> bool" where
  to_legacy: "iam_step db (snd (syncPasswordToLegacy E u m p db))"
| to_iam: "iam_step db (snd (syncPasswordChangeToIam E m q db))"
| migrate: "iam_step db (snd (migrateAccountToIam E m p db))"
| link: "iam_step db (snd (linkOrCreateUser E v fs db))"
| email_legacy: "iam_step db (snd (syncEmailChangeFromLegacy E m m' db))"
| email_iam: "iam_step db (snd (syncEmailChangeFromIam E u m db))"
| delete_both: "iam_step db (snd (deleteUserFromBothSystems E u db))"
| clean_iam: "iam_step db (snd (cleanupIamDataForDeletedUser E b u db))"
| clean_legacy: "iam_step db (snd (cleanupLegacyDataForDeletedIamUser E u db))"
| faults: "iam_step db (db\<lparr>ad_faults := bs\<rparr>)"

lemma keeps_same: "(\<And>db. same_accounts db (snd (m db))) \<Longrightarrow> keeps one_credential m"
  using same_accounts_one by (auto simp: keeps_def)

lemmas keeps_user = same_accounts_user [THEN keeps_same]

lemma keeps_accounts: "keeps one_credential (remove_accounts i)" "keeps one_credential (set_account_password E h k)"
  unfolding remove_accounts_def set_account_password_def
  by (rule keeps_call [OF one_credential_ignores], simp add: one_credential_filter one_credential_password)+

lemma keeps_find_by_any: "keeps one_credential (find_by_any Ps)"
  by (induction Ps) (simp_all add: keeps_rules keeps_user)

lemma keeps_case: "keeps I a \<Longrightarrow> (\<And>x. keeps I (b x)) \<Longrightarrow> keeps I (case r of None \<Rightarrow> a | Some x \<Rightarrow> b x)"
  by (cases r) simp_all

lemma keeps_pair: "(\<And>x y. keeps I (b x y)) \<Longrightarrow> keeps I (case r of (x, y) \<Rightarrow> b x y)"
  by (cases r) simp

lemma step_keeps_one: "iam_step db db' \<Longrightarrow> one_credential db \<Longrightarrow> one_credential db'"
proof (induction rule: iam_step.induct)
  case (migrate db E m p)
  then show ?case using migration_adds [of db E m p] migrates_one same_accounts_one by metis
next
  case (faults db bs)
  then show ?case by (simp add: one_credential_def)
qed (simp_all add: syncPasswordToLegacy_def syncPasswordChangeToIam_def linkOrCreateUser_def syncEmailChangeFromLegacy_def syncEmailChangeFromIam_def
  deleteUserFromBothSystems_def delete_found_def cleanupIamDataForDeletedUser_def cleanupLegacyDataForDeletedIamUser_def Let_def
  keeps_attempt keeps_return keeps_then keeps_user keeps_accounts keeps_find_by_any keeps_case keeps_pair)

text \<open>
  C32. However the calls of the mapper follow each other and whichever of their database calls fail, a user has at most one account with a
  password.
\<close>

theorem one_password_for_each_user:
  assumes "iam_step\<^sup>*\<^sup>* db db'" "one_credential db"
  shows "one_credential db'"
  using assms by (induction rule: rtranclp_induct) (auto intro: step_keeps_one)

subsection \<open>When the legacy sign-in can go\<close>

definition fully_migrated :: "auth_db \<Rightarrow> string \<times> jv \<Rightarrow> bool" where
  "fully_migrated db e = (has_iamId e \<and> has_credential db e)"

lemma read_then:
  "db_then (db_call (\<lambda>db. (g db, db))) k db = (if fails_now db then (None, next_call db) else k (g (next_call db)) (next_call db))"
  by (simp add: db_then_def db_call_def)

lemma return_then: "db_then (db_return x) k = k x"
  by (simp add: db_then_def db_return_def fun_eq_iff)

lemma has_credential_next: "has_credential (next_call db) e = has_credential db e"
  by (simp add: has_credential_def)

lemma fails_take: "list_ex (\<lambda>b. b) (List.take (Suc n) (ad_faults db)) = (fails_now db \<or> list_ex (\<lambda>b. b) (List.take n (ad_faults (next_call db))))"
  by (cases "ad_faults db") (simp_all add: fails_now_def next_call_def)

lemma all_filtered: "length (filter P xs) = length xs \<longleftrightarrow> list_all P xs"
  using sum_length_filter_compl [of P xs] by (auto simp: list_all_iff filter_empty_conv)

text \<open>
  C25. The status says that the legacy sign-in can be switched off exactly when there are users, each of them is known to Better-Auth and has
  a password there, and no call of the database has failed.
\<close>

theorem legacy_auth_can_go_iff:
  "ms_canDisableLegacyAuth (fst (getMigrationStatus E db)) \<longleftrightarrow> ie_connected E \<and> ds_docs (ad_users db) \<noteq> []
     \<and> list_all (fully_migrated db) (ds_docs (ad_users db)) \<and> \<not> list_ex (\<lambda>b. b) (List.take 6 (ad_faults db))"
proof (cases "list_all (fully_migrated db) (ds_docs (ad_users db))")
  case True
  then have "filter (\<lambda>e. \<not> has_iamId e) (ds_docs (ad_users db)) = []" by (auto simp: filter_empty_conv list_all_iff fully_migrated_def)
  moreover have "list_all (\<lambda>e. has_iamId e \<and> has_credential db e) (ds_docs (ad_users db))" using True by (simp add: list_all_iff fully_migrated_def)
  ultimately show ?thesis
    using True
    by (simp add: getMigrationStatus_def attempt_def count_users_def emails_of_def credential_users_def read_then has_credential_next fails_take
      no_status_def db_return_def numeral_eq_Suc all_filtered)
next
  case False
  then have "length (filter (\<lambda>e. has_iamId e \<and> has_credential db e) (ds_docs (ad_users db))) \<noteq> length (ds_docs (ad_users db))"
    using all_filtered [of "\<lambda>e. has_iamId e \<and> has_credential db e" "ds_docs (ad_users db)"] by (simp add: list_all_iff fully_migrated_def)
  then show ?thesis
    using False
    by (simp add: getMigrationStatus_def attempt_def count_users_def emails_of_def credential_users_def read_then return_then has_credential_next
      no_status_def db_return_def [of _ "next_call _"])
qed

subsection \<open>Deletion and passwords\<close>

lemma user_entry_Some: "user_entry P db = Some e \<Longrightarrow> P e \<and> e \<in> set (ds_docs (ad_users db))"
  by (auto simp: user_entry_def find_Some_iff)

text \<open>A call that went through, and its effect.\<close>

lemma call_worked: "db_call f db = (Some x, db') \<Longrightarrow> f (next_call db) = (x, db')"
  by (auto simp: db_call_def split: if_splits prod.splits)

lemma then_worked: "db_then m k db = (Some y, db') \<longleftrightarrow> (\<exists>x db1. m db = (Some x, db1) \<and> k x db1 = (Some y, db'))"
  by (auto simp: db_then_def split: prod.splits option.splits)

lemma attempt_worked: "attempt d m db = (x, db') \<Longrightarrow> x \<noteq> d \<Longrightarrow> m db = (Some x, db')"
  by (auto simp: attempt_def split: prod.splits option.splits)

lemma find_by_any_worked:
  "find_by_any Ps db = (Some r, db') \<Longrightarrow> ad_users db' = ad_users db \<and> ad_accounts db' = ad_accounts db \<and> ad_sessions db' = ad_sessions db
     \<and> (case r of None \<Rightarrow> True | Some e \<Rightarrow> list_ex (\<lambda>P. user_entry P db = Some e) Ps)"
proof (induction Ps arbitrary: db)
  case (Cons P Ps)
  then obtain x db1 where x: "find_user P db = (Some x, db1)" "(if x = None then find_by_any Ps else db_return x) db1 = (Some r, db')"
    by (auto simp: then_worked)
  have 1: "x = user_entry P db" "db1 = next_call db" using call_worked [OF x(1) [unfolded find_user_def]] by auto
  have u: "user_entry Q (next_call db) = user_entry Q db" for Q by simp
  show ?case
  proof (cases x)
    case None
    then show ?thesis using Cons.IH [of db1] x(2) 1 u by (auto split: option.splits simp: list_ex_iff)
  next
    case (Some e)
    have u: "user_entry P db = Some e" using 1(1) Some by simp
    have "r = Some e" "db' = next_call db" using x(2) Some 1(2) by (auto simp: db_return_def)
    then show ?thesis using u by simp
  qed
qed (auto simp: db_return_def)

text \<open>
  A deletion from both systems that reports success has removed the user it found, by e-mail address or id, with all its accounts and
  sessions, and nobody else's.
\<close>

theorem deletion_is_complete:
  assumes "deleteUserFromBothSystems E identifier db = (r, db')" "dl_success r"
  shows "\<exists>i d. (has_text ''email'' identifier (i, d) \<or> has_text ''iamId'' identifier (i, d) \<or> i = identifier)
    \<and> (i, d) \<in> set (ds_docs (ad_users db)) \<and> ds_docs (ad_users db') = AList.delete i (ds_docs (ad_users db))
    \<and> ad_accounts db' = filter (\<lambda>a. ac_userId a \<noteq> i) (ad_accounts db) \<and> ad_sessions db' = filter (\<lambda>s. se_userId s \<noteq> i) (ad_sessions db)"
proof -
  have ne: "r \<noteq> nothing_deleted" "ie_connected E"
    using assms by (auto simp: nothing_deleted_def deleteUserFromBothSystems_def split: if_splits)
  then have "attempt nothing_deleted (db_then (find_by_any (identified_by E identifier)) delete_found) db = (r, db')"
    using assms(1) by (simp add: deleteUserFromBothSystems_def)
  then have "db_then (find_by_any (identified_by E identifier)) delete_found db = (Some r, db')" using ne(1) by (rule attempt_worked)
  then obtain f db1 where f: "find_by_any (identified_by E identifier) db = (Some f, db1)" and k: "delete_found f db1 = (Some r, db')"
    by (auto simp: then_worked)
  note same = find_by_any_worked [OF f]
  obtain i d where i: "f = Some (i, d)" using k ne by (cases f) (auto simp: delete_found_def db_return_def)
  obtain s a u db2 db3 where s: "remove_sessions i db1 = (Some s, db2)" and a: "remove_accounts i db2 = (Some a, db3)"
    and u: "remove_user (has_text ''_id'' i) db3 = (Some u, db')" and r: "r = \<lparr>dl_accounts = a, dl_sessions = s, dl_success = u, dl_user = u\<rparr>"
    using k i by (auto simp: delete_found_def then_worked db_return_def)
  note effects = call_worked [OF s [unfolded remove_sessions_def]] call_worked [OF a [unfolded remove_accounts_def]] call_worked [OF u [unfolded remove_user_def]]
  have "list_ex (\<lambda>P. user_entry P db = Some (i, d)) (identified_by E identifier)" using same i by simp
  then have m: "(has_text ''email'' identifier (i, d) \<or> has_text ''iamId'' identifier (i, d) \<or> i = identifier) \<and> (i, d) \<in> set (ds_docs (ad_users db))"
    by (auto simp: identified_by_def has_text_def dest!: user_entry_Some split: if_splits)
  obtain i' d' where "user_entry (has_text ''_id'' i) (next_call db3) = Some (i', d')"
    using effects(3) assms(2) r by (cases "user_entry (has_text ''_id'' i) (next_call db3)") auto
  moreover from this have "i' = i" by (auto simp: has_text_def dest!: user_entry_Some)
  ultimately have "ds_docs (ad_users db') = AList.delete i (ds_docs (ad_users db3)) \<and> ad_accounts db' = ad_accounts db3 \<and> ad_sessions db' = ad_sessions db3"
    using effects(3) by auto
  then show ?thesis using m same effects(1,2) by (intro exI [of _ i] exI [of _ d]) auto
qed

text \<open>The documented behaviour of bcrypt: the hash of a password verifies with it. What else verifies is left open, as only 72 bytes count.\<close>

definition bcrypt_law :: "iam_env \<Rightarrow> bool" where
  "bcrypt_law E = (\<forall>p. ie_compare E p (ie_bcrypt E p))"

lemma set_fields_obj: "\<exists>m'. set_fields s (JObj m) = JObj m'"
  by (induction s rule: rev_induct) (auto simp: set_fields_def jset_def)

lemma set_fields_get:
  "jget (set_fields s (JObj m)) k = (case map_of (rev s) k of Some v \<Rightarrow> stored v | None \<Rightarrow> jget (JObj m) k)"
proof (induction s rule: rev_induct)
  case (snoc x s)
  obtain m' where "set_fields s (JObj m) = JObj m'" using set_fields_obj by blast
  then show ?case using snoc by (cases x) (simp add: set_fields_def jset_def map_of_update_eq)
qed (simp add: set_fields_def)

text \<open>
  After the password of a Better-Auth sign-up was carried over, it opens the legacy sign-in, as it was sent and hashed.
\<close>

theorem synced_password_opens_legacy:
  assumes "syncPasswordToLegacy E iamId email (Some p) db = (True, db')" and "bcrypt_law E"
    and "list_all (\<lambda>(i, d). jfields d \<noteq> []) (ds_docs (ad_users db))"
  shows "\<exists>i d. map_of (ds_docs (ad_users db')) i = Some d \<and> has_email_or_iamId email iamId (i, d)
    \<and> legacy_password_ok E p d \<and> legacy_password_ok E (normalizePasswordForIam E p) d"
proof -
  let ?h = "[(''password'', JStr (ie_bcrypt E (normalizePasswordForIam E p))), (''updatedAt'', JNum (ie_now E))]"
  have c: "ie_connected E" "given (Some p)" using assms(1) by (auto simp: syncPasswordToLegacy_def split: if_splits)
  then have "attempt False (db_then (update_entry (has_email_or_iamId email iamId) ?h)
      (\<lambda>r. db_return (case r of None \<Rightarrow> False | Some (d, d') \<Rightarrow> d' \<noteq> d))) db = (True, db')"
    using assms(1) by (simp add: syncPasswordToLegacy_def)
  from attempt_worked [OF this] obtain r where r: "update_entry (has_email_or_iamId email iamId) ?h db = (Some r, db')" "r \<noteq> None"
    by (auto simp: then_worked db_return_def split: option.splits)
  obtain i d where i: "user_entry (has_email_or_iamId email iamId) db = Some (i, d)" and db': "db' = put_user i (set_fields ?h d) (next_call db)"
    using call_worked [OF r(1) [unfolded update_entry_def]] r(2) by (auto split: option.splits)
  note e = user_entry_Some [OF i]
  obtain m where m: "d = JObj m" using e assms(3) by (cases d) (auto simp: list_all_iff jfields_def)
  have "map_of (ds_docs (ad_users db')) i = Some (set_fields ?h d)" by (simp add: db' put_user_def map_of_update_eq)
  moreover have "has_email_or_iamId email iamId (i, set_fields ?h d)"
    using e by (simp add: m has_email_or_iamId_def has_text_def set_fields_get del: jget_simps)
  moreover have "jget (set_fields ?h d) ''password'' = JStr (ie_bcrypt E (normalizePasswordForIam E p))"
    unfolding m set_fields_get by (simp add: stored_def)
  ultimately show ?thesis using assms(2) by (intro exI [of _ i] exI [of _ "set_fields ?h d"]) (simp add: legacy_password_ok_def bcrypt_law_def normalizePasswordForIam_def)
qed

subsection \<open>Two migrations at once\<close>

definition plain_iam :: iam_env where
  "plain_iam = \<lparr>ie_connected = True, ie_now = 7, ie_bcrypt = (\<lambda>p. ''b'' @ p), ie_compare = (\<lambda>p h. h = ''b'' @ p), ie_sha256 = (\<lambda>p. ''h'' @ p),
     ie_normalize = (\<lambda>p. p), ie_scrypt = (\<lambda>p s. p), ie_salt = ''s'', ie_userBytes = replicate 21 0, ie_accountBytes = replicate 21 1,
     ie_validId = (\<lambda>i. True), ie_newId = (\<lambda>w. ''n'')\<rparr>"

definition legacy_ada :: jv where
  "legacy_ada = JObj [(''email'', JStr ''ada''), (''password'', JStr ''bpw''), (''verified'', JBool True)]"

definition legacy_db :: auth_db where
  "legacy_db = \<lparr>ad_users = \<lparr>ds_docs = [(''u1'', legacy_ada)], ds_created = 1\<rparr>, ad_accounts = [], ad_sessions = [\<lparr>se_userId = ''u1'', se_token = ''t''\<rparr>],
     ad_nextKey = 0, ad_cache = [], ad_faults = []\<rparr>"

text \<open>
  Two migrations of a user at the same time both find no account and both add one. A later change of the password reaches the first only: the
  old password still stands in the other.
\<close>

theorem concurrent_migrations_duplicate:
  "let db1 = snd (migrateAccountToIam plain_iam ''ada'' (Some ''pw'') legacy_db);
       db2 = snd (attempt False (migrate_finish plain_iam ''u1'' legacy_ada ''pw'') db1);
       (synced, db3) = syncPasswordChangeToIam plain_iam ''ada'' ''new'' db2
   in one_credential legacy_db \<and> \<not> one_credential db2 \<and> synced
     \<and> map ac_password (ad_accounts db3) = [hashPasswordForBetterAuth plain_iam ''new'', hashPasswordForBetterAuth plain_iam ''pw'']"
  by code_simp

subsection \<open>Witnesses\<close>

theorem one_password_for_each_user_witness:
  "one_credential (snd (deleteUserFromBothSystems plain_iam ''ada'' (snd (migrateAccountToIam plain_iam ''ada'' (Some ''pw'') legacy_db))))"
  by (rule one_password_for_each_user [of legacy_db]) (blast intro: rtranclp.intros iam_step.intros, code_simp)

theorem deletion_is_complete_witness:
  "\<exists>i d. (has_text ''email'' ''ada'' (i, d) \<or> has_text ''iamId'' ''ada'' (i, d) \<or> i = ''ada'')
    \<and> (i, d) \<in> set (ds_docs (ad_users legacy_db))
    \<and> ds_docs (ad_users (snd (deleteUserFromBothSystems plain_iam ''ada'' legacy_db))) = AList.delete i (ds_docs (ad_users legacy_db))
    \<and> ad_accounts (snd (deleteUserFromBothSystems plain_iam ''ada'' legacy_db)) = filter (\<lambda>a. ac_userId a \<noteq> i) (ad_accounts legacy_db)
    \<and> ad_sessions (snd (deleteUserFromBothSystems plain_iam ''ada'' legacy_db)) = filter (\<lambda>s. se_userId s \<noteq> i) (ad_sessions legacy_db)"
  by (rule deletion_is_complete [where E = plain_iam and r = "fst (deleteUserFromBothSystems plain_iam ''ada'' legacy_db)"]) (simp, code_simp)

theorem synced_password_opens_legacy_witness:
  "\<exists>i d. map_of (ds_docs (ad_users (snd (syncPasswordToLegacy plain_iam ''n'' ''ada'' (Some ''new'') legacy_db)))) i = Some d
    \<and> has_email_or_iamId ''ada'' ''n'' (i, d)
    \<and> legacy_password_ok plain_iam ''new'' d \<and> legacy_password_ok plain_iam (normalizePasswordForIam plain_iam ''new'') d"
proof (rule synced_password_opens_legacy)
  show "syncPasswordToLegacy plain_iam ''n'' ''ada'' (Some ''new'') legacy_db
      = (True, snd (syncPasswordToLegacy plain_iam ''n'' ''ada'' (Some ''new'') legacy_db))" by code_simp
  show "bcrypt_law plain_iam" by (auto simp: bcrypt_law_def plain_iam_def)
  show "list_all (\<lambda>(i, d). jfields d \<noteq> []) (ds_docs (ad_users legacy_db))" by code_simp
qed

end
