(* ===== verification/UserService.thy ===== *)
theory UserService
  imports IamSync
begin

text \<open>
  \<^verbatim>\<open>CoreUserService\<close> of \<^verbatim>\<open>modules/user/core-user.service.ts\<close>: the generic service (\<open>Crud\<close>) over the users, with verification, the reset of
  passwords, roles, and the calls of the mapper to Better-Auth (\<open>IamSync\<close>).

  Names of the input are asked before and after a call, so the input of \<open>us_update\<close> is an object. Hooks of plugins are no part of this model.
\<close>

subsection \<open>The service\<close>

text \<open>\<open>us_mapper\<close>: a mapper is configured. \<open>us_token\<close> are the random bytes of the call in hex, \<open>us_iam\<close> the hashes and the clock.\<close>

record user_service =
  us_crud :: crud
  us_iam :: iam_env
  us_mapper :: bool
  us_configSha256 :: bool
  us_token :: string

text \<open>The service of the users, seen from all collections.\<close>

definition over_users :: "doc_store service \<Rightarrow> auth_db service" where
  "over_users S = \<lparr>sv_checkRights = sv_checkRights S, sv_prepareInput = sv_prepareInput S, sv_prepareOutput = sv_prepareOutput S,
     sv_processFieldSelection = (\<lambda>db. sv_processFieldSelection S (ad_users db)), sv_findById = (\<lambda>db. sv_findById S (ad_users db)),
     sv_ignoreSelections = sv_ignoreSelections S\<rparr>"

definition on_users :: "(doc_store \<Rightarrow> 'a \<times> doc_store) \<Rightarrow> auth_db \<Rightarrow> 'a \<times> auth_db" where
  "on_users f db = (case f (ad_users db) of (x, w) \<Rightarrow> (x, db\<lparr>ad_users := w\<rparr>))"

definition user_process :: "user_service \<Rightarrow> req_context option \<Rightarrow> auth_db service_function \<Rightarrow> service_call \<Rightarrow> auth_db \<Rightarrow> (service_error + jv) \<times> auth_db" where
  "user_process U = process (over_users (cr_service (us_crud U)))"

definition users_with :: "string \<Rightarrow> jv \<Rightarrow> auth_db \<Rightarrow> (string \<times> jv) option" where
  "users_with k v db = find (\<lambda>(i, d). jget d k = v) (ds_docs (ad_users db))"

definition user_not_found :: "string \<Rightarrow> string \<Rightarrow> service_error" where
  "user_not_found what value = NotFound (''No user found with '' @ what @ '': '' @ value)"

text \<open>The part of the schema that a saved document is written with.\<close>

definition save_fields :: "user_service \<Rightarrow> string \<Rightarrow> (string, jv) jsmap \<Rightarrow> auth_db \<Rightarrow> jv \<times> auth_db" where
  "save_fields U i s = on_users (set_document (us_crud U) i (JObj s))"

subsection \<open>Create and read\<close>

definition email_taken :: service_error where
  "email_taken = ServiceError ''Email address already in use''"

definition save_new_user :: "user_service \<Rightarrow> jv \<Rightarrow> auth_db \<Rightarrow> (service_error + jv) \<times> auth_db" where
  "save_new_user U v db = (case on_users (save_new (us_crud U) v) db of
       (Inl e, db') \<Rightarrow> (Inl email_taken, db') | r \<Rightarrow> r)"

definition us_create :: "user_service \<Rightarrow> req_context option \<Rightarrow> jv \<Rightarrow> service_options option \<Rightarrow> auth_db \<Rightarrow> (service_error + jv) \<times> auth_db" where
  "us_create U cx input opts =
     (let so = prepareServiceOptionsForCreate opts in
      user_process U cx (\<lambda>cf _ db.
          if jtruthy (jget (cf_input cf) ''email'') \<and> users_with ''email'' (jget (cf_input cf) ''email'') db \<noteq> None then (Inl email_taken, db)
          else (case save_new_user U (jspread (cf_input cf) (JObj [(''createdBy'', user_id_value so), (''updatedBy'', user_id_value so),
                  (''verificationToken'', JStr (us_token U))])) db of
              (Inl e, db') \<Rightarrow> (Inl e, db') | (Inr d, db') \<Rightarrow> (Inr (d, cf_dbObject cf), db')))
        (call_of JUndef input None (Some so)))"

definition us_getViaEmail :: "user_service \<Rightarrow> req_context option \<Rightarrow> string \<Rightarrow> service_options option \<Rightarrow> auth_db \<Rightarrow> (service_error + jv) \<times> auth_db" where
  "us_getViaEmail U cx email opts db = (case users_with ''email'' (JStr email) db of
       None \<Rightarrow> (Inl (user_not_found ''email'' email), db)
     | Some (i, d) \<Rightarrow> user_process U cx (\<lambda>cf _ db. (Inr (d, cf_dbObject cf), db)) (call_of d JUndef None opts) db)"

definition getByIdOrIamId :: "string \<Rightarrow> auth_db \<Rightarrow> jv option" where
  "getByIdOrIamId idOrIamId db = (case map_of (ds_docs (ad_users db)) idOrIamId of
       Some d \<Rightarrow> Some d | None \<Rightarrow> map_option snd (users_with ''iamId'' (JStr idOrIamId) db))"

definition getVerifiedState :: "string \<Rightarrow> auth_db \<Rightarrow> service_error + jv" where
  "getVerifiedState token db = (case users_with ''verificationToken'' (JStr token) db of
       None \<Rightarrow> Inl (user_not_found ''verify token'' token) | Some (i, d) \<Rightarrow> Inr (jget d ''verified''))"

subsection \<open>Verification and passwords\<close>

datatype verify_answer = AlreadyVerified | Verified jv

definition verify :: "user_service \<Rightarrow> req_context option \<Rightarrow> string \<Rightarrow> service_options option \<Rightarrow> auth_db \<Rightarrow> (service_error + verify_answer) \<times> auth_db" where
  "verify U cx token opts db = (case users_with ''verificationToken'' (JStr token) db of
       None \<Rightarrow> (Inl (user_not_found ''verify token'' token), db)
     | Some (i, d) \<Rightarrow>
         if \<not> jtruthy (jget d ''verificationToken'') then (Inl (ServiceError ''User has no verification token''), db)
         else if jtruthy (jget d ''verified'') then (Inr AlreadyVerified, db)
         else (case user_process U cx (\<lambda>cf _ db.
                 (case save_fields U i [(''verified'', JBool True), (''verifiedAt'', JNum (ie_now (us_iam U)))] db of
                    (d', db') \<Rightarrow> (Inr (d', cf_dbObject cf), db'))) (call_of d JUndef None opts) db of
               (Inl e, db') \<Rightarrow> (Inl e, db') | (Inr v, db') \<Rightarrow> (Inr (Verified v), db')))"

text \<open>\<open>sync_password\<close> is the call of the mapper, whose failure is only logged. The plain password is known only when it was sent as such.\<close>

definition plainPasswordForIamSync :: "string \<Rightarrow> string option" where
  "plainPasswordForIamSync p = (if is_sha256 p then None else Some p)"

definition sync_password :: "user_service \<Rightarrow> jv \<Rightarrow> string option \<Rightarrow> auth_db \<Rightarrow> auth_db" where
  "sync_password U email plain db = (case (email, plain) of
       (JStr (c # cs), Some (p # ps)) \<Rightarrow> if us_mapper U then snd (syncPasswordChangeToIam (us_iam U) (c # cs) (p # ps) db) else db
     | _ \<Rightarrow> db)"

definition legacy_hash :: "user_service \<Rightarrow> string \<Rightarrow> string" where
  "legacy_hash U p = ie_bcrypt (us_iam U) (if us_configSha256 U \<and> \<not> is_sha256 p then ie_sha256 (us_iam U) p else p)"

text \<open>The object that was read gets the fields and is saved; the process goes on with it.\<close>

definition write_password :: "user_service \<Rightarrow> string \<Rightarrow> jv \<Rightarrow> string \<Rightarrow> auth_db \<Rightarrow> jv \<times> auth_db" where
  "write_password U i d newPassword db =
     (let s = [(''password'', JStr (legacy_hash U newPassword)), (''passwordResetToken'', JNull)];
          (saved, db') = save_fields U i s db
      in (assignPlain d [JObj s], sync_password U (jget d ''email'') (plainPasswordForIamSync newPassword) db'))"

definition resetPassword :: "user_service \<Rightarrow> req_context option \<Rightarrow> string \<Rightarrow> string \<Rightarrow> service_options option \<Rightarrow> auth_db \<Rightarrow> (service_error + jv) \<times> auth_db" where
  "resetPassword U cx token newPassword opts db = (case users_with ''passwordResetToken'' (JStr token) db of
       None \<Rightarrow> (Inl (user_not_found ''password reset token'' token), db)
     | Some (i, d) \<Rightarrow> user_process U cx (\<lambda>cf _ db. case write_password U i d newPassword db of (d', db') \<Rightarrow> (Inr (d', d'), db'))
         (call_of d JUndef None opts) db)"

definition setPasswordResetTokenForEmail :: "user_service \<Rightarrow> req_context option \<Rightarrow> string \<Rightarrow> service_options option \<Rightarrow> auth_db \<Rightarrow> (service_error + jv) \<times> auth_db" where
  "setPasswordResetTokenForEmail U cx email opts db = (case users_with ''email'' (JStr email) db of
       None \<Rightarrow> (Inl (user_not_found ''email'' email), db)
     | Some (i, d) \<Rightarrow> user_process U cx (\<lambda>cf _ db.
           (let s = [(''passwordResetToken'', JStr (us_token U))] in
            case save_fields U i s db of (saved, db') \<Rightarrow> (Inr (assignPlain d [JObj s], assignPlain d [JObj s]), db')))
         (call_of d JUndef None opts) db)"

subsection \<open>Roles\<close>

definition invalidate_user :: "user_service \<Rightarrow> jv \<Rightarrow> auth_db \<Rightarrow> auth_db" where
  "invalidate_user U d db = (case jget d ''iamId'' of
       JStr (c # cs) \<Rightarrow> if us_mapper U then db\<lparr>ad_cache := invalidateUserCache (c # cs) (ad_cache db)\<rparr> else db | _ \<Rightarrow> db)"

text \<open>The document before the update is returned, as \<^verbatim>\<open>findByIdAndUpdate\<close> does without an option.\<close>

definition write_roles :: "user_service \<Rightarrow> string \<Rightarrow> string list \<Rightarrow> auth_db \<Rightarrow> jv \<times> auth_db" where
  "write_roles U userId roles db =
     (let old = (case map_of (ds_docs (ad_users db)) userId of None \<Rightarrow> JNull | Some d \<Rightarrow> d);
          (new, db') = save_fields U userId [(''roles'', JArr (map JStr roles))] db
      in (old, invalidate_user U old db'))"

definition setRoles :: "user_service \<Rightarrow> req_context option \<Rightarrow> string \<Rightarrow> jv \<Rightarrow> service_options option \<Rightarrow> auth_db \<Rightarrow> (service_error + jv) \<times> auth_db" where
  "setRoles U cx userId roles opts db = (case roles of
       JArr rs \<Rightarrow>
         if list_ex (\<lambda>r. case r of JStr s \<Rightarrow> False | _ \<Rightarrow> True) rs then (Inl (ServiceError ''Roles contains invalid values''), db)
         else (let names = List.map_filter (\<lambda>r. case r of JStr s \<Rightarrow> Some s | _ \<Rightarrow> None) rs; system = filter looksLikeSystemRole names in
           if system \<noteq> [] then (Inl (ServiceError (''System roles must never be stored in user.roles: '' @ js_join '', '' system)), db)
           else user_process U cx (\<lambda>cf _ db. case write_roles U userId names db of (d, db') \<Rightarrow> (Inr (d, cf_dbObject cf), db'))
             (call_of JUndef JUndef None opts) db)
     | _ \<Rightarrow> (Inl (ServiceError ''Missing roles''), db))"

subsection \<open>Update and delete\<close>

definition old_email :: "jv option \<Rightarrow> jv" where
  "old_email old = (case old of None \<Rightarrow> JUndef | Some d \<Rightarrow> jget d ''email'')"

definition sync_email :: "user_service \<Rightarrow> jv \<Rightarrow> jv \<Rightarrow> auth_db \<Rightarrow> auth_db" where
  "sync_email U old new db = (case (old, new) of
       (JStr (a # as), JStr (b # bs)) \<Rightarrow>
         if us_mapper U \<and> a # as \<noteq> b # bs then snd (syncEmailChangeFromLegacy (us_iam U) (a # as) (b # bs) db) else db
     | _ \<Rightarrow> db)"

definition update_plain_password :: "jv \<Rightarrow> string option" where
  "update_plain_password input = (case jget input ''password'' of JStr (c # cs) \<Rightarrow> plainPasswordForIamSync (c # cs) | _ \<Rightarrow> None)"

definition names_any :: "string list \<Rightarrow> jv \<Rightarrow> bool" where
  "names_any ks input = list_ex (\<lambda>(k, v). k \<in> set ks) (jfields input)"

definition us_update :: "user_service \<Rightarrow> req_context option \<Rightarrow> string \<Rightarrow> jv \<Rightarrow> service_options option \<Rightarrow> auth_db \<Rightarrow> (service_error + jv) \<times> auth_db" where
  "us_update U cx userId input opts db =
     (let old = map_of (ds_docs (ad_users db)) userId in
      case on_users (crud_update (us_crud U) cx userId input opts) db of
        (Inl e, db1) \<Rightarrow> (Inl e, db1)
      | (Inr r, db1) \<Rightarrow>
          (let db2 = sync_email U (old_email old) (jget input ''email'') db1;
               db3 = sync_password U (old_email old) (update_plain_password input) db2
           in (Inr r, if names_any [''roles'', ''verified'', ''emailVerified''] input
                 then (case old of None \<Rightarrow> db3 | Some d \<Rightarrow> invalidate_user U d db3) else db3)))"

definition us_delete :: "user_service \<Rightarrow> req_context option \<Rightarrow> string \<Rightarrow> service_options option \<Rightarrow> auth_db \<Rightarrow> (service_error + jv) \<times> auth_db" where
  "us_delete U cx userId opts db =
     (let old = map_of (ds_docs (ad_users db)) userId in
      case on_users (crud_delete (us_crud U) cx userId opts) db of
        (Inl e, db1) \<Rightarrow> (Inl e, db1)
      | (Inr r, db1) \<Rightarrow> (Inr r, if us_mapper U \<and> old \<noteq> None then snd (cleanupIamDataForDeletedUser (us_iam U) False userId db1) else db1))"

subsection \<open>A reset of the password\<close>

lemma on_users_fields: "on_users f db = (x, db') \<Longrightarrow> ad_accounts db' = ad_accounts db \<and> ad_sessions db' = ad_sessions db \<and> ad_nextKey db' = ad_nextKey db
    \<and> f (ad_users db) = (x, ad_users db') \<and> ad_faults db' = ad_faults db"
  by (auto simp: on_users_def split: prod.splits)

lemma same_users_sync: "ad_users (snd (syncPasswordChangeToIam E m p db)) = ad_users db"
  by (auto simp: syncPasswordChangeToIam_def attempt_def db_then_def db_return_def find_user_def find_account_def set_account_password_def db_call_def
    split: option.split prod.split)

lemma sync_password_users: "ad_users (sync_password U e p db) = ad_users db"
  by (simp add: sync_password_def same_users_sync split: jv.split option.split list.split)

lemma schema_fields_two: "cr_schema C k1 \<Longrightarrow> cr_schema C k2 \<Longrightarrow> v1 \<noteq> JUndef \<Longrightarrow> v2 \<noteq> JUndef \<Longrightarrow>
    schema_fields C (JObj [(k1, v1), (k2, v2)]) = [(k1, v1), (k2, v2)]"
  by (simp add: schema_fields_def jfields_def)

text \<open>The users after a reset: one document has the new hash and no token, the others are the same.\<close>

definition password_reset :: "user_service \<Rightarrow> string \<Rightarrow> jv \<Rightarrow> string \<Rightarrow> jv" where
  "password_reset U i d p = jspread d (JObj [(''password'', JStr (legacy_hash U p)), (''passwordResetToken'', JNull)])"

lemma write_password_users:
  assumes "write_password U i d p db = (r, db')" "map_of (ds_docs (ad_users db)) i = Some d" "cr_schema (us_crud U) ''password''" "cr_schema (us_crud U) ''passwordResetToken''"
  shows "ds_docs (ad_users db') = AList.update i (password_reset U i d p) (ds_docs (ad_users db))"
proof -
  have "ds_docs (ad_users db') = ds_docs (snd (set_document (us_crud U) i (JObj [(''password'', JStr (legacy_hash U p)), (''passwordResetToken'', JNull)]) (ad_users db)))"
    using assms(1) by (auto simp: write_password_def Let_def save_fields_def on_users_def sync_password_users split: prod.splits)
  then show ?thesis using assms(2-4) by (simp add: set_document_def Let_def schema_fields_two password_reset_def)
qed

lemma process_users:
  assumes "user_process U cx func call db = (Inr r, db')"
  obtains c r0 ob where "func c (function_context c cx) db = (Inr (r0, ob), db')"
  using process_Inr [OF assms [unfolded user_process_def]] by blast

lemma users_with_Some: "users_with k v db = Some (i, d) \<Longrightarrow> (i, d) \<in> set (ds_docs (ad_users db)) \<and> jget d k = v"
  by (auto simp: users_with_def find_Some_iff) (metis nth_mem)

text \<open>The ids of the users are distinct, and so are the tokens that are open.\<close>

definition users_ok :: "auth_db \<Rightarrow> bool" where
  "users_ok db = (distinct (map fst (ds_docs (ad_users db)))
     \<and> (\<forall>t. length (filter (\<lambda>(i, d). jget d ''passwordResetToken'' = JStr t) (ds_docs (ad_users db))) \<le> 1))"

lemma unique_token:
  assumes "users_ok db" "(i, d) \<in> set (ds_docs (ad_users db))" "jget d ''passwordResetToken'' = JStr t" "jget d' ''passwordResetToken'' \<noteq> JStr t"
  shows "find (\<lambda>(i, d). jget d ''passwordResetToken'' = JStr t) (AList.update i d' (ds_docs (ad_users db))) = None"
proof -
  let ?P = "\<lambda>(i, d). jget d ''passwordResetToken'' = JStr t"
  let ?m = "ds_docs (ad_users db)"
  have d: "distinct (map fst ?m)" using assms(1) by (simp add: users_ok_def)
  have le: "length (filter ?P ?m) \<le> 1" using assms(1) unfolding users_ok_def by blast
  have in': "(i, d) \<in> set (filter ?P ?m)" using assms(2,3) by simp
  then have only: "filter ?P ?m = [(i, d)]"
    using le by (cases "filter ?P ?m") auto
  have "\<not> ?P e" if "e \<in> set (AList.update i d' ?m)" for e
  proof (cases e)
    case (Pair j x)
    then have "map_of (AList.update i d' ?m) j = Some x" using that d by (simp add: distinct_update)
    then have "(j = i \<and> x = d') \<or> (j \<noteq> i \<and> (j, x) \<in> set ?m)" by (auto simp: map_of_update_eq split: if_splits dest: map_of_SomeD)
    moreover have "\<not> ?P (j, x)" if "j \<noteq> i" "(j, x) \<in> set ?m"
    proof
      assume "?P (j, x)"
      then have "(j, x) \<in> set (filter ?P ?m)" using that(2) by simp
      then show False using only that(1) by simp
    qed
    ultimately show ?thesis using Pair assms(4) by auto
  qed
  then show ?thesis unfolding find_None_iff by blast
qed

lemma reset_fields:
  "jget (password_reset U i d p) ''passwordResetToken'' = JNull"
  "jget (password_reset U i d p) ''password'' = JStr (legacy_hash U p)"
  by (auto simp: password_reset_def jspread_def jfields_def map_of_update_eq)

lemma legacy_hash_ok: "bcrypt_law (us_iam U) \<Longrightarrow> jget d ''password'' = JStr (legacy_hash U p) \<Longrightarrow> legacy_password_ok (us_iam U) p d"
  by (simp add: legacy_password_ok_def legacy_hash_def bcrypt_law_def)

text \<open>
  The mapper reaches Better-Auth for the user: it is configured, the database answers, and the user is the one found under its address. Then the
  hash of the user's first credential account becomes that of the plain password.
\<close>

definition iam_reachable :: "user_service \<Rightarrow> auth_db \<Rightarrow> string \<Rightarrow> jv \<Rightarrow> bool" where
  "iam_reachable U db i d = (us_mapper U \<and> ie_connected (us_iam U) \<and> ad_faults db = []
     \<and> (case jget d ''email'' of JStr e \<Rightarrow> e \<noteq> [] \<and> users_with ''email'' (JStr e) db = Some (i, d) | _ \<Rightarrow> False))"

definition with_iam_password :: "user_service \<Rightarrow> string \<Rightarrow> string \<Rightarrow> iam_account list \<Rightarrow> iam_account list" where
  "with_iam_password U i p accounts = (case find (is_credential i) accounts of None \<Rightarrow> accounts
     | Some a \<Rightarrow> map (with_password (us_iam U) (hashPasswordForBetterAuth (us_iam U) p) (ac_key a)) accounts)"

lemma find_update: "distinct (map fst m) \<Longrightarrow> find P m = Some (i, d) \<Longrightarrow> P (i, d') \<Longrightarrow> find P (AList.update i d' m) = Some (i, d')"
proof (induction m)
  case (Cons e m)
  obtain k v where e: "e = (k, v)" by fastforce
  show ?case
  proof (cases "P e")
    case True
    then show ?thesis using Cons.prems e by simp
  next
    case False
    then have f: "find P m = Some (i, d)" using Cons.prems by simp
    then have "(i, d) \<in> set m" by (metis find_Some_iff nth_mem)
    then have "k \<noteq> i" using Cons.prems(1) e by force
    then show ?thesis using Cons.IH Cons.prems False f e by simp
  qed
qed simp

lemma synced_accounts:
  assumes "ie_connected E" "p \<noteq> []" "ad_faults db = []" "find (has_text ''email'' e) (ds_docs (ad_users db)) = Some (i, d)"
  shows "ad_accounts (snd (syncPasswordChangeToIam E e p db)) = (case find (is_credential i) (ad_accounts db) of None \<Rightarrow> ad_accounts db
     | Some a \<Rightarrow> map (with_password E (hashPasswordForBetterAuth E p) (ac_key a)) (ad_accounts db))"
  using assms by (simp add: syncPasswordChangeToIam_def attempt_def db_then_def db_return_def find_user_def find_account_def set_account_password_def
      db_call_def fails_now_def next_call_def user_entry_def split: option.split)

lemma reset_keeps_email: "jget d ''email'' = JStr e \<Longrightarrow> jget (password_reset U i d p) ''email'' = JStr e"
  by (cases d) (auto simp: password_reset_def jspread_def jfields_def map_of_update_eq jget_def)

lemma has_text_email: "has_text ''email'' e = (\<lambda>(i, d). jget d ''email'' = JStr e)"
  by (simp add: has_text_def fun_eq_iff case_prod_unfold)

lemma write_password_accounts:
  assumes "write_password U i d p db = (r, db')" "map_of (ds_docs (ad_users db)) i = Some d" "distinct (map fst (ds_docs (ad_users db)))"
    and "cr_schema (us_crud U) ''password''" "cr_schema (us_crud U) ''passwordResetToken''"
  shows "if is_sha256 p then ad_accounts db' = ad_accounts db
    else if p \<noteq> [] \<and> iam_reachable U db i d then ad_accounts db' = with_iam_password U i p (ad_accounts db) else True"
proof -
  obtain saved db0 where s: "save_fields U i [(''password'', JStr (legacy_hash U p)), (''passwordResetToken'', JNull)] db = (saved, db0)" by fastforce
  note f = on_users_fields [OF s [unfolded save_fields_def]]
  have db': "db' = sync_password U (jget d ''email'') (plainPasswordForIamSync p) db0" using assms(1) s by (simp add: write_password_def Let_def)
  have docs: "ds_docs (ad_users db0) = AList.update i (password_reset U i d p) (ds_docs (ad_users db))"
    using write_password_users [OF assms(1,2,4,5)] by (simp add: db' sync_password_users)
  show ?thesis
  proof (cases "is_sha256 p \<or> p = [] \<or> \<not> iam_reachable U db i d")
    case True
    then show ?thesis using f by (auto simp: db' sync_password_def plainPasswordForIamSync_def split: jv.split list.split)
  next
    case False
    then have reach: "iam_reachable U db i d" by blast
    then obtain m where m: "jget d ''email'' = JStr m" "m \<noteq> []" "users_with ''email'' (JStr m) db = Some (i, d)"
      and U: "us_mapper U" "ie_connected (us_iam U)" "ad_faults db0 = []"
      using f by (auto simp: iam_reachable_def split: jv.splits)
    obtain c cs where c: "m = c # cs" using m(2) by (cases m) auto
    have e: "jget d ''email'' = JStr (c # cs)" "find (has_text ''email'' (c # cs)) (ds_docs (ad_users db)) = Some (i, d)"
      using m(1,3) by (simp_all add: c users_with_def has_text_email)
    obtain x xs where p: "p = x # xs" using False by (cases p) auto
    have "find (has_text ''email'' (c # cs)) (ds_docs (ad_users db0)) = Some (i, password_reset U i d p)"
      unfolding docs by (rule find_update [OF assms(3) e(2)]) (simp add: has_text_def reset_keeps_email [OF e(1)])
    from synced_accounts [OF U(2) _ U(3) this] False U(1) f show ?thesis
      by (simp add: db' sync_password_def plainPasswordForIamSync_def e(1) p with_iam_password_def split: option.split)
  qed
qed

text \<open>
  C27. A reset changes the document that holds its token and no other: the legacy hash stored there verifies with the new password, and the token is
  used up, a second reset with it finds nobody. What Better-Auth verifies, through which migrated users sign in, follows a password that was
  sent in plain, when the mapper reaches the user there; a password that the client has hashed leaves all accounts of Better-Auth as they were.
  Assumed: ids and open reset tokens of users are distinct, the schema has both fields, and a hash of bcrypt verifies with its password.
\<close>

theorem reset_token_used_once:
  assumes "resetPassword U cx token p opts db = (Inr r, db')" and "users_ok db" and "bcrypt_law (us_iam U)"
    and "cr_schema (us_crud U) ''password''" "cr_schema (us_crud U) ''passwordResetToken''"
  shows "\<exists>i d d'. map_of (ds_docs (ad_users db)) i = Some d \<and> jget d ''passwordResetToken'' = JStr token
    \<and> ds_docs (ad_users db') = AList.update i d' (ds_docs (ad_users db)) \<and> legacy_password_ok (us_iam U) p d'
    \<and> (if is_sha256 p then ad_accounts db' = ad_accounts db
       else if p \<noteq> [] \<and> iam_reachable U db i d then ad_accounts db' = with_iam_password U i p (ad_accounts db) else True)
    \<and> resetPassword U cx' token q opts' db' = (Inl (user_not_found ''password reset token'' token), db')"
proof -
  obtain i d where i: "users_with ''passwordResetToken'' (JStr token) db = Some (i, d)"
    using assms(1) by (cases "users_with ''passwordResetToken'' (JStr token) db") (auto simp: resetPassword_def)
  note e = users_with_Some [OF i]
  have dist: "distinct (map fst (ds_docs (ad_users db)))" using assms(2) by (simp add: users_ok_def)
  have m: "map_of (ds_docs (ad_users db)) i = Some d" using e dist by simp
  have "user_process U cx (\<lambda>cf _ db. case write_password U i d p db of (d', db') \<Rightarrow> (Inr (d', d'), db')) (call_of d JUndef None opts) db = (Inr r, db')"
    using assms(1) i by (simp add: resetPassword_def)
  then obtain r0 where w: "write_password U i d p db = (r0, db')" by (rule process_users) (auto split: prod.splits)
  have docs: "ds_docs (ad_users db') = AList.update i (password_reset U i d p) (ds_docs (ad_users db))"
    by (rule write_password_users [OF w m assms(4,5)])
  have "find (\<lambda>(i, d). jget d ''passwordResetToken'' = JStr token) (AList.update i (password_reset U i d p) (ds_docs (ad_users db))) = None"
    by (rule unique_token [OF assms(2) conjunct1 [OF e] conjunct2 [OF e]]) (simp add: reset_fields)
  then have used: "resetPassword U cx' token q opts' db' = (Inl (user_not_found ''password reset token'' token), db')"
    by (simp add: resetPassword_def users_with_def docs)
  have ok: "legacy_password_ok (us_iam U) p (password_reset U i d p)" by (rule legacy_hash_ok [OF assms(3) reset_fields(2)])
  show ?thesis
    by (intro exI [of _ i] exI [of _ d] exI [of _ "password_reset U i d p"] conjI)
      (rule m e [THEN conjunct2] docs ok used write_password_accounts [OF w m dist assms(4,5)])+
qed

subsection \<open>Roles and deletion\<close>

text \<open>
  Setting roles never writes a system role, and changes no document but that of the user.
\<close>

theorem set_roles_writes_no_system_role:
  "\<exists>names. list_all (\<lambda>r. \<not> looksLikeSystemRole r) names
    \<and> (ad_users (snd (setRoles U cx userId roles opts db)) = ad_users db
       \<or> ad_users (snd (setRoles U cx userId roles opts db)) = snd (set_document (us_crud U) userId (JObj [(''roles'', JArr (map JStr names))]) (ad_users db)))"
proof -
  define rs where "rs = (case roles of JArr rs \<Rightarrow> List.map_filter (\<lambda>r. case r of JStr s \<Rightarrow> Some s | _ \<Rightarrow> None) rs | _ \<Rightarrow> [])"
  let ?run = "user_process U cx (\<lambda>cf _ db. case write_roles U userId rs db of (d, db') \<Rightarrow> (Inr (d, cf_dbObject cf), db')) (call_of JUndef JUndef None opts) db"
  have step: "snd (setRoles U cx userId roles opts db) = db
      \<or> list_all (\<lambda>r. \<not> looksLikeSystemRole r) rs \<and> snd (setRoles U cx userId roles opts db) = snd ?run"
    by (cases roles) (auto simp: setRoles_def rs_def Let_def list_all_iff filter_empty_conv)
  have run: "snd ?run = db \<or> snd ?run = snd (write_roles U userId rs db)"
    by (auto simp: user_process_def process_def split: sum.split prod.split)
  have wrote: "ad_users (snd (write_roles U userId rs db)) = snd (set_document (us_crud U) userId (JObj [(''roles'', JArr (map JStr rs))]) (ad_users db))"
    by (simp add: write_roles_def save_fields_def on_users_def invalidate_user_def Let_def split: prod.split jv.split list.split)
  show ?thesis
  proof (cases "snd (setRoles U cx userId roles opts db) = db")
    case True
    then show ?thesis by (intro exI [of _ "[]"]) simp
  next
    case False
    then have "list_all (\<lambda>r. \<not> looksLikeSystemRole r) rs" "snd (setRoles U cx userId roles opts db) = snd (write_roles U userId rs db)"
      using step run by simp_all
    then show ?thesis using wrote by (intro exI [of _ rs]) simp
  qed
qed

text \<open>
  A deletion that goes through removes the user with its accounts and sessions, when a mapper is configured and its calls work.
\<close>

theorem deleted_user_leaves_nothing:
  assumes "us_delete U cx userId opts db = (Inr r, db')" and "us_mapper U" "ie_connected (us_iam U)" "ad_faults db = []"
  shows "ds_docs (ad_users db') = AList.delete userId (ds_docs (ad_users db)) \<and> ad_accounts db' = filter (\<lambda>a. ac_userId a \<noteq> userId) (ad_accounts db)
    \<and> ad_sessions db' = filter (\<lambda>s. se_userId s \<noteq> userId) (ad_sessions db)"
proof -
  obtain d where d: "map_of (ds_docs (ad_users db)) userId = Some d"
    using assms(1) by (cases "map_of (ds_docs (ad_users db)) userId") (auto simp: us_delete_def on_users_def crud_delete_def)
  obtain db1 where db1: "on_users (crud_delete (us_crud U) cx userId opts) db = (Inr r, db1)"
    and db': "db' = snd (cleanupIamDataForDeletedUser (us_iam U) False userId db1)"
    using assms(1,2) d by (auto simp: us_delete_def Let_def split: prod.splits sum.splits)
  note f = on_users_fields [OF db1]
  have "process (cr_service (us_crud U)) cx (\<lambda>cf _ w. (Inr (selected (us_crud U) (so_given opts) d, cf_dbObject cf), w\<lparr>ds_docs := AList.delete userId (ds_docs w)\<rparr>))
      (call_of (selected (us_crud U) (so_given opts) d) JUndef None opts) (ad_users db) = (Inr r, ad_users db1)"
    using f d by (simp add: crud_delete_def Let_def)
  then obtain r0 ob and cf :: service_config where "(Inr (selected (us_crud U) (so_given opts) d, cf_dbObject cf), (ad_users db)\<lparr>ds_docs := AList.delete userId (ds_docs (ad_users db))\<rparr>)
      = (Inr (r0, ob) :: service_error + jv \<times> jv, ad_users db1)"
    by (rule process_Inr) (rule that)
  then have "ad_users db1 = (ad_users db)\<lparr>ds_docs := AList.delete userId (ds_docs (ad_users db))\<rparr>" by (simp only: prod.inject)
  then have "ds_docs (ad_users db1) = AList.delete userId (ds_docs (ad_users db))" by simp
  moreover have "ad_accounts db1 = ad_accounts db" "ad_sessions db1 = ad_sessions db" "ad_faults db1 = []" using f assms(4) by simp_all
  ultimately show ?thesis using assms(3) unfolding db'
    by (simp add: cleanupIamDataForDeletedUser_def attempt_def db_then_def db_return_def remove_sessions_def remove_accounts_def db_call_def fails_now_def next_call_def)
qed

subsection \<open>Where the passwords part\<close>

definition open_crud :: crud where
  "open_crud = sample_crud\<lparr>cr_service := sample_service\<lparr>sv_checkRights := (\<lambda>v u o'. Inr v), sv_prepareInput := (\<lambda>v c. Inr v)\<rparr>\<rparr>"

definition sample_users :: "bool \<Rightarrow> user_service" where
  "sample_users sha = \<lparr>us_crud = open_crud, us_iam = plain_iam, us_mapper = True, us_configSha256 = sha, us_token = ''t2''\<rparr>"

definition reset_db :: auth_db where
  "reset_db = (snd (migrateAccountToIam plain_iam ''ada'' (Some ''pw'') legacy_db))\<lparr>ad_users := \<lparr>ds_docs = [(''u1'', JObj
     [(''_id'', JStr ''u1''), (''email'', JStr ''ada''), (''password'', JStr ''bpw''), (''passwordResetToken'', JStr ''t1''), (''roles'', JArr [])])], ds_created = 1\<rparr>\<rparr>"

abbreviation hashed_password :: string where
  "hashed_password \<equiv> ''0123456789abcdef0123456789abcdef0123456789abcdef0123456789abcdef''"

text \<open>
  A reset with a password that the client has hashed changes the legacy password only: the old one goes on opening Better-Auth, though the
  mapper could take the hash. A reset with the plain password changes both.
\<close>

theorem hashed_reset_leaves_iam_password:
  "let db1 = snd (resetPassword (sample_users True) None ''t1'' hashed_password (raw_options None) reset_db);
       db2 = snd (resetPassword (sample_users True) None ''t1'' ''new'' (raw_options None) reset_db)
   in map ac_password (ad_accounts db1) = [hashPasswordForBetterAuth plain_iam ''pw''] \<and> stored_field (ad_users db1) ''u1'' ''password'' = JStr (''b'' @ hashed_password)
     \<and> map ac_password (ad_accounts db2) = [hashPasswordForBetterAuth plain_iam ''new''] \<and> stored_field (ad_users db2) ''u1'' ''password'' = JStr ''bhnew''
     \<and> map ac_password (ad_accounts (snd (syncPasswordChangeToIam plain_iam ''ada'' hashed_password db1))) = [hashPasswordForBetterAuth plain_iam hashed_password]"
  by code_simp

text \<open>An update of the address and the password at once looks for the account under the old address, which nobody has any more.\<close>

theorem joint_update_leaves_iam_password:
  "let db1 = snd (us_update (sample_users False) None ''u1'' (JObj [(''email'', JStr ''eve''), (''password'', JStr ''new'')]) (raw_options None) reset_db);
       db2 = snd (us_update (sample_users False) None ''u1'' (JObj [(''password'', JStr ''new'')]) (raw_options None) reset_db)
   in stored_field (ad_users db1) ''u1'' ''password'' = JStr ''new'' \<and> map ac_password (ad_accounts db1) = [hashPasswordForBetterAuth plain_iam ''pw'']
     \<and> map ac_password (ad_accounts db2) = [hashPasswordForBetterAuth plain_iam ''new'']"
  by code_simp

text \<open>The answer to a change of roles is the user with the old ones.\<close>

theorem set_roles_answers_old_roles:
  "case setRoles (sample_users False) None ''u1'' (JArr [JStr ''admin'']) (raw_options None) reset_db of
     (r, db') \<Rightarrow> r = Inr (snd (hd (ds_docs (ad_users reset_db)))) \<and> stored_field (ad_users db') ''u1'' ''roles'' = JArr [JStr ''admin'']"
  by code_simp

subsection \<open>Witnesses\<close>

theorem reset_token_used_once_witness:
  "\<exists>i d d'. map_of (ds_docs (ad_users reset_db)) i = Some d \<and> jget d ''passwordResetToken'' = JStr ''t1''
    \<and> ds_docs (ad_users (snd (resetPassword (sample_users True) None ''t1'' ''new'' (raw_options None) reset_db))) = AList.update i d' (ds_docs (ad_users reset_db))
    \<and> legacy_password_ok (us_iam (sample_users True)) ''new'' d'
    \<and> (if is_sha256 ''new'' then ad_accounts (snd (resetPassword (sample_users True) None ''t1'' ''new'' (raw_options None) reset_db)) = ad_accounts reset_db
       else if ''new'' \<noteq> [] \<and> iam_reachable (sample_users True) reset_db i d
       then ad_accounts (snd (resetPassword (sample_users True) None ''t1'' ''new'' (raw_options None) reset_db)) = with_iam_password (sample_users True) i ''new'' (ad_accounts reset_db)
       else True)
    \<and> resetPassword (sample_users True) None ''t1'' ''x'' None (snd (resetPassword (sample_users True) None ''t1'' ''new'' (raw_options None) reset_db))
        = (Inl (user_not_found ''password reset token'' ''t1''), snd (resetPassword (sample_users True) None ''t1'' ''new'' (raw_options None) reset_db))"
proof (rule reset_token_used_once)
  show "resetPassword (sample_users True) None ''t1'' ''new'' (raw_options None) reset_db
      = (Inr (projr (fst (resetPassword (sample_users True) None ''t1'' ''new'' (raw_options None) reset_db))),
         snd (resetPassword (sample_users True) None ''t1'' ''new'' (raw_options None) reset_db))" by code_simp
  show "users_ok reset_db" by (simp add: users_ok_def reset_db_def)
  show "bcrypt_law (us_iam (sample_users True))" by (auto simp: bcrypt_law_def sample_users_def plain_iam_def)
qed code_simp+

theorem deleted_user_leaves_nothing_witness:
  "ds_docs (ad_users (snd (us_delete (sample_users True) None ''u1'' None reset_db))) = AList.delete ''u1'' (ds_docs (ad_users reset_db))
    \<and> ad_accounts (snd (us_delete (sample_users True) None ''u1'' None reset_db)) = filter (\<lambda>a. ac_userId a \<noteq> ''u1'') (ad_accounts reset_db)
    \<and> ad_sessions (snd (us_delete (sample_users True) None ''u1'' None reset_db)) = filter (\<lambda>s. se_userId s \<noteq> ''u1'') (ad_sessions reset_db)"
  by (rule deleted_user_leaves_nothing [where U = "sample_users True" and cx = None and userId = "''u1''" and opts = None and db = reset_db and r = "projr (fst (us_delete (sample_users True) None ''u1'' None reset_db))"]) code_simp+

end
