(* ===== verification/Spec2Isabelle.thy ===== *)
theory Spec2Isabelle
  imports RateLimiters TenantPlugin RolePlugins TenantService AuthGuards RestrictedDecisions MigrationRunner ScimFilters SystemSetup LegacyAuth AiPrompt FilterQuery Translations Crud ValidationPipe UserService
begin

text \<open>
  The access-control and multi-tenancy core of the nest-server framework, translated from its TypeScript
  sources (\<^verbatim>\<open>src/core\<close>; file names below are relative to that directory).

  \<^bold>\<open>How the parts interact.\<close> A request enters through the legacy or Better-Auth rate limiter
  (\<open>RateLimiters\<close>, counting in \<open>RateStore\<close> or \<open>RedisRateStore\<close>), is given a user by the token service or the session
  mapper and is admitted by a role guard (\<open>AuthGuards\<close>). The tenant guard (\<open>TenantGuard\<close>) then decides, from the header,
  the memberships in the database and its two caches, which tenant the request acts for. The decision is
  carried in the request context (\<open>RequestContext\<close>) down to the Mongoose hooks: \<open>TenantPlugin\<close> adds the tenant to every
  query, write and aggregation, \<open>RolePlugins\<close> refuse or strip role changes. \<open>TenantService\<close> changes the memberships and
  invalidates the guard's caches. On the way in and out, \<open>Restricted\<close> decides over single properties of documents.
  \<open>Roles\<close> is the role vocabulary all of them share. Beside this path stand the legacy sessions (\<open>LegacyAuth\<close>), the
  creation of the first administrator (\<open>SystemSetup\<close>), the prompts of the AI module (\<open>AiPrompt\<close>), the migration runner with its lock (\<open>MigrationRunner\<close>,
  \<open>MigrationLock\<close>) and the filters of the SCIM interface (\<open>ScimFilters\<close>).

  \<^bold>\<open>The theories and the code they model.\<close>
  \<^item> \<open>Prelude\<close>: strings, insertion-ordered maps, integers, results; locale \<open>storage_check\<close>.
  \<^item> \<open>RateStore\<close>: \<^verbatim>\<open>common/services/rate-limit-store.ts\<close>, keys and the in-memory store; locale \<open>window_counter\<close>.
  \<^item> \<open>RedisRateStore\<close>: the Redis store of the same file. The server's replies and the behaviour of its script
    are parameters (\<open>redis_ops\<close>, \<open>redis_env\<close>).
  \<^item> \<open>RateLimiters\<close>: \<^verbatim>\<open>modules/better-auth/core-better-auth-rate-limiter.service.ts\<close> and
    \<^verbatim>\<open>modules/auth/services/legacy-auth-rate-limiter.service.ts\<close>.
  \<^item> \<open>Roles\<close>: \<^verbatim>\<open>common/enums/role.enum.ts\<close>, \<^verbatim>\<open>modules/tenant/core-role-scope.registry.ts\<close>,
    \<^verbatim>\<open>modules/tenant/core-tenant.helpers.ts\<close>.
  \<^item> \<open>TenantGuard\<close>: \<^verbatim>\<open>modules/tenant/core-tenant.guard.ts\<close>.
  \<^item> \<open>RequestContext\<close>: \<^verbatim>\<open>common/services/request-context.service.ts\<close> and the middleware that fills it.
  \<^item> \<open>TenantPlugin\<close>: \<^verbatim>\<open>common/plugins/mongoose-tenant.plugin.ts\<close>; \<open>RolePlugins\<close>: the system-role and role-guard plugins.
  \<^item> \<open>TenantService\<close>: \<^verbatim>\<open>modules/tenant/core-tenant.service.ts\<close>.
  \<^item> \<open>AuthGuards\<close>: the token service, the session mapper, the role guards and the legacy rate-limit guard.
  \<^item> \<open>JsHeap\<close>, \<open>Restricted\<close>: \<^verbatim>\<open>common/helpers/id.helper.ts\<close> and \<^verbatim>\<open>common/decorators/restricted.decorator.ts\<close> over a heap of shared,
    mutable objects; \<open>RestrictedWalk\<close> and \<open>RestrictedDecisions\<close> hold the theorems about them.
  \<^item> \<open>MigrationLock\<close>, \<open>MigrationRunner\<close>: \<^verbatim>\<open>modules/migrate/mongo-state-store.ts\<close> and \<^verbatim>\<open>modules/migrate/migration-runner.ts\<close>.
  \<^item> \<open>Scim\<close>, \<open>ScimFilters\<close>: \<^verbatim>\<open>common/helpers/scim.helper.ts\<close>, tokens, parser and the query it builds, and its theorems.
  \<^item> \<open>SystemSetup\<close>: \<^verbatim>\<open>modules/system-setup/core-system-setup.service.ts\<close>.
  \<^item> \<open>LegacyAuth\<close>: \<^verbatim>\<open>modules/auth/services/core-auth.service.ts\<close>.
  \<^item> \<open>AiTools\<close>, \<open>AiText\<close>, \<open>AiAgent\<close>, \<open>AiConnections\<close>, \<open>AiBudget\<close>, \<open>AiPrompt\<close>: \<^verbatim>\<open>modules/ai\<close>. A prompt resolves its connection, passes rate limit
    and budget (\<open>prepareRun\<close>), and runs the agent loop of \<^verbatim>\<open>core-ai.service.ts\<close> in auto or plan mode with the tools of the registry, behind policies,
    confirmations and remembered grants; texts and the context window are in \<open>AiText\<close>. The model is a parameter that may answer anything.
  \<^item> \<open>FilterQuery\<close>: \<^verbatim>\<open>common/helpers/filter.helper.ts\<close>, the page of a result and the file queries of GridFS.
  \<^item> \<open>Inputs\<close>, \<open>Translations\<close>: merging, \<^verbatim>\<open>check\<close>, \<^verbatim>\<open>prepareInput\<close>, \<^verbatim>\<open>prepareOutput\<close> and translations (\<^verbatim>\<open>common/helpers/input.helper.ts\<close>, \<^verbatim>\<open>common/helpers/service.helper.ts\<close>).
  \<^item> \<open>Process\<close>, \<open>Crud\<close>: the generic services (\<^verbatim>\<open>common/services/module.service.ts\<close>, \<^verbatim>\<open>common/services/crud.service.ts\<close>).
  \<^item> \<open>IamSync\<close>, \<open>UserService\<close>: \<^verbatim>\<open>modules/better-auth/core-better-auth-user.mapper.ts\<close> beside its session mapper, with database calls that fail, and
    \<^verbatim>\<open>modules/user/core-user.service.ts\<close> over it and the generic service.
  \<^item> \<open>ValidationPipe\<close>: \<^verbatim>\<open>common/pipes/map-and-validate.pipe.ts\<close>, the whitelist of fields and the validation along the classes of an input.
  \<^item> this theory: the composition of the guard, the context and the plugin.

  \<^bold>\<open>What the lemmas show.\<close> A limit once reached stays reached while its window is open, no caller can shift
  another's counter, and the stores are bounded. The scope the tenant guard grants is a set of active memberships, for
  any content of its caches that is coherent with the database, and the caches are coherent within their lifetime and
  after every change made by the service. Under a tenant scope no query, write or aggregation touches a row of another tenant;
  together with the guard this is the first property of this theory. A tenant keeps an owner. Roles of a
  membership never stand in for system roles or global ones, neither in the guard nor on a property. What
  \<open>checkRestricted\<close> returns holds no property that its roles deny, over any sharing of the data.
  At most one instance runs migrations, each pending one once and in order; a set-up makes one administrator;
  both hold for every interleaving of the steps of their processes, and an abandoned lock or claim is taken over. A SCIM filter
  is parsed to the query that means the same and never injects an operator. A sign-in or refresh opens exactly the session that its tokens
  name.
  Within the period of shared token ids a refresh keeps the id of the device, else it draws a new one.
  Whatever a model answers, only tools run that roles, mode and gate admit; a plan is gated as a whole before its first step and then run in full; a token
  budget is overshot by less than one run for each prompt in flight. A call of a generic service runs nothing for a user whom its roles deny, returns neither
  password nor verification or reset token, and changes the one document it is for.
  Some properties state where the code falls short of that; the findings of the manifest name them.

  \<^bold>\<open>Conventions.\<close> A record is an object, a field that may be absent an \<open>option\<close>, a \<^verbatim>\<open>Map\<close> an
  insertion-ordered association list, an exception the left side of a sum. Time is an argument. The database,
  Redis, Passport, JWT verification, \<^verbatim>\<open>Reflect.getMetadata\<close> and \<^verbatim>\<open>toString\<close> are parameters; a law about one of them is a named
  hypothesis (\<open>filter_laws\<close>: a filter with a tenant condition matches only rows of that tenant; \<open>where_law\<close>: \<^verbatim>\<open>where\<close>
  adds a condition), and every property with such a hypothesis has a witness with a concrete instance.
  Numbers of the code (counts, times, levels) stay far below 2^53 and are unbounded integers here.
  Recursion of the code over data is structural, except the walk of \<open>checkRestricted\<close>, which has the depth of the
  stack as its argument: \<open>check_terminates\<close> shows that one frame per object is enough. Ids nested in ids have a stack of
  their own (\<open>rt_stack\<close>), and exceeding it is the error the code raises. The parser of SCIM filters has fuel: \<open>scim_parser_returns\<close>
  shows that twice the number of tokens plus two is enough.

  The agent loop counts down its iterations as the code counts up to \<^verbatim>\<open>maxIterations\<close>.

  \<^bold>\<open>Not modelled.\<close> The file, tus, hub, e-mail, cron and error-code modules, the migration command line, sign-up, the
  GraphQL and REST layers (modules, resolvers, controllers, scalars, interceptors), providers and transports of the AI module, its prompt builder, configuration loading and the
  remaining helpers. Logging, metrics and warnings are left out everywhere.
\<close>

subsection \<open>Across the guard, the request context and the storage plugin\<close>

definition active_tenant :: "member_db \<Rightarrow> user \<Rightarrow> string \<Rightarrow> bool" where
  "active_tenant db u t \<longleftrightarrow> db_findActive db t (u_id u) \<noteq> None \<or> t \<in> mb_tenant ` set (db_findAllActive db (u_id u))"

lemma context_rows_of_member:
  assumes "in_scope db rq" "in_ctx (middleware_use rq) d"
  shows "\<exists>u t. rq_user rq = Some u \<and> jget d ''tenantId'' = JStr t \<and> active_tenant db u t"
proof (cases "js_truthy (rq_tenantId rq)")
  case True
  then obtain t where t: "rq_tenantId rq = Some t" by (auto elim: js_truthyE)
  then show ?thesis
    using assms True by (auto simp: in_scope_def in_ctx_def middleware_use_def active_tenant_def)
next
  case False
  then show ?thesis
    using assms by (auto simp: in_scope_def in_ctx_def middleware_use_def active_tenant_def split: option.splits)
qed

text \<open>
  C1. From the guard to the database: when the guard let a request of a non-administrator through, every
  document that a hooked query of that request can match, whatever conditions it asked for, and
  every document that a bulk update, replacement or deletion can match, belongs to a tenant in
  which the request's user has an active membership in the collection.
  Assumed: the caches are coherent with the collection, user ids hold no colon, the request carries no tenant yet, the plugin is not bypassed
  for the operation, and the database treats tenant conditions and added conditions as documented.
\<close>

theorem request_stays_in_its_tenants:
  assumes guard: "coherent (ge_db env) gs" "\<forall>u. rq_user rq = Some u \<longrightarrow> plain_id (u_id u)" "fresh_request rq"
      "ge_cfg env = Some c" "\<not> is_admin c (rq_user rq)"
      "fst (canActivate env hx (Some rq) gs) = Inr (Some rq')"
    and laws: "filter_laws sat" "where_law sat merge_where"
    and scoped: "\<not> shouldBypass (Some c) (Some (middleware_use rq')) m"
    and ops: "query_hook merge_where (Some c) (Some (middleware_use rq')) m q u = Inr q'"
      "bulkWrite_hook (Some c) (Some (middleware_use rq')) m bulk = Inr bulk'"
    and matched: "sat q' d \<or> (\<exists>op \<in> set bulk'. \<exists>f. op_filter op = Some f \<and> sat f d)"
  shows "\<exists>usr t. rq_user rq' = Some usr \<and> jget d ''tenantId'' = JStr t \<and> active_tenant (ge_db env) usr t"
proof -
  have s: "in_scope (ge_db env) rq'"
  proof (cases "mt_enabled c = Some False")
    case True
    then show ?thesis using guard(3,4,6) in_scope_fresh by (auto simp: canActivate_def)
  next
    case False
    have "coherent (ge_db env) (noticeConfig env c gs)" using coh.P_notice guard(1,4) by blast
    moreover have "fst (guard_decide env c hx rq (noticeConfig env c gs)) = Inr rq'"
      using guard(6) canActivate_active(1) [OF guard(4) False] by (auto split: sum.splits)
    ultimately show ?thesis using decide_in_scope guard(2,3,5) by blast
  qed
  obtain f where f: "resolveTenantFilter (Some c) (Some (middleware_use rq')) m = Inr (Some f)"
    and q': "q' = merge_where q f" using query_hook_Inr [OF ops(1) scoped] by blast
  have b: "bulk' = map (bulk_op_hook f (resolveSingleTenantId (Some c) (Some (middleware_use rq')) m)) bulk"
    using ops(2) f by (simp add: bulkWrite_hook_def)
  have "sat f d"
  proof -
    have "sat f d" if "op \<in> set bulk'" "op_filter op = Some g" "sat g d" for op g
    proof -
      have "\<exists>a. g = jspread a f"
        using that(1,2) unfolding b
        by (auto simp: op_filter_def bulk_op_hook_def split: bulk_op.splits option.splits if_splits)
      then show ?thesis using sat_spread [OF laws(1)] resolve_shape [OF f] that(3) by blast
    qed
    then show ?thesis using matched laws(2) q' by (auto simp: where_law_def)
  qed
  then have "in_ctx (middleware_use rq') d" using resolve_in_ctx [OF f laws(1)] by blast
  then show ?thesis using context_rows_of_member [OF s] by blast
qed

theorem request_stays_in_its_tenants_witness:
  "\<exists>usr t. rq_user (demo_rq ''t1'') = Some usr \<and> jget (demo_order ''t1'') ''tenantId'' = JStr t \<and> active_tenant demo_db usr t"
proof -
  let ?rq = "(demo_rq ''t1'')\<lparr>rq_tenantId := Some ''t1'', rq_tenantRole := Some ''owner''\<rparr>"
  have r: "fst (canActivate demo_env (demo_hx [''member'']) (Some (demo_rq ''t1'')) guard_new) = Inr (Some ?rq)"
    by code_simp
  have w: "where_law demo_sat (\<lambda>q f. f)" by (simp add: where_law_def)
  have s: "\<not> shouldBypass (Some demo_mt) (Some (middleware_use ?rq)) (Some ''Order'')" by code_simp
  have h: "query_hook (\<lambda>q f. f) (Some demo_mt) (Some (middleware_use ?rq)) (Some ''Order'') (JObj []) JUndef = Inr (tenant_eq ''t1'')"
    "bulkWrite_hook (Some demo_mt) (Some (middleware_use ?rq)) (Some ''Order'') [] = Inr []" by code_simp+
  have m: "demo_sat (tenant_eq ''t1'') (demo_order ''t1'')" by code_simp
  have "\<exists>usr t. rq_user ?rq = Some usr \<and> jget (demo_order ''t1'') ''tenantId'' = JStr t \<and> active_tenant (ge_db demo_env) usr t"
    by (rule request_stays_in_its_tenants [OF _ _ _ _ _ r demo_filter_laws w s h])
      (use m in \<open>simp_all add: fresh_request_def demo_guard plain_id_def is_admin_def ADMIN_def\<close>)
  then show ?thesis by (simp add: demo_env_def)
qed

end
